(* ===== verification/Prelude.thy ===== *)
theory Prelude
  imports Main "HOL-Library.Word" "HOL-Library.List_Lexorder" "HOL-Library.Sublist"
begin

text \<open>
  Shared vocabulary of the development: the machine integers and byte vectors of
  the Rust sources, results with an error value, big-endian encodings, slices
  \<open>&buf[i..j]\<close>, and the generic lemmas that the component theories use.
  The collection \<open>codec\<close> holds the decode-after-encode facts.
\<close>

named_theorems codec \<open>decoding what was just encoded\<close>

type_synonym u8 = "8 word"
type_synonym u16 = "16 word"
type_synonym u32 = "32 word"
type_synonym u64 = "64 word"
type_synonym i64 = "64 word"
type_synonym bytes = "u8 list"
type_synonym ('e, 'a) result = "'e + 'a"

abbreviation Ok :: "'a \<Rightarrow> ('e, 'a) result" where
  "Ok \<equiv> Inr"

abbreviation Err :: "'e \<Rightarrow> ('e, 'a) result" where
  "Err \<equiv> Inl"

text \<open>The bytes of a string literal in ASCII.\<close>

definition ascii :: "string \<Rightarrow> bytes" where
  "ascii s = map (\<lambda>c. word_of_nat (of_char c)) s"

subsection \<open>Results\<close>

text \<open>The \<open>?\<close> operator: continue on success, return the error otherwise.\<close>

fun and_then :: "('e, 'a) result \<Rightarrow> ('a \<Rightarrow> ('e, 'b) result) \<Rightarrow> ('e, 'b) result" where
  "and_then (Inl e) f = Inl e"
| "and_then (Inr x) f = f x"

fun is_ok :: "('e, 'a) result \<Rightarrow> bool" where
  "is_ok (Inl e) = False"
| "is_ok (Inr x) = True"

lemma and_then_Ok_iff: "and_then r f = Inr y \<longleftrightarrow> (\<exists>x. r = Inr x \<and> f x = Inr y)"
  by (cases r) auto

lemma and_then_Err_iff:
  "and_then r f = Inl e \<longleftrightarrow> r = Inl e \<or> (\<exists>x. r = Inr x \<and> f x = Inl e)"
  by (cases r) auto

lemma and_then_cong [fundef_cong]:
  assumes "r = r'" and "\<And>x. r' = Inr x \<Longrightarrow> f x = g x"
  shows "and_then r f = and_then r' g"
  using assms by (cases r') auto

subsection \<open>Slices\<close>

definition slice :: "'a list \<Rightarrow> nat \<Rightarrow> nat \<Rightarrow> 'a list" where
  "slice buf i j = take (j - i) (drop i buf)"

lemma length_slice [simp]: "length (slice buf i j) = min (j - i) (length buf - i)"
  by (simp add: slice_def)

lemma slice_empty [simp]: "slice buf i i = []"
  by (simp add: slice_def)

lemma slice_chunk [codec]:
  assumes "i = length a" and "j = i + length b"
  shows "slice (a @ b @ c) i j = b"
  using assms by (simp add: slice_def)

lemma slice_append_left:
  assumes "j \<le> length a"
  shows "slice (a @ b) i j = slice a i j"
  using assms by (cases "i \<le> j") (simp_all add: slice_def)

subsection \<open>Search\<close>

text \<open>\<open>iter().position(p)\<close>.\<close>

fun position :: "('a \<Rightarrow> bool) \<Rightarrow> 'a list \<Rightarrow> nat option" where
  "position p [] = None"
| "position p (x # xs) = (if p x then Some 0 else map_option Suc (position p xs))"

lemma position_append:
  "(\<forall>x \<in> set xs. \<not> p x) \<Longrightarrow> p y \<Longrightarrow> position p (xs @ y # ys) = Some (length xs)"
  by (induction xs) auto

subsection \<open>Big-endian integers\<close>

text \<open>
  \<open>to_be_bytes\<close> and \<open>from_be_bytes\<close> of the unsigned types: \<open>n\<close> bytes, most
  significant first.
\<close>

fun be_nat :: "nat \<Rightarrow> nat \<Rightarrow> bytes" where
  "be_nat 0 v = []"
| "be_nat (Suc n) v = word_of_nat (v div 256 ^ n) # be_nat n v"

fun of_be_nat :: "bytes \<Rightarrow> nat" where
  "of_be_nat [] = 0"
| "of_be_nat (b # bs) = unat b * 256 ^ length bs + of_be_nat bs"

lemma be_nat_numeral:
  "be_nat (numeral k) v
     = word_of_nat (v div 256 ^ pred_numeral k) # be_nat (pred_numeral k) v"
  by (simp add: numeral_eq_Suc)

lemma length_be_nat [simp]: "length (be_nat n v) = n"
  by (induction n) auto

lemma unat_u8_less: "unat (w :: u8) < 256"
  by (rule order_less_le_trans [OF unsigned_less]) simp

lemma unat_u16_less: "unat (w :: u16) < 65536"
  by (rule order_less_le_trans [OF unsigned_less]) simp

lemma unat_u32_less: "unat (w :: u32) < 4294967296"
  by (rule order_less_le_trans [OF unsigned_less]) simp

lemma unat_u64_less: "unat (w :: u64) < 18446744073709551616"
  by (rule order_less_le_trans [OF unsigned_less]) simp

lemma of_be_nat_less: "of_be_nat bs < 256 ^ length bs"
proof (induction bs)
  case Nil
  then show ?case by simp
next
  case (Cons b bs)
  have "unat b \<le> 255" using unat_u8_less [of b] by linarith
  then have "unat b * 256 ^ length bs \<le> 255 * 256 ^ length bs"
    by (intro mult_right_mono) auto
  moreover have "(256 :: nat) ^ length (b # bs) = 255 * 256 ^ length bs + 256 ^ length bs"
    by simp
  ultimately show ?case using Cons unfolding of_be_nat.simps by linarith
qed

lemma of_be_nat_be_nat: "of_be_nat (be_nat n v) = v mod 256 ^ n"
proof (induction n)
  case 0
  then show ?case by simp
next
  case (Suc n)
  have "v mod 256 ^ Suc n = (v div 256 ^ n mod 256) * 256 ^ n + v mod 256 ^ n"
    using mod_mult2_eq [of v "256 ^ n" 256] by (simp add: mult.commute)
  with Suc show ?case by (simp add: unat_of_nat)
qed

lemma take_drop_be [codec]:
  "take n (be_nat n v @ rest) = be_nat n v" "drop n (be_nat n v @ rest) = rest"
  by simp_all

abbreviation u32_to_be_bytes :: "u32 \<Rightarrow> bytes" where
  "u32_to_be_bytes w \<equiv> be_nat 4 (unat w)"

abbreviation u64_to_be_bytes :: "u64 \<Rightarrow> bytes" where
  "u64_to_be_bytes w \<equiv> be_nat 8 (unat w)"

abbreviation u16_to_be_bytes :: "u16 \<Rightarrow> bytes" where
  "u16_to_be_bytes w \<equiv> be_nat 2 (unat w)"

definition u32_from_be_bytes :: "bytes \<Rightarrow> u32" where
  "u32_from_be_bytes bs = word_of_nat (of_be_nat bs)"

definition u64_from_be_bytes :: "bytes \<Rightarrow> u64" where
  "u64_from_be_bytes bs = word_of_nat (of_be_nat bs)"

definition u16_from_be_bytes :: "bytes \<Rightarrow> u16" where
  "u16_from_be_bytes bs = word_of_nat (of_be_nat bs)"

lemma word_of_nat_mod [simp]:
  "(word_of_nat (n mod 4294967296) :: u32) = word_of_nat n"
  "(word_of_nat (n mod 18446744073709551616) :: u64) = word_of_nat n"
  "(word_of_nat (n mod 65536) :: u16) = word_of_nat n"
  by (simp_all add: word_unat_eq_iff unat_of_nat)

lemma u32_be [codec, simp]: "u32_from_be_bytes (be_nat 4 n) = word_of_nat n"
  by (simp add: u32_from_be_bytes_def of_be_nat_be_nat)

lemma u64_be [codec, simp]: "u64_from_be_bytes (be_nat 8 n) = word_of_nat n"
  by (simp add: u64_from_be_bytes_def of_be_nat_be_nat)

lemma u16_be [codec, simp]: "u16_from_be_bytes (be_nat 2 n) = word_of_nat n"
  by (simp add: u16_from_be_bytes_def of_be_nat_be_nat)

lemma unat_max_u64: "unat (- 1 :: u64) = 2 ^ 64 - 1"
  by (simp add: unsigned_minus_1_eq_mask mask_eq_exp_minus_1)

lemma unat_Suc_u64: "unat (t :: u64) \<le> n \<Longrightarrow> Suc n < 2 ^ 64 \<Longrightarrow> unat (t + 1) = unat t + 1"
  by (subst unat_word_ariths) simp

lemma u64_less_Suc: "(n :: u64) \<noteq> - 1 \<Longrightarrow> s \<le> n \<Longrightarrow> s < n + 1"
proof -
  assume n: "n \<noteq> - 1" and s: "s \<le> n"
  have "unat n \<noteq> 2 ^ 64 - 1" using n unat_max_u64 by (metis word_unat_eq_iff)
  then have "unat (n + 1) = unat n + 1"
    using unat_u64_less [of n] by (intro unat_Suc_u64 [of n "unat n"]) simp_all
  with s show ?thesis by (simp add: word_less_nat_alt word_le_nat_alt)
qed

lemma u64_pred_less: "(n :: u64) \<noteq> 0 \<Longrightarrow> n - 1 < n"
  using u64_less_Suc [of "n - 1" "n - 1"] by (simp add: diff_eq_eq)

lemma u64_le_pred: "(a :: u64) < n \<Longrightarrow> a \<le> n - 1"
proof -
  assume "a < n"
  then have "unat (n - 1) = unat n - 1" by (intro unat_minus_one) auto
  with \<open>a < n\<close> show ?thesis by (simp add: word_le_nat_alt word_less_nat_alt)
qed

text \<open>\<open>xs.len() as u32\<close>: the length, cut to 32 bits.\<close>

abbreviation len_u32 :: "'a list \<Rightarrow> u32" where
  "len_u32 xs \<equiv> word_of_nat (length xs)"

lemma unat_len_u32 [simp]: "length xs < 2 ^ 32 \<Longrightarrow> unat (len_u32 xs) = length xs"
  by (simp add: unat_of_nat)

subsection \<open>Readers over a buffer\<close>

text \<open>
  A reader takes the buffer and a position and returns the value with the position
  past it, or nothing.  A reader is \<open>cuttable\<close> when on a buffer cut at \<open>n\<close> it
  finds the same value if that ends before the cut and nothing otherwise; a cut
  never makes it find another value.
\<close>

type_synonym 'a reader = "bytes \<Rightarrow> nat \<Rightarrow> ('a \<times> nat) option"

fun cut :: "nat \<Rightarrow> ('a \<times> nat) option \<Rightarrow> ('a \<times> nat) option" where
  "cut n None = None"
| "cut n (Some (x, next)) = (if next \<le> n then Some (x, next) else None)"

definition cuttable :: "'a reader \<Rightarrow> bool" where
  "cuttable p \<longleftrightarrow>
     (\<forall>buf pos x next. p buf pos = Some (x, next) \<longrightarrow> pos \<le> next) \<and>
     (\<forall>n buf pos. pos \<le> n \<longrightarrow> p (take n buf) pos = cut n (p buf pos))"

lemma cuttableI [intro?]:
  assumes "\<And>buf pos x next. p buf pos = Some (x, next) \<Longrightarrow> pos \<le> next"
    and "\<And>n buf pos. pos \<le> n \<Longrightarrow> p (take n buf) pos = cut n (p buf pos)"
  shows "cuttable p"
  using assms by (auto simp: cuttable_def)

lemma cuttable_take: "cuttable p \<Longrightarrow> pos \<le> n \<Longrightarrow> p (take n buf) pos = cut n (p buf pos)"
  by (simp add: cuttable_def)

lemma cuttable_mono: "cuttable p \<Longrightarrow> p buf pos = Some (x, next) \<Longrightarrow> pos \<le> next"
  by (auto simp: cuttable_def)

lemma cuttable_return: "cuttable (\<lambda>buf pos. Some (x, pos))"
  by (rule cuttableI) auto

lemma cuttable_bind:
  assumes p: "cuttable p" and q: "\<And>x. cuttable (q x)"
  shows "cuttable (\<lambda>buf pos. Option.bind (p buf pos) (\<lambda>(x, next). q x buf next))"
proof
  fix buf pos x "next"
  assume "Option.bind (p buf pos) (\<lambda>(x, next). q x buf next) = Some (x, next)"
  then show "pos \<le> next"
    by (auto simp: bind_eq_Some_conv dest!: cuttable_mono [OF p] cuttable_mono [OF q])
next
  fix n buf pos
  assume n: "(pos :: nat) \<le> n"
  show "Option.bind (p (take n buf) pos) (\<lambda>(x, next). q x (take n buf) next)
      = cut n (Option.bind (p buf pos) (\<lambda>(x, next). q x buf next))"
  proof (cases "p buf pos")
    case None
    then show ?thesis by (simp add: cuttable_take [OF p n])
  next
    case (Some y)
    obtain x m where y: "y = (x, m)" by (cases y)
    show ?thesis
    proof (cases "m \<le> n")
      case True
      then show ?thesis using Some by (simp add: y cuttable_take [OF p n] cuttable_take [OF q])
    next
      case False
      then have "cut n (q x buf m) = None"
        using cuttable_mono [OF q, of x buf m] by (cases "q x buf m") fastforce+
      with False Some show ?thesis by (simp add: y cuttable_take [OF p n])
    qed
  qed
qed

subsection \<open>Runs\<close>

text \<open>A list of operations performed one after the other, with their answers.\<close>

fun run_ops :: "('op \<Rightarrow> 's \<Rightarrow> 'out \<times> 's) \<Rightarrow> 'op list \<Rightarrow> 's \<Rightarrow> 'out list \<times> 's" where
  "run_ops f [] s = ([], s)"
| "run_ops f (op # ops) s = (case f op s of (out, s) \<Rightarrow> map_prod (Cons out) id (run_ops f ops s))"

end
