(* ===== verification/Utf8.thy ===== *)
theory Utf8
  imports Prelude
begin

text \<open>
  Rust strings are byte vectors holding valid UTF-8.  This theory models the part
  of the standard library that checks and repairs byte vectors on the way in:
  \<open>str::from_utf8\<close> and \<open>String::from_utf8_lossy\<close>.
\<close>

fun safe_get :: "bytes \<Rightarrow> nat \<Rightarrow> nat" where
  "safe_get bs i = (if i < length bs then unat (bs ! i) else 0)"

definition is_cont :: "nat \<Rightarrow> bool" where
  "is_cont b \<longleftrightarrow> 128 \<le> b \<and> b \<le> 191"

definition utf8_char_width :: "nat \<Rightarrow> nat" where
  "utf8_char_width b =
     (if b < 128 then 1
      else if 194 \<le> b \<and> b \<le> 223 then 2
      else if 224 \<le> b \<and> b \<le> 239 then 3
      else if 240 \<le> b \<and> b \<le> 244 then 4
      else 0)"

definition second_ok3 :: "nat \<Rightarrow> nat \<Rightarrow> bool" where
  "second_ok3 b c \<longleftrightarrow>
     (b = 224 \<and> 160 \<le> c \<and> c \<le> 191) \<or> (225 \<le> b \<and> b \<le> 236 \<and> is_cont c)
   \<or> (b = 237 \<and> 128 \<le> c \<and> c \<le> 159) \<or> (238 \<le> b \<and> b \<le> 239 \<and> is_cont c)"

definition second_ok4 :: "nat \<Rightarrow> nat \<Rightarrow> bool" where
  "second_ok4 b c \<longleftrightarrow>
     (b = 240 \<and> 144 \<le> c \<and> c \<le> 191) \<or> (241 \<le> b \<and> b \<le> 243 \<and> is_cont c)
   \<or> (b = 244 \<and> 128 \<le> c \<and> c \<le> 143)"

text \<open>
  One step of the decoder on a non-empty input: how many bytes it looked at and
  whether they are one well-formed character.
\<close>

definition utf8_next :: "bytes \<Rightarrow> nat \<times> bool" where
  "utf8_next bs =
     (let b = safe_get bs 0; w = utf8_char_width b in
      if w = 1 then (1, True)
      else if w = 2 then (if is_cont (safe_get bs 1) then (2, True) else (1, False))
      else if w = 3 then
        (if \<not> second_ok3 b (safe_get bs 1) then (1, False)
         else if \<not> is_cont (safe_get bs 2) then (2, False) else (3, True))
      else if w = 4 then
        (if \<not> second_ok4 b (safe_get bs 1) then (1, False)
         else if \<not> is_cont (safe_get bs 2) then (2, False)
         else if \<not> is_cont (safe_get bs 3) then (3, False) else (4, True))
      else (1, False))"

lemma utf8_next_pos: "utf8_next bs = (n, ok) \<Longrightarrow> 0 < n"
  by (auto simp: utf8_next_def Let_def split: if_splits)

function valid_utf8 :: "bytes \<Rightarrow> bool" where
  "valid_utf8 bs =
     (if bs = [] then True
      else (case utf8_next bs of (n, ok) \<Rightarrow> if ok then valid_utf8 (drop n bs) else False))"
  by auto
termination
  by (relation "measure length") (auto dest: utf8_next_pos [OF sym])

function from_utf8_lossy :: "bytes \<Rightarrow> bytes" where
  "from_utf8_lossy bs =
     (if bs = [] then []
      else (case utf8_next bs of (n, ok) \<Rightarrow>
        (if ok then take n bs else [0xEF, 0xBF, 0xBD]) @ from_utf8_lossy (drop n bs)))"
  by auto
termination
  by (relation "measure length") (auto dest: utf8_next_pos [OF sym])

declare valid_utf8.simps [simp del] from_utf8_lossy.simps [simp del]

text \<open>A string survives the lossy conversion unchanged.\<close>

lemma from_utf8_lossy_valid [simp]: "valid_utf8 bs \<Longrightarrow> from_utf8_lossy bs = bs"
proof (induction bs rule: valid_utf8.induct)
  case (1 bs)
  show ?case
  proof (cases "bs = []")
    case True
    then show ?thesis by (simp add: from_utf8_lossy.simps)
  next
    case False
    obtain n ok where n: "utf8_next bs = (n, ok)" by force
    with 1(2) False have ok: "ok" "valid_utf8 (drop n bs)"
      by (auto simp: valid_utf8.simps [of bs] split: if_splits)
    with 1(1) False n have "from_utf8_lossy (drop n bs) = drop n bs" by metis
    with False n ok show ?thesis by (subst from_utf8_lossy.simps) simp
  qed
qed

lemma valid_utf8_Nil [simp]: "valid_utf8 []"
  by (simp add: valid_utf8.simps)

lemma valid_utf8_ascii: "(\<forall>b \<in> set bs. unat b < 128) \<Longrightarrow> valid_utf8 bs"
proof (induction bs)
  case Nil
  then show ?case by simp
next
  case (Cons b bs)
  then have "utf8_next (b # bs) = (1, True)" by (simp add: utf8_next_def utf8_char_width_def)
  with Cons show ?case by (simp add: valid_utf8.simps [of "b # bs"])
qed

text \<open>The repair writes at most three bytes for each byte it reads.\<close>

lemma length_from_utf8_lossy: "length (from_utf8_lossy bs) \<le> 3 * length bs"
proof (induction bs rule: from_utf8_lossy.induct)
  case (1 bs)
  show ?case
  proof (cases "bs = []")
    case False
    obtain n ok where n: "utf8_next bs = (n, ok)" by force
    have "length (from_utf8_lossy (drop n bs)) \<le> 3 * (length bs - n)"
      using 1 [OF False n [symmetric]] by simp
    moreover have "1 \<le> n" "1 \<le> length bs" using utf8_next_pos [OF n] False by (simp_all add: Suc_le_eq)
    ultimately have "length (from_utf8_lossy (drop n bs)) + (if ok then min n (length bs) else 3) \<le> 3 * length bs"
      by (auto simp: min_def)
    then show ?thesis using False n by (subst from_utf8_lossy.simps) (auto simp: min_def)
  qed (simp add: from_utf8_lossy.simps)
qed

end
