(* ===== verification/Wal.thy ===== *)
theory Wal
  imports Utf8
begin

text \<open>
  The write-ahead log, \<open>storage/wal.rs\<close> over the portable backend of
  \<open>storage/io_backend.rs\<close>.  A log file is a byte vector; a batch is framed as
  marker, commit sequence number, record count and records.  The theory proves
  that replay returns what was appended, and that a log cut at any byte replays to
  exactly the batches that are whole before the cut.
\<close>

definition BATCH_MARKER :: u8 where
  "BATCH_MARKER = 0xFF"

record WalRecord =
  wr_seq :: u64
  wr_table :: bytes
  wr_key :: bytes
  wr_value :: bytes
  wr_record_type :: u8

type_synonym wal_entry = "bytes \<times> bytes \<times> bytes \<times> u8"

datatype wal_error = NotABatchLog | IoError

subsection \<open>The file backend\<close>

record StdWalIo =
  io_file :: bytes
  io_offset :: nat

definition StdWalIo_new :: "bytes \<Rightarrow> nat \<Rightarrow> StdWalIo" where
  "StdWalIo_new file initial_len = \<lparr>io_file = file, io_offset = initial_len\<rparr>"

text \<open>
  A positional write: the bytes before the position (a hole reads as zeros), the
  buffer, then whatever the file held past the buffer.
\<close>

definition write_at :: "nat \<Rightarrow> bytes \<Rightarrow> bytes \<Rightarrow> bytes" where
  "write_at off buf file =
     take off (file @ replicate (off - length file) 0) @ buf @ drop (off + length buf) file"

text \<open>
  The first argument of \<open>io_append\<close> is the device's outcome: \<open>None\<close> when the
  write and the sync succeed, \<open>Some n\<close> when they fail after \<open>n\<close> bytes reached
  the file.  The tracked offset moves only on success.
\<close>

fun io_append :: "nat option \<Rightarrow> bytes \<Rightarrow> StdWalIo \<Rightarrow> (wal_error, unit) result \<times> StdWalIo" where
  "io_append None buf io =
     (Ok (), \<lparr>io_file = write_at (io_offset io) buf (io_file io),
              io_offset = io_offset io + length buf\<rparr>)"
| "io_append (Some n) buf io =
     (Err IoError, io\<lparr>io_file := write_at (io_offset io) (take n buf) (io_file io)\<rparr>)"

fun io_truncate :: "StdWalIo \<Rightarrow> StdWalIo" where
  "io_truncate io = \<lparr>io_file = [], io_offset = 0\<rparr>"

definition io_len :: "StdWalIo \<Rightarrow> nat" where
  "io_len io = io_offset io"

text \<open>
  The contract of the \<open>WalIo\<close> trait: a successful append adds its bytes at the
  end, a failed one leaves the old bytes and some prefix of the new ones, the
  length is that of the contents, and truncation empties the log.
\<close>

locale wal_backend =
  fixes append :: "nat option \<Rightarrow> bytes \<Rightarrow> 'io \<Rightarrow> (wal_error, unit) result \<times> 'io"
    and truncate :: "'io \<Rightarrow> 'io"
    and len :: "'io \<Rightarrow> nat"
    and contents :: "'io \<Rightarrow> bytes"
    and invar :: "'io \<Rightarrow> bool"
  assumes append_ok: "invar io \<Longrightarrow> \<exists>io'. append None buf io = (Inr (), io')
        \<and> invar io' \<and> contents io' = contents io @ buf"
    and append_fault: "invar io \<Longrightarrow> \<exists>io'. append (Some n) buf io = (Inl IoError, io')
        \<and> contents io' = contents io @ take n buf"
    and len_contents: "invar io \<Longrightarrow> len io = length (contents io)"
    and invar_truncate: "invar (truncate io)"
    and contents_truncate: "contents (truncate io) = []"
begin

lemma contents_append:
  "invar io \<Longrightarrow> contents (snd (append None buf io)) = contents io @ buf"
  "invar io \<Longrightarrow> contents (snd (append (Some n) buf io)) = contents io @ take n buf"
  using append_ok [of io buf] append_fault [of io n buf] by fastforce+

lemma invar_append: "invar io \<Longrightarrow> invar (snd (append None buf io))"
  using append_ok [of io buf] by fastforce

lemma contents_append_all:
  "invar io \<Longrightarrow> contents (fold (\<lambda>buf io. snd (append None buf io)) bufs io)
     = contents io @ concat bufs"
  by (induction bufs arbitrary: io) (simp_all add: contents_append invar_append)

lemma len_append_all:
  "invar io \<Longrightarrow> len (fold (\<lambda>buf io. snd (append None buf io)) bufs io)
     = len io + length (concat bufs)"
proof (induction bufs arbitrary: io)
  case (Cons buf bufs)
  then show ?case
    using len_contents [OF Cons.prems] len_contents [OF invar_append [OF Cons.prems, of buf]]
    by (simp add: contents_append invar_append)
qed simp

end

definition io_invar :: "StdWalIo \<Rightarrow> bool" where
  "io_invar io \<longleftrightarrow> io_offset io = length (io_file io)"

lemma write_at_end: "write_at (length file) buf file = file @ buf"
  by (simp add: write_at_def)

interpretation std_io: wal_backend io_append io_truncate io_len io_file io_invar
  by unfold_locales (simp_all add: io_invar_def io_len_def write_at_end)

subsection \<open>The log\<close>

record Wal =
  wal_io :: StdWalIo
  wal_bytes_written :: nat

definition wal_open :: "bytes \<Rightarrow> Wal" where
  "wal_open file = \<lparr>wal_io = StdWalIo_new file (length file), wal_bytes_written = length file\<rparr>"

definition encode_record :: "wal_entry \<Rightarrow> bytes" where
  "encode_record e = (case e of (table, key, value, record_type) \<Rightarrow>
     u32_to_be_bytes (len_u32 table) @ table
   @ u32_to_be_bytes (len_u32 key) @ key
   @ u32_to_be_bytes (len_u32 value) @ value
   @ [record_type])"

definition encode_batch :: "u64 \<Rightarrow> wal_entry list \<Rightarrow> bytes" where
  "encode_batch commit_seq entries =
     [BATCH_MARKER] @ u64_to_be_bytes commit_seq @ u32_to_be_bytes (len_u32 entries)
   @ concat (map encode_record entries)"

definition batch_records :: "u64 \<Rightarrow> wal_entry list \<Rightarrow> WalRecord list" where
  "batch_records commit_seq entries =
     map (\<lambda>(table, key, value, record_type).
       \<lparr>wr_seq = commit_seq, wr_table = table, wr_key = key, wr_value = value,
        wr_record_type = record_type\<rparr>) entries"

definition append_batch ::
  "nat option \<Rightarrow> u64 \<Rightarrow> wal_entry list \<Rightarrow> Wal \<Rightarrow> (wal_error, WalRecord list) result \<times> Wal" where
  "append_batch fault commit_seq entries wal =
     (let buf = encode_batch commit_seq entries in
      case io_append fault buf (wal_io wal) of
        (Inl e, io) \<Rightarrow> (Err e, wal\<lparr>wal_io := io\<rparr>)
      | (Inr _, io) \<Rightarrow>
          (Ok (batch_records commit_seq entries),
           \<lparr>wal_io = io, wal_bytes_written = wal_bytes_written wal + length buf\<rparr>))"

definition read_all_bytes :: "Wal \<Rightarrow> bytes" where
  "read_all_bytes wal = io_file (wal_io wal)"

definition wal_truncate :: "Wal \<Rightarrow> Wal" where
  "wal_truncate wal = \<lparr>wal_io = io_truncate (wal_io wal), wal_bytes_written = 0\<rparr>"

definition parse_record :: "bytes \<Rightarrow> nat \<Rightarrow> u64 \<Rightarrow> (WalRecord \<times> nat) option" where
  "parse_record buf pos seq =
     (if pos + 4 > length buf then None else
      let table_len = unat (u32_from_be_bytes (slice buf pos (pos + 4))); pos = pos + 4 in
      if pos + table_len > length buf then None else
      let table = from_utf8_lossy (slice buf pos (pos + table_len)); pos = pos + table_len in
      if pos + 4 > length buf then None else
      let key_len = unat (u32_from_be_bytes (slice buf pos (pos + 4))); pos = pos + 4 in
      if pos + key_len > length buf then None else
      let key = slice buf pos (pos + key_len); pos = pos + key_len in
      if pos + 4 > length buf then None else
      let value_len = unat (u32_from_be_bytes (slice buf pos (pos + 4))); pos = pos + 4 in
      if pos + value_len + 1 > length buf then None else
      let value = slice buf pos (pos + value_len); pos = pos + value_len;
          record_type = buf ! pos; pos = pos + 1 in
      Some (\<lparr>wr_seq = seq, wr_table = table, wr_key = key, wr_value = value,
             wr_record_type = record_type\<rparr>, pos))"

fun parse_records :: "bytes \<Rightarrow> nat \<Rightarrow> u64 \<Rightarrow> nat \<Rightarrow> (WalRecord list \<times> nat) option" where
  "parse_records buf cursor seq 0 = Some ([], cursor)"
| "parse_records buf cursor seq (Suc count) =
     (case parse_record buf cursor seq of
        None \<Rightarrow> None
      | Some (r, next) \<Rightarrow>
          (case parse_records buf next seq count of
             None \<Rightarrow> None
           | Some (rs, stop) \<Rightarrow> Some (r # rs, stop)))"

lemma parse_record_bounds:
  "parse_record buf pos seq = Some (r, next) \<Longrightarrow> pos + 13 \<le> next \<and> next \<le> length buf"
  by (auto simp: parse_record_def Let_def split: if_splits)

lemma parse_records_bounds:
  assumes "parse_records buf cursor seq count = Some (rs, stop)"
  shows "cursor \<le> stop" and "cursor \<le> length buf \<Longrightarrow> stop \<le> length buf"
  using assms
  by (induction buf cursor seq count arbitrary: rs rule: parse_records.induct)
     (fastforce split: option.splits dest: parse_record_bounds)+

text \<open>
  The loop over batches, with the records handed to the callback so far.  A torn
  or unrecognised batch ends it.
\<close>

function replay_loop ::
  "bytes \<Rightarrow> nat \<Rightarrow> u64 \<Rightarrow> WalRecord list \<Rightarrow> (wal_error, WalRecord list \<times> u64) result" where
  "replay_loop buf pos max_seq out =
     (if pos \<ge> length buf then Ok (out, max_seq)
      else if pos = 0 \<and> buf ! 0 \<noteq> BATCH_MARKER then Err NotABatchLog
      else if pos + 1 + 8 + 4 > length buf \<or> buf ! pos \<noteq> BATCH_MARKER then Ok (out, max_seq)
      else
        let cursor = pos + 1;
            commit_seq = u64_from_be_bytes (slice buf cursor (cursor + 8));
            count = unat (u32_from_be_bytes (slice buf (cursor + 8) (cursor + 12)));
            max_seq = max max_seq commit_seq
        in case parse_records buf (cursor + 12) commit_seq count of
             None \<Rightarrow> Ok (out, max_seq)
           | Some (records, stop) \<Rightarrow> replay_loop buf stop max_seq (out @ records))"
  by auto
termination
  by (relation "measure (\<lambda>(buf, pos, _, _). length buf - pos)")
     (auto dest!: parse_records_bounds(1))

declare replay_loop.simps [simp del]

definition replay :: "bytes \<Rightarrow> (wal_error, WalRecord list \<times> u64) result" where
  "replay buf = replay_loop buf 0 0 []"

subsection \<open>Replay of whole and torn logs\<close>

text \<open>What the \<open>as u32\<close> casts of the encoder and the UTF-8 names preserve.\<close>

definition wf_entry :: "wal_entry \<Rightarrow> bool" where
  "wf_entry e = (case e of (table, key, value, record_type) \<Rightarrow>
     length table < 2 ^ 32 \<and> length key < 2 ^ 32 \<and> length value < 2 ^ 32 \<and> valid_utf8 table)"

definition wf_batch :: "u64 \<times> wal_entry list \<Rightarrow> bool" where
  "wf_batch b \<longleftrightarrow> length (snd b) < 2 ^ 32 \<and> list_all wf_entry (snd b)"

definition encode_log :: "(u64 \<times> wal_entry list) list \<Rightarrow> bytes" where
  "encode_log bs = concat (map (\<lambda>(s, es). encode_batch s es) bs)"

definition log_records :: "(u64 \<times> wal_entry list) list \<Rightarrow> WalRecord list" where
  "log_records bs = concat (map (\<lambda>(s, es). batch_records s es) bs)"

text \<open>The batches that lie wholly in the first \<open>n\<close> bytes of a log, and the
  highest sequence number of a batch whose header does.\<close>

fun durable :: "nat \<Rightarrow> (u64 \<times> wal_entry list) list \<Rightarrow> (u64 \<times> wal_entry list) list" where
  "durable n [] = []"
| "durable n ((s, es) # bs) =
     (let l = length (encode_batch s es) in
      if l \<le> n then (s, es) # durable (n - l) bs else [])"

fun attempted :: "nat \<Rightarrow> (u64 \<times> wal_entry list) list \<Rightarrow> u64" where
  "attempted n [] = 0"
| "attempted n ((s, es) # bs) =
     (let l = length (encode_batch s es) in
      if l \<le> n then max s (attempted (n - l) bs) else if 13 \<le> n then s else 0)"

text \<open>
  A length-prefixed field; a record is three of them and a byte.
\<close>

definition field :: "bytes \<Rightarrow> nat \<Rightarrow> (bytes \<times> nat) option" where
  "field buf pos =
     (if pos + 4 > length buf then None else
      let n = unat (u32_from_be_bytes (slice buf pos (pos + 4))) in
      if pos + 4 + n > length buf then None
      else Some (slice buf (pos + 4) (pos + 4 + n), pos + 4 + n))"

definition tag_byte :: "u8 reader" where
  "tag_byte buf pos = (if pos + 1 > length buf then None else Some (buf ! pos, pos + 1))"

lemma parse_record_fields:
  "parse_record buf pos seq =
     Option.bind (field buf pos) (\<lambda>(table, pos). Option.bind (field buf pos) (\<lambda>(key, pos).
     Option.bind (field buf pos) (\<lambda>(value, pos). Option.bind (tag_byte buf pos) (\<lambda>(ty, pos).
       Some (\<lparr>wr_seq = seq, wr_table = from_utf8_lossy table, wr_key = key,
              wr_value = value, wr_record_type = ty\<rparr>, pos)))))"
  by (simp add: parse_record_def field_def tag_byte_def Let_def)

lemma slice_take: "j \<le> n \<Longrightarrow> slice (take n buf) i j = slice buf i j"
  by (simp add: slice_def drop_take min_def)

lemma field_encode:
  assumes "length x < 2 ^ 32" and "p = length pre"
  shows "field (pre @ u32_to_be_bytes (len_u32 x) @ x @ post) p = Some (x, p + 4 + length x)"
  using assms by (simp add: field_def slice_def)

lemma cuttable_field: "cuttable field"
  by (rule cuttableI) (auto simp: field_def slice_take Let_def split: if_splits)

lemma cuttable_tag_byte: "cuttable tag_byte"
  by (rule cuttableI) (auto simp: tag_byte_def split: if_splits)

lemma cuttable_parse_record: "cuttable (\<lambda>buf pos. parse_record buf pos seq)"
  unfolding parse_record_fields
  by (intro cuttable_bind cuttable_field cuttable_tag_byte cuttable_return)

lemma cuttable_parse_records: "cuttable (\<lambda>buf pos. parse_records buf pos seq count)"
proof (induction count)
  case 0
  then show ?case by (simp add: cuttable_return)
next
  case (Suc count)
  have "cuttable (\<lambda>buf pos. Option.bind (parse_record buf pos seq) (\<lambda>(r, pos).
          Option.bind (parse_records buf pos seq count) (\<lambda>(rs, pos). Some (r # rs, pos))))"
    by (intro cuttable_bind cuttable_parse_record Suc cuttable_return)
  moreover have "parse_records buf pos seq (Suc count)
      = Option.bind (parse_record buf pos seq) (\<lambda>(r, pos).
          Option.bind (parse_records buf pos seq count) (\<lambda>(rs, pos). Some (r # rs, pos)))" for buf pos
    by (auto split: option.split)
  ultimately show ?case by presburger
qed

lemma parse_record_encode [codec]:
  assumes "wf_entry (table, key, value, ty)"
  shows "parse_record (pre @ encode_record (table, key, value, ty) @ post) (length pre) seq
       = Some (\<lparr>wr_seq = seq, wr_table = table, wr_key = key, wr_value = value,
                wr_record_type = ty\<rparr>,
               length pre + length (encode_record (table, key, value, ty)))"
proof -
  let ?f = "\<lambda>x. u32_to_be_bytes (len_u32 x) @ x" and ?buf = "pre @ encode_record (table, key, value, ty) @ post"
  have wf: "length table < 2 ^ 32" "length key < 2 ^ 32" "length value < 2 ^ 32" "valid_utf8 table"
    using assms by (simp_all add: wf_entry_def)
  have "field ?buf (length pre) = Some (table, length pre + 4 + length table)"
    using field_encode [OF wf(1), of _ pre "?f key @ ?f value @ [ty] @ post"]
    by (simp add: encode_record_def)
  moreover have "field ?buf (length pre + 4 + length table)
      = Some (key, length pre + 4 + length table + 4 + length key)"
    using field_encode [OF wf(2), of "length pre + 4 + length table" "pre @ ?f table" "?f value @ [ty] @ post"]
    by (simp add: encode_record_def)
  moreover have "field ?buf (length pre + 4 + length table + 4 + length key)
      = Some (value, length pre + 4 + length table + 4 + length key + 4 + length value)"
    using field_encode [OF wf(3), of "length pre + 4 + length table + 4 + length key" "pre @ ?f table @ ?f key" "[ty] @ post"]
    by (simp add: encode_record_def)
  ultimately show ?thesis
    using wf(4) by (simp add: parse_record_fields) (simp add: tag_byte_def encode_record_def nth_append)
qed

lemma parse_records_encode:
  assumes "list_all wf_entry es"
  shows "parse_records (pre @ concat (map encode_record es) @ post) (length pre) seq (length es)
       = Some (batch_records seq es, length pre + length (concat (map encode_record es)))"
  using assms
proof (induction es arbitrary: pre)
  case Nil
  then show ?case by (simp add: batch_records_def)
next
  case (Cons e es)
  obtain table key "value" ty where e: "e = (table, key, value, ty)" by (cases e)
  have wf: "wf_entry (table, key, value, ty)" "list_all wf_entry es"
    using Cons.prems by (simp_all add: e)
  note IH = Cons.IH [OF wf(2), of "pre @ encode_record e"]
  show ?case
    using parse_record_encode [OF wf(1), of pre "concat (map encode_record es) @ post" seq] IH
    by (simp add: e batch_records_def)
qed

lemma length_encode_batch: "length (encode_batch s es) = 13 + length (concat (map encode_record es))"
  by (simp add: encode_batch_def)

lemma encode_log_Cons: "encode_log ((s, es) # bs) = encode_batch s es @ encode_log bs"
  by (simp add: encode_log_def)

lemma parse_batch_body:
  assumes "list_all wf_entry es" and "pos = length pre + 13"
  shows "parse_records (pre @ encode_batch s es @ post) pos seq (length es)
       = Some (batch_records seq es, length pre + length (encode_batch s es))"
  using parse_records_encode [OF assms(1),
      of "pre @ [BATCH_MARKER] @ u64_to_be_bytes s @ u32_to_be_bytes (len_u32 es)" post seq]
  by (simp add: assms(2) encode_batch_def)

lemma batch_header:
  fixes pre post s es n
  defines "buf \<equiv> take n (pre @ encode_batch s es @ post)"
  assumes n: "length pre + 13 \<le> n"
  shows "length pre + 13 \<le> length buf" and "buf ! length pre = BATCH_MARKER"
    and "u64_from_be_bytes (slice buf (length pre + 1) (length pre + 9)) = s"
    and "u32_from_be_bytes (slice buf (length pre + 9) (length pre + 13)) = len_u32 es"
proof -
  let ?hd = "pre @ [BATCH_MARKER]" and ?tl = "concat (map encode_record es) @ post"
  have buf: "buf = take n (?hd @ u64_to_be_bytes s @ u32_to_be_bytes (len_u32 es) @ ?tl)"
    by (simp add: buf_def encode_batch_def)
  show "length pre + 13 \<le> length buf" "buf ! length pre = BATCH_MARKER"
    using n by (simp_all add: buf nth_append)
  have "slice buf (length pre + 1) (length pre + 9) = u64_to_be_bytes s"
    unfolding buf by (subst slice_take) (use n in \<open>simp_all add: slice_def\<close>)
  then show "u64_from_be_bytes (slice buf (length pre + 1) (length pre + 9)) = s" by simp
  have "slice buf (length pre + 9) (length pre + 13) = u32_to_be_bytes (len_u32 es)"
    unfolding buf by (subst slice_take) (use n in \<open>simp_all add: slice_def\<close>)
  then show "u32_from_be_bytes (slice buf (length pre + 9) (length pre + 13)) = len_u32 es"
    by simp
qed

text \<open>One turn of the loop, from what the buffer holds at the position.\<close>

lemma replay_loop_batch:
  assumes "pos + 13 \<le> length buf" and "buf ! pos = BATCH_MARKER"
    and "u64_from_be_bytes (slice buf (pos + 1) (pos + 9)) = s"
    and "unat (u32_from_be_bytes (slice buf (pos + 9) (pos + 13))) = count"
  shows "replay_loop buf pos m out =
     (case parse_records buf (pos + 13) s count of
        None \<Rightarrow> Ok (out, max m s)
      | Some (records, stop) \<Rightarrow> replay_loop buf stop (max m s) (out @ records))"
proof -
  have pos: "pos + 1 + 8 = pos + 9" "pos + 1 + 12 = pos + 13" "pos + 1 + 8 + 4 = pos + 13" by simp_all
  show ?thesis
    by (subst replay_loop.simps, unfold Let_def pos assms(3,4)) (use assms(1,2) in auto)
qed

lemma replay_loop_short_header:
  assumes "length buf < pos + 13" and "pos = 0 \<Longrightarrow> buf \<noteq> [] \<Longrightarrow> buf ! 0 = BATCH_MARKER"
  shows "replay_loop buf pos m out = Ok (out, m)"
  using assms by (subst replay_loop.simps) auto

lemma replay_loop_step:
  assumes wf: "wf_batch (s, es)" and n: "length pre \<le> n"
  shows "replay_loop (take n (pre @ encode_batch s es @ post)) (length pre) m out =
     (if length pre + length (encode_batch s es) \<le> n
      then replay_loop (take n (pre @ encode_batch s es @ post))
             (length pre + length (encode_batch s es)) (max m s) (out @ batch_records s es)
      else Ok (out, if length pre + 13 \<le> n then max m s else m))"
    (is "replay_loop ?buf _ _ _ = _")
proof (cases "length pre + 13 \<le> n")
  case True
  note H = batch_header [OF True, of s es post]
  have es: "unat (len_u32 es) = length es" "list_all wf_entry es"
    using wf by (simp_all add: wf_batch_def)
  have P: "parse_records ?buf (length pre + 13) s (length es)
      = cut n (Some (batch_records s es, length pre + length (encode_batch s es)))"
    using cuttable_take [OF cuttable_parse_records True] parse_batch_body [OF es(2)] by metis
  have "replay_loop ?buf (length pre) m out =
     (case parse_records ?buf (length pre + 13) s (length es) of
        None \<Rightarrow> Ok (out, max m s)
      | Some (records, stop) \<Rightarrow> replay_loop ?buf stop (max m s) (out @ records))"
    by (rule replay_loop_batch [OF H(1-3)]) (simp only: H(4) es(1))
  with True show ?thesis unfolding P by simp
next
  case False
  then have "length pre + length (encode_batch s es) > n" "length ?buf < length pre + 13"
    by (simp_all add: length_encode_batch)
  moreover have "?buf ! 0 = BATCH_MARKER" if "length pre = 0" "?buf \<noteq> []"
    using that by (simp add: encode_batch_def)
  ultimately show ?thesis using False replay_loop_short_header [of ?buf "length pre"] by simp
qed

lemma replay_loop_log:
  assumes "list_all wf_batch bs" and "length pre \<le> n"
  shows "replay_loop (take n (pre @ encode_log bs)) (length pre) m out
       = Ok (out @ log_records (durable (n - length pre) bs),
             max m (attempted (n - length pre) bs))"
  using assms
proof (induction bs arbitrary: pre m out)
  case Nil
  then show ?case by (subst replay_loop.simps) (simp add: encode_log_def log_records_def)
next
  case (Cons b bs)
  obtain s es where b: "b = (s, es)" by (cases b)
  have wf: "wf_batch (s, es)" "list_all wf_batch bs" using Cons.prems by (simp_all add: b)
  let ?l = "length pre + length (encode_batch s es)"
  note step = replay_loop_step [OF wf(1) Cons.prems(2), of "encode_log bs" m out]
  show ?case
  proof (cases "?l \<le> n")
    case True
    then have "replay_loop (take n ((pre @ encode_batch s es) @ encode_log bs))
        (length (pre @ encode_batch s es)) (max m s) (out @ batch_records s es)
      = Ok ((out @ batch_records s es) @ log_records (durable (n - ?l) bs),
            max (max m s) (attempted (n - ?l) bs))"
      using Cons.IH [OF wf(2), of "pre @ encode_batch s es"] by simp
    with step True show ?thesis
      by (simp add: b encode_log_Cons Let_def log_records_def max.assoc)
  next
    case False
    with step show ?thesis
      by (auto simp: b encode_log_Cons Let_def log_records_def length_encode_batch)
  qed
qed

subsection \<open>Appending, crashing and replaying\<close>

text \<open>The log of a handle: whole batches, with the tracked offset at the end.\<close>

definition wal_holds :: "Wal \<Rightarrow> (u64 \<times> wal_entry list) list \<Rightarrow> bool" where
  "wal_holds wal bs \<longleftrightarrow> io_file (wal_io wal) = encode_log bs \<and> io_invar (wal_io wal)
     \<and> wal_bytes_written wal = length (encode_log bs) \<and> list_all wf_batch bs"

lemma encode_log_append: "encode_log (bs @ cs) = encode_log bs @ encode_log cs"
  by (simp add: encode_log_def)

lemma encode_log_single: "encode_log [(s, es)] = encode_batch s es"
  by (simp add: encode_log_def)

lemma log_records_append:
  "log_records (bs @ [(s, es)]) = log_records bs @ batch_records s es"
  by (simp add: log_records_def)

lemma replay_cut_log:
  "list_all wf_batch bs \<Longrightarrow>
     replay (take n (encode_log bs)) = Ok (log_records (durable n bs), attempted n bs)"
  using replay_loop_log [of bs "[]" n 0 "[]"] by (simp add: replay_def)

lemma durable_all: "length (encode_log bs) \<le> n \<Longrightarrow> durable n bs = bs"
  by (induction n bs rule: durable.induct) (auto simp: Let_def encode_log_Cons)

lemma attempted_all:
  "length (encode_log bs) \<le> n \<Longrightarrow> attempted n bs = foldr (max \<circ> fst) bs 0"
  by (induction n bs rule: attempted.induct) (auto simp: Let_def encode_log_Cons)

lemma durable_append_torn:
  "n < length (encode_batch s es) \<Longrightarrow> durable (length (encode_log bs) + n) (bs @ [(s, es)]) = bs"
  by (induction bs) (auto simp: Let_def encode_log_Cons encode_log_def)

lemma replay_log:
  "list_all wf_batch bs \<Longrightarrow>
     replay (encode_log bs) = Ok (log_records bs, foldr (max \<circ> fst) bs 0)"
  using replay_cut_log [of bs "length (encode_log bs)"]
  by (simp add: durable_all attempted_all)

lemma durable_prefix: "prefix (durable n bs) bs"
  by (induction n bs rule: durable.induct) (auto simp: Let_def)

lemma wal_holds_truncate: "wal_holds (wal_truncate wal) []"
  using std_io.contents_truncate std_io.invar_truncate
  by (simp add: wal_holds_def wal_truncate_def encode_log_def)

lemma wal_holds_open: "list_all wf_batch bs \<Longrightarrow> wal_holds (wal_open (encode_log bs)) bs"
  by (simp add: wal_holds_def wal_open_def StdWalIo_new_def io_invar_def)

lemma append_batch_io:
  "wal_io (snd (append_batch fault s es wal)) = snd (io_append fault (encode_batch s es) (wal_io wal))"
  by (cases fault) (simp_all add: append_batch_def Let_def)

lemma wal_holds_append:
  assumes "wal_holds wal bs" and "wf_batch (s, es)"
  shows "wal_holds (snd (append_batch None s es wal)) (bs @ [(s, es)])"
  using assms std_io.contents_append(1) [of "wal_io wal"] std_io.invar_append [of "wal_io wal"]
  by (simp add: wal_holds_def append_batch_io encode_log_append encode_log_single)
     (simp add: append_batch_def Let_def)

text \<open>
  C4: A log that is cut at any byte, as by a crash in the middle of an append,
  replays to exactly the batches that lie wholly before the cut, in order and with
  every one of their records; no batch is applied in part.  The sequence number
  returned covers every batch whose header was written, torn or not.
\<close>

theorem replay_atomic:
  assumes "list_all wf_batch bs"
  shows "replay (take n (encode_log bs)) = Ok (log_records (durable n bs), attempted n bs)
       \<and> prefix (durable n bs) bs"
  using replay_cut_log [OF assms] durable_prefix by blast

theorem replay_atomic_witness:
  "replay (take 45 (encode_log [(1, [([], [7], [8], 0)]), (2, [([], [9], [], 2)])]))
     = Ok (log_records [(1, [([], [7], [8], 0)])], 2)"
  using replay_atomic [of "[(1, [([], [7], [8], 0)]), (2, [([], [9], [], 2)])]" 45]
  by (simp add: wf_batch_def wf_entry_def length_encode_batch encode_record_def)




end
