(* ===== verification/OrdMap.thy ===== *)
theory OrdMap
  imports Prelude
begin

text \<open>
  The ordered maps of the program (\<open>BTreeMap\<close> and the skip list of the
  MemTable): an interface \<open>ordered_map\<close> with the laws its clients use, the
  lemmas the clients share proved once from these laws, and the model's map, an
  association list kept sorted by key.
\<close>

subsection \<open>Sorted association lists\<close>

fun om_insert :: "'k::linorder \<Rightarrow> 'v \<Rightarrow> ('k \<times> 'v) list \<Rightarrow> ('k \<times> 'v) list" where
  "om_insert k v [] = [(k, v)]"
| "om_insert k v ((k', v') # m) =
     (if k < k' then (k, v) # (k', v') # m
      else if k = k' then (k, v) # m
      else (k', v') # om_insert k v m)"

fun om_remove :: "'k::linorder \<Rightarrow> ('k \<times> 'v) list \<Rightarrow> ('k \<times> 'v) list" where
  "om_remove k [] = []"
| "om_remove k ((k', v') # m) = (if k = k' then m else (k', v') # om_remove k m)"

text \<open>The first entry of \<open>range(k..)\<close>.\<close>

fun om_first_ge :: "'k::linorder \<Rightarrow> ('k \<times> 'v) list \<Rightarrow> ('k \<times> 'v) option" where
  "om_first_ge k [] = None"
| "om_first_ge k ((k', v') # m) = (if k \<le> k' then Some (k', v') else om_first_ge k m)"

abbreviation om_get :: "('k \<times> 'v) list \<Rightarrow> 'k \<rightharpoonup> 'v" where
  "om_get \<equiv> map_of"

abbreviation om_sorted :: "('k::linorder \<times> 'v) list \<Rightarrow> bool" where
  "om_sorted m \<equiv> sorted_wrt (<) (map fst m)"

lemma om_insert_keys: "fst ` set (om_insert k v m) = Set.insert k (fst ` set m)"
  by (induction k v m rule: om_insert.induct) auto

lemma om_insert_sorted [simp]: "om_sorted m \<Longrightarrow> om_sorted (om_insert k v m)"
proof (induction k v m rule: om_insert.induct)
  case (1 k v)
  then show ?case by simp
next
  case (2 k v k' v' m)
  have "\<forall>x \<in> fst ` set (om_insert k v m). x = k \<or> x \<in> fst ` set m"
    unfolding om_insert_keys by simp
  then have "k' < fst e" if "e \<in> set (om_insert k v m)" "\<not> k < k'" "k \<noteq> k'"
      "\<forall>x \<in> set m. k' < fst x" for e
    using that by fastforce
  with 2 show ?case by auto
qed

lemma om_insert_get [simp]: "om_get (om_insert k v m) = (om_get m)(k \<mapsto> v)"
  by (induction k v m rule: om_insert.induct) (auto simp: fun_eq_iff)

lemma om_insert_set:
  "om_sorted m \<Longrightarrow> set (om_insert k v m) = Set.insert (k, v) {e \<in> set m. fst e \<noteq> k}"
  by (induction k v m rule: om_insert.induct) (auto simp: image_iff)

lemma om_remove_keys: "om_sorted m \<Longrightarrow> fst ` set (om_remove k m) = fst ` set m - {k}"
  by (induction k m rule: om_remove.induct) auto

lemma om_remove_subset: "set (om_remove k m) \<subseteq> set m"
  by (induction k m rule: om_remove.induct) auto

lemma om_remove_sorted [simp]: "om_sorted m \<Longrightarrow> om_sorted (om_remove k m)"
proof (induction k m rule: om_remove.induct)
  case (1 k)
  then show ?case by simp
next
  case (2 k k' v' m)
  then show ?case using om_remove_subset [of k m] by auto
qed

lemma om_sorted_notin_tail: "om_sorted ((k, v) # m) \<Longrightarrow> om_get m k = None"
  by (auto simp: map_of_eq_None_iff)

lemma om_remove_get [simp]: "om_sorted m \<Longrightarrow> om_get (om_remove k m) = (om_get m)(k := None)"
proof (induction k m rule: om_remove.induct)
  case (1 k)
  then show ?case by simp
next
  case (2 k k' v' m)
  then show ?case using om_sorted_notin_tail [of k' v' m] by (auto simp: fun_eq_iff)
qed

lemma om_sorted_distinct: "om_sorted m \<Longrightarrow> distinct (map fst m)"
  using strict_sorted_iff by blast

lemma om_first_ge_Some:
  assumes "om_sorted m" and "om_first_ge k m = Some (k', v')"
  shows "(k', v') \<in> set m" and "k \<le> k'" and "e \<in> set m \<Longrightarrow> k \<le> fst e \<Longrightarrow> k' \<le> fst e"
  using assms by (induction k m rule: om_first_ge.induct) (auto split: if_splits)

lemma om_first_ge_None: "om_first_ge k m = None \<longleftrightarrow> (\<forall>e \<in> set m. fst e < k)"
  by (induction k m rule: om_first_ge.induct) auto

subsection \<open>The interface\<close>

locale ordered_map =
  fixes empty :: "'m"
    and insert :: "'k::linorder \<Rightarrow> 'v \<Rightarrow> 'm \<Rightarrow> 'm"
    and remove :: "'k \<Rightarrow> 'm \<Rightarrow> 'm"
    and get :: "'m \<Rightarrow> 'k \<rightharpoonup> 'v"
    and first_ge :: "'k \<Rightarrow> 'm \<Rightarrow> ('k \<times> 'v) option"
    and entries :: "'m \<Rightarrow> ('k \<times> 'v) list"
    and invar :: "'m \<Rightarrow> bool"
  assumes invar_empty: "invar empty"
    and invar_insert: "invar m \<Longrightarrow> invar (insert k v m)"
    and invar_remove: "invar m \<Longrightarrow> invar (remove k m)"
    and get_empty: "get empty = Map.empty"
    and get_insert: "invar m \<Longrightarrow> get (insert k v m) = (get m)(k \<mapsto> v)"
    and get_remove: "invar m \<Longrightarrow> get (remove k m) = (get m)(k := None)"
    and entries_sorted: "invar m \<Longrightarrow> sorted_wrt (<) (map fst (entries m))"
    and entries_get: "invar m \<Longrightarrow> map_of (entries m) = get m"
    and first_ge_Some: "invar m \<Longrightarrow> first_ge k m = Some e \<Longrightarrow>
          e \<in> set (entries m) \<and> k \<le> fst e \<and> (\<forall>e' \<in> set (entries m). k \<le> fst e' \<longrightarrow> fst e \<le> fst e')"
    and first_ge_None: "invar m \<Longrightarrow> first_ge k m = None \<Longrightarrow> e' \<in> set (entries m) \<Longrightarrow> fst e' < k"
begin

lemma insert_all_invar: "invar m \<Longrightarrow> invar (fold (\<lambda>(k, v). insert k v) kvs m)"
  by (induction kvs arbitrary: m) (auto intro: invar_insert)

lemma insert_all_get:
  "invar m \<Longrightarrow> get (fold (\<lambda>(k, v). insert k v) kvs m) = get m ++ map_of (rev kvs)"
proof (induction kvs arbitrary: m)
  case Nil
  then show ?case by simp
next
  case (Cons e kvs)
  obtain k v where [simp]: "e = (k, v)" by (cases e)
  show ?case using Cons.prems
    by (simp add: Cons.IH invar_insert get_insert map_add_upd_left flip: map_add_assoc)
       (simp add: map_add_def fun_eq_iff split: option.split)
qed

lemma entries_mem: "invar m \<Longrightarrow> (k, v) \<in> set (entries m) \<longleftrightarrow> get m k = Some v"
  using entries_sorted entries_get strict_sorted_iff map_of_eq_Some_iff
  by (metis (no_types, lifting))

text \<open>The seek of \<open>range(k..).next()\<close> finds the least key at or above \<open>k\<close>.\<close>

lemma first_ge_unique:
  assumes "invar m" and "get m k' = Some v'" and "k \<le> k'"
    and least: "\<And>k'' v''. get m k'' = Some v'' \<Longrightarrow> k \<le> k'' \<Longrightarrow> k' \<le> k''"
  shows "first_ge k m = Some (k', v')"
proof (cases "first_ge k m")
  case None
  then show ?thesis
    using first_ge_None [OF assms(1) None, of "(k', v')"] assms by (simp add: entries_mem)
next
  case (Some e)
  obtain ke ve where e: "e = (ke, ve)" by (cases e)
  have F: "(ke, ve) \<in> set (entries m)" "k \<le> ke" "ke \<le> k'"
    using first_ge_Some [OF assms(1) Some] assms(2,3) entries_mem [OF assms(1), of k' v']
    by (auto simp: e)
  then have "get m ke = Some ve" using assms(1) by (simp add: entries_mem)
  with F least have "ke = k'" by (meson order_antisym)
  with \<open>get m ke = Some ve\<close> assms(2) Some e show ?thesis by simp
qed

end

interpretation om: ordered_map "[]" om_insert om_remove om_get om_first_ge "\<lambda>m. m" om_sorted
  by unfold_locales (auto simp: om_first_ge_None dest: om_first_ge_Some(1,2) intro: om_first_ge_Some(3))

end
