(* ===== verification/InternalKey.thy ===== *)
theory InternalKey
  imports OrdMap
begin

text \<open>
  Versioned keys, \<open>storage/internal_key.rs\<close>: a user key with the commit
  sequence number of the write and a put or delete tag, ordered by user key, then
  newest first, then by tag.
\<close>

definition PUT_TAG :: u8 where
  "PUT_TAG = 0"

definition DELETE_TAG :: u8 where
  "DELETE_TAG = 2"

datatype InternalKey = InternalKey (user_key: bytes) (ik_seq: u64) (ik_tag: u8)

definition ik_seek :: "bytes \<Rightarrow> u64 \<Rightarrow> InternalKey" where
  "ik_seek key snapshot_seq = InternalKey key snapshot_seq PUT_TAG"

definition is_delete :: "InternalKey \<Rightarrow> bool" where
  "is_delete ik \<longleftrightarrow> ik_tag ik = DELETE_TAG"

datatype ordering = Less | Equal | Greater

fun cmp :: "'a::linorder \<Rightarrow> 'a \<Rightarrow> ordering" where
  "cmp a b = (if a < b then Less else if a = b then Equal else Greater)"

fun then_with :: "ordering \<Rightarrow> ordering \<Rightarrow> ordering" where
  "then_with Equal o2 = o2"
| "then_with o1 o2 = o1"

definition ik_cmp :: "InternalKey \<Rightarrow> InternalKey \<Rightarrow> ordering" where
  "ik_cmp self other =
     then_with (then_with (cmp (user_key self) (user_key other))
                          (cmp (ik_seq other) (ik_seq self)))
               (cmp (ik_tag self) (ik_tag other))"

lemma ik_cmp_Less_iff:
  "ik_cmp a b = Less \<longleftrightarrow> user_key a < user_key b
     \<or> user_key a = user_key b \<and> (ik_seq b < ik_seq a
         \<or> ik_seq a = ik_seq b \<and> ik_tag a < ik_tag b)"
  by (simp add: ik_cmp_def)

lemma ik_cmp_not_Greater_iff:
  "ik_cmp a b \<noteq> Greater \<longleftrightarrow> user_key a < user_key b
     \<or> user_key a = user_key b \<and> (ik_seq b < ik_seq a
         \<or> ik_seq a = ik_seq b \<and> ik_tag a \<le> ik_tag b)"
  by (auto simp: ik_cmp_def)

text \<open>
  The comparison of the source is a total order, so the ordered maps and the sorts
  of the library apply to versioned keys.
\<close>

instantiation InternalKey :: linorder
begin

definition less_eq_InternalKey :: "InternalKey \<Rightarrow> InternalKey \<Rightarrow> bool" where
  "less_eq_InternalKey a b \<longleftrightarrow> ik_cmp a b \<noteq> Greater"

definition less_InternalKey :: "InternalKey \<Rightarrow> InternalKey \<Rightarrow> bool" where
  "less_InternalKey a b \<longleftrightarrow> ik_cmp a b = Less"

instance
  by standard
    (auto simp: less_eq_InternalKey_def less_InternalKey_def ik_cmp_Less_iff
      ik_cmp_not_Greater_iff intro: InternalKey.expand)

end

lemma ik_less_iff:
  "a < b \<longleftrightarrow> user_key a < user_key b
     \<or> user_key a = user_key b \<and> (ik_seq b < ik_seq a
         \<or> ik_seq a = ik_seq b \<and> ik_tag a < ik_tag b)"
  by (simp add: less_InternalKey_def ik_cmp_Less_iff)

lemma ik_le_iff:
  "a \<le> b \<longleftrightarrow> user_key a < user_key b
     \<or> user_key a = user_key b \<and> (ik_seq b < ik_seq a
         \<or> ik_seq a = ik_seq b \<and> ik_tag a \<le> ik_tag b)"
  by (simp add: less_eq_InternalKey_def ik_cmp_not_Greater_iff)

text \<open>The seek key skips exactly the versions that are newer than the snapshot.\<close>

lemma seek_le_iff:
  "ik_seek k s \<le> ik \<longleftrightarrow> k < user_key ik \<or> user_key ik = k \<and> ik_seq ik \<le> s"
  by (auto simp: ik_le_iff ik_seek_def PUT_TAG_def)

end
