(* ===== verification/MemTable.thy ===== *)
theory MemTable
  imports InternalKey
begin

text \<open>
  The MemTable and the per-source reduction of \<open>storage/lsm.rs\<close> (lines 16-145).
  A table of versions is a list sorted by versioned key; \<open>visible\<close> is what a
  snapshot sees of one user key in such a table, and both the point read and the
  scan reduction are proved to compute it.
\<close>

definition MEMTABLE_MAX_SIZE :: u64 where
  "MEMTABLE_MAX_SIZE = 4 * 1024 * 1024"

record MemTable =
  mt_data :: "(InternalKey \<times> bytes) list"
  mt_size_bytes :: u64
  mt_max_size :: u64

type_synonym version = "bytes \<times> u64 \<times> u8 \<times> bytes option"

definition memtable_new :: "u64 \<Rightarrow> MemTable" where
  "memtable_new max_size = \<lparr>mt_data = [], mt_size_bytes = 0, mt_max_size = max_size\<rparr>"

definition memtable_insert :: "bytes \<Rightarrow> u64 \<Rightarrow> bytes \<Rightarrow> u8 \<Rightarrow> MemTable \<Rightarrow> MemTable" where
  "memtable_insert key seq value tag mt =
     (let entry_size = word_of_nat (length key + length value + 8 + 1) in
      mt\<lparr>mt_size_bytes := mt_size_bytes mt + entry_size,
         mt_data := om_insert (InternalKey key seq tag) value (mt_data mt)\<rparr>)"

definition get_at :: "MemTable \<Rightarrow> bytes \<Rightarrow> u64 \<Rightarrow> bytes option option" where
  "get_at mt key snapshot_seq =
     (case om_first_ge (ik_seek key snapshot_seq) (mt_data mt) of
        None \<Rightarrow> None
      | Some (ik, value) \<Rightarrow>
          if user_key ik \<noteq> key then None
          else if is_delete ik then Some None
          else Some (Some value))"

definition is_full :: "MemTable \<Rightarrow> bool" where
  "is_full mt \<longleftrightarrow> mt_size_bytes mt \<ge> mt_max_size mt"

definition to_entries :: "MemTable \<Rightarrow> (InternalKey \<times> bytes) list" where
  "to_entries mt = mt_data mt"

definition memtable_len :: "MemTable \<Rightarrow> nat" where
  "memtable_len mt = length (mt_data mt)"

definition version_of :: "InternalKey \<times> bytes \<Rightarrow> version" where
  "version_of e = (case e of (ik, value) \<Rightarrow>
     (user_key ik, ik_seq ik, ik_tag ik, if is_delete ik then None else Some value))"

definition iter_versions :: "MemTable \<Rightarrow> version list" where
  "iter_versions mt = map version_of (mt_data mt)"

fun first_visible_loop ::
  "version list \<Rightarrow> u64 \<Rightarrow> bytes option \<Rightarrow> (bytes \<times> bytes option) list" where
  "first_visible_loop [] snapshot_seq resolved_key = []"
| "first_visible_loop ((key, seq, tag, value) # entries) snapshot_seq resolved_key =
     (if resolved_key = Some key then first_visible_loop entries snapshot_seq resolved_key
      else if seq \<le> snapshot_seq
      then (key, value) # first_visible_loop entries snapshot_seq (Some key)
      else first_visible_loop entries snapshot_seq resolved_key)"

definition first_visible_per_key :: "version list \<Rightarrow> u64 \<Rightarrow> (bytes \<times> bytes option) list" where
  "first_visible_per_key entries snapshot_seq = first_visible_loop entries snapshot_seq None"

subsection \<open>What a snapshot sees\<close>

text \<open>The outcome for a user key: the entry at or after the seek key, if it is that key's.\<close>

definition value_of :: "InternalKey \<times> bytes \<Rightarrow> bytes option" where
  "value_of e = (if is_delete (fst e) then None else Some (snd e))"

definition visible :: "(InternalKey \<times> bytes) list \<Rightarrow> bytes \<Rightarrow> u64 \<Rightarrow> bytes option option" where
  "visible m key s =
     map_option value_of (find (\<lambda>e. user_key (fst e) = key \<and> ik_seq (fst e) \<le> s) m)"

lemma version_of_value: "version_of e = (user_key (fst e), ik_seq (fst e), ik_tag (fst e), value_of e)"
  by (cases e) (simp add: version_of_def value_of_def)

lemma visible_Nil [simp]: "visible [] k s = None"
  by (simp add: visible_def)

lemma visible_Cons:
  "visible (e # m) k s =
     (if user_key (fst e) = k \<and> ik_seq (fst e) \<le> s then Some (value_of e) else visible m k s)"
  by (simp add: visible_def)

lemma visible_append:
  "visible (a @ b) k s = (case visible a k s of None \<Rightarrow> visible b k s | Some v \<Rightarrow> Some v)"
  by (induction a) (auto simp: visible_Cons)

lemma visible_None_iff:
  "visible m k s = None \<longleftrightarrow> (\<forall>e \<in> set m. user_key (fst e) = k \<longrightarrow> s < ik_seq (fst e))"
  by (induction m) (auto simp: visible_Cons)

text \<open>In a sorted table the first matching entry is the least one.\<close>

lemma visible_least:
  assumes "om_sorted m" and "e \<in> set m" and "user_key (fst e) = k" and "ik_seq (fst e) \<le> s"
    and "\<And>e'. e' \<in> set m \<Longrightarrow> user_key (fst e') = k \<Longrightarrow> ik_seq (fst e') \<le> s \<Longrightarrow> fst e \<le> fst e'"
  shows "visible m k s = Some (value_of e)"
  using assms
proof (induction m)
  case Nil
  then show ?case by simp
next
  case (Cons d m)
  show ?case
  proof (cases "user_key (fst d) = k \<and> ik_seq (fst d) \<le> s")
    case True
    then have "fst e \<le> fst d" using Cons.prems(5) by auto
    moreover have "fst d < fst e" if "e \<noteq> d" using that Cons.prems by auto
    ultimately have "e = d" by (cases "e = d") auto
    with True show ?thesis by (simp add: visible_Cons)
  next
    case False
    then have "e \<in> set m" using Cons.prems by auto
    with False Cons show ?thesis by (auto simp: visible_Cons)
  qed
qed

lemma visible_first_ge:
  assumes "om_sorted m"
  shows "visible m k s =
     (case om_first_ge (ik_seek k s) m of
        None \<Rightarrow> None
      | Some (ik, value) \<Rightarrow> if user_key ik \<noteq> k then None else Some (value_of (ik, value)))"
  using assms
proof (induction m)
  case Nil
  then show ?case by simp
next
  case (Cons e m)
  obtain ik v where e: "e = (ik, v)" by (cases e)
  show ?case
  proof (cases "ik_seek k s \<le> ik")
    case True
    have "visible m k s = None" if "user_key ik \<noteq> k"
    proof -
      have "k < user_key ik" using True that by (simp add: seek_le_iff)
      moreover have "\<forall>e' \<in> set m. user_key ik \<le> user_key (fst e')"
        using Cons.prems by (auto simp: e ik_less_iff)
      ultimately show ?thesis by (force simp: visible_None_iff)
    qed
    with True show ?thesis by (auto simp: e visible_Cons seek_le_iff)
  next
    case False
    with Cons show ?thesis by (auto simp: e visible_Cons seek_le_iff)
  qed
qed

definition memtable_invar :: "MemTable \<Rightarrow> bool" where
  "memtable_invar mt \<longleftrightarrow> om_sorted (mt_data mt)"

lemma memtable_invar_new [simp]: "memtable_invar (memtable_new n)"
  by (simp add: memtable_invar_def memtable_new_def)

lemma memtable_invar_insert [simp]:
  "memtable_invar mt \<Longrightarrow> memtable_invar (memtable_insert k s v t mt)"
  by (simp add: memtable_invar_def memtable_insert_def Let_def)

lemma memtable_insert_data [simp]:
  "mt_data (memtable_insert k s v t mt) = om_insert (InternalKey k s t) v (mt_data mt)"
  by (simp add: memtable_insert_def Let_def)

lemma get_at_visible: "memtable_invar mt \<Longrightarrow> get_at mt k s = visible (mt_data mt) k s"
  by (simp add: get_at_def visible_first_ge memtable_invar_def value_of_def split: option.split)

subsection \<open>The scan reduction\<close>

text \<open>
  With the keys still to come at or above the key just resolved, the loop returns
  one pair per remaining key, in strict key order, and the pair is what the
  snapshot sees.
\<close>

definition resolved_below :: "bytes option \<Rightarrow> (InternalKey \<times> bytes) list \<Rightarrow> bool" where
  "resolved_below r m \<longleftrightarrow> (\<forall>k'. r = Some k' \<longrightarrow> (\<forall>e \<in> set m. k' \<le> user_key (fst e)))"

lemma sorted_key_mono: "om_sorted (e # m) \<Longrightarrow> e' \<in> set m \<Longrightarrow> user_key (fst e) \<le> user_key (fst e')"
  by (auto simp: ik_less_iff)

lemma resolved_below_tail:
  assumes "om_sorted (e # m)"
  shows "resolved_below (Some (user_key (fst e))) m"
    and "resolved_below r (e # m) \<Longrightarrow> resolved_below r m"
  using sorted_key_mono [OF assms] by (auto simp: resolved_below_def)

lemma visible_passed_key:
  assumes "resolved_below (Some k) (e # m)" and "om_sorted (e # m)" and "user_key (fst e) \<noteq> k"
  shows "visible m k s = None"
proof -
  have "k < user_key (fst e)" using assms(1,3) by (auto simp: resolved_below_def)
  with sorted_key_mono [OF assms(2)] show ?thesis by (force simp: visible_None_iff)
qed

lemma first_visible_loop_get:
  assumes "om_sorted m" and "resolved_below r m"
  shows "map_of (first_visible_loop (map version_of m) s r) k
       = (if r = Some k then None else visible m k s)"
  using assms
proof (induction m arbitrary: r)
  case Nil
  then show ?case by simp
next
  case (Cons e m)
  have m: "om_sorted m" using Cons.prems by simp
  note IH = Cons.IH [OF m]
  note below = resolved_below_tail [OF Cons.prems(1)]
  show ?case
    using IH [OF below(1)] IH [OF below(2) [OF Cons.prems(2)]]
      visible_passed_key [of k e m s] Cons.prems
    by (auto simp: version_of_value visible_Cons)
qed

lemma first_visible_loop_keys:
  "p \<in> set (first_visible_loop (map version_of m) s r) \<Longrightarrow> \<exists>e \<in> set m. fst p = user_key (fst e)"
  by (induction m arbitrary: r) (auto simp: version_of_value split: if_splits)

lemma first_visible_loop_above:
  assumes "om_sorted m" and "resolved_below (Some k) m"
    and "p \<in> set (first_visible_loop (map version_of m) s (Some k))"
  shows "k < fst p"
proof -
  have "k \<le> fst p"
    using first_visible_loop_keys [OF assms(3)] assms(2) by (auto simp: resolved_below_def)
  moreover have "k \<noteq> fst p"
    using first_visible_loop_get [OF assms(1,2), of s k] assms(3)
    by (auto simp: map_of_eq_None_iff)
  ultimately show ?thesis by simp
qed

lemma first_visible_loop_sorted:
  "om_sorted m \<Longrightarrow> om_sorted (first_visible_loop (map version_of m) s r)"
proof (induction m arbitrary: r)
  case Nil
  then show ?case by simp
next
  case (Cons e m)
  then have m: "om_sorted m" by simp
  note above = first_visible_loop_above [OF m resolved_below_tail(1) [OF Cons.prems]]
  show ?case
    using Cons.IH [OF m] above by (simp add: version_of_value [of e])
qed

lemma first_visible_per_key_get:
  "om_sorted m \<Longrightarrow> map_of (first_visible_per_key (map version_of m) s) k = visible m k s"
  by (simp add: first_visible_per_key_def first_visible_loop_get resolved_below_def)

lemma first_visible_per_key_sorted:
  "om_sorted m \<Longrightarrow> om_sorted (first_visible_per_key (map version_of m) s)"
  by (simp add: first_visible_per_key_def first_visible_loop_sorted)

end
