(* ===== verification/ObjectStore.thy ===== *)
theory ObjectStore
  imports OrdMap "HOL-Library.Char_ord"
begin

text \<open>
  The object store interface of \<open>storage/objectstore.rs\<close> and its file-system
  backend.  A trait object is a record of operations over a state; the locale
  \<open>cas_store\<close> holds the contract its clients (SSTables, manifest, lease, engine)
  rely on.  SHA-256 is a parameter: the function from contents to ETag.
\<close>

record ObjectMeta =
  om_etag :: string
  om_size :: u64

datatype CasError = Conflict (current_etag: "string option") | Other

datatype store_error = StoreIo

record 's object_store =
  os_get :: "string \<Rightarrow> 's \<Rightarrow> (store_error, (bytes \<times> ObjectMeta) option) result \<times> 's"
  os_put :: "string \<Rightarrow> bytes \<Rightarrow> 's \<Rightarrow> (store_error, ObjectMeta) result \<times> 's"
  os_put_if_match ::
    "string \<Rightarrow> bytes \<Rightarrow> string option \<Rightarrow> 's \<Rightarrow> (CasError, ObjectMeta) result \<times> 's"
  os_delete :: "string \<Rightarrow> 's \<Rightarrow> (store_error, unit) result \<times> 's"
  os_list :: "string \<Rightarrow> 's \<Rightarrow> (store_error, string list) result \<times> 's"

subsection \<open>The contract\<close>

text \<open>
  \<open>objs\<close> is the abstract contents, keyed by normalised keys; \<open>hash\<close> the ETag of
  contents.  An operation that reports success did exactly what it says, a read or
  a conflict changes nothing, and a conditional write that fails for another
  reason either changed nothing or took effect with its condition met.
\<close>

definition meta_of :: "(bytes \<Rightarrow> string) \<Rightarrow> bytes \<Rightarrow> ObjectMeta" where
  "meta_of hash d = \<lparr>om_etag = hash d, om_size = word_of_nat (length d)\<rparr>"

definition etag_at :: "(bytes \<Rightarrow> string) \<Rightarrow> bytes option \<Rightarrow> string option" where
  "etag_at hash ob = map_option hash ob"

locale cas_store =
  fixes ops :: "'s object_store"
    and hash :: "bytes \<Rightarrow> string"
    and norm :: "string \<Rightarrow> string"
    and objs :: "'s \<Rightarrow> string \<rightharpoonup> bytes"
    and invar :: "'s \<Rightarrow> bool"
  assumes get_ok: "invar st \<Longrightarrow> os_get ops k st = (Inr r, st') \<Longrightarrow>
        r = map_option (\<lambda>d. (d, meta_of hash d)) (objs st (norm k)) \<and> objs st' = objs st \<and> invar st'"
    and get_err: "invar st \<Longrightarrow> os_get ops k st = (Inl e, st') \<Longrightarrow> objs st' = objs st \<and> invar st'"
    and put_ok: "invar st \<Longrightarrow> os_put ops k d st = (Inr m, st') \<Longrightarrow>
        m = meta_of hash d \<and> objs st' = (objs st)(norm k \<mapsto> d) \<and> invar st'"
    and cas_ok: "invar st \<Longrightarrow> os_put_if_match ops k d exp st = (Inr m, st') \<Longrightarrow>
        exp = etag_at hash (objs st (norm k)) \<and> m = meta_of hash d
        \<and> objs st' = (objs st)(norm k \<mapsto> d) \<and> invar st'"
    and cas_conflict: "invar st \<Longrightarrow> os_put_if_match ops k d exp st = (Inl (Conflict cur), st') \<Longrightarrow>
        cur = etag_at hash (objs st (norm k)) \<and> exp \<noteq> cur \<and> objs st' = objs st \<and> invar st'"
    and cas_other: "invar st \<Longrightarrow> os_put_if_match ops k d exp st = (Inl Other, st') \<Longrightarrow>
        objs st' \<in> {objs st, (objs st)(norm k \<mapsto> d)}
        \<and> (objs st' \<noteq> objs st \<longrightarrow> exp = etag_at hash (objs st (norm k))) \<and> invar st'"
    and delete_ok: "invar st \<Longrightarrow> os_delete ops k st = (Inr u, st') \<Longrightarrow>
        objs st' = (objs st)(norm k := None) \<and> invar st'"
begin

text \<open>What was put is what is got.\<close>

lemma get_after_put:
  assumes "invar st" and "os_put ops k d st = (Inr m, st1)" and "os_get ops k st1 = (Inr r, st2)"
  shows "r = Some (d, m)"
  using put_ok [OF assms(1,2)] get_ok [of st1 k r st2] assms(3) by simp

lemma get_after_cas:
  assumes "invar st" and "os_put_if_match ops k d exp st = (Inr m, st1)"
    and "os_get ops k st1 = (Inr r, st2)"
  shows "r = Some (d, m)"
  using cas_ok [OF assms(1,2)] get_ok [of st1 k r st2] assms(3) by simp

text \<open>
  Of two writers that read the same revision at most one gets its conditional
  write through, unless the first wrote contents with the ETag it replaced.
\<close>

lemma cas_exclusive:
  assumes "invar st" and "os_put_if_match ops k d1 exp st = (Inr m1, st1)"
    and "exp \<noteq> Some (hash d1)"
  shows "os_put_if_match ops k d2 exp st1 \<noteq> (Inr m2, st2)"
proof
  assume "os_put_if_match ops k d2 exp st1 = (Inr m2, st2)"
  then have "exp = etag_at hash (objs st1 (norm k))"
    using cas_ok [OF assms(1,2)] cas_ok [of st1] by blast
  then show False using cas_ok [OF assms(1,2)] assms(3) by (simp add: etag_at_def)
qed

end

subsection \<open>The file-system backend\<close>

text \<open>
  The state holds the files under the root by path, and the outcomes the operating
  system has in store for the next operations: success, a failure before anything
  visible changed, or, for a write, a failure to sync the directory after the
  rename.  Temporary files are not part of the state: no key reaches them and
  \<open>list\<close> leaves them out.
\<close>

datatype io_outcome = IoOk | IoFail | IoFailLate

record LocalFs =
  fs_files :: "(string \<times> bytes) list"
  fs_io :: "io_outcome list"

fun next_io :: "LocalFs \<Rightarrow> io_outcome \<times> LocalFs" where
  "next_io st = (case fs_io st of [] \<Rightarrow> (IoOk, st) | o1 # os \<Rightarrow> (o1, st\<lparr>fs_io := os\<rparr>))"

definition local_path_for :: "string \<Rightarrow> string" where
  "local_path_for key = map (\<lambda>c. if c = CHR 0x5C then CHR ''/'' else c) key"

definition local_get ::
  "(bytes \<Rightarrow> string) \<Rightarrow> string \<Rightarrow> LocalFs
     \<Rightarrow> (store_error, (bytes \<times> ObjectMeta) option) result \<times> LocalFs" where
  "local_get sha256_hex key st =
     (let path = local_path_for key; (io, st) = next_io st in
      if io \<noteq> IoOk then (Err StoreIo, st)
      else case om_get (fs_files st) path of
        Some data \<Rightarrow>
          (Ok (Some (data, \<lparr>om_etag = sha256_hex data, om_size = word_of_nat (length data)\<rparr>)), st)
      | None \<Rightarrow> (Ok None, st))"

definition local_put ::
  "(bytes \<Rightarrow> string) \<Rightarrow> string \<Rightarrow> bytes \<Rightarrow> LocalFs \<Rightarrow> (store_error, ObjectMeta) result \<times> LocalFs" where
  "local_put sha256_hex key data st =
     (let path = local_path_for key; (io, st) = next_io st in
      if io = IoFail then (Err StoreIo, st)
      else
        let st = st\<lparr>fs_files := om_insert path data (fs_files st)\<rparr> in
        if io = IoFailLate then (Err StoreIo, st)
        else (Ok \<lparr>om_etag = sha256_hex data, om_size = word_of_nat (length data)\<rparr>, st))"

definition local_put_if_match ::
  "(bytes \<Rightarrow> string) \<Rightarrow> string \<Rightarrow> bytes \<Rightarrow> string option \<Rightarrow> LocalFs
     \<Rightarrow> (CasError, ObjectMeta) result \<times> LocalFs" where
  "local_put_if_match sha256_hex key data expected_etag st =
     (case local_get sha256_hex key st of
        (Inl _, st) \<Rightarrow> (Err Other, st)
      | (Inr current, st) \<Rightarrow>
          (let current_etag = map_option (\<lambda>(_, m). om_etag m) current;
               matches = (case (expected_etag, current_etag) of
                   (None, None) \<Rightarrow> True
                 | (Some exp, Some cur) \<Rightarrow> exp = cur
                 | _ \<Rightarrow> False) in
           if \<not> matches then (Err (Conflict current_etag), st)
           else case local_put sha256_hex key data st of
               (Inl _, st) \<Rightarrow> (Err Other, st)
             | (Inr meta, st) \<Rightarrow> (Ok meta, st)))"

definition local_delete :: "string \<Rightarrow> LocalFs \<Rightarrow> (store_error, unit) result \<times> LocalFs" where
  "local_delete key st =
     (let path = local_path_for key; (io, st) = next_io st in
      if io \<noteq> IoOk then (Err StoreIo, st)
      else (Ok (), st\<lparr>fs_files := om_remove path (fs_files st)\<rparr>))"

definition is_tmp :: "string \<Rightarrow> bool" where
  "is_tmp key \<longleftrightarrow> sublist ''.tmp-'' key"

definition visit_dir :: "LocalFs \<Rightarrow> string list" where
  "visit_dir st = filter (\<lambda>key. \<not> is_tmp key) (map fst (fs_files st))"

definition local_list :: "string \<Rightarrow> LocalFs \<Rightarrow> (store_error, string list) result \<times> LocalFs" where
  "local_list pre st =
     (let (io, st) = next_io st in
      if io \<noteq> IoOk then (Err StoreIo, st)
      else (Ok (filter (\<lambda>k. prefix pre k) (visit_dir st)), st))"

definition LocalFsObjectStore :: "(bytes \<Rightarrow> string) \<Rightarrow> LocalFs object_store" where
  "LocalFsObjectStore sha256_hex =
     \<lparr>os_get = local_get sha256_hex, os_put = local_put sha256_hex,
      os_put_if_match = local_put_if_match sha256_hex, os_delete = local_delete,
      os_list = local_list\<rparr>"

definition local_invar :: "LocalFs \<Rightarrow> bool" where
  "local_invar st \<longleftrightarrow> om_sorted (fs_files st)"

abbreviation local_objs :: "LocalFs \<Rightarrow> string \<rightharpoonup> bytes" where
  "local_objs st \<equiv> om_get (fs_files st)"

lemmas local_defs = local_get_def local_put_def local_put_if_match_def local_delete_def

lemma next_io_files [simp]: "next_io st = (io, st') \<Longrightarrow> fs_files st' = fs_files st"
  by (auto split: list.splits)

declare next_io.simps [simp del]

lemma local_get_cases:
  assumes "local_get h k st = (r, st')"
  shows "fs_files st' = fs_files st"
    and "r = Err StoreIo \<or> r = Ok (map_option (\<lambda>d. (d, meta_of h d)) (local_objs st (local_path_for k)))"
  using assms
  by (auto simp: local_get_def Let_def meta_of_def split: prod.splits if_splits option.splits)

lemma local_put_cases:
  assumes "local_put h k d st = (r, st')"
  shows "r = Ok (meta_of h d) \<and> fs_files st' = om_insert (local_path_for k) d (fs_files st)
       \<or> r = Err StoreIo \<and> fs_files st' \<in> {fs_files st, om_insert (local_path_for k) d (fs_files st)}"
  using assms by (auto simp: local_put_def Let_def meta_of_def split: prod.splits if_splits)

lemma local_cas_cases:
  assumes "local_put_if_match h k d exp st = (r, st')"
  defines "cur \<equiv> etag_at h (local_objs st (local_path_for k))"
  shows "(\<exists>m. r = Ok m) \<Longrightarrow> exp = cur \<and> r = Ok (meta_of h d)
            \<and> fs_files st' = om_insert (local_path_for k) d (fs_files st)"
    and "r = Err (Conflict c) \<Longrightarrow> c = cur \<and> exp \<noteq> cur \<and> fs_files st' = fs_files st"
    and "r = Err Other \<Longrightarrow> fs_files st' = fs_files st
            \<or> exp = cur \<and> fs_files st' = om_insert (local_path_for k) d (fs_files st)"
proof -
  obtain g st1 where g: "local_get h k st = (g, st1)" by force
  note G = local_get_cases [OF g]
  obtain p st2 where p: "local_put h k d st1 = (p, st2)" by force
  note P = local_put_cases [OF p]
  show "(\<exists>m. r = Ok m) \<Longrightarrow> exp = cur \<and> r = Ok (meta_of h d)
            \<and> fs_files st' = om_insert (local_path_for k) d (fs_files st)"
    using assms(1) g p G P
    by (cases "local_objs st (local_path_for k)"; cases exp)
       (auto simp: local_put_if_match_def cur_def etag_at_def meta_of_def Let_def
         split: sum.splits if_splits)
  show "r = Err (Conflict c) \<Longrightarrow> c = cur \<and> exp \<noteq> cur \<and> fs_files st' = fs_files st"
    using assms(1) g p G P
    by (cases "local_objs st (local_path_for k)"; cases exp)
       (auto simp: local_put_if_match_def cur_def etag_at_def meta_of_def Let_def
         split: sum.splits if_splits)
  show "r = Err Other \<Longrightarrow> fs_files st' = fs_files st
            \<or> exp = cur \<and> fs_files st' = om_insert (local_path_for k) d (fs_files st)"
    using assms(1) g p G P
    by (cases "local_objs st (local_path_for k)"; cases exp)
       (auto simp: local_put_if_match_def cur_def etag_at_def meta_of_def Let_def
         split: sum.splits if_splits)
qed

lemma local_delete_ok:
  assumes "local_delete k st = (Inr u, st')"
  shows "fs_files st' = om_remove (local_path_for k) (fs_files st)"
  using assms by (auto simp: local_delete_def Let_def split: prod.splits if_splits)

interpretation local_fs: cas_store "LocalFsObjectStore h" h local_path_for local_objs local_invar
  for h
proof
  fix st k r st'
  assume "local_invar st" "os_get (LocalFsObjectStore h) k st = (Inr r, st')"
  then show "r = map_option (\<lambda>d. (d, meta_of h d)) (local_objs st (local_path_for k))
      \<and> local_objs st' = local_objs st \<and> local_invar st'"
    using local_get_cases [of h k st "Inr r" st']
    by (auto simp: LocalFsObjectStore_def local_invar_def)
next
  fix st k e st'
  assume "local_invar st" "os_get (LocalFsObjectStore h) k st = (Inl e, st')"
  then show "local_objs st' = local_objs st \<and> local_invar st'"
    using local_get_cases(1) [of h k st "Inl e" st']
    by (auto simp: LocalFsObjectStore_def local_invar_def)
next
  fix st k d m st'
  assume "local_invar st" "os_put (LocalFsObjectStore h) k d st = (Inr m, st')"
  then show "m = meta_of h d \<and> local_objs st' = (local_objs st)(local_path_for k \<mapsto> d)
      \<and> local_invar st'"
    using local_put_cases [of h k d st "Inr m" st']
    by (auto simp: LocalFsObjectStore_def local_invar_def)
next
  fix st k d exp m st'
  assume "local_invar st" "os_put_if_match (LocalFsObjectStore h) k d exp st = (Inr m, st')"
  then show "exp = etag_at h (local_objs st (local_path_for k)) \<and> m = meta_of h d
      \<and> local_objs st' = (local_objs st)(local_path_for k \<mapsto> d) \<and> local_invar st'"
    using local_cas_cases(1) [of h k d exp st "Inr m" st']
    by (auto simp: LocalFsObjectStore_def local_invar_def)
next
  fix st k d exp cur st'
  assume "local_invar st"
    "os_put_if_match (LocalFsObjectStore h) k d exp st = (Inl (Conflict cur), st')"
  then show "cur = etag_at h (local_objs st (local_path_for k)) \<and> exp \<noteq> cur
      \<and> local_objs st' = local_objs st \<and> local_invar st'"
    using local_cas_cases(2) [of h k d exp st "Inl (Conflict cur)" st']
    by (auto simp: LocalFsObjectStore_def local_invar_def)
next
  fix st k d exp st'
  assume "local_invar st" "os_put_if_match (LocalFsObjectStore h) k d exp st = (Inl Other, st')"
  then show "local_objs st' \<in> {local_objs st, (local_objs st)(local_path_for k \<mapsto> d)}
      \<and> (local_objs st' \<noteq> local_objs st \<longrightarrow> exp = etag_at h (local_objs st (local_path_for k)))
      \<and> local_invar st'"
    using local_cas_cases(3) [of h k d exp st "Inl Other" st']
    by (auto simp: LocalFsObjectStore_def local_invar_def)
next
  fix st k u st'
  assume "local_invar st" "os_delete (LocalFsObjectStore h) k st = (Inr u, st')"
  then show "local_objs st' = (local_objs st)(local_path_for k := None) \<and> local_invar st'"
    using local_delete_ok [of k st u st']
    by (auto simp: LocalFsObjectStore_def local_invar_def)
qed

end
