(* ===== verification/SSTable.thy ===== *)
theory SSTable
  imports MemTable ObjectStore
begin

text \<open>
  Sorted string tables, \<open>storage/sstable.rs\<close>: the binary format, its decoder,
  point reads and version scans.  The Bloom filter crate is a parameter, a record of
  its operations, with its documented behaviour as the hypothesis \<open>bloom_ok\<close>.
  \<open>usize\<close> positions are naturals; where the source would overflow one it panics,
  which is the error value \<open>Panic\<close>.
\<close>

definition FOOTER_LEN :: nat where
  "FOOTER_LEN = 32"

definition SSTABLE_FORMAT_MAGIC :: bytes where
  "SSTABLE_FORMAT_MAGIC = [0x54, 0x50, 0x54, 0x53, 0x53, 0x54, 0x30, 0x32]"

record 'b bloom_ops =
  bl_new :: "nat \<Rightarrow> 'b"
  bl_set :: "bytes \<Rightarrow> 'b \<Rightarrow> 'b"
  bl_check :: "'b \<Rightarrow> bytes \<Rightarrow> bool"
  bl_bitmap :: "'b \<Rightarrow> bytes"
  bl_num_bits :: "'b \<Rightarrow> u64"
  bl_num_hashes :: "'b \<Rightarrow> u32"
  bl_sip_keys :: "'b \<Rightarrow> (u64 \<times> u64) \<times> (u64 \<times> u64)"
  bl_from_existing :: "bytes \<Rightarrow> u64 \<Rightarrow> u32 \<Rightarrow> (u64 \<times> u64) \<times> (u64 \<times> u64) \<Rightarrow> 'b"

record IndexEntry =
  ie_key :: bytes
  ie_seq :: u64
  ie_tag :: u8
  ie_offset :: u64
  ie_value_len :: u32

record 'b SSTable =
  sst_key :: string
  sst_id :: u64
  sst_index :: "IndexEntry list"
  sst_bloom :: 'b
  sst_data :: bytes

datatype sst_error = Truncated nat | BadFormat | NotFound | StoreFailed | Panic

definition read_u32 :: "bytes \<Rightarrow> nat \<Rightarrow> (sst_error, u32) result" where
  "read_u32 buf pos =
     (if pos + 4 \<ge> 2 ^ 64 then Err Panic
      else if pos + 4 > length buf then Err (Truncated pos)
      else Ok (u32_from_be_bytes (slice buf pos (pos + 4))))"

definition read_u64 :: "bytes \<Rightarrow> nat \<Rightarrow> (sst_error, u64) result" where
  "read_u64 buf pos =
     (if pos + 8 \<ge> 2 ^ 64 then Err Panic
      else if pos + 8 > length buf then Err (Truncated pos)
      else Ok (u64_from_be_bytes (slice buf pos (pos + 8))))"

definition read_value_at :: "bytes \<Rightarrow> IndexEntry \<Rightarrow> (sst_error, bytes) result" where
  "read_value_at buf entry =
     (let pos = unat (ie_offset entry) in
      and_then (read_u32 buf pos) (\<lambda>key_len.
      let pos = pos + 4 + unat key_len in
      and_then (read_u32 buf pos) (\<lambda>value_len.
      let pos = pos + 4; stop = pos + unat value_len in
      if stop > length buf then Err (Truncated pos)
      else Ok (slice buf pos stop))))"

subsection \<open>Building\<close>

definition encode_data :: "bytes \<Rightarrow> bytes \<Rightarrow> bytes" where
  "encode_data key value =
     u32_to_be_bytes (len_u32 key) @ key @ u32_to_be_bytes (len_u32 value) @ value"

definition build_step ::
  "'b bloom_ops \<Rightarrow> InternalKey \<times> bytes \<Rightarrow> IndexEntry list \<times> 'b \<times> bytes
     \<Rightarrow> IndexEntry list \<times> 'b \<times> bytes" where
  "build_step bl e acc = (case (e, acc) of ((ikey, value), (index, bloom, data_buf)) \<Rightarrow>
     let bloom = bl_set bl (user_key ikey) bloom;
         offset = word_of_nat (length data_buf) in
     if ik_tag ikey = DELETE_TAG then
       (index @ [\<lparr>ie_key = user_key ikey, ie_seq = ik_seq ikey, ie_tag = ik_tag ikey,
                  ie_offset = offset, ie_value_len = 0\<rparr>], bloom, data_buf)
     else
       (index @ [\<lparr>ie_key = user_key ikey, ie_seq = ik_seq ikey, ie_tag = ik_tag ikey,
                  ie_offset = offset, ie_value_len = len_u32 value\<rparr>],
        bloom, data_buf @ encode_data (user_key ikey) value))"

definition encode_index_entry :: "IndexEntry \<Rightarrow> bytes" where
  "encode_index_entry e =
     u32_to_be_bytes (len_u32 (ie_key e)) @ ie_key e @ u64_to_be_bytes (ie_seq e)
   @ [ie_tag e] @ u64_to_be_bytes (ie_offset e) @ u32_to_be_bytes (ie_value_len e)"

definition encode_index :: "IndexEntry list \<Rightarrow> bytes" where
  "encode_index index =
     u32_to_be_bytes (len_u32 index) @ concat (map encode_index_entry index)"

definition encode_bloom :: "'b bloom_ops \<Rightarrow> 'b \<Rightarrow> bytes" where
  "encode_bloom bl bloom =
     (case bl_sip_keys bl bloom of ((k0, k1), (k2, k3)) \<Rightarrow>
       u32_to_be_bytes (len_u32 (bl_bitmap bl bloom)) @ bl_bitmap bl bloom
     @ u64_to_be_bytes (bl_num_bits bl bloom) @ u32_to_be_bytes (bl_num_hashes bl bloom)
     @ u64_to_be_bytes k0 @ u64_to_be_bytes k1 @ u64_to_be_bytes k2 @ u64_to_be_bytes k3)"

definition encode_footer :: "u64 \<Rightarrow> u64 \<Rightarrow> bytes" where
  "encode_footer index_offset bloom_offset =
     u64_to_be_bytes 0 @ u64_to_be_bytes index_offset @ u64_to_be_bytes bloom_offset
   @ SSTABLE_FORMAT_MAGIC"

definition build_bytes :: "'b bloom_ops \<Rightarrow> (InternalKey \<times> bytes) list \<Rightarrow> bytes" where
  "build_bytes bl entries =
     (case fold (build_step bl) entries ([], bl_new bl (max (length entries) 1), []) of
        (index, bloom, data_buf) \<Rightarrow>
          let index_offset = word_of_nat (length data_buf);
              buf = data_buf @ encode_index index;
              bloom_offset = word_of_nat (length buf)
          in buf @ encode_bloom bl bloom @ encode_footer index_offset bloom_offset)"

subsection \<open>Decoding\<close>

fun read_index :: "bytes \<Rightarrow> nat \<Rightarrow> nat \<Rightarrow> (sst_error, IndexEntry list) result" where
  "read_index buf pos 0 = Ok []"
| "read_index buf pos (Suc count) =
     and_then (read_u32 buf pos) (\<lambda>key_len.
     let pos = pos + 4; stop = pos + unat key_len in
     if stop > length buf then Err (Truncated pos) else
     let entry_key = slice buf pos stop; pos = stop in
     and_then (read_u64 buf pos) (\<lambda>seq.
     let pos = pos + 8 in
     if pos \<ge> length buf then Err (Truncated pos) else
     let tag = buf ! pos; pos = pos + 1 in
     and_then (read_u64 buf pos) (\<lambda>offset.
     let pos = pos + 8 in
     and_then (read_u32 buf pos) (\<lambda>value_len.
     let pos = pos + 4 in
     and_then (read_index buf pos count) (\<lambda>rest.
     Ok (\<lparr>ie_key = entry_key, ie_seq = seq, ie_tag = tag, ie_offset = offset,
          ie_value_len = value_len\<rparr> # rest))))))"

definition read_bloom :: "'b bloom_ops \<Rightarrow> bytes \<Rightarrow> nat \<Rightarrow> (sst_error, 'b) result" where
  "read_bloom bl buf pos =
     and_then (read_u32 buf pos) (\<lambda>bits_len.
     let pos = pos + 4; bits_end = pos + unat bits_len in
     if bits_end > length buf then Err (Truncated pos) else
     let bits = slice buf pos bits_end; pos = bits_end in
     and_then (read_u64 buf pos) (\<lambda>num_bits.
     and_then (read_u32 buf (pos + 8)) (\<lambda>num_hashes.
     and_then (read_u64 buf (pos + 12)) (\<lambda>k0.
     and_then (read_u64 buf (pos + 20)) (\<lambda>k1.
     and_then (read_u64 buf (pos + 28)) (\<lambda>k2.
     and_then (read_u64 buf (pos + 36)) (\<lambda>k3.
     Ok (bl_from_existing bl bits num_bits num_hashes ((k0, k1), (k2, k3))))))))))"

definition decode ::
  "'b bloom_ops \<Rightarrow> string \<Rightarrow> u64 \<Rightarrow> bytes \<Rightarrow> (sst_error, 'b SSTable) result" where
  "decode bl key sid buf =
     (if length buf < FOOTER_LEN \<or> drop (length buf - 8) buf \<noteq> SSTABLE_FORMAT_MAGIC
      then Err BadFormat
      else
        let footer_start = length buf - FOOTER_LEN in
        and_then (read_u64 buf (footer_start + 8)) (\<lambda>index_offset.
        and_then (read_u64 buf (footer_start + 16)) (\<lambda>bloom_offset.
        let pos = unat index_offset in
        and_then (read_u32 buf pos) (\<lambda>count.
        and_then (read_index buf (pos + 4) (unat count)) (\<lambda>index.
        and_then (read_bloom bl buf (unat bloom_offset)) (\<lambda>bloom.
        Ok \<lparr>sst_key = key, sst_id = sid, sst_index = index, sst_bloom = bloom,
            sst_data = buf\<rparr>))))))"

definition create_in_store ::
  "'b bloom_ops \<Rightarrow> 's object_store \<Rightarrow> string \<Rightarrow> u64 \<Rightarrow> (InternalKey \<times> bytes) list \<Rightarrow> 's
     \<Rightarrow> (sst_error, 'b SSTable) result \<times> 's" where
  "create_in_store bl store key sid entries st =
     (let bytes = build_bytes bl entries in
      case os_put store key bytes st of
        (Inl _, st) \<Rightarrow> (Err StoreFailed, st)
      | (Inr _, st) \<Rightarrow> (decode bl key sid bytes, st))"

definition open_from_store ::
  "'b bloom_ops \<Rightarrow> 's object_store \<Rightarrow> string \<Rightarrow> u64 \<Rightarrow> 's
     \<Rightarrow> (sst_error, 'b SSTable) result \<times> 's" where
  "open_from_store bl store key sid st =
     (case os_get store key st of
        (Inl _, st) \<Rightarrow> (Err StoreFailed, st)
      | (Inr None, st) \<Rightarrow> (Err NotFound, st)
      | (Inr (Some (bytes, _)), st) \<Rightarrow> (decode bl key sid bytes, st))"

subsection \<open>Reading\<close>

text \<open>\<open>slice::partition_point\<close>, a binary search.\<close>

function pp_search :: "('a \<Rightarrow> bool) \<Rightarrow> 'a list \<Rightarrow> nat \<Rightarrow> nat \<Rightarrow> nat" where
  "pp_search P xs lo hi =
     (if lo < hi then
        let mid = (lo + hi) div 2 in
        if P (xs ! mid) then pp_search P xs (mid + 1) hi else pp_search P xs lo mid
      else lo)"
  by auto
termination
  by (relation "measure (\<lambda>(_, _, lo, hi). hi - lo)") auto

declare pp_search.simps [simp del]

definition partition_point :: "('a \<Rightarrow> bool) \<Rightarrow> 'a list \<Rightarrow> nat" where
  "partition_point P xs = pp_search P xs 0 (length xs)"

definition before_seek :: "bytes \<Rightarrow> u64 \<Rightarrow> IndexEntry \<Rightarrow> bool" where
  "before_seek key snapshot_seq e =
     (case cmp (ie_key e) key of
        Less \<Rightarrow> True
      | Equal \<Rightarrow> ie_seq e > snapshot_seq
      | Greater \<Rightarrow> False)"

definition sst_read_at ::
  "'b bloom_ops \<Rightarrow> 'b SSTable \<Rightarrow> bytes \<Rightarrow> u64 \<Rightarrow> (sst_error, bytes option option) result" where
  "sst_read_at bl sst key snapshot_seq =
     (if \<not> bl_check bl (sst_bloom sst) key then Ok None
      else
        let idx = partition_point (before_seek key snapshot_seq) (sst_index sst) in
        if idx \<ge> length (sst_index sst) then Ok None
        else
          let entry = sst_index sst ! idx in
          if ie_key entry \<noteq> key then Ok None
          else if ie_tag entry = DELETE_TAG then Ok (Some None)
          else and_then (read_value_at (sst_data sst) entry) (\<lambda>v. Ok (Some (Some v))))"

definition max_seq :: "'b SSTable \<Rightarrow> u64" where
  "max_seq sst = fold max (map ie_seq (sst_index sst)) 0"

fun scan_index :: "bytes \<Rightarrow> IndexEntry list \<Rightarrow> (sst_error, version list) result" where
  "scan_index buf [] = Ok []"
| "scan_index buf (entry # index) =
     (if ie_tag entry = DELETE_TAG then
        and_then (scan_index buf index) (\<lambda>rest.
        Ok ((ie_key entry, ie_seq entry, ie_tag entry, None) # rest))
      else
        and_then (read_value_at buf entry) (\<lambda>value.
        and_then (scan_index buf index) (\<lambda>rest.
        Ok ((ie_key entry, ie_seq entry, ie_tag entry, Some value) # rest))))"

definition scan_all_versions :: "'b SSTable \<Rightarrow> (sst_error, version list) result" where
  "scan_all_versions sst = scan_index (sst_data sst) (sst_index sst)"

definition blob_size :: "'b SSTable \<Rightarrow> u64" where
  "blob_size sst = word_of_nat (length (sst_data sst))"

subsection \<open>What a table holds\<close>

text \<open>
  An index entry that stands for an entry of the table, and a table that holds a
  list of entries: each index entry finds its value, and no key is hidden by the
  Bloom filter.
\<close>

definition ie_for :: "bytes \<Rightarrow> InternalKey \<times> bytes \<Rightarrow> IndexEntry \<Rightarrow> bool" where
  "ie_for buf e ie \<longleftrightarrow> ie_key ie = user_key (fst e) \<and> ie_seq ie = ik_seq (fst e)
     \<and> ie_tag ie = ik_tag (fst e)
     \<and> (is_delete (fst e) \<or> read_value_at buf ie = Ok (snd e))"

definition sst_holds :: "'b bloom_ops \<Rightarrow> 'b SSTable \<Rightarrow> (InternalKey \<times> bytes) list \<Rightarrow> bool" where
  "sst_holds bl sst es \<longleftrightarrow> list_all2 (ie_for (sst_data sst)) es (sst_index sst)
     \<and> list_all (\<lambda>e. bl_check bl (sst_bloom sst) (user_key (fst e))) es"

lemma scan_index_holds:
  "list_all2 (ie_for buf) es index \<Longrightarrow> scan_index buf index = Ok (map version_of es)"
  by (induction rule: list_all2_induct)
     (auto simp: ie_for_def version_of_value value_of_def is_delete_def)

lemma scan_all_versions_holds: "sst_holds bl sst es \<Longrightarrow> scan_all_versions sst = Ok (map version_of es)"
  by (simp add: sst_holds_def scan_all_versions_def scan_index_holds)

lemma max_seq_holds:
  "sst_holds bl sst es \<Longrightarrow> e \<in> set es \<Longrightarrow> ik_seq (fst e) \<le> max_seq sst"
proof -
  assume h: "sst_holds bl sst es" and e: "e \<in> set es"
  have "map ie_seq (sst_index sst) = map (ik_seq \<circ> fst) es"
    using h by (auto simp: sst_holds_def ie_for_def list_all2_conv_all_nth intro!: nth_equalityI)
  then have "max_seq sst = Max (set (0 # map (ik_seq \<circ> fst) es))"
    by (simp only: max_seq_def Max.set_eq_fold)
  with e show ?thesis by simp
qed

subsection \<open>Binary search\<close>

text \<open>On a list where the predicate holds of a prefix, the search finds its end.\<close>

lemma pp_search_eq:
  assumes "lo \<le> n" and "n \<le> hi" and "hi \<le> length xs"
    and "\<And>i. i < n \<Longrightarrow> P (xs ! i)" and "\<And>i. n \<le> i \<Longrightarrow> i < length xs \<Longrightarrow> \<not> P (xs ! i)"
  shows "pp_search P xs lo hi = n"
  using assms
proof (induction P xs lo hi rule: pp_search.induct)
  case (1 P xs lo hi)
  let ?mid = "(lo + hi) div 2"
  show ?case
  proof (cases "lo < hi")
    case False
    then show ?thesis using 1(3,4) by (subst pp_search.simps) simp
  next
    case True
    then have mid: "?mid < hi" "?mid < length xs" using 1(5) by simp_all
    show ?thesis
    proof (cases "P (xs ! ?mid)")
      case True
      then have "?mid < n" using 1(7) [of ?mid] mid by (meson not_less)
      then have "pp_search P xs (?mid + 1) hi = n"
        using 1(1) [OF \<open>lo < hi\<close> refl True] 1(4-7) by simp
      with True \<open>lo < hi\<close> show ?thesis by (subst pp_search.simps) (simp add: Let_def)
    next
      case False
      then have "n \<le> ?mid" using 1(6) [of ?mid] by (meson not_less)
      then have "pp_search P xs lo ?mid = n"
        using 1(2) [OF \<open>lo < hi\<close> refl False] 1(3,5-7) mid by simp
      with False \<open>lo < hi\<close> show ?thesis by (subst pp_search.simps) (simp add: Let_def)
    qed
  qed
qed

lemma partition_point_eq:
  assumes "sorted_wrt (\<lambda>x y. P y \<longrightarrow> P x) xs"
  shows "partition_point P xs = length (takeWhile P xs)"
  unfolding partition_point_def
proof (rule pp_search_eq)
  let ?n = "length (takeWhile P xs)"
  show "?n \<le> length xs" by (rule length_takeWhile_le)
  show "P (xs ! i)" if "i < ?n" for i
    using that by (metis nth_mem set_takeWhileD takeWhile_nth)
  show "\<not> P (xs ! i)" if "?n \<le> i" "i < length xs" for i
  proof (cases "i = ?n")
    case True
    then show ?thesis using that nth_length_takeWhile by metis
  next
    case False
    then have "P (xs ! i) \<longrightarrow> P (xs ! ?n)"
      using assms that unfolding sorted_wrt_iff_nth_less by (metis le_neq_implies_less)
    moreover have "\<not> P (xs ! ?n)" using False that nth_length_takeWhile by (metis le_neq_implies_less less_trans)
    ultimately show ?thesis by simp
  qed
qed simp_all

lemma om_first_ge_nth:
  "om_first_ge k m =
     (let i = length (takeWhile (\<lambda>e. \<not> k \<le> fst e) m) in if i < length m then Some (m ! i) else None)"
  by (induction k m rule: om_first_ge.induct) (auto simp: Let_def)

lemma before_seek_iff:
  "ie_for buf e ie \<Longrightarrow> before_seek k s ie \<longleftrightarrow> \<not> ik_seek k s \<le> fst e"
  by (auto simp: before_seek_def ie_for_def seek_le_iff)

lemma takeWhile_length_rel:
  "list_all2 R xs ys \<Longrightarrow> (\<And>x y. R x y \<Longrightarrow> P x = Q y) \<Longrightarrow>
     length (takeWhile P xs) = length (takeWhile Q ys)"
  by (induction rule: list_all2_induct) auto

lemma sst_read_at_holds:
  assumes h: "sst_holds bl sst es" and "om_sorted es"
  shows "sst_read_at bl sst k s = Ok (visible es k s)"
proof (cases "bl_check bl (sst_bloom sst) k")
  case False
  then have "\<forall>e \<in> set es. user_key (fst e) \<noteq> k"
    using h by (auto simp: sst_holds_def list_all_iff)
  then have "visible es k s = None" by (simp add: visible_None_iff)
  with False show ?thesis by (simp add: sst_read_at_def)
next
  case True
  let ?ix = "sst_index sst" and ?P = "\<lambda>e. \<not> ik_seek k s \<le> fst e"
  let ?i = "length (takeWhile ?P es)"
  have rel: "list_all2 (ie_for (sst_data sst)) es ?ix" using h by (simp add: sst_holds_def)
  have len: "length ?ix = length es" using rel list_all2_lengthD by fastforce
  have nth: "ie_for (sst_data sst) (es ! j) (?ix ! j)" if "j < length es" for j
    using rel that by (simp add: list_all2_conv_all_nth)
  have "sorted_wrt (\<lambda>x y. before_seek k s y \<longrightarrow> before_seek k s x) ?ix"
    unfolding sorted_wrt_iff_nth_less
  proof (intro allI impI)
    fix i j
    assume "i < j" "j < length ?ix" "before_seek k s (?ix ! j)"
    then have "\<not> ik_seek k s \<le> fst (es ! j)" and "fst (es ! i) < fst (es ! j)"
      using assms(2) before_seek_iff [OF nth] by (auto simp: len sorted_wrt_iff_nth_less)
    then show "before_seek k s (?ix ! i)"
      using before_seek_iff [OF nth, of i] \<open>i < j\<close> \<open>j < length ?ix\<close> by (auto simp: len)
  qed
  then have "partition_point (before_seek k s) ?ix = length (takeWhile (before_seek k s) ?ix)"
    by (rule partition_point_eq)
  also have "\<dots> = ?i"
    using takeWhile_length_rel [OF rel, of ?P "before_seek k s"] before_seek_iff by metis
  finally have pp: "partition_point (before_seek k s) ?ix = ?i" .
  have "visible es k s = (if ?i < length es \<and> user_key (fst (es ! ?i)) = k
      then Some (value_of (es ! ?i)) else None)"
    using visible_first_ge [OF assms(2), of k s] by (auto simp: om_first_ge_nth Let_def split: if_splits prod.splits)
  then show ?thesis
    using True nth [of ?i] by (auto simp: sst_read_at_def pp len Let_def ie_for_def value_of_def is_delete_def)
qed

subsection \<open>Decoding what was built\<close>

fun index_from :: "nat \<Rightarrow> (InternalKey \<times> bytes) list \<Rightarrow> IndexEntry list" where
  "index_from off [] = []"
| "index_from off ((ik, v) # es) =
     (if is_delete ik then
        \<lparr>ie_key = user_key ik, ie_seq = ik_seq ik, ie_tag = ik_tag ik,
         ie_offset = word_of_nat off, ie_value_len = 0\<rparr> # index_from off es
      else
        \<lparr>ie_key = user_key ik, ie_seq = ik_seq ik, ie_tag = ik_tag ik,
         ie_offset = word_of_nat off, ie_value_len = len_u32 v\<rparr>
        # index_from (off + length (encode_data (user_key ik) v)) es)"

fun data_of :: "(InternalKey \<times> bytes) list \<Rightarrow> bytes" where
  "data_of [] = []"
| "data_of ((ik, v) # es) =
     (if is_delete ik then [] else encode_data (user_key ik) v) @ data_of es"

abbreviation bloom_of :: "'b bloom_ops \<Rightarrow> (InternalKey \<times> bytes) list \<Rightarrow> 'b" where
  "bloom_of bl es \<equiv>
     fold (bl_set bl) (map (user_key \<circ> fst) es) (bl_new bl (max (length es) 1))"

lemma build_fold:
  "fold (build_step bl) es (ix, b, d)
     = (ix @ index_from (length d) es, fold (bl_set bl) (map (user_key \<circ> fst) es) b, d @ data_of es)"
proof (induction es arbitrary: ix b d)
  case Nil
  then show ?case by simp
next
  case (Cons e es)
  obtain ik v where "e = (ik, v)" by (cases e)
  with Cons.IH show ?case by (simp add: build_step_def is_delete_def Let_def)
qed

lemma build_bytes_eq:
  "build_bytes bl es =
     data_of es @ encode_index (index_from 0 es) @ encode_bloom bl (bloom_of bl es)
   @ encode_footer (word_of_nat (length (data_of es)))
       (word_of_nat (length (data_of es @ encode_index (index_from 0 es))))"
  by (simp add: build_bytes_def build_fold Let_def)

text \<open>
  The documented behaviour of the Bloom filter: a filter rebuilt from the parts of
  one answers yes for every key that was set in it.
\<close>

definition bloom_ok :: "'b bloom_ops \<Rightarrow> bool" where
  "bloom_ok bl \<longleftrightarrow> (\<forall>n ks k. k \<in> set ks \<longrightarrow>
     (let b = fold (bl_set bl) ks (bl_new bl n) in
      bl_check bl (bl_from_existing bl (bl_bitmap bl b) (bl_num_bits bl b)
        (bl_num_hashes bl b) (bl_sip_keys bl b)) k))"

text \<open>Sizes that the casts to 32 bits keep; a vector never exceeds \<open>isize::MAX\<close> bytes.\<close>

definition sst_fits :: "'b bloom_ops \<Rightarrow> (InternalKey \<times> bytes) list \<Rightarrow> bool" where
  "sst_fits bl es \<longleftrightarrow> length es < 2 ^ 32
     \<and> list_all (\<lambda>e. length (user_key (fst e)) < 2 ^ 32 \<and> length (snd e) < 2 ^ 32) es
     \<and> length (bl_bitmap bl (bloom_of bl es)) < 2 ^ 32
     \<and> length (build_bytes bl es) < 2 ^ 63"

lemma read_u32_chunk [codec]:
  "pos = length pre \<Longrightarrow> pos < 2 ^ 63 \<Longrightarrow>
     read_u32 (pre @ be_nat 4 n @ post) pos = Ok (word_of_nat n)"
  by (simp add: read_u32_def slice_def)

lemma read_u64_chunk [codec]:
  "pos = length pre \<Longrightarrow> pos < 2 ^ 63 \<Longrightarrow>
     read_u64 (pre @ be_nat 8 n @ post) pos = Ok (word_of_nat n)"
  by (simp add: read_u64_def slice_def)

lemma unat_word_of_nat_small: "n < 2 ^ 63 \<Longrightarrow> unat (word_of_nat n :: u64) = n"
  by (simp add: unat_of_nat)

lemma read_value_at_chunk:
  assumes "length k < 2 ^ 32" and "length v < 2 ^ 32"
    and "ie_offset ie = word_of_nat (length pre)"
    and "length (pre @ encode_data k v @ post) < 2 ^ 63"
  shows "read_value_at (pre @ encode_data k v @ post) ie = Ok v"
proof -
  have off: "unat (ie_offset ie) = length pre"
    using assms(3,4) by (simp add: unat_word_of_nat_small)
  have "read_u32 (pre @ encode_data k v @ post) (length pre) = Ok (len_u32 k)"
    using read_u32_chunk [of "length pre" pre "unat (len_u32 k)" "k @ u32_to_be_bytes (len_u32 v) @ v @ post"]
      assms(4) by (simp add: encode_data_def)
  moreover have "read_u32 (pre @ encode_data k v @ post) (length pre + 4 + length k) = Ok (len_u32 v)"
    using read_u32_chunk [of "length pre + 4 + length k" "pre @ u32_to_be_bytes (len_u32 k) @ k"
        "unat (len_u32 v)" "v @ post"] assms(4) by (simp add: encode_data_def)
  ultimately show ?thesis
    using assms(1,2) by (simp add: read_value_at_def off Let_def) (simp add: encode_data_def slice_def)
qed

lemma index_from_for:
  assumes "list_all (\<lambda>e. length (user_key (fst e)) < 2 ^ 32 \<and> length (snd e) < 2 ^ 32) es"
    and "length (pre @ data_of es @ post) < 2 ^ 63"
  shows "list_all2 (ie_for (pre @ data_of es @ post)) es (index_from (length pre) es)"
  using assms
proof (induction es arbitrary: pre)
  case Nil
  then show ?case by simp
next
  case (Cons e es)
  obtain ik v where e: "e = (ik, v)" by (cases e)
  show ?case
  proof (cases "is_delete ik")
    case True
    then show ?thesis using Cons by (simp add: e ie_for_def [of _ "(ik, v)"])
  next
    case False
    let ?d = "encode_data (user_key ik) v"
    have "list_all2 (ie_for ((pre @ ?d) @ data_of es @ post)) es (index_from (length (pre @ ?d)) es)"
      using Cons.IH [of "pre @ ?d"] Cons.prems False by (simp add: e)
    moreover have "read_value_at (pre @ ?d @ data_of es @ post) ie = Ok v"
      if "ie_offset ie = word_of_nat (length pre)" for ie
      using read_value_at_chunk [of "user_key ik" v ie pre "data_of es @ post"] that Cons.prems False
      by (simp add: e)
    ultimately show ?thesis using False by (simp add: e ie_for_def [of _ "(ik, v)"])
  qed
qed

lemma read_index_entry:
  assumes k: "length (ie_key e) < 2 ^ 32"
    and len: "length (pre @ encode_index_entry e @ post) < 2 ^ 63"
  shows "read_index (pre @ encode_index_entry e @ post) (length pre) (Suc n) =
     and_then (read_index (pre @ encode_index_entry e @ post)
                 (length pre + length (encode_index_entry e)) n) (\<lambda>rest. Ok (e # rest))"
proof -
  let ?K = "ie_key e" and ?p = "length pre + 4 + length (ie_key e)"
  let ?buf = "pre @ encode_index_entry e @ post"
  note E = encode_index_entry_def
  have r1: "read_u32 ?buf (length pre) = Ok (len_u32 ?K)"
    using read_u32_chunk [of "length pre" pre "unat (len_u32 ?K)"] len by (simp add: E)
  have r2: "read_u64 ?buf ?p = Ok (ie_seq e)"
    using read_u64_chunk [of ?p "pre @ u32_to_be_bytes (len_u32 ?K) @ ?K" "unat (ie_seq e)"] len
    by (simp add: E)
  have r3: "?buf ! (?p + 8) = ie_tag e" "?p + 8 < length ?buf"
    by (simp_all add: E nth_append)
  have r4: "read_u64 ?buf (?p + 9) = Ok (ie_offset e)"
    using read_u64_chunk [of "?p + 9"
        "pre @ u32_to_be_bytes (len_u32 ?K) @ ?K @ u64_to_be_bytes (ie_seq e) @ [ie_tag e]"
        "unat (ie_offset e)"] len by (simp add: E)
  have r5: "read_u32 ?buf (?p + 17) = Ok (ie_value_len e)"
    using read_u32_chunk [of "?p + 17"
        "pre @ u32_to_be_bytes (len_u32 ?K) @ ?K @ u64_to_be_bytes (ie_seq e) @ [ie_tag e]
           @ u64_to_be_bytes (ie_offset e)" "unat (ie_value_len e)"] len by (simp add: E)
  have key: "slice ?buf (length pre + 4) ?p = ?K" "?p \<le> length ?buf"
    by (simp_all add: E slice_def)
  have stop: "length pre + length (encode_index_entry e) = ?p + 21" by (simp add: E)
  have pos: "?p + 8 + 1 = ?p + 9" "?p + 9 + 8 = ?p + 17" "?p + 17 + 4 = ?p + 21" by simp_all
  have e: "\<lparr>ie_key = ?K, ie_seq = ie_seq e, ie_tag = ie_tag e, ie_offset = ie_offset e,
      ie_value_len = ie_value_len e\<rparr> = e"
    by simp
  show ?thesis
    unfolding read_index.simps r1 and_then.simps Let_def unat_len_u32 [OF k] stop
    using key r3 by (simp only: r2 r4 r5 pos and_then.simps if_False not_less e) simp
qed

lemma read_index_chunk:
  assumes "list_all (\<lambda>e. length (ie_key e) < 2 ^ 32) ix"
    and "length (pre @ concat (map encode_index_entry ix) @ post) < 2 ^ 63"
  shows "read_index (pre @ concat (map encode_index_entry ix) @ post) (length pre) (length ix) = Ok ix"
  using assms
proof (induction ix arbitrary: pre)
  case Nil
  then show ?case by simp
next
  case (Cons e ix)
  let ?rest = "concat (map encode_index_entry ix) @ post"
  have "read_index ((pre @ encode_index_entry e) @ ?rest) (length (pre @ encode_index_entry e)) (length ix)
      = Ok ix"
    by (rule Cons.IH) (use Cons.prems in simp_all)
  moreover note read_index_entry [of e pre ?rest "length ix"]
  ultimately show ?case using Cons.prems by simp
qed

lemma read_bloom_chunk:
  assumes b: "length (bl_bitmap bl b) < 2 ^ 32"
    and len: "length (pre @ encode_bloom bl b @ post) < 2 ^ 63"
  shows "read_bloom bl (pre @ encode_bloom bl b @ post) (length pre)
       = Ok (bl_from_existing bl (bl_bitmap bl b) (bl_num_bits bl b) (bl_num_hashes bl b)
               (bl_sip_keys bl b))"
proof -
  obtain k0 k1 k2 k3 where sip: "bl_sip_keys bl b = ((k0, k1), (k2, k3))" by (metis surj_pair)
  let ?B = "bl_bitmap bl b" and ?p = "length pre + 4 + length (bl_bitmap bl b)"
  let ?buf = "pre @ encode_bloom bl b @ post"
  let ?h = "u32_to_be_bytes (len_u32 ?B) @ ?B"
  let ?n = "u64_to_be_bytes (bl_num_bits bl b) @ u32_to_be_bytes (bl_num_hashes bl b)"
  have E: "encode_bloom bl b = ?h @ ?n @ u64_to_be_bytes k0 @ u64_to_be_bytes k1
      @ u64_to_be_bytes k2 @ u64_to_be_bytes k3"
    by (simp add: encode_bloom_def sip)
  have r1: "read_u32 ?buf (length pre) = Ok (len_u32 ?B)"
    using read_u32_chunk [of "length pre" pre "unat (len_u32 ?B)"] len by (simp add: E)
  have r2: "read_u64 ?buf ?p = Ok (bl_num_bits bl b)"
    using read_u64_chunk [of ?p "pre @ ?h" "unat (bl_num_bits bl b)"] len by (simp add: E)
  have r3: "read_u32 ?buf (?p + 8) = Ok (bl_num_hashes bl b)"
    using read_u32_chunk [of "?p + 8" "pre @ ?h @ u64_to_be_bytes (bl_num_bits bl b)"
        "unat (bl_num_hashes bl b)"] len by (simp add: E)
  have r4: "read_u64 ?buf (?p + 12) = Ok k0"
    using read_u64_chunk [of "?p + 12" "pre @ ?h @ ?n" "unat k0"] len by (simp add: E)
  have r5: "read_u64 ?buf (?p + 20) = Ok k1"
    using read_u64_chunk [of "?p + 20" "pre @ ?h @ ?n @ u64_to_be_bytes k0" "unat k1"] len
    by (simp add: E)
  have r6: "read_u64 ?buf (?p + 28) = Ok k2"
    using read_u64_chunk [of "?p + 28" "pre @ ?h @ ?n @ u64_to_be_bytes k0 @ u64_to_be_bytes k1"
        "unat k2"] len by (simp add: E)
  have r7: "read_u64 ?buf (?p + 36) = Ok k3"
    using read_u64_chunk [of "?p + 36" "pre @ ?h @ ?n @ u64_to_be_bytes k0 @ u64_to_be_bytes k1
        @ u64_to_be_bytes k2" "unat k3"] len by (simp add: E)
  have bits: "slice ?buf (length pre + 4) ?p = ?B" "\<not> length ?buf < ?p"
    by (simp_all add: E slice_def)
  show ?thesis
    unfolding read_bloom_def r1 and_then.simps Let_def unat_len_u32 [OF b] r2 r3 r4 r5 r6 r7 bits(1)
    using bits(2) by (simp only: if_False sip)
qed

lemma length_encode_footer [simp]: "length (encode_footer a b) = 32"
  by (simp add: encode_footer_def SSTABLE_FORMAT_MAGIC_def)

lemma index_from_keys:
  "list_all (\<lambda>e. length (user_key (fst e)) < n) es
     \<Longrightarrow> list_all (\<lambda>ie. length (ie_key ie) < n) (index_from off es)"
  by (induction off es rule: index_from.induct) auto

lemma length_index_from [simp]: "length (index_from off es) = length es"
  by (induction off es rule: index_from.induct) auto

text \<open>The offsets in the footer lead the decoder to the three sections.\<close>

lemma decode_sections:
  assumes buf: "buf = D @ encode_index ix @ BL @ encode_footer (word_of_nat (length D))
      (word_of_nat (length (D @ encode_index ix)))"
    and fits: "length buf < 2 ^ 63"
    and ix: "length ix < 2 ^ 32" "list_all (\<lambda>ie. length (ie_key ie) < 2 ^ 32) ix"
    and bloom: "read_bloom bl buf (length (D @ encode_index ix)) = Ok b"
  shows "decode bl key sid buf
     = Ok \<lparr>sst_key = key, sst_id = sid, sst_index = ix, sst_bloom = b, sst_data = buf\<rparr>"
proof -
  let ?IX = "encode_index ix" and ?d = "word_of_nat (length D) :: u64"
  let ?i = "word_of_nat (length (D @ encode_index ix)) :: u64"
  let ?F = "encode_footer ?d ?i" and ?body = "D @ encode_index ix @ BL"
  have small: "length D < 2 ^ 63" "length (D @ ?IX) < 2 ^ 63" "length ?body < 2 ^ 62 * 2 - 32"
    using fits by (simp_all add: buf)
  have magic: "drop (length buf - 8) buf = SSTABLE_FORMAT_MAGIC"
    by (simp add: buf encode_footer_def SSTABLE_FORMAT_MAGIC_def)
  have start: "length buf - FOOTER_LEN = length ?body" "\<not> length buf < FOOTER_LEN"
    by (simp_all add: buf FOOTER_LEN_def)
  have f1: "read_u64 buf (length ?body + 8) = Ok ?d"
    using read_u64_chunk [of "length ?body + 8" "?body @ u64_to_be_bytes 0" "unat ?d"
        "u64_to_be_bytes ?i @ SSTABLE_FORMAT_MAGIC"] small
    by (simp add: buf encode_footer_def)
  have f2: "read_u64 buf (length ?body + 16) = Ok ?i"
    using read_u64_chunk [of "length ?body + 16" "?body @ u64_to_be_bytes 0 @ u64_to_be_bytes ?d"
        "unat ?i" "SSTABLE_FORMAT_MAGIC"] small
    by (simp add: buf encode_footer_def)
  have c: "read_u32 buf (length D) = Ok (len_u32 ix)"
    using read_u32_chunk [of "length D" D "unat (len_u32 ix)"
        "concat (map encode_index_entry ix) @ BL @ ?F"] small
    by (simp add: buf encode_index_def)
  have r: "read_index buf (length D + 4) (length ix) = Ok ix"
    using read_index_chunk [OF ix(2), of "D @ u32_to_be_bytes (len_u32 ix)" "BL @ ?F"] fits
    by (simp add: buf encode_index_def)
  show ?thesis
    unfolding decode_def magic start Let_def f1 f2 and_then.simps
      unat_word_of_nat_small [OF small(1)] unat_word_of_nat_small [OF small(2)] c
      unat_len_u32 [OF ix(1)] r bloom
    using start(2) by simp
qed

lemma decode_build:
  assumes fits: "sst_fits bl es"
  defines "b \<equiv> bloom_of bl es"
  shows "decode bl key sid (build_bytes bl es)
     = Ok \<lparr>sst_key = key, sst_id = sid, sst_index = index_from 0 es,
           sst_bloom = bl_from_existing bl (bl_bitmap bl b) (bl_num_bits bl b) (bl_num_hashes bl b)
              (bl_sip_keys bl b),
           sst_data = build_bytes bl es\<rparr>"
proof -
  have "list_all (\<lambda>e. length (user_key (fst e)) < 2 ^ 32) es"
    using fits by (auto simp: sst_fits_def list_all_iff)
  then have ix: "list_all (\<lambda>ie. length (ie_key ie) < 2 ^ 32) (index_from 0 es)"
    by (rule index_from_keys)
  show ?thesis
  proof (rule decode_sections [OF build_bytes_eq])
    show "read_bloom bl (build_bytes bl es) (length (data_of es @ encode_index (index_from 0 es)))
      = Ok (bl_from_existing bl (bl_bitmap bl b) (bl_num_bits bl b) (bl_num_hashes bl b)
              (bl_sip_keys bl b))"
      using read_bloom_chunk [of bl b "data_of es @ encode_index (index_from 0 es)"] fits
      by (simp add: sst_fits_def build_bytes_eq b_def)
  qed (use fits ix in \<open>simp_all add: sst_fits_def\<close>)
qed

lemma bloom_ok_check:
  assumes "bloom_ok bl" and "e \<in> set es"
  defines "b \<equiv> bloom_of bl es"
  shows "bl_check bl (bl_from_existing bl (bl_bitmap bl b) (bl_num_bits bl b)
           (bl_num_hashes bl b) (bl_sip_keys bl b)) (user_key (fst e))"
proof -
  have "user_key (fst e) \<in> set (map (user_key \<circ> fst) es)" using assms(2) by auto
  with assms(1) show ?thesis unfolding bloom_ok_def b_def Let_def by blast
qed

lemma decode_build_holds:
  assumes fits: "sst_fits bl es" and "bloom_ok bl"
    and dec: "decode bl key sid (build_bytes bl es) = Ok sst"
  shows "sst_holds bl sst es"
proof -
  have "list_all2 (ie_for (build_bytes bl es)) es (index_from 0 es)"
    using index_from_for [of es "[]"] fits by (simp add: sst_fits_def build_bytes_eq)
  moreover have "list_all (\<lambda>e. bl_check bl (sst_bloom sst) (user_key (fst e))) es"
    using bloom_ok_check [OF assms(2)] dec unfolding decode_build [OF fits]
    by (auto simp: list_all_iff)
  ultimately show ?thesis using dec unfolding decode_build [OF fits] by (auto simp: sst_holds_def)
qed

text \<open>A Bloom filter of eight bits and one hash, the instance the examples use.\<close>

definition tiny_hash :: "bytes \<Rightarrow> nat" where
  "tiny_hash k = sum_list (map unat k) mod 8"

definition tiny_bloom :: "u8 bloom_ops" where
  "tiny_bloom = \<lparr>bl_new = (\<lambda>_. 0), bl_set = (\<lambda>k b. set_bit (tiny_hash k) b),
     bl_check = (\<lambda>b k. bit b (tiny_hash k)), bl_bitmap = (\<lambda>b. [b]),
     bl_num_bits = (\<lambda>_. 8), bl_num_hashes = (\<lambda>_. 1), bl_sip_keys = (\<lambda>_. ((0, 0), (0, 0))),
     bl_from_existing = (\<lambda>bits _ _ _. hd bits)\<rparr>"

lemma tiny_bloom_fold:
  "bit b (tiny_hash k) \<or> k \<in> set ks \<Longrightarrow> bit (fold (bl_set tiny_bloom) ks b) (tiny_hash k)"
proof (induction ks arbitrary: b)
  case Nil
  then show ?case by simp
next
  case (Cons k' ks)
  have "bit (set_bit (tiny_hash k') b) (tiny_hash k) \<or> k \<in> set ks"
    using Cons.prems by (auto simp: bit_set_bit_iff tiny_hash_def)
  then show ?case using Cons.IH by (simp add: tiny_bloom_def)
qed

lemma tiny_bloom_ok: "bloom_ok tiny_bloom"
  unfolding bloom_ok_def Let_def
  using tiny_bloom_fold by (simp add: tiny_bloom_def)

lemma tiny_bloom_bitmap [simp]: "length (bl_bitmap tiny_bloom b) = 1"
  by (simp add: tiny_bloom_def)

lemma length_encode_tiny [simp]: "length (encode_bloom tiny_bloom b) = 49"
  by (simp add: encode_bloom_def tiny_bloom_def)

text \<open>
  C15: Any sorted list of versions survives the SSTable format: building the bytes
  and decoding them succeeds, the version scan returns every entry in order with
  deletions as tombstones, and a point read at any snapshot returns exactly what the
  snapshot sees of the key in the list, through the Bloom filter and the binary
  search of the index.
\<close>

theorem sstable_round_trip:
  assumes "bloom_ok bl" and "sst_fits bl es" and "om_sorted es"
  shows "\<exists>sst. decode bl key sid (build_bytes bl es) = Ok sst
     \<and> scan_all_versions sst = Ok (map version_of es)
     \<and> (\<forall>k s. sst_read_at bl sst k s = Ok (visible es k s))"
proof -
  obtain sst where sst: "decode bl key sid (build_bytes bl es) = Ok sst"
    using decode_build [OF assms(2)] by blast
  then have "sst_holds bl sst es" by (rule decode_build_holds [OF assms(2,1)])
  with sst assms(3) scan_all_versions_holds sst_read_at_holds show ?thesis by blast
qed

theorem sstable_round_trip_witness:
  "\<exists>sst. decode tiny_bloom ''t'' 1 (build_bytes tiny_bloom
       [(InternalKey [1] 9 2, []), (InternalKey [1] 5 0, [42]), (InternalKey [1, 0] 7 0, [])]) = Ok sst
     \<and> sst_read_at tiny_bloom sst [1] 6 = Ok (Some (Some [42]))
     \<and> sst_read_at tiny_bloom sst [1] 9 = Ok (Some None)
     \<and> sst_read_at tiny_bloom sst [1, 0] 6 = Ok None"
proof -
  let ?es = "[(InternalKey [1] 9 2, []), (InternalKey [1] 5 0, [42]), (InternalKey [1, 0] 7 0, [])]"
  have "om_sorted ?es" by (simp add: ik_less_iff)
  moreover have "sst_fits tiny_bloom ?es"
    by (simp add: sst_fits_def build_bytes_eq encode_data_def encode_index_def
        encode_index_entry_def is_delete_def DELETE_TAG_def)
  ultimately show ?thesis
    using sstable_round_trip [OF tiny_bloom_ok, of ?es "''t''" 1]
    by (auto simp: visible_def value_of_def is_delete_def DELETE_TAG_def)
qed

end
