(* ===== verification/Manifest.thy ===== *)
theory Manifest
  imports ObjectStore
begin

text \<open>
  The manifest, \<open>storage/manifest.rs\<close>, kept in the object store by conditional
  writes.  The bincode serialisation is a parameter; that decoding undoes encoding
  is the hypothesis about it.
\<close>

record Manifest =
  mf_sstable_ids :: "u64 list"
  mf_wal_segment_seq :: u64
  mf_writer_fencing_token :: u64
  mf_max_commit_seq :: u64

record ManifestV0 =
  v0_sstable_ids :: "u64 list"
  v0_wal_segment_seq :: u64
  v0_writer_fencing_token :: u64

definition from_v0 :: "ManifestV0 \<Rightarrow> Manifest" where
  "from_v0 v0 = \<lparr>mf_sstable_ids = v0_sstable_ids v0, mf_wal_segment_seq = v0_wal_segment_seq v0,
     mf_writer_fencing_token = v0_writer_fencing_token v0, mf_max_commit_seq = 0\<rparr>"

definition manifest_default :: Manifest where
  "manifest_default = \<lparr>mf_sstable_ids = [], mf_wal_segment_seq = 0,
     mf_writer_fencing_token = 0, mf_max_commit_seq = 0\<rparr>"

definition MANIFEST_KEY :: string where
  "MANIFEST_KEY = ''manifest.bin''"

record manifest_codec =
  mc_serialize :: "Manifest \<Rightarrow> bytes option"
  mc_deserialize :: "bytes \<Rightarrow> Manifest option"
  mc_deserialize_v0 :: "bytes \<Rightarrow> ManifestV0 option"

datatype manifest_error = ManifestIo | ManifestCorrupt

definition manifest_load ::
  "manifest_codec \<Rightarrow> 's object_store \<Rightarrow> 's
     \<Rightarrow> (manifest_error, (Manifest \<times> string) option) result \<times> 's" where
  "manifest_load mc store st =
     (case os_get store MANIFEST_KEY st of
        (Inl _, st) \<Rightarrow> (Err ManifestIo, st)
      | (Inr None, st) \<Rightarrow> (Ok None, st)
      | (Inr (Some (bytes, meta)), st) \<Rightarrow>
          (case mc_deserialize mc bytes of
             Some m \<Rightarrow> (Ok (Some (m, om_etag meta)), st)
           | None \<Rightarrow>
               (case mc_deserialize_v0 mc bytes of
                  Some v0 \<Rightarrow> (Ok (Some (from_v0 v0, om_etag meta)), st)
                | None \<Rightarrow> (Err ManifestCorrupt, st))))"

definition save_cas ::
  "manifest_codec \<Rightarrow> 's object_store \<Rightarrow> Manifest \<Rightarrow> string option \<Rightarrow> 's
     \<Rightarrow> (CasError, string) result \<times> 's" where
  "save_cas mc store manifest expected_etag st =
     (case mc_serialize mc manifest of
        None \<Rightarrow> (Err Other, st)
      | Some bytes \<Rightarrow>
          (case os_put_if_match store MANIFEST_KEY bytes expected_etag st of
             (Inl e, st) \<Rightarrow> (Err e, st)
           | (Inr meta, st) \<Rightarrow> (Ok (om_etag meta), st)))"

text \<open>Documented behaviour of the serialisation: decoding undoes encoding.\<close>

definition manifest_codec_ok :: "manifest_codec \<Rightarrow> bool" where
  "manifest_codec_ok mc \<longleftrightarrow> (\<forall>m b. mc_serialize mc m = Some b \<longrightarrow> mc_deserialize mc b = Some m)"

context cas_store begin

lemma save_cas_ok:
  assumes "invar st" and "save_cas mc ops m exp st = (Inr etag, st')"
  shows "\<exists>b. mc_serialize mc m = Some b \<and> exp = etag_at hash (objs st (norm MANIFEST_KEY))
     \<and> etag = hash b \<and> objs st' = (objs st)(norm MANIFEST_KEY \<mapsto> b) \<and> invar st'"
  using assms cas_ok [OF assms(1)]
  by (auto simp: save_cas_def meta_of_def split: option.splits prod.splits sum.splits)
     (metis ObjectMeta.select_convs(1))+

lemma load_after_save:
  assumes "manifest_codec_ok mc" and "invar st" and "save_cas mc ops m exp st = (Inr etag, st1)"
    and "manifest_load mc ops st1 = (Inr r, st2)"
  shows "r = Some (m, etag)"
proof -
  obtain b where b: "mc_serialize mc m = Some b" "etag = hash b" "invar st1"
      "objs st1 (norm MANIFEST_KEY) = Some b"
    using save_cas_ok [OF assms(2,3)] by auto
  have "mc_deserialize mc b = Some m" using assms(1) b(1) by (simp add: manifest_codec_ok_def)
  moreover obtain g sg where g: "os_get ops MANIFEST_KEY st1 = (g, sg)" by force
  moreover have "g = Inr x \<Longrightarrow> x = Some (b, meta_of hash b)" for x
    using get_ok [OF b(3), of MANIFEST_KEY x sg] g b(4) by simp
  ultimately show ?thesis
    using assms(4) b(2) by (cases g) (auto simp: manifest_load_def meta_of_def)
qed

text \<open>A writer whose view of the manifest is out of date cannot advance it.\<close>

lemma save_cas_stale:
  assumes "invar st" and "save_cas mc ops m1 exp st = (Inr e1, st1)" and "exp \<noteq> Some e1"
  shows "save_cas mc ops m2 exp st1 \<noteq> (Inr e2, st2)"
proof
  assume "save_cas mc ops m2 exp st1 = (Inr e2, st2)"
  with save_cas_ok [OF assms(1,2)] save_cas_ok [of st1 mc m2 exp e2 st2] assms(3)
  show False by (auto simp: etag_at_def)
qed

end

end
