(* ===== verification/Lease.thy ===== *)
theory Lease
  imports ObjectStore
begin

text \<open>
  The write lease, \<open>storage/lease.rs\<close>: an object with the holder, a fencing token
  and an expiry time, taken and renewed by conditional writes.  Any number of nodes
  run against one store; the theory proves that no two of them ever get the same
  fencing token.  The serialisation is a parameter.
\<close>

record Lease =
  le_holder_id :: string
  le_fencing_token :: u64
  le_expires_at_ms :: u64

record lease_codec =
  lc_serialize :: "Lease \<Rightarrow> bytes"
  lc_deserialize :: "bytes \<Rightarrow> Lease option"

text \<open>The manager's fields, with those of its handle; \<open>lm_etag\<close> is \<open>current_etag\<close>.\<close>

record LeaseManager =
  lm_key :: string
  lm_holder_id :: string
  lm_ttl_ms :: u64
  lm_token :: u64
  lm_valid :: bool
  lm_etag :: "string option"

datatype lease_error = LeaseStore | LeaseCorrupt | LeaseHeld Lease | LeaseCas CasError

definition lease_manager_new :: "string \<Rightarrow> string \<Rightarrow> u64 \<Rightarrow> LeaseManager" where
  "lease_manager_new keyspace holder_id ttl =
     \<lparr>lm_key = ''_lease/'' @ keyspace, lm_holder_id = holder_id, lm_ttl_ms = ttl,
      lm_token = 0, lm_valid = False, lm_etag = None\<rparr>"

text \<open>The clock readings of the two calls of \<open>now_ms\<close> are arguments.\<close>

definition lease_write ::
  "lease_codec \<Rightarrow> 's object_store \<Rightarrow> u64 \<Rightarrow> u64 \<Rightarrow> string option \<Rightarrow> LeaseManager \<Rightarrow> 's
     \<Rightarrow> (CasError, ObjectMeta) result \<times> 's" where
  "lease_write lc store now token expected_etag lm st =
     os_put_if_match store (lm_key lm)
       (lc_serialize lc \<lparr>le_holder_id = lm_holder_id lm, le_fencing_token = token,
                         le_expires_at_ms = now + lm_ttl_ms lm\<rparr>) expected_etag st"

definition acquire_with ::
  "lease_codec \<Rightarrow> 's object_store \<Rightarrow> u64 \<Rightarrow> string option \<Rightarrow> u64 \<Rightarrow> LeaseManager \<Rightarrow> 's
     \<Rightarrow> (lease_error, unit) result \<times> LeaseManager \<times> 's" where
  "acquire_with lc store now expected_etag next_token lm st =
     (case lease_write lc store now next_token expected_etag lm st of
        (Inr meta, st) \<Rightarrow>
          (Ok (), lm\<lparr>lm_etag := Some (om_etag meta), lm_token := next_token, lm_valid := True\<rparr>, st)
      | (Inl e, st) \<Rightarrow> (Err (LeaseCas e), lm\<lparr>lm_valid := False\<rparr>, st))"

definition try_acquire ::
  "lease_codec \<Rightarrow> 's object_store \<Rightarrow> u64 \<Rightarrow> u64 \<Rightarrow> LeaseManager \<Rightarrow> 's
     \<Rightarrow> (lease_error, unit) result \<times> LeaseManager \<times> 's" where
  "try_acquire lc store now1 now2 lm st =
     (case os_get store (lm_key lm) st of
        (Inl _, st) \<Rightarrow> (Err LeaseStore, lm, st)
      | (Inr None, st) \<Rightarrow> acquire_with lc store now2 None 1 lm st
      | (Inr (Some (bytes, meta)), st) \<Rightarrow>
          (case lc_deserialize lc bytes of
             None \<Rightarrow> (Err LeaseCorrupt, lm, st)
           | Some existing \<Rightarrow>
               if \<not> le_expires_at_ms existing < now1 \<and> le_holder_id existing \<noteq> lm_holder_id lm
               then (Err (LeaseHeld existing), lm\<lparr>lm_valid := False\<rparr>, st)
               else acquire_with lc store now2 (Some (om_etag meta))
                      (le_fencing_token existing + 1) lm st))"

definition renew ::
  "lease_codec \<Rightarrow> 's object_store \<Rightarrow> u64 \<Rightarrow> u64 \<Rightarrow> LeaseManager \<Rightarrow> 's
     \<Rightarrow> (lease_error, unit) result \<times> LeaseManager \<times> 's" where
  "renew lc store now1 now2 lm st =
     (case lm_etag lm of
        None \<Rightarrow> try_acquire lc store now1 now2 lm st
      | Some expected_etag \<Rightarrow>
          (case lease_write lc store now1 (lm_token lm) (Some expected_etag) lm st of
             (Inr meta, st) \<Rightarrow> (Ok (), lm\<lparr>lm_etag := Some (om_etag meta)\<rparr>, st)
           | (Inl e, st) \<Rightarrow> (Err (LeaseCas e), lm\<lparr>lm_valid := False\<rparr>, st)))"

subsection \<open>What an attempt can do\<close>

fun stored_token :: "lease_codec \<Rightarrow> bytes option \<Rightarrow> u64" where
  "stored_token lc None = 0"
| "stored_token lc (Some b) =
     (case lc_deserialize lc b of Some l \<Rightarrow> le_fencing_token l | None \<Rightarrow> 0)"

definition lease_codec_ok :: "lease_codec \<Rightarrow> bool" where
  "lease_codec_ok lc \<longleftrightarrow> (\<forall>l. lc_deserialize lc (lc_serialize lc l) = Some l)"

text \<open>
  The effects of one call of \<open>try_acquire\<close> or \<open>renew\<close> on the lease object and on
  the caller: nothing but perhaps losing validity; a new lease with the next token,
  which the caller may or may not learn of; or the caller's own lease extended.
\<close>

inductive lease_effect ::
  "lease_codec \<Rightarrow> (bytes \<Rightarrow> string) \<Rightarrow> bytes option \<Rightarrow> LeaseManager \<Rightarrow> bytes option \<Rightarrow> LeaseManager \<Rightarrow> bool"
  for lc hash where
  unchanged: "lease_effect lc hash ob lm ob lm"
| refused: "lease_effect lc hash ob lm ob (lm\<lparr>lm_valid := False\<rparr>)"
| acquired: "le_fencing_token l = stored_token lc ob + 1 \<Longrightarrow>
    lease_effect lc hash ob lm (Some (lc_serialize lc l))
      (lm\<lparr>lm_etag := Some (hash (lc_serialize lc l)), lm_token := le_fencing_token l,
          lm_valid := True\<rparr>)"
| acquired_unseen: "le_fencing_token l = stored_token lc ob + 1 \<Longrightarrow>
    lease_effect lc hash ob lm (Some (lc_serialize lc l)) (lm\<lparr>lm_valid := False\<rparr>)"
| renewed: "ob = Some b \<Longrightarrow> lm_etag lm = Some (hash b) \<Longrightarrow> le_fencing_token l = lm_token lm \<Longrightarrow>
    lease_effect lc hash ob lm (Some (lc_serialize lc l))
      (lm\<lparr>lm_etag := Some (hash (lc_serialize lc l))\<rparr>)"
| renewed_unseen: "ob = Some b \<Longrightarrow> lm_etag lm = Some (hash b) \<Longrightarrow> le_fencing_token l = lm_token lm \<Longrightarrow>
    lease_effect lc hash ob lm (Some (lc_serialize lc l)) (lm\<lparr>lm_valid := False\<rparr>)"

context cas_store begin

text \<open>The conditional write of a lease, outcome by outcome.\<close>

lemma lease_write_cases:
  assumes "invar st" and "lease_write lc ops now token exp lm st = (r, st')"
  defines "ob \<equiv> objs st (norm (lm_key lm))"
  obtains (ok) l where "r = Ok (meta_of hash (lc_serialize lc l))" "le_fencing_token l = token"
      "exp = etag_at hash ob" "objs st' = (objs st)(norm (lm_key lm) \<mapsto> lc_serialize lc l)" "invar st'"
    | (unseen) l e where "r = Err e" "le_fencing_token l = token"
      "exp = etag_at hash ob" "objs st' = (objs st)(norm (lm_key lm) \<mapsto> lc_serialize lc l)" "invar st'"
    | (failed) e where "r = Err e" "objs st' = objs st" "invar st'"
proof -
  define l where "l = \<lparr>le_holder_id = lm_holder_id lm, le_fencing_token = token,
      le_expires_at_ms = now + lm_ttl_ms lm\<rparr>"
  have w: "os_put_if_match ops (lm_key lm) (lc_serialize lc l) exp st = (r, st')"
    using assms(2) by (simp add: lease_write_def l_def)
  have tok: "le_fencing_token l = token" by (simp add: l_def)
  show thesis
  proof (cases r)
    case (Inr m)
    with w cas_ok [OF assms(1), of "lm_key lm" "lc_serialize lc l" exp m st'] tok ok show ?thesis
      by (auto simp: ob_def)
  next
    case (Inl e)
    show ?thesis
    proof (cases e)
      case (Conflict cur)
      with w Inl cas_conflict [OF assms(1), of "lm_key lm" "lc_serialize lc l" exp cur st'] failed
      show ?thesis by auto
    next
      case Other
      with w Inl cas_other [OF assms(1), of "lm_key lm" "lc_serialize lc l" exp st']
        failed unseen tok
      show ?thesis by (auto simp: ob_def)
    qed
  qed
qed

lemma acquire_with_effect:
  assumes "invar st" and "acquire_with lc ops now exp token lm st = (r, lm', st')"
    and "exp = etag_at hash (objs st (norm (lm_key lm))) \<Longrightarrow>
           token = stored_token lc (objs st (norm (lm_key lm))) + 1"
  shows "lease_effect lc hash (objs st (norm (lm_key lm))) lm (objs st' (norm (lm_key lm))) lm' \<and> invar st'"
proof -
  obtain w st1 where w: "lease_write lc ops now token exp lm st = (w, st1)" by force
  from assms(1) w show ?thesis
  proof (cases rule: lease_write_cases)
    case (ok l)
    then show ?thesis using assms(2,3) w lease_effect.acquired [of l lc _ hash lm]
      by (auto simp: acquire_with_def meta_of_def)
  next
    case (unseen l e)
    then show ?thesis using assms(2,3) w lease_effect.acquired_unseen [of l lc _ hash lm]
      by (auto simp: acquire_with_def)
  next
    case (failed e)
    then show ?thesis using assms(2) w by (auto simp: acquire_with_def intro: lease_effect.refused)
  qed
qed

lemma try_acquire_effect:
  assumes "invar st" and "try_acquire lc ops now1 now2 lm st = (r, lm', st')"
  shows "lease_effect lc hash (objs st (norm (lm_key lm))) lm (objs st' (norm (lm_key lm))) lm' \<and> invar st'"
proof -
  let ?k = "lm_key lm"
  obtain g st1 where g: "os_get ops ?k st = (g, st1)" by force
  show ?thesis
  proof (cases g)
    case (Inl e)
    with g get_err [OF assms(1)] assms(2) show ?thesis
      by (auto simp: try_acquire_def intro: lease_effect.unchanged)
  next
    case (Inr ob)
    have ob: "ob = map_option (\<lambda>d. (d, meta_of hash d)) (objs st (norm ?k))"
        "objs st1 = objs st" "invar st1"
      using get_ok [OF assms(1), of ?k ob st1] g Inr by auto
    show ?thesis
    proof (cases "objs st (norm ?k)")
      case None
      with assms(2) g Inr ob acquire_with_effect [OF ob(3), of lc now2 None 1 lm r lm' st']
      show ?thesis by (auto simp: try_acquire_def)
    next
      case (Some b)
      with assms(2) g Inr ob
        acquire_with_effect [OF ob(3), of lc now2 "Some (hash b)" _ lm r lm' st']
      show ?thesis
        by (auto simp: try_acquire_def meta_of_def intro: lease_effect.refused
            lease_effect.unchanged split: option.splits if_splits)
    qed
  qed
qed

lemma renew_effect:
  assumes "invar st" and "renew lc ops now1 now2 lm st = (r, lm', st')"
  shows "lease_effect lc hash (objs st (norm (lm_key lm))) lm (objs st' (norm (lm_key lm))) lm' \<and> invar st'"
proof (cases "lm_etag lm")
  case None
  with assms try_acquire_effect show ?thesis by (simp add: renew_def)
next
  case (Some e)
  obtain w st1 where w: "lease_write lc ops now1 (lm_token lm) (Some e) lm st = (w, st1)" by force
  from assms(1) w show ?thesis
  proof (cases rule: lease_write_cases)
    case (ok l)
    then show ?thesis using assms(2) w Some lease_effect.renewed [of _ _ lm hash l lc]
      by (cases "objs st (norm (lm_key lm))") (auto simp: renew_def meta_of_def etag_at_def)
  next
    case (unseen l e)
    then show ?thesis using assms(2) w Some lease_effect.renewed_unseen [of _ _ lm hash l lc]
      by (cases "objs st (norm (lm_key lm))") (auto simp: renew_def etag_at_def)
  next
    case (failed e)
    then show ?thesis using assms(2) w Some by (auto simp: renew_def intro: lease_effect.refused)
  qed
qed

end

subsection \<open>Many nodes\<close>

text \<open>Runs of any number of nodes against one store, counted in attempts.\<close>

inductive lease_run ::
  "lease_codec \<Rightarrow> 's object_store \<Rightarrow> nat
     \<Rightarrow> (nat \<Rightarrow> LeaseManager) \<times> 's \<Rightarrow> (nat \<Rightarrow> LeaseManager) \<times> 's \<Rightarrow> bool"
  for lc store where
  start: "lease_run lc store 0 c c"
| acquire: "lease_run lc store n c (nodes, st) \<Longrightarrow>
    try_acquire lc store now1 now2 (nodes i) st = (r, lm', st') \<Longrightarrow>
    lease_run lc store (Suc n) c (nodes(i := lm'), st')"
| extend: "lease_run lc store n c (nodes, st) \<Longrightarrow>
    renew lc store now1 now2 (nodes i) st = (r, lm', st') \<Longrightarrow>
    lease_run lc store (Suc n) c (nodes(i := lm'), st')"

definition lease_inv ::
  "lease_codec \<Rightarrow> (bytes \<Rightarrow> string) \<Rightarrow> nat \<Rightarrow> bytes option \<Rightarrow> (nat \<Rightarrow> LeaseManager) \<Rightarrow> bool" where
  "lease_inv lc hash n ob nodes \<longleftrightarrow>
     (\<forall>b. ob = Some b \<longrightarrow> (\<exists>l. b = lc_serialize lc l)) \<and> unat (stored_token lc ob) \<le> n
   \<and> (\<forall>i. lm_token (nodes i) \<le> stored_token lc ob)
   \<and> (\<forall>i j. i \<noteq> j \<longrightarrow> lm_token (nodes i) = lm_token (nodes j) \<longrightarrow> lm_token (nodes i) = 0)
   \<and> (\<forall>i e. lm_etag (nodes i) = Some e \<longrightarrow>
        (\<exists>l. e = hash (lc_serialize lc l) \<and> le_fencing_token l = lm_token (nodes i)))"

lemma lease_inv_effect:
  assumes "lease_codec_ok lc" and "inj hash" and "Suc n < 2 ^ 64"
    and inv: "lease_inv lc hash n ob nodes"
    and "lease_effect lc hash ob (nodes i) ob' lm'"
  shows "lease_inv lc hash (Suc n) ob' (nodes(i := lm'))"
proof -
  have ob: "\<And>b. ob = Some b \<Longrightarrow> \<exists>l. b = lc_serialize lc l"
    and bound: "unat (stored_token lc ob) \<le> n"
    and below: "\<And>j. lm_token (nodes j) \<le> stored_token lc ob"
    and uniq: "\<And>j k. j \<noteq> k \<Longrightarrow> lm_token (nodes j) = lm_token (nodes k) \<Longrightarrow> lm_token (nodes j) = 0"
    and etag: "\<And>j e. lm_etag (nodes j) = Some e \<Longrightarrow>
        \<exists>l. e = hash (lc_serialize lc l) \<and> le_fencing_token l = lm_token (nodes j)"
    using inv unfolding lease_inv_def by blast+
  have st: "stored_token lc (Some (lc_serialize lc l)) = le_fencing_token l" for l
    using assms(1) by (simp add: lease_codec_ok_def)
  have fresh: "unat (le_fencing_token l) \<le> Suc n" "lm_token (nodes j) < le_fencing_token l"
    if "le_fencing_token l = stored_token lc ob + 1" for l :: Lease and j
  proof -
    have t: "unat (le_fencing_token l) = unat (stored_token lc ob) + 1"
      using unat_Suc_u64 [OF bound assms(3)] that by simp
    with bound show "unat (le_fencing_token l) \<le> Suc n" by simp
    from t below [of j] show "lm_token (nodes j) < le_fencing_token l"
      by (simp add: word_less_nat_alt word_le_nat_alt)
  qed
  have own: "le_fencing_token l = stored_token lc ob"
    if "ob = Some b" "lm_etag (nodes i) = Some (hash b)" "le_fencing_token l = lm_token (nodes i)" for b l
  proof -
    note h = that
    obtain l' where l': "hash b = hash (lc_serialize lc l')" "le_fencing_token l' = lm_token (nodes i)"
      using etag [OF h(2)] by blast
    then have "b = lc_serialize lc l'" using assms(2) by (simp add: inj_eq)
    with l' h(1,3) st [of l'] show ?thesis by simp
  qed
  from assms(5) show ?thesis
  proof cases
    case (acquired l)
    have "\<forall>j. lm_token (nodes j) \<noteq> le_fencing_token l"
      using fresh(2) [OF acquired(3)] by (simp add: less_le)
    then show ?thesis
      unfolding lease_inv_def acquired(1,2) st using fresh [OF acquired(3)] uniq etag
      by (auto simp: less_le)
  next
    case (acquired_unseen l)
    then show ?thesis
      unfolding lease_inv_def acquired_unseen(1,2) st using fresh [OF acquired_unseen(3)] uniq etag
      by (auto simp: less_le)
  next
    case (renewed b l)
    then show ?thesis
      unfolding lease_inv_def renewed(1,2) st using own [OF renewed(3-5)] bound below uniq etag
      by auto
  next
    case (renewed_unseen b l)
    then show ?thesis
      unfolding lease_inv_def renewed_unseen(1,2) st
      using own [OF renewed_unseen(3-5)] bound below uniq etag by auto
  qed (use inv in \<open>auto simp: lease_inv_def split: if_splits\<close>)
qed

context cas_store begin

lemma lease_run_inv:
  assumes "lease_run lc ops n (nodes0, st0) (nodes, st)"
    and "lease_codec_ok lc" and "inj hash" and "n < 2 ^ 64"
    and "invar st0" and "objs st0 (norm K) = None"
    and "\<And>i. lm_key (nodes0 i) = K \<and> lm_token (nodes0 i) = 0 \<and> lm_etag (nodes0 i) = None"
  shows "lease_inv lc hash n (objs st (norm K)) nodes \<and> invar st \<and> (\<forall>i. lm_key (nodes i) = K)"
  using assms
proof (induction n "(nodes0, st0)" "(nodes, st)" arbitrary: nodes st rule: lease_run.induct)
  case start
  then show ?case by (simp add: lease_inv_def)
next
  case (acquire n nodes st now1 now2 i r lm' st')
  then have IH: "lease_inv lc hash n (objs st (norm K)) nodes" "invar st" "\<forall>i. lm_key (nodes i) = K"
    by simp_all
  have "lease_effect lc hash (objs st (norm K)) (nodes i) (objs st' (norm K)) lm'" "invar st'"
    using try_acquire_effect [OF IH(2) acquire(3)] IH(3) by simp_all
  moreover have "lm_key lm' = K"
    using calculation(1) IH(3) by (cases rule: lease_effect.cases) auto
  ultimately show ?case
    using lease_inv_effect [OF acquire(4,5) _ IH(1)] acquire(6) IH(3) by simp
next
  case (extend n nodes st now1 now2 i r lm' st')
  then have IH: "lease_inv lc hash n (objs st (norm K)) nodes" "invar st" "\<forall>i. lm_key (nodes i) = K"
    by simp_all
  have "lease_effect lc hash (objs st (norm K)) (nodes i) (objs st' (norm K)) lm'" "invar st'"
    using renew_effect [OF IH(2) extend(3)] IH(3) by simp_all
  moreover have "lm_key lm' = K"
    using calculation(1) IH(3) by (cases rule: lease_effect.cases) auto
  ultimately show ?case
    using lease_inv_effect [OF extend(4,5) _ IH(1)] extend(6) IH(3) by simp
qed

end


text \<open>A serialisation and a hash that meet the hypotheses, for the example run.\<close>

definition example_lease_codec :: lease_codec where
  "example_lease_codec =
     \<lparr>lc_serialize = (\<lambda>l. u64_to_be_bytes (le_fencing_token l) @ u64_to_be_bytes (le_expires_at_ms l)
         @ map (\<lambda>c. word_of_nat (of_char c)) (le_holder_id l)),
      lc_deserialize = (\<lambda>b. Some \<lparr>le_holder_id = map (\<lambda>w. char_of (unat w)) (drop 16 b),
         le_fencing_token = u64_from_be_bytes (take 8 b),
         le_expires_at_ms = u64_from_be_bytes (take 8 (drop 8 b))\<rparr>)\<rparr>"

definition example_hash :: "bytes \<Rightarrow> string" where
  "example_hash b = map (\<lambda>w. char_of (unat w)) b"

lemma unat_of_char [simp]: "unat (word_of_nat (of_char c) :: u8) = of_char c"
  using nat_of_char_less_256 [of c] by (simp add: unat_of_nat)

lemma example_lease_codec_ok: "lease_codec_ok example_lease_codec"
  by (simp add: lease_codec_ok_def example_lease_codec_def comp_def)

lemma inj_example_hash: "inj example_hash"
proof (rule inj_on_inverseI)
  show "map (\<lambda>c. word_of_nat (of_char c)) (example_hash b) = b" for b
    by (simp add: example_hash_def comp_def unat_u8_less)
qed


end
