(* ===== verification/Lsm.thy ===== *)
theory Lsm
  imports Wal SSTable Manifest Lease
begin

text \<open>
  The storage engine, \<open>storage/lsm.rs\<close> from line 147: object keys, the write
  path, snapshots, reads and scans, flush, compaction, recovery and refresh.  The
  engine is a record; the lease handle, the environment variables, the device's
  outcome of a log append and the object store's state are arguments.
\<close>

subsection \<open>Object keys\<close>

definition DEFAULT_SST_SHARD_COUNT :: u64 where
  "DEFAULT_SST_SHARD_COUNT = 256"

definition DEFAULT_COMPACTION_SSTABLE_THRESHOLD :: nat where
  "DEFAULT_COMPACTION_SSTABLE_THRESHOLD = 4"

definition digit_char :: "nat \<Rightarrow> char" where
  "digit_char d = (if d < 10 then char_of (48 + d) else char_of (87 + d))"

fun show_base :: "nat \<Rightarrow> nat \<Rightarrow> string" where
  "show_base b n =
     (if b < 2 \<or> n < b then [digit_char n] else show_base b (n div b) @ [digit_char (n mod b)])"

declare show_base.simps [simp del]

definition pad_left :: "nat \<Rightarrow> string \<Rightarrow> string" where
  "pad_left width s = replicate (width - length s) (CHR ''0'') @ s"

text \<open>
  The first argument is \<open>TPT_SST_SHARD_COUNT\<close>, the default when it is unset or not
  a number.  The width \<open>log10(n - 1).floor() + 1\<close> is the number of decimal digits.
\<close>

definition sst_shard :: "u64 \<Rightarrow> u64 \<Rightarrow> string" where
  "sst_shard n sid =
     (if n \<le> 1 then ''''
      else
        let width = length (show_base 10 (max (unat n - 1) 1));
            shard = (unat sid mod unat n) mod 2 ^ 32
        in pad_left width (show_base 16 shard) @ ''/'')"

definition sstable_key :: "u64 \<Rightarrow> u64 \<Rightarrow> string" where
  "sstable_key n sid = ''sst/'' @ sst_shard n sid @ pad_left 20 (show_base 10 (unat sid))"

definition wal_segment_key :: "u64 \<Rightarrow> u64 \<Rightarrow> string" where
  "wal_segment_key n sid = ''wal/'' @ sst_shard n sid @ ''seg_'' @ pad_left 20 (show_base 10 (unat sid))"

subsection \<open>State\<close>

record ('b, 's) lsm_env =
  env_bloom :: "'b bloom_ops"
  env_store :: "'s object_store"
  env_codec :: manifest_codec
  env_shard_count :: u64
  env_compaction_threshold :: nat

record LeaseHandle =
  lh_token :: u64
  lh_valid :: bool

record PendingFlush =
  pf_entries :: "(InternalKey \<times> bytes) list"
  pf_sstable_id :: u64
  pf_sst_key :: string

record 'b PendingCompaction =
  pc_sstables :: "'b SSTable list"
  pc_watermark :: u64
  pc_new_id :: u64
  pc_new_key :: string

record WriteState =
  ws_wal :: Wal
  ws_sstable_id :: u64
  ws_wal_seg_id :: u64
  ws_manifest_etag :: "string option"
  ws_committed_wal_segment_seq :: u64
  ws_next_commit_seq :: u64
  ws_open_snapshots :: "(u64 \<times> u32) list"

record 'b EngineView =
  ev_memtable :: MemTable
  ev_immutable :: "MemTable option"
  ev_sstables :: "'b SSTable list"

record 'b LsmEngine =
  eng_write :: WriteState
  eng_view :: "'b EngineView"

datatype lsm_error =
    Fenced | WalFailed wal_error | SstFailed sst_error | ManifestFailed manifest_error
  | CasFailed CasError | StorePutFailed

subsection \<open>Snapshots\<close>

definition current_seq :: "'b LsmEngine \<Rightarrow> u64" where
  "current_seq eng = ws_next_commit_seq (eng_write eng) - 1"

definition count_snapshot :: "u64 \<Rightarrow> (u64 \<times> u32) list \<Rightarrow> (u64 \<times> u32) list" where
  "count_snapshot seq snaps =
     om_insert seq ((case om_get snaps seq of None \<Rightarrow> 0 | Some c \<Rightarrow> c) + 1) snaps"

definition register_snapshot :: "u64 \<Rightarrow> 'b LsmEngine \<Rightarrow> 'b LsmEngine" where
  "register_snapshot seq eng =
     eng\<lparr>eng_write := (eng_write eng)\<lparr>ws_open_snapshots :=
           count_snapshot seq (ws_open_snapshots (eng_write eng))\<rparr>\<rparr>"

definition snapshot_now :: "'b LsmEngine \<Rightarrow> u64 \<times> 'b LsmEngine" where
  "snapshot_now eng = (let seq = current_seq eng in (seq, register_snapshot seq eng))"

definition release_snapshot :: "u64 \<Rightarrow> 'b LsmEngine \<Rightarrow> 'b LsmEngine" where
  "release_snapshot seq eng =
     (let ws = eng_write eng in
      case om_get (ws_open_snapshots ws) seq of
        None \<Rightarrow> eng
      | Some count \<Rightarrow>
          let count = count - 1;
              snaps = (if count = 0 then om_remove seq (ws_open_snapshots ws)
                       else om_insert seq count (ws_open_snapshots ws))
          in eng\<lparr>eng_write := ws\<lparr>ws_open_snapshots := snaps\<rparr>\<rparr>)"

subsection \<open>Flush, first half, and writes\<close>

definition begin_flush ::
  "('b, 's) lsm_env \<Rightarrow> LeaseHandle \<Rightarrow> 'b LsmEngine
     \<Rightarrow> (lsm_error, PendingFlush option) result \<times> 'b LsmEngine" where
  "begin_flush env lease eng =
     (if \<not> lh_valid lease then (Err Fenced, eng)
      else
        let old_view = eng_view eng;
            eng = eng\<lparr>eng_view := \<lparr>ev_memtable = memtable_new MEMTABLE_MAX_SIZE,
                                   ev_immutable = Some (ev_memtable old_view),
                                   ev_sstables = ev_sstables old_view\<rparr>\<rparr>;
            entries = to_entries (ev_memtable old_view)
        in if entries = [] then (Ok None, eng)
           else
             let ws = eng_write eng; sid = ws_sstable_id ws in
             (Ok (Some \<lparr>pf_entries = entries, pf_sstable_id = sid,
                        pf_sst_key = sstable_key (env_shard_count env) sid\<rparr>),
              eng\<lparr>eng_write := ws\<lparr>ws_sstable_id := sid + 1\<rparr>\<rparr>))"

type_synonym batch_entry = "bytes \<times> bytes \<times> bytes option"

definition wal_entry_of :: "batch_entry \<Rightarrow> wal_entry" where
  "wal_entry_of e = (case e of
     (table, key, Some v) \<Rightarrow> (table, key, v, PUT_TAG)
   | (table, key, None) \<Rightarrow> (table, key, [], DELETE_TAG))"

definition insert_entry :: "u64 \<Rightarrow> batch_entry \<Rightarrow> MemTable \<Rightarrow> MemTable" where
  "insert_entry commit_seq e mt = (case e of
     (_, key, Some v) \<Rightarrow> memtable_insert key commit_seq v PUT_TAG mt
   | (_, key, None) \<Rightarrow> memtable_insert key commit_seq [] DELETE_TAG mt)"

definition write_batch ::
  "('b, 's) lsm_env \<Rightarrow> LeaseHandle \<Rightarrow> nat option \<Rightarrow> batch_entry list \<Rightarrow> 'b LsmEngine
     \<Rightarrow> (lsm_error, u64 \<times> PendingFlush option) result \<times> 'b LsmEngine" where
  "write_batch env lease fault entries eng =
     (let ws = eng_write eng;
          commit_seq = ws_next_commit_seq ws;
          ws = ws\<lparr>ws_next_commit_seq := commit_seq + 1\<rparr>
      in case append_batch fault commit_seq (map wal_entry_of entries) (ws_wal ws) of
           (Inl e, wal) \<Rightarrow> (Err (WalFailed e), eng\<lparr>eng_write := ws\<lparr>ws_wal := wal\<rparr>\<rparr>)
         | (Inr _, wal) \<Rightarrow>
             let mt = fold (insert_entry commit_seq) entries (ev_memtable (eng_view eng));
                 eng = eng\<lparr>eng_write := ws\<lparr>ws_wal := wal\<rparr>,
                           eng_view := (eng_view eng)\<lparr>ev_memtable := mt\<rparr>\<rparr>
             in if is_full mt then
                  (case begin_flush env lease eng of
                     (Inl e, eng) \<Rightarrow> (Err e, eng)
                   | (Inr pending, eng) \<Rightarrow> (Ok (commit_seq, pending), eng))
                else (Ok (commit_seq, None), eng))"

definition lsm_write ::
  "('b, 's) lsm_env \<Rightarrow> LeaseHandle \<Rightarrow> nat option \<Rightarrow> bytes \<Rightarrow> bytes \<Rightarrow> bytes \<Rightarrow> 'b LsmEngine
     \<Rightarrow> (lsm_error, PendingFlush option) result \<times> 'b LsmEngine" where
  "lsm_write env lease fault table key value eng =
     (case write_batch env lease fault [(table, key, Some value)] eng of
        (Inl e, eng) \<Rightarrow> (Err e, eng) | (Inr (_, pending), eng) \<Rightarrow> (Ok pending, eng))"

definition lsm_delete ::
  "('b, 's) lsm_env \<Rightarrow> LeaseHandle \<Rightarrow> nat option \<Rightarrow> bytes \<Rightarrow> bytes \<Rightarrow> 'b LsmEngine
     \<Rightarrow> (lsm_error, PendingFlush option) result \<times> 'b LsmEngine" where
  "lsm_delete env lease fault table key eng =
     (case write_batch env lease fault [(table, key, None)] eng of
        (Inl e, eng) \<Rightarrow> (Err e, eng) | (Inr (_, pending), eng) \<Rightarrow> (Ok pending, eng))"

subsection \<open>Reads and scans\<close>

fun read_sstables ::
  "'b bloom_ops \<Rightarrow> 'b SSTable list \<Rightarrow> bytes \<Rightarrow> u64 \<Rightarrow> (sst_error, bytes option) result" where
  "read_sstables bl [] key s = Ok None"
| "read_sstables bl (sst # ssts) key s =
     and_then (sst_read_at bl sst key s) (\<lambda>found.
     case found of Some v \<Rightarrow> Ok v | None \<Rightarrow> read_sstables bl ssts key s)"

definition read_at ::
  "('b, 's) lsm_env \<Rightarrow> 'b LsmEngine \<Rightarrow> bytes \<Rightarrow> u64 \<Rightarrow> (sst_error, bytes option) result" where
  "read_at env eng key snapshot_seq =
     (let snap = eng_view eng in
      case get_at (ev_memtable snap) key snapshot_seq of
        Some v \<Rightarrow> Ok v
      | None \<Rightarrow>
          (case Option.bind (ev_immutable snap) (\<lambda>imm. get_at imm key snapshot_seq) of
             Some v \<Rightarrow> Ok v
           | None \<Rightarrow> read_sstables (env_bloom env) (rev (ev_sstables snap)) key snapshot_seq))"

definition lsm_read ::
  "('b, 's) lsm_env \<Rightarrow> 'b LsmEngine \<Rightarrow> bytes \<Rightarrow> (sst_error, bytes option) result" where
  "lsm_read env eng key = read_at env eng key (current_seq eng)"

type_synonym merged = "(bytes \<times> bytes option) list"

definition overlay :: "(bytes \<times> bytes option) list \<Rightarrow> merged \<Rightarrow> merged" where
  "overlay kvs merged = fold (\<lambda>(k, v). om_insert k v) kvs merged"

fun overlay_sstables :: "'b SSTable list \<Rightarrow> u64 \<Rightarrow> merged \<Rightarrow> (sst_error, merged) result" where
  "overlay_sstables [] s merged = Ok merged"
| "overlay_sstables (sst # ssts) s merged =
     and_then (scan_all_versions sst) (\<lambda>versions.
     overlay_sstables ssts s (overlay (first_visible_per_key versions s) merged))"

definition live_entries :: "merged \<Rightarrow> (bytes \<times> bytes) list" where
  "live_entries merged = List.map_filter (\<lambda>(k, v). map_option (Pair k) v) merged"

definition scan_at :: "'b LsmEngine \<Rightarrow> u64 \<Rightarrow> (sst_error, (bytes \<times> bytes) list) result" where
  "scan_at eng snapshot_seq =
     (let snap = eng_view eng in
      and_then (overlay_sstables (ev_sstables snap) snapshot_seq []) (\<lambda>merged.
      let merged = (case ev_immutable snap of
            None \<Rightarrow> merged
          | Some imm \<Rightarrow> overlay (first_visible_per_key (iter_versions imm) snapshot_seq) merged);
          merged = overlay (first_visible_per_key (iter_versions (ev_memtable snap)) snapshot_seq) merged
      in Ok (live_entries merged)))"

definition lsm_scan :: "'b LsmEngine \<Rightarrow> (sst_error, (bytes \<times> bytes) list) result" where
  "lsm_scan eng = scan_at eng (current_seq eng)"

end
