(* ===== verification/Compaction.thy ===== *)
theory Compaction
  imports Lsm
begin

text \<open>
  The second half of the engine, \<open>storage/lsm.rs\<close> lines 628-987: committing a
  flush, merging SSTables, recovery, refresh of a reader node, and the statistics.
\<close>

subsection \<open>Committing a flush\<close>

definition finish_flush ::
  "('b, 's) lsm_env \<Rightarrow> PendingFlush \<Rightarrow> 's \<Rightarrow> (sst_error, 'b SSTable) result \<times> 's" where
  "finish_flush env pending st =
     create_in_store (env_bloom env) (env_store env) (pf_sst_key pending) (pf_sstable_id pending)
       (pf_entries pending) st"

definition begin_compact ::
  "('b, 's) lsm_env \<Rightarrow> LeaseHandle \<Rightarrow> 'b LsmEngine
     \<Rightarrow> (lsm_error, 'b PendingCompaction option) result \<times> 'b LsmEngine" where
  "begin_compact env lease eng =
     (let view = eng_view eng; ws = eng_write eng in
      if length (ev_sstables view) < 2 then (Ok None, eng)
      else if \<not> lh_valid lease then (Err Fenced, eng)
      else
        let watermark = (case ws_open_snapshots ws of [] \<Rightarrow> - 1 | (s, _) # _ \<Rightarrow> s);
            new_id = ws_sstable_id ws
        in (Ok (Some \<lparr>pc_sstables = ev_sstables view, pc_watermark = watermark,
                      pc_new_id = new_id,
                      pc_new_key = sstable_key (env_shard_count env) new_id\<rparr>),
            eng\<lparr>eng_write := ws\<lparr>ws_sstable_id := new_id + 1\<rparr>\<rparr>))"

definition ship_wal ::
  "('b, 's) lsm_env \<Rightarrow> WriteState \<Rightarrow> 's \<Rightarrow> (lsm_error, unit) result \<times> 's" where
  "ship_wal env ws st =
     (let wal_bytes = read_all_bytes (ws_wal ws) in
      if wal_bytes = [] then (Ok (), st)
      else case os_put (env_store env)
                  (wal_segment_key (env_shard_count env) (ws_wal_seg_id ws)) wal_bytes st of
             (Inl _, st) \<Rightarrow> (Err StorePutFailed, st)
           | (Inr _, st) \<Rightarrow> (Ok (), st))"

definition commit_flush ::
  "('b, 's) lsm_env \<Rightarrow> LeaseHandle \<Rightarrow> PendingFlush \<Rightarrow> 'b SSTable \<Rightarrow> 'b LsmEngine \<Rightarrow> 's
     \<Rightarrow> (lsm_error, 'b PendingCompaction option) result \<times> 'b LsmEngine \<times> 's" where
  "commit_flush env lease pending sst eng st =
     (let ws = eng_write eng in
      case ship_wal env ws st of
        (Inl e, st) \<Rightarrow> (Err e, eng, st)
      | (Inr _, st) \<Rightarrow>
          let current_view = eng_view eng;
              new_manifest =
                \<lparr>mf_sstable_ids = map sst_id (ev_sstables current_view) @ [pf_sstable_id pending],
                 mf_wal_segment_seq = ws_wal_seg_id ws,
                 mf_writer_fencing_token = lh_token lease,
                 mf_max_commit_seq = ws_next_commit_seq ws - 1\<rparr>
          in case save_cas (env_codec env) (env_store env) new_manifest (ws_manifest_etag ws) st of
               (Inl e, st) \<Rightarrow> (Err (CasFailed e), eng, st)
             | (Inr new_etag, st) \<Rightarrow>
                 let new_sstables = ev_sstables current_view @ [sst];
                     ws = ws\<lparr>ws_manifest_etag := Some new_etag,
                             ws_committed_wal_segment_seq := ws_wal_seg_id ws,
                             ws_wal_seg_id := ws_wal_seg_id ws + 1,
                             ws_wal := wal_truncate (ws_wal ws)\<rparr>;
                     eng = \<lparr>eng_write = ws,
                            eng_view = \<lparr>ev_memtable = ev_memtable current_view,
                                        ev_immutable = None, ev_sstables = new_sstables\<rparr>\<rparr>
                 in if length new_sstables \<ge> env_compaction_threshold env then
                      (case begin_compact env lease eng of (r, eng) \<Rightarrow> (r, eng, st))
                    else (Ok None, eng, st))"

subsection \<open>Merging\<close>

type_synonym key_versions = "(u64 \<times> u8 \<times> bytes option) list"

definition push_version :: "version \<Rightarrow> (bytes \<times> key_versions) list \<Rightarrow> (bytes \<times> key_versions) list" where
  "push_version ver by_key = (case ver of (key, seq, tag, value) \<Rightarrow>
     om_insert key ((case om_get by_key key of None \<Rightarrow> [] | Some vs \<Rightarrow> vs) @ [(seq, tag, value)]) by_key)"

fun collect_versions ::
  "'b SSTable list \<Rightarrow> (bytes \<times> key_versions) list \<Rightarrow> (sst_error, (bytes \<times> key_versions) list) result" where
  "collect_versions [] by_key = Ok by_key"
| "collect_versions (sst # ssts) by_key =
     and_then (scan_all_versions sst) (\<lambda>versions.
     collect_versions ssts (fold push_version versions by_key))"

text \<open>\<open>sort_by(|a, b| b.0.cmp(&a.0))\<close>: stable, highest sequence number first.\<close>

definition sort_newest_first :: "key_versions \<Rightarrow> key_versions" where
  "sort_newest_first vs = sort_key (\<lambda>v. - 1 - fst v) vs"

definition unwrap_or_default :: "bytes option \<Rightarrow> bytes" where
  "unwrap_or_default v = (case v of Some b \<Rightarrow> b | None \<Rightarrow> [])"

fun keep_versions :: "u64 \<Rightarrow> bytes \<Rightarrow> key_versions \<Rightarrow> (InternalKey \<times> bytes) list" where
  "keep_versions watermark key [] = []"
| "keep_versions watermark key ((seq, tag, value) # versions) =
     (if seq \<ge> watermark then
        (InternalKey key seq tag, unwrap_or_default value) # keep_versions watermark key versions
      else if \<not> (watermark = - 1 \<and> tag = DELETE_TAG) then
        [(InternalKey key seq tag, unwrap_or_default value)]
      else [])"

definition compact_entries :: "u64 \<Rightarrow> (bytes \<times> key_versions) list \<Rightarrow> (InternalKey \<times> bytes) list" where
  "compact_entries watermark by_key =
     sort_key fst (concat (map (\<lambda>(key, versions).
       keep_versions watermark key (sort_newest_first versions)) by_key))"

definition finish_compact ::
  "('b, 's) lsm_env \<Rightarrow> 'b PendingCompaction \<Rightarrow> 's \<Rightarrow> (sst_error, 'b SSTable) result \<times> 's" where
  "finish_compact env pending st =
     (case collect_versions (pc_sstables pending) [] of
        Inl e \<Rightarrow> (Err e, st)
      | Inr by_key \<Rightarrow>
          create_in_store (env_bloom env) (env_store env) (pc_new_key pending) (pc_new_id pending)
            (compact_entries (pc_watermark pending) by_key) st)"

text \<open>The best-effort deletes of the consumed objects; failures are only logged.\<close>

fun delete_objects :: "'s object_store \<Rightarrow> string list \<Rightarrow> 's \<Rightarrow> 's" where
  "delete_objects store [] st = st"
| "delete_objects store (k # ks) st = delete_objects store ks (snd (os_delete store k st))"

definition commit_compact ::
  "('b, 's) lsm_env \<Rightarrow> LeaseHandle \<Rightarrow> 'b PendingCompaction \<Rightarrow> 'b SSTable \<Rightarrow> 'b LsmEngine \<Rightarrow> 's
     \<Rightarrow> (lsm_error, unit) result \<times> 'b LsmEngine \<times> 's" where
  "commit_compact env lease pending new_sst eng st =
     (let ws = eng_write eng;
          consumed_ids = map sst_id (pc_sstables pending);
          current_view = eng_view eng;
          new_sstables =
            filter (\<lambda>s. sst_id s \<notin> set consumed_ids) (ev_sstables current_view) @ [new_sst];
          new_manifest =
            \<lparr>mf_sstable_ids = map sst_id new_sstables,
             mf_wal_segment_seq = ws_committed_wal_segment_seq ws,
             mf_writer_fencing_token = lh_token lease,
             mf_max_commit_seq = ws_next_commit_seq ws - 1\<rparr>
      in case save_cas (env_codec env) (env_store env) new_manifest (ws_manifest_etag ws) st of
           (Inl e, st) \<Rightarrow> (Err (CasFailed e), eng, st)
         | (Inr new_etag, st) \<Rightarrow>
             (Ok (),
              eng\<lparr>eng_write := ws\<lparr>ws_manifest_etag := Some new_etag\<rparr>,
                  eng_view := current_view\<lparr>ev_sstables := new_sstables\<rparr>\<rparr>,
              delete_objects (env_store env) (map sst_key (pc_sstables pending)) st))"

definition run_compaction ::
  "('b, 's) lsm_env \<Rightarrow> LeaseHandle \<Rightarrow> 'b PendingCompaction \<Rightarrow> 'b LsmEngine \<Rightarrow> 's
     \<Rightarrow> (lsm_error, unit) result \<times> 'b LsmEngine \<times> 's" where
  "run_compaction env lease pending eng st =
     (case finish_compact env pending st of
        (Inl e, st) \<Rightarrow> (Err (SstFailed e), eng, st)
      | (Inr sst, st) \<Rightarrow> commit_compact env lease pending sst eng st)"

definition compact_all ::
  "('b, 's) lsm_env \<Rightarrow> LeaseHandle \<Rightarrow> 'b LsmEngine \<Rightarrow> 's
     \<Rightarrow> (lsm_error, unit) result \<times> 'b LsmEngine \<times> 's" where
  "compact_all env lease eng st =
     (case begin_compact env lease eng of
        (Inl e, eng) \<Rightarrow> (Err e, eng, st)
      | (Inr None, eng) \<Rightarrow> (Ok (), eng, st)
      | (Inr (Some pending), eng) \<Rightarrow> run_compaction env lease pending eng st)"

definition lsm_flush ::
  "('b, 's) lsm_env \<Rightarrow> LeaseHandle \<Rightarrow> 'b LsmEngine \<Rightarrow> 's
     \<Rightarrow> (lsm_error, unit) result \<times> 'b LsmEngine \<times> 's" where
  "lsm_flush env lease eng st =
     (case begin_flush env lease eng of
        (Inl e, eng) \<Rightarrow> (Err e, eng, st)
      | (Inr None, eng) \<Rightarrow> (Ok (), eng, st)
      | (Inr (Some pending), eng) \<Rightarrow>
          (case finish_flush env pending st of
             (Inl e, st) \<Rightarrow> (Err (SstFailed e), eng, st)
           | (Inr sst, st) \<Rightarrow>
               (case commit_flush env lease pending sst eng st of
                  (Inl e, eng, st) \<Rightarrow> (Err e, eng, st)
                | (Inr None, eng, st) \<Rightarrow> (Ok (), eng, st)
                | (Inr (Some pc), eng, st) \<Rightarrow> run_compaction env lease pc eng st)))"

subsection \<open>Recovery and refresh\<close>

text \<open>Loading the SSTables of a manifest: a table that fails to load is skipped.\<close>

fun load_sstables ::
  "('b, 's) lsm_env \<Rightarrow> u64 list \<Rightarrow> 's \<Rightarrow> 'b SSTable list \<times> 's" where
  "load_sstables env [] st = ([], st)"
| "load_sstables env (sid # ids) st =
     (case open_from_store (env_bloom env) (env_store env)
             (sstable_key (env_shard_count env) sid) sid st of
        (Inl _, st) \<Rightarrow> load_sstables env ids st
      | (Inr sst, st) \<Rightarrow> (case load_sstables env ids st of (ssts, st) \<Rightarrow> (sst # ssts, st)))"

definition insert_record :: "WalRecord \<Rightarrow> MemTable \<Rightarrow> MemTable" where
  "insert_record r mt = memtable_insert (wr_key r) (wr_seq r) (wr_value r) (wr_record_type r) mt"

definition lsm_open ::
  "('b, 's) lsm_env \<Rightarrow> bytes \<Rightarrow> 's \<Rightarrow> (lsm_error, 'b LsmEngine) result \<times> 's" where
  "lsm_open env wal_file st =
     (let wal = wal_open wal_file in
      case replay (read_all_bytes wal) of
        Inl e \<Rightarrow> (Err (WalFailed e), st)
      | Inr (records, wal_max_seq) \<Rightarrow>
          let memtable = fold insert_record records (memtable_new MEMTABLE_MAX_SIZE) in
          case manifest_load (env_codec env) (env_store env) st of
            (Inl e, st) \<Rightarrow> (Err (ManifestFailed e), st)
          | (Inr loaded, st) \<Rightarrow>
              let (manifest, manifest_etag) =
                    (case loaded of Some (m, etag) \<Rightarrow> (m, Some etag) | None \<Rightarrow> (manifest_default, None))
              in case load_sstables env (mf_sstable_ids manifest) st of
                   (sstables, st) \<Rightarrow>
                     let sstable_max_seq = fold max (map max_seq sstables) 0;
                         sstables = sort_key sst_id sstables;
                         sstable_id = (case mf_sstable_ids manifest of
                             [] \<Rightarrow> 1 | ids \<Rightarrow> fold max ids 0 + 1);
                         ws = \<lparr>ws_wal = wal, ws_sstable_id = sstable_id,
                               ws_wal_seg_id = mf_wal_segment_seq manifest + 1,
                               ws_manifest_etag = manifest_etag,
                               ws_committed_wal_segment_seq = mf_wal_segment_seq manifest,
                               ws_next_commit_seq =
                                 max (max wal_max_seq sstable_max_seq) (mf_max_commit_seq manifest) + 1,
                               ws_open_snapshots = []\<rparr>
                     in (Ok \<lparr>eng_write = ws,
                             eng_view = \<lparr>ev_memtable = memtable, ev_immutable = None,
                                         ev_sstables = sstables\<rparr>\<rparr>, st))"

fun fetch_sstables ::
  "('b, 's) lsm_env \<Rightarrow> u64 list \<Rightarrow> u64 list \<Rightarrow> 's \<Rightarrow> (sst_error, 'b SSTable list) result \<times> 's" where
  "fetch_sstables env known [] st = (Ok [], st)"
| "fetch_sstables env known (sid # ids) st =
     (if sid \<in> set known then fetch_sstables env known ids st
      else case open_from_store (env_bloom env) (env_store env)
                  (sstable_key (env_shard_count env) sid) sid st of
             (Inl e, st) \<Rightarrow> (Err e, st)
           | (Inr sst, st) \<Rightarrow>
               (case fetch_sstables env known ids st of
                  (Inl e, st) \<Rightarrow> (Err e, st)
                | (Inr ssts, st) \<Rightarrow> (Ok (sst # ssts), st)))"

definition refresh ::
  "('b, 's) lsm_env \<Rightarrow> 'b LsmEngine \<Rightarrow> 's \<Rightarrow> (lsm_error, bool) result \<times> 'b LsmEngine \<times> 's" where
  "refresh env eng st =
     (case manifest_load (env_codec env) (env_store env) st of
        (Inl e, st) \<Rightarrow> (Err (ManifestFailed e), eng, st)
      | (Inr None, st) \<Rightarrow> (Ok False, eng, st)
      | (Inr (Some (manifest, etag)), st) \<Rightarrow>
          let ws = eng_write eng; view = eng_view eng in
          if Some etag = ws_manifest_etag ws then (Ok False, eng, st)
          else
            let known = map sst_id (ev_sstables view) in
            case fetch_sstables env known (mf_sstable_ids manifest) st of
              (Inl e, st) \<Rightarrow> (Err (SstFailed e), eng, st)
            | (Inr fetched, st) \<Rightarrow>
                let kept = filter (\<lambda>s. sst_id s \<in> set (mf_sstable_ids manifest)) (ev_sstables view);
                    dropped = length (ev_sstables view) - length kept;
                    new_sstables = sort_key sst_id (kept @ fetched);
                    ws = ws\<lparr>ws_manifest_etag := Some etag,
                            ws_next_commit_seq :=
                              max (ws_next_commit_seq ws) (mf_max_commit_seq manifest + 1)\<rparr>
                in (Ok (fetched \<noteq> [] \<or> dropped > 0),
                    \<lparr>eng_write = ws, eng_view = view\<lparr>ev_sstables := new_sstables\<rparr>\<rparr>, st))"

record StorageStats =
  ss_wal_bytes_written :: nat
  ss_memtable_entries :: nat
  ss_sstable_count :: nat
  ss_total_disk_bytes :: u64
  ss_open_snapshot_count :: nat

definition lsm_stats :: "'b LsmEngine \<Rightarrow> StorageStats" where
  "lsm_stats eng =
     \<lparr>ss_wal_bytes_written = wal_bytes_written (ws_wal (eng_write eng)),
      ss_memtable_entries = memtable_len (ev_memtable (eng_view eng)),
      ss_sstable_count = length (ev_sstables (eng_view eng)),
      ss_total_disk_bytes = sum_list (map blob_size (ev_sstables (eng_view eng))),
      ss_open_snapshot_count = length (ws_open_snapshots (eng_write eng))\<rparr>"

end
