(* ===== verification/Cells.thy ===== *)
theory Cells
  imports Utf8
begin

text \<open>
  The cells of a stored row: the length-prefixed encoding of synapse/mod.rs and of
  storage/database/catalog.rs, with \<open>-1\<close> for a NULL, and the texts of integers.
\<close>

type_synonym cell = "bytes option"

text \<open>\<open>(-1i32).to_be_bytes()\<close>.\<close>

definition NULL_LEN :: bytes where
  "NULL_LEN = [0xff, 0xff, 0xff, 0xff]"

fun encode_cell :: "cell \<Rightarrow> bytes" where
  "encode_cell (Some bs) = be_nat 4 (length bs) @ bs"
| "encode_cell None = NULL_LEN"

definition encode_cells :: "cell list \<Rightarrow> bytes" where
  "encode_cells cells = concat (map encode_cell cells)"

text \<open>\<open>i32::from_be_bytes\<close> of the first four bytes.\<close>

definition cell_len :: "bytes \<Rightarrow> int" where
  "cell_len bs = sint (u32_from_be_bytes (take 4 bs))"

function decode_cell :: "bytes \<Rightarrow> nat \<Rightarrow> cell" where
  "decode_cell val idx =
     (if length val < 4 then None
      else let len = cell_len val; rest = drop 4 val in
        if len < 0 then (if idx = 0 then None else decode_cell rest (idx - 1))
        else if length rest < nat len then None
        else if idx = 0 then Some (take (nat len) rest)
        else decode_cell (drop (nat len) rest) (idx - 1))"
  by pat_completeness auto
termination
  by (relation "measure (\<lambda>(val, idx). length val)") auto

declare decode_cell.simps [simp del]

definition text_cell :: "bytes \<Rightarrow> cell" where
  "text_cell s = Some s"

definition cell_text :: "cell \<Rightarrow> bytes option" where
  "cell_text c = Option.bind c (\<lambda>b. if valid_utf8 b then Some b else None)"

subsection \<open>Decimal texts\<close>

function dec_digits :: "nat \<Rightarrow> bytes" where
  "dec_digits n = (if n < 10 then [word_of_nat (48 + n)] else dec_digits (n div 10) @ [word_of_nat (48 + n mod 10)])"
  by pat_completeness auto
termination
  by (relation "measure id") auto

declare dec_digits.simps [simp del]

definition int_to_string :: "int \<Rightarrow> bytes" where
  "int_to_string n = (if n < 0 then 45 # dec_digits (nat (- n)) else dec_digits (nat n))"

definition is_digit :: "u8 \<Rightarrow> bool" where
  "is_digit b \<longleftrightarrow> 48 \<le> b \<and> b \<le> 57"

definition digits_value :: "bytes \<Rightarrow> nat" where
  "digits_value bs = foldl (\<lambda>n b. 10 * n + (unat b - 48)) 0 bs"

definition parse_digits :: "bytes \<Rightarrow> nat option" where
  "parse_digits bs = (if bs \<noteq> [] \<and> list_all is_digit bs then Some (digits_value bs) else None)"

text \<open>\<open>str::parse\<close> for \<open>i64\<close> and \<open>u32\<close>: one sign, then digits only, within the type's range.\<close>

definition parse_i64 :: "bytes \<Rightarrow> int option" where
  "parse_i64 bs =
     (case bs of
        [] \<Rightarrow> None
      | b # rest \<Rightarrow>
          Option.bind (if b = 45 then map_option (\<lambda>n. - int n) (parse_digits rest)
                       else if b = 43 then map_option int (parse_digits rest)
                       else map_option int (parse_digits bs))
            (\<lambda>n. if - (2 ^ 63) \<le> n \<and> n < 2 ^ 63 then Some n else None))"

definition parse_u32 :: "bytes \<Rightarrow> u32 option" where
  "parse_u32 bs =
     (case bs of
        [] \<Rightarrow> None
      | b # rest \<Rightarrow>
          Option.bind (if b = 43 then parse_digits rest else parse_digits bs)
            (\<lambda>n. if n < 2 ^ 32 then Some (word_of_nat n) else None))"

definition int_cell :: "i64 \<Rightarrow> cell" where
  "int_cell n = Some (int_to_string (sint n))"

definition cell_i64 :: "cell \<Rightarrow> int option" where
  "cell_i64 c = Option.bind (cell_text c) parse_i64"

subsection \<open>Rows read back\<close>

definition cell_fits :: "cell \<Rightarrow> bool" where
  "cell_fits c \<longleftrightarrow> (case c of None \<Rightarrow> True | Some bs \<Rightarrow> length bs < 2 ^ 31)"

lemma cell_len_be [codec]:
  assumes "n < 2 ^ 31"
  shows "cell_len (be_nat 4 n @ rest) = int n"
proof -
  have "sint (word_of_nat n :: u32) = int n"
    using assms by (simp add: signed_of_nat signed_take_bit_int_eq_self)
  then show ?thesis by (simp add: cell_len_def)
qed

lemma cell_len_null [codec]: "cell_len (NULL_LEN @ rest) = - 1"
  by (simp add: cell_len_def NULL_LEN_def u32_from_be_bytes_def)

lemma length_NULL_LEN [simp]: "length NULL_LEN = 4"
  by (simp add: NULL_LEN_def)

text \<open>The cells of an encoded row are read back one by one, also before further bytes.\<close>

lemma decode_encode_cells [codec]:
  assumes "list_all cell_fits cells"
  shows "decode_cell (encode_cells cells) i = (if i < length cells then cells ! i else None)"
  using assms
proof (induction cells arbitrary: i)
  case Nil
  then show ?case by (subst decode_cell.simps) (simp add: encode_cells_def)
next
  case (Cons c cells)
  show ?case
  proof (cases c)
    case None
    then show ?thesis
      using Cons by (subst decode_cell.simps) (cases i; simp add: encode_cells_def cell_len_null Let_def)
  next
    case (Some bs)
    then have "length bs < 2 ^ 31" using Cons.prems by (simp add: cell_fits_def)
    then show ?thesis
      using Cons Some by (subst decode_cell.simps) (cases i; simp add: encode_cells_def cell_len_be Let_def)
  qed
qed

end
