(* ===== verification/Schema.thy ===== *)
theory Schema
  imports Prelude
begin

text \<open>
  The data of the table catalog, storage/mod.rs: columns, foreign keys, schemas,
  sequences and user-defined functions.
\<close>

datatype ColumnType =
    Int8 | Int4 | Int2 | Float8 | Float4 | Text | Bool | Timestamp | Date | Json | Bytea
  | Geometry | Geography | Vector | Raster | Float8Array

text \<open>The standard library's \<open>to_lowercase\<close> is an argument.\<close>

definition ColumnType_from_name :: "(bytes \<Rightarrow> bytes) \<Rightarrow> bytes \<Rightarrow> ColumnType option" where
  "ColumnType_from_name to_lowercase name =
     map_of (map (\<lambda>(s, t). (ascii s, t)) [
       (''int8'', Int8), (''bigint'', Int8), (''int4'', Int4), (''integer'', Int4), (''int'', Int4),
       (''int2'', Int2), (''smallint'', Int2), (''float8'', Float8), (''double'', Float8),
       (''double precision'', Float8), (''float'', Float8), (''float4'', Float4), (''real'', Float4),
       (''text'', Text), (''varchar'', Text), (''char'', Text), (''character varying'', Text),
       (''character'', Text), (''bool'', Bool), (''boolean'', Bool), (''timestamp'', Timestamp),
       (''timestamptz'', Timestamp), (''date'', Date), (''json'', Json), (''jsonb'', Json),
       (''bytea'', Bytea), (''blob'', Bytea), (''geometry'', Geometry), (''point'', Geometry),
       (''geography'', Geography), (''vector'', Vector), (''embedding'', Vector), (''raster'', Raster)])
     (to_lowercase name)"

record ColumnDef =
  cd_name :: bytes
  cd_col_type :: ColumnType
  cd_nullable :: bool
  cd_default :: "bytes option"
  cd_is_pk :: bool

record ForeignKey =
  fk_column :: nat
  fk_ref_table :: bytes
  fk_ref_column :: bytes

record JsonSchemaRule =
  jr_column :: bytes
  jr_mode :: bytes
  jr_schema :: bytes

record TableSchema =
  sch_name :: bytes
  sch_columns :: "ColumnDef list"
  sch_pk_columns :: "nat list"
  sch_unique_groups :: "nat list list"
  sch_foreign_keys :: "ForeignKey list"
  sch_json_schemas :: "JsonSchemaRule list"

record Sequence =
  seq_name :: bytes
  seq_value :: i64
  seq_increment :: i64

record UserFunction =
  uf_name :: bytes
  uf_arg_types :: "ColumnType list"
  uf_return_type :: ColumnType
  uf_wasm_bytes :: bytes

text \<open>The names of the engine's own tables.\<close>

definition is_internal_table :: "bytes \<Rightarrow> bool" where
  "is_internal_table name \<longleftrightarrow> prefix (ascii ''_tpt_'') name"

end
