(* ===== verification/Flux.thy ===== *)
theory Flux
  imports Prelude
begin

text \<open>
  The event log of storage/flux.rs: a topic is a directory with a header file, one
  append-only log per partition and a log of committed consumer offsets, all
  replayed into memory on open.  A file is its bytes, and a file that does not exist
  is an empty one: every reader of this module treats the two alike.  A write may
  fail after any number of bytes (\<open>io = Some n\<close>).  The bincode encodings of the two
  record types and the standard library's hash function are arguments.
\<close>

datatype flux_error =
    NoPartitions
  | PartitionOutOfRange u32
  | PartitionMissing u32
  | EncodeFailed
  | DecodeFailed
  | FluxIo
  | FluxPanic

record FluxRecord =
  flux_offset :: u64
  flux_key :: "bytes option"
  flux_value :: bytes
  flux_timestamp_ms :: i64

record RetentionPolicy =
  retention_ms :: "i64 option"
  retention_bytes :: "u64 option"

definition no_retention :: RetentionPolicy where
  "no_retention = \<lparr>retention_ms = None, retention_bytes = None\<rparr>"

record OffsetCommit =
  oc_group :: bytes
  oc_partition :: u32
  oc_offset :: u64

record flux_codec =
  ser_record :: "FluxRecord \<Rightarrow> bytes option"
  de_record :: "bytes \<Rightarrow> FluxRecord option"
  ser_commit :: "OffsetCommit \<Rightarrow> bytes option"
  de_commit :: "bytes \<Rightarrow> OffsetCommit option"

type_synonym io_fault = "nat option"

subsection \<open>Length-prefixed logs\<close>

text \<open>The loop of \<open>Partition::open\<close> and of \<open>read_offsets\<close>, with what it does to its
  state for the bytes of one entry as the argument \<open>step\<close>.\<close>

function read_log :: "(bytes \<Rightarrow> 's \<Rightarrow> (flux_error, 's) result) \<Rightarrow> bytes \<Rightarrow> 's \<Rightarrow> (flux_error, 's) result" where
  "read_log step file s =
     (if length file < 4 then Ok s
      else let len = unat (u32_from_be_bytes (take 4 file)); rest = drop 4 file in
        if length rest < len then Err FluxIo
        else and_then (step (take len rest) s) (read_log step (drop len rest)))"
  by pat_completeness auto
termination
  by (relation "measure (\<lambda>(step, file, s). length file)") auto

declare read_log.simps [simp del]

definition log_entry :: "bytes \<Rightarrow> bytes" where
  "log_entry encoded = be_nat 4 (length encoded) @ encoded"

text \<open>The two \<open>write_all\<close> calls at the end of a file opened with \<open>append(true)\<close>.\<close>

definition append_log :: "io_fault \<Rightarrow> bytes \<Rightarrow> bytes \<Rightarrow> (flux_error, unit) result \<times> bytes" where
  "append_log io encoded file =
     (case io of
        Some n \<Rightarrow> (Err FluxIo, file @ take n (log_entry encoded))
      | None \<Rightarrow> (Ok (), file @ log_entry encoded))"

subsection \<open>Partitions\<close>

definition i64_min :: i64 where
  "i64_min = push_bit 63 1"

definition i64_max_of :: "i64 \<Rightarrow> i64 \<Rightarrow> i64" where
  "i64_max_of a b = (if sint b < sint a then a else b)"

record Partition =
  pt_records :: "FluxRecord list"
  pt_next_offset :: u64
  pt_total_bytes :: u64
  pt_newest_ts :: i64

definition Partition_empty :: Partition where
  "Partition_empty = \<lparr>pt_records = [], pt_next_offset = 0, pt_total_bytes = 0, pt_newest_ts = i64_min\<rparr>"

abbreviation len_u64 :: "'a list \<Rightarrow> u64" where
  "len_u64 xs \<equiv> word_of_nat (length xs)"

definition replay_record :: "flux_codec \<Rightarrow> bytes \<Rightarrow> Partition \<Rightarrow> (flux_error, Partition) result" where
  "replay_record cod buf p =
     (case de_record cod buf of
        None \<Rightarrow> Err DecodeFailed
      | Some r \<Rightarrow> Ok
          \<lparr>pt_records = pt_records p @ [r], pt_next_offset = flux_offset r + 1,
           pt_total_bytes = pt_total_bytes p + len_u64 (flux_value r),
           pt_newest_ts = i64_max_of (pt_newest_ts p) (flux_timestamp_ms r)\<rparr>)"

definition Partition_open :: "flux_codec \<Rightarrow> bytes \<Rightarrow> (flux_error, Partition) result" where
  "Partition_open cod file = read_log (replay_record cod) file Partition_empty"

fun evict_older :: "i64 \<Rightarrow> FluxRecord list \<Rightarrow> u64 \<Rightarrow> FluxRecord list \<times> u64" where
  "evict_older cutoff [] sz = ([], sz)"
| "evict_older cutoff (front # rs) sz =
     (if sint (flux_timestamp_ms front) < sint cutoff
      then evict_older cutoff rs (sz - len_u64 (flux_value front)) else (front # rs, sz))"

fun evict_excess :: "u64 \<Rightarrow> FluxRecord list \<Rightarrow> u64 \<Rightarrow> FluxRecord list \<times> u64" where
  "evict_excess max_bytes [] sz = ([], sz)"
| "evict_excess max_bytes (front # rs) sz =
     (if max_bytes < sz
      then evict_excess max_bytes rs (sz - len_u64 (flux_value front)) else (front # rs, sz))"

definition apply_retention :: "RetentionPolicy \<Rightarrow> Partition \<Rightarrow> Partition" where
  "apply_retention ret p =
     (let (rs, sz) = (case retention_ms ret of
            None \<Rightarrow> (pt_records p, pt_total_bytes p)
          | Some ms \<Rightarrow> evict_older (pt_newest_ts p - ms) (pt_records p) (pt_total_bytes p));
          (rs, sz) = (case retention_bytes ret of
            None \<Rightarrow> (rs, sz)
          | Some max_bytes \<Rightarrow> evict_excess max_bytes rs sz)
      in p\<lparr>pt_records := rs, pt_total_bytes := sz\<rparr>)"

definition Partition_append ::
  "flux_codec \<Rightarrow> io_fault \<Rightarrow> bytes option \<Rightarrow> bytes \<Rightarrow> i64 \<Rightarrow> RetentionPolicy \<Rightarrow> Partition \<Rightarrow> bytes
     \<Rightarrow> (flux_error, u64) result \<times> Partition \<times> bytes" where
  "Partition_append cod io key val ts ret p file =
     (let offset = pt_next_offset p;
          r = \<lparr>flux_offset = offset, flux_key = key, flux_value = val, flux_timestamp_ms = ts\<rparr> in
      case ser_record cod r of
        None \<Rightarrow> (Err EncodeFailed, p, file)
      | Some encoded \<Rightarrow>
          (case append_log io encoded file of
             (Inl e, file) \<Rightarrow> (Err e, p, file)
           | (Inr _, file) \<Rightarrow>
               (Ok offset,
                apply_retention ret
                  \<lparr>pt_records = pt_records p @ [r], pt_next_offset = offset + 1,
                   pt_total_bytes = pt_total_bytes p + len_u64 val,
                   pt_newest_ts = i64_max_of (pt_newest_ts p) ts\<rparr>,
                file)))"

definition Partition_poll :: "u64 \<Rightarrow> nat \<Rightarrow> Partition \<Rightarrow> FluxRecord list" where
  "Partition_poll from_offset max_n p = take max_n (filter (\<lambda>r. from_offset \<le> flux_offset r) (pt_records p))"

subsection \<open>Topics\<close>

record TopicDir =
  td_meta :: bytes
  td_partitions :: "nat \<Rightarrow> bytes"
  td_offsets :: bytes

definition TopicDir_absent :: TopicDir where
  "TopicDir_absent = \<lparr>td_meta = [], td_partitions = (\<lambda>_. []), td_offsets = []\<rparr>"

record FluxLog =
  fl_partitions :: "Partition list"
  fl_retention :: RetentionPolicy
  fl_offsets :: "bytes \<times> u32 \<rightharpoonup> u64"
  fl_rr_counter :: u32

definition partition_for_key :: "(bytes \<Rightarrow> u64) \<Rightarrow> bytes \<Rightarrow> u32 \<Rightarrow> u32" where
  "partition_for_key hash key n = ucast (hash key mod ucast n)"

definition meta_bytes :: "u32 \<Rightarrow> RetentionPolicy \<Rightarrow> bytes" where
  "meta_bytes n ret =
     u32_to_be_bytes n
     @ u64_to_be_bytes (case retention_ms ret of Some ms \<Rightarrow> ms | None \<Rightarrow> - 1)
     @ u64_to_be_bytes (case retention_bytes ret of Some b \<Rightarrow> b | None \<Rightarrow> - 1)"

definition write_meta :: "io_fault \<Rightarrow> u32 \<Rightarrow> RetentionPolicy \<Rightarrow> TopicDir \<Rightarrow> (flux_error, unit) result \<times> TopicDir" where
  "write_meta io n ret dir =
     (case io of
        Some k \<Rightarrow> (Err FluxIo, dir\<lparr>td_meta := take k (meta_bytes n ret)\<rparr>)
      | None \<Rightarrow> (Ok (), dir\<lparr>td_meta := meta_bytes n ret\<rparr>))"

definition non_negative :: "i64 \<Rightarrow> i64 option" where
  "non_negative v = (if sint v < 0 then None else Some v)"

definition read_meta :: "TopicDir \<Rightarrow> (flux_error, u32 \<times> RetentionPolicy) result" where
  "read_meta dir =
     (if length (td_meta dir) < 20 then Err FluxIo
      else Ok (u32_from_be_bytes (slice (td_meta dir) 0 4),
        \<lparr>retention_ms = non_negative (u64_from_be_bytes (slice (td_meta dir) 4 12)),
         retention_bytes = non_negative (u64_from_be_bytes (slice (td_meta dir) 12 20))\<rparr>))"

definition replay_commit :: "flux_codec \<Rightarrow> bytes \<Rightarrow> (bytes \<times> u32 \<rightharpoonup> u64) \<Rightarrow> (flux_error, bytes \<times> u32 \<rightharpoonup> u64) result" where
  "replay_commit cod buf offsets =
     (case de_commit cod buf of
        None \<Rightarrow> Err DecodeFailed
      | Some c \<Rightarrow> Ok (offsets((oc_group c, oc_partition c) \<mapsto> oc_offset c)))"

definition read_offsets :: "flux_codec \<Rightarrow> bytes \<Rightarrow> (flux_error, bytes \<times> u32 \<rightharpoonup> u64) result" where
  "read_offsets cod file = read_log (replay_commit cod) file (\<lambda>_. None)"

text \<open>A loop that pushes what a fallible call returns for each index.\<close>

fun collect_ok :: "('x \<Rightarrow> ('e, 'y) result) \<Rightarrow> 'x list \<Rightarrow> ('e, 'y list) result" where
  "collect_ok f [] = Ok []"
| "collect_ok f (x # xs) = and_then (f x) (\<lambda>y. and_then (collect_ok f xs) (\<lambda>ys. Ok (y # ys)))"

definition FluxLog_create ::
  "flux_codec \<Rightarrow> io_fault \<Rightarrow> u32 \<Rightarrow> RetentionPolicy \<Rightarrow> TopicDir \<Rightarrow> (flux_error, FluxLog) result \<times> TopicDir" where
  "FluxLog_create cod io n ret dir =
     (if n = 0 then (Err NoPartitions, dir)
      else case write_meta io n ret dir of
        (Inl e, dir) \<Rightarrow> (Err e, dir)
      | (Inr _, dir) \<Rightarrow>
          (and_then (collect_ok (\<lambda>i. Partition_open cod (td_partitions dir i)) [0..<unat n]) (\<lambda>ps.
             Ok \<lparr>fl_partitions = ps, fl_retention = ret, fl_offsets = (\<lambda>_. None), fl_rr_counter = 0\<rparr>), dir))"

definition FluxLog_open :: "flux_codec \<Rightarrow> TopicDir \<Rightarrow> (flux_error, FluxLog) result" where
  "FluxLog_open cod dir =
     and_then (read_meta dir) (\<lambda>(n, ret).
     and_then (collect_ok (\<lambda>i. and_then (Partition_open cod (td_partitions dir i)) (\<lambda>p. Ok (apply_retention ret p))) [0..<unat n]) (\<lambda>ps.
     and_then (read_offsets cod (td_offsets dir)) (\<lambda>offsets.
       Ok \<lparr>fl_partitions = ps, fl_retention = ret, fl_offsets = offsets, fl_rr_counter = 0\<rparr>)))"

definition num_partitions :: "FluxLog \<Rightarrow> u32" where
  "num_partitions log = len_u32 (fl_partitions log)"

text \<open>The choice of the partition, with the round-robin cursor after it.\<close>

definition target_partition ::
  "(bytes \<Rightarrow> u64) \<Rightarrow> u32 option \<Rightarrow> bytes option \<Rightarrow> FluxLog \<Rightarrow> (flux_error, u32) result \<times> FluxLog" where
  "target_partition hash part key log =
     (let n = num_partitions log in
      case part of
        Some p \<Rightarrow> (if p < n then Ok p else Err (PartitionOutOfRange p), log)
      | None \<Rightarrow>
          if n = 0 then (Err FluxPanic, log)
          else (case key of
                  Some k \<Rightarrow> (Ok (partition_for_key hash k n), log)
                | None \<Rightarrow> (Ok (fl_rr_counter log mod n), log\<lparr>fl_rr_counter := fl_rr_counter log + 1\<rparr>)))"

definition FluxLog_publish ::
  "flux_codec \<Rightarrow> (bytes \<Rightarrow> u64) \<Rightarrow> i64 \<Rightarrow> io_fault \<Rightarrow> u32 option \<Rightarrow> bytes option \<Rightarrow> bytes \<Rightarrow> FluxLog \<Rightarrow> TopicDir
     \<Rightarrow> (flux_error, u32 \<times> u64) result \<times> FluxLog \<times> TopicDir" where
  "FluxLog_publish cod hash now_ms io part key val log dir =
     (case target_partition hash part key log of
        (Inl e, log) \<Rightarrow> (Err e, log, dir)
      | (Inr target, log) \<Rightarrow>
          let i = unat target in
          case Partition_append cod io key val now_ms (fl_retention log) (fl_partitions log ! i) (td_partitions dir i) of
            (r, p, file) \<Rightarrow>
              (and_then r (\<lambda>offset. Ok (target, offset)),
               log\<lparr>fl_partitions := (fl_partitions log)[i := p]\<rparr>,
               dir\<lparr>td_partitions := (td_partitions dir)(i := file)\<rparr>))"

definition FluxLog_poll :: "bytes \<Rightarrow> u32 \<Rightarrow> nat \<Rightarrow> FluxLog \<Rightarrow> (flux_error, FluxRecord list) result" where
  "FluxLog_poll grp part max_n log =
     (if length (fl_partitions log) \<le> unat part then Err (PartitionMissing part)
      else Ok (Partition_poll (case fl_offsets log (grp, part) of Some o' \<Rightarrow> o' | None \<Rightarrow> 0) max_n
                 (fl_partitions log ! unat part)))"

definition FluxLog_commit ::
  "flux_codec \<Rightarrow> io_fault \<Rightarrow> bytes \<Rightarrow> u32 \<Rightarrow> u64 \<Rightarrow> FluxLog \<Rightarrow> TopicDir
     \<Rightarrow> (flux_error, unit) result \<times> FluxLog \<times> TopicDir" where
  "FluxLog_commit cod io grp part offset log dir =
     (if length (fl_partitions log) \<le> unat part then (Err (PartitionMissing part), log, dir)
      else case ser_commit cod \<lparr>oc_group = grp, oc_partition = part, oc_offset = offset\<rparr> of
        None \<Rightarrow> (Err EncodeFailed, log, dir)
      | Some encoded \<Rightarrow>
          (case append_log io encoded (td_offsets dir) of
             (Inl e, file) \<Rightarrow> (Err e, log, dir\<lparr>td_offsets := file\<rparr>)
           | (Inr _, file) \<Rightarrow>
               (Ok (), log\<lparr>fl_offsets := (fl_offsets log)((grp, part) \<mapsto> offset)\<rparr>, dir\<lparr>td_offsets := file\<rparr>)))"

definition all_records :: "u32 \<Rightarrow> FluxLog \<Rightarrow> FluxRecord list option" where
  "all_records part log =
     (if unat part < length (fl_partitions log) then Some (pt_records (fl_partitions log ! unat part)) else None)"

end
