(* ===== verification/Database.thy ===== *)
theory Database
  imports Compaction Cells Schema Flux
begin

text \<open>
  The database over the storage engine: the operations of \<open>StorageEngine\<close> in
  \<open>storage/database/storage_engine.rs\<close>, the transactions of
  \<open>storage/database/txn.rs\<close> and their use in \<open>storage/database/mod.rs\<close>.
  Table names and keys are byte strings.  Maintenance of the secondary indexes is
  an argument, a function on the state of the indexes.  The catalogs and the topics
  that the node holds in memory are lists in key order, the files of the local
  index directory are their names, and the broadcast channel is the list of the
  records sent on it.
\<close>

subsection \<open>State\<close>

datatype NodeRole = Writer | Reader

datatype db_error =
    ReadOnlyReplica | LsmFailed lsm_error | ReadFailed sst_error | IndexFailed
  | TableExists bytes | NoTable bytes | ColumnExists bytes | NoColumn bytes | ColumnInUse bytes
  | SequenceExists bytes | NoSequence bytes | FunctionExists bytes
  | StoreFailed | CatalogEncode | DbPanic
  | TopicExists bytes | NoTopic bytes | FluxFailed flux_error

record TransactionState =
  ts_id :: u64
  ts_snapshot_seq :: u64
  ts_finished :: bool
  ts_staged :: merged

record ('b, 's, 'i) Database =
  db_lsm :: "'b LsmEngine"
  db_store :: 's
  db_indexes :: 'i
  db_role :: NodeRole
  db_next_tx_id :: u64
  db_schemas :: "(bytes \<times> TableSchema) list"
  db_functions :: "(bytes \<times> UserFunction) list"
  db_sequences :: "(bytes \<times> Sequence) list"
  db_index_files :: "bytes list"
  db_topics :: "(bytes \<times> FluxLog) list"
  db_topic_dirs :: "bytes \<Rightarrow> TopicDir"
  db_flux_bus :: "(bytes \<times> FluxRecord) list"

record KeyValue =
  kv_key :: bytes
  kv_value :: bytes

type_synonym 'i maintainer = "bytes \<Rightarrow> bytes \<Rightarrow> bytes \<Rightarrow> 'i \<Rightarrow> (db_error, unit) result \<times> 'i"

subsection \<open>Keys\<close>

definition make_key :: "bytes \<Rightarrow> bytes \<Rightarrow> bytes" where
  "make_key table key = table @ [0] @ key"

definition make_prefix :: "bytes \<Rightarrow> bytes" where
  "make_prefix table = table @ [0]"

definition strip_table :: "bytes \<Rightarrow> (bytes \<times> bytes) list \<Rightarrow> KeyValue list" where
  "strip_table pre rows =
     map (\<lambda>(k, v). \<lparr>kv_key = drop (length pre) k, kv_value = v\<rparr>) (filter (\<lambda>(k, v). prefix pre k) rows)"

subsection \<open>Reads and writes outside transactions\<close>

definition check_writable :: "('b, 's, 'i) Database \<Rightarrow> (db_error, unit) result" where
  "check_writable db = (if db_role db = Reader then Err ReadOnlyReplica else Ok ())"

text \<open>What the three writers do with the flush that a full memtable makes pending.\<close>

definition finish_pending ::
  "('b, 's) lsm_env \<Rightarrow> LeaseHandle \<Rightarrow> PendingFlush option \<Rightarrow> 'b LsmEngine \<Rightarrow> 's
     \<Rightarrow> (lsm_error, unit) result \<times> 'b LsmEngine \<times> 's" where
  "finish_pending env lease pending eng st = (case pending of
     None \<Rightarrow> (Ok (), eng, st)
   | Some pf \<Rightarrow>
       (case finish_flush env pf st of
          (Inl e, st) \<Rightarrow> (Err (SstFailed e), eng, st)
        | (Inr sst, st) \<Rightarrow>
            (case commit_flush env lease pf sst eng st of
               (Inl e, eng, st) \<Rightarrow> (Err e, eng, st)
             | (Inr None, eng, st) \<Rightarrow> (Ok (), eng, st)
             | (Inr (Some pc), eng, st) \<Rightarrow> run_compaction env lease pc eng st)))"

definition db_write ::
  "('b, 's) lsm_env \<Rightarrow> 'i maintainer \<Rightarrow> LeaseHandle \<Rightarrow> nat option \<Rightarrow> bytes \<Rightarrow> bytes \<Rightarrow> bytes
     \<Rightarrow> ('b, 's, 'i) Database \<Rightarrow> (db_error, unit) result \<times> ('b, 's, 'i) Database" where
  "db_write env maintain lease fault table key val db =
     (case check_writable db of
        Inl e \<Rightarrow> (Err e, db)
      | Inr _ \<Rightarrow>
          let composite_key = make_key table key in
          case lsm_write env lease fault table composite_key val (db_lsm db) of
            (Inl e, eng) \<Rightarrow> (Err (LsmFailed e), db\<lparr>db_lsm := eng\<rparr>)
          | (Inr pending, eng) \<Rightarrow>
              (case finish_pending env lease pending eng (db_store db) of
                 (Inl e, eng, st) \<Rightarrow> (Err (LsmFailed e), db\<lparr>db_lsm := eng, db_store := st\<rparr>)
               | (Inr _, eng, st) \<Rightarrow>
                   (case maintain table composite_key val (db_indexes db) of
                      (r, ix) \<Rightarrow> (r, db\<lparr>db_lsm := eng, db_store := st, db_indexes := ix\<rparr>))))"

definition db_read ::
  "('b, 's) lsm_env \<Rightarrow> bytes \<Rightarrow> bytes \<Rightarrow> ('b, 's, 'i) Database \<Rightarrow> (db_error, bytes option) result" where
  "db_read env table key db =
     (case lsm_read env (db_lsm db) (make_key table key) of
        Inl e \<Rightarrow> Err (ReadFailed e) | Inr v \<Rightarrow> Ok v)"

definition db_delete ::
  "('b, 's) lsm_env \<Rightarrow> LeaseHandle \<Rightarrow> nat option \<Rightarrow> bytes \<Rightarrow> bytes
     \<Rightarrow> ('b, 's, 'i) Database \<Rightarrow> (db_error, unit) result \<times> ('b, 's, 'i) Database" where
  "db_delete env lease fault table key db =
     (case check_writable db of
        Inl e \<Rightarrow> (Err e, db)
      | Inr _ \<Rightarrow>
          (case lsm_delete env lease fault table (make_key table key) (db_lsm db) of
             (Inl e, eng) \<Rightarrow> (Err (LsmFailed e), db\<lparr>db_lsm := eng\<rparr>)
           | (Inr pending, eng) \<Rightarrow>
               (case finish_pending env lease pending eng (db_store db) of
                  (Inl e, eng, st) \<Rightarrow> (Err (LsmFailed e), db\<lparr>db_lsm := eng, db_store := st\<rparr>)
                | (Inr _, eng, st) \<Rightarrow> (Ok (), db\<lparr>db_lsm := eng, db_store := st\<rparr>))))"

definition db_scan :: "bytes \<Rightarrow> ('b, 's, 'i) Database \<Rightarrow> (db_error, KeyValue list) result" where
  "db_scan table db =
     (case lsm_scan (db_lsm db) of
        Inl e \<Rightarrow> Err (ReadFailed e)
      | Inr all \<Rightarrow> Ok (strip_table (make_prefix table) all))"

definition db_flush ::
  "('b, 's) lsm_env \<Rightarrow> LeaseHandle \<Rightarrow> ('b, 's, 'i) Database
     \<Rightarrow> (db_error, unit) result \<times> ('b, 's, 'i) Database" where
  "db_flush env lease db =
     (case check_writable db of
        Inl e \<Rightarrow> (Err e, db)
      | Inr _ \<Rightarrow>
          (case lsm_flush env lease (db_lsm db) (db_store db) of
             (Inl e, eng, st) \<Rightarrow> (Err (LsmFailed e), db\<lparr>db_lsm := eng, db_store := st\<rparr>)
           | (Inr _, eng, st) \<Rightarrow> (Ok (), db\<lparr>db_lsm := eng, db_store := st\<rparr>)))"

subsection \<open>The handle of a transaction\<close>

definition TxnHandle_new :: "u64 \<Rightarrow> u64 \<Rightarrow> TransactionState" where
  "TxnHandle_new tid snapshot_seq =
     \<lparr>ts_id = tid, ts_snapshot_seq = snapshot_seq, ts_finished = False, ts_staged = []\<rparr>"

definition stage_write :: "bytes \<Rightarrow> bytes \<Rightarrow> TransactionState \<Rightarrow> TransactionState" where
  "stage_write composite_key val t =
     (if ts_finished t then t
      else t\<lparr>ts_staged := om_insert composite_key (Some val) (ts_staged t)\<rparr>)"

definition stage_delete :: "bytes \<Rightarrow> TransactionState \<Rightarrow> TransactionState" where
  "stage_delete composite_key t =
     (if ts_finished t then t
      else t\<lparr>ts_staged := om_insert composite_key None (ts_staged t)\<rparr>)"

definition staged_read :: "bytes \<Rightarrow> TransactionState \<Rightarrow> (unit, bytes option) result" where
  "staged_read composite_key t =
     (case om_get (ts_staged t) composite_key of
        Some (Some v) \<Rightarrow> Ok (Some v) | Some None \<Rightarrow> Ok None | None \<Rightarrow> Err ())"

definition finish_locked ::
  "TransactionState \<Rightarrow> 'b LsmEngine \<Rightarrow> TransactionState \<times> 'b LsmEngine" where
  "finish_locked t eng =
     (if ts_finished t then (t, eng)
      else (t\<lparr>ts_finished := True\<rparr>, release_snapshot (ts_snapshot_seq t) eng))"

definition take_staged ::
  "TransactionState \<Rightarrow> 'b LsmEngine \<Rightarrow> merged \<times> TransactionState \<times> 'b LsmEngine" where
  "take_staged t eng =
     (case finish_locked t eng of (t, eng) \<Rightarrow> (ts_staged t, t\<lparr>ts_staged := []\<rparr>, eng))"

definition txn_discard ::
  "TransactionState \<Rightarrow> 'b LsmEngine \<Rightarrow> TransactionState \<times> 'b LsmEngine" where
  "txn_discard t eng = (case finish_locked t eng of (t, eng) \<Rightarrow> (t\<lparr>ts_staged := []\<rparr>, eng))"

definition txn_drop :: "TransactionState \<Rightarrow> 'b LsmEngine \<Rightarrow> 'b LsmEngine" where
  "txn_drop t eng = (if ts_finished t then eng else release_snapshot (ts_snapshot_seq t) eng)"

subsection \<open>Transactions on the database\<close>

definition begin_txn :: "('b, 's, 'i) Database \<Rightarrow> TransactionState \<times> ('b, 's, 'i) Database" where
  "begin_txn db =
     (let tid = db_next_tx_id db in
      case snapshot_now (db_lsm db) of (snapshot_seq, eng) \<Rightarrow>
        (TxnHandle_new tid snapshot_seq, db\<lparr>db_lsm := eng, db_next_tx_id := tid + 1\<rparr>))"

text \<open>
  The table of a staged write is read off its composite key; a key without a NUL
  byte or with a table name that is not UTF-8 is passed over.
\<close>

definition table_of :: "bytes \<Rightarrow> bytes option" where
  "table_of composite_key = (case position (\<lambda>b. b = 0) composite_key of
     None \<Rightarrow> None
   | Some i \<Rightarrow> if valid_utf8 (take i composite_key) then Some (take i composite_key) else None)"

fun commit_batch :: "merged \<Rightarrow> batch_entry list \<times> (bytes \<times> bytes \<times> bytes) list" where
  "commit_batch [] = ([], [])"
| "commit_batch ((composite_key, write) # staged) =
     (case commit_batch staged of (batch, per_row) \<Rightarrow>
      case table_of composite_key of
        None \<Rightarrow> (batch, per_row)
      | Some table \<Rightarrow>
          ((table, composite_key, write) # batch,
           (case write of Some v \<Rightarrow> (table, composite_key, v) # per_row | None \<Rightarrow> per_row)))"

fun maintain_rows ::
  "'i maintainer \<Rightarrow> (bytes \<times> bytes \<times> bytes) list \<Rightarrow> 'i \<Rightarrow> (db_error, unit) result \<times> 'i" where
  "maintain_rows maintain [] ix = (Ok (), ix)"
| "maintain_rows maintain ((table, key, val) # rows) ix =
     (case maintain table key val ix of
        (Inl e, ix) \<Rightarrow> (Err e, ix) | (Inr _, ix) \<Rightarrow> maintain_rows maintain rows ix)"

definition commit_txn ::
  "('b, 's) lsm_env \<Rightarrow> 'i maintainer \<Rightarrow> LeaseHandle \<Rightarrow> nat option \<Rightarrow> TransactionState
     \<Rightarrow> ('b, 's, 'i) Database
     \<Rightarrow> (db_error, unit) result \<times> TransactionState \<times> ('b, 's, 'i) Database" where
  "commit_txn env maintain lease fault t db =
     (case take_staged t (db_lsm db) of (staged, t, eng) \<Rightarrow>
      let db = db\<lparr>db_lsm := eng\<rparr> in
      if staged = [] then (Ok (), t, db)
      else case check_writable db of
        Inl e \<Rightarrow> (Err e, t, db)
      | Inr _ \<Rightarrow>
          (case commit_batch staged of (batch, per_row_indexing) \<Rightarrow>
           case write_batch env lease fault batch eng of
             (Inl e, eng) \<Rightarrow> (Err (LsmFailed e), t, db\<lparr>db_lsm := eng\<rparr>)
           | (Inr (_, pending), eng) \<Rightarrow>
               (case finish_pending env lease pending eng (db_store db) of
                  (Inl e, eng, st) \<Rightarrow> (Err (LsmFailed e), t, db\<lparr>db_lsm := eng, db_store := st\<rparr>)
                | (Inr _, eng, st) \<Rightarrow>
                    (case maintain_rows maintain per_row_indexing (db_indexes db) of
                       (r, ix) \<Rightarrow> (r, t, db\<lparr>db_lsm := eng, db_store := st, db_indexes := ix\<rparr>)))))"

definition rollback_txn ::
  "TransactionState \<Rightarrow> ('b, 's, 'i) Database \<Rightarrow> TransactionState \<times> ('b, 's, 'i) Database" where
  "rollback_txn t db = (case txn_discard t (db_lsm db) of (t, eng) \<Rightarrow> (t, db\<lparr>db_lsm := eng\<rparr>))"

definition txn_write ::
  "('b, 's) lsm_env \<Rightarrow> 'i maintainer \<Rightarrow> LeaseHandle \<Rightarrow> nat option \<Rightarrow> TransactionState option
     \<Rightarrow> bytes \<Rightarrow> bytes \<Rightarrow> bytes \<Rightarrow> ('b, 's, 'i) Database
     \<Rightarrow> (db_error, unit) result \<times> TransactionState option \<times> ('b, 's, 'i) Database" where
  "txn_write env maintain lease fault txn table key val db = (case txn of
     Some t \<Rightarrow> (Ok (), Some (stage_write (make_key table key) val t), db)
   | None \<Rightarrow> (case db_write env maintain lease fault table key val db of (r, db) \<Rightarrow> (r, None, db)))"

definition txn_delete ::
  "('b, 's) lsm_env \<Rightarrow> LeaseHandle \<Rightarrow> nat option \<Rightarrow> TransactionState option
     \<Rightarrow> bytes \<Rightarrow> bytes \<Rightarrow> ('b, 's, 'i) Database
     \<Rightarrow> (db_error, unit) result \<times> TransactionState option \<times> ('b, 's, 'i) Database" where
  "txn_delete env lease fault txn table key db = (case txn of
     Some t \<Rightarrow> (Ok (), Some (stage_delete (make_key table key) t), db)
   | None \<Rightarrow> (case db_delete env lease fault table key db of (r, db) \<Rightarrow> (r, None, db)))"

definition txn_read ::
  "('b, 's) lsm_env \<Rightarrow> TransactionState option \<Rightarrow> bytes \<Rightarrow> bytes \<Rightarrow> ('b, 's, 'i) Database
     \<Rightarrow> (db_error, bytes option) result" where
  "txn_read env txn table key db =
     (let composite = make_key table key;
          committed = (\<lambda>snapshot_seq. case read_at env (db_lsm db) composite snapshot_seq of
             Inl e \<Rightarrow> Err (ReadFailed e) | Inr v \<Rightarrow> Ok v)
      in case txn of
           None \<Rightarrow> committed (- 1)
         | Some t \<Rightarrow>
             (case staged_read composite t of
                Inr v \<Rightarrow> Ok v
              | Inl _ \<Rightarrow> committed (ts_snapshot_seq t)))"

definition txn_scan ::
  "TransactionState option \<Rightarrow> bytes \<Rightarrow> ('b, 's, 'i) Database \<Rightarrow> (db_error, KeyValue list) result" where
  "txn_scan txn table db =
     (let pre = make_prefix table;
          snapshot_seq = (case txn of Some t \<Rightarrow> ts_snapshot_seq t | None \<Rightarrow> - 1)
      in case scan_at (db_lsm db) snapshot_seq of
           Inl e \<Rightarrow> Err (ReadFailed e)
         | Inr all \<Rightarrow>
             let committed = filter (\<lambda>(k, v). prefix pre k) all;
                 merged = fold (\<lambda>(k, v). om_insert k (Some v)) committed [];
                 staged = (case txn of
                     None \<Rightarrow> []
                   | Some t \<Rightarrow> filter (\<lambda>(k, w). prefix pre k) (ts_staged t));
                 merged = overlay staged merged
             in Ok (List.map_filter (\<lambda>(k, v).
                   map_option (\<lambda>val. \<lparr>kv_key = drop (length pre) k, kv_value = val\<rparr>) v) merged))"

end
