(* ===== verification/LsmReads.thy ===== *)
theory LsmReads
  imports Compaction
begin

text \<open>
  Reads and scans of the engine against its layers: the engine's view is the list
  of all versions it holds, newest layer first, and a read at a snapshot returns
  what the snapshot sees in that list.
\<close>

definition settle :: "'a option option \<Rightarrow> 'a option" where
  "settle x = (case x of Some v \<Rightarrow> v | None \<Rightarrow> None)"

lemma settle_simps [simp]: "settle None = None" "settle (Some v) = v"
  by (simp_all add: settle_def)

lemma case_option_id: "(case x of None \<Rightarrow> None | Some v \<Rightarrow> Some v) = x"
  by (cases x) simp_all

definition imm_data :: "'b EngineView \<Rightarrow> (InternalKey \<times> bytes) list" where
  "imm_data view = (case ev_immutable view of None \<Rightarrow> [] | Some imm \<Rightarrow> mt_data imm)"

definition layers ::
  "'b EngineView \<Rightarrow> (InternalKey \<times> bytes) list list \<Rightarrow> (InternalKey \<times> bytes) list" where
  "layers view ess = mt_data (ev_memtable view) @ imm_data view @ concat (rev ess)"

text \<open>Memtables are sorted and every SSTable of the view holds a sorted list.\<close>

definition view_ok ::
  "'b bloom_ops \<Rightarrow> 'b EngineView \<Rightarrow> (InternalKey \<times> bytes) list list \<Rightarrow> bool" where
  "view_ok bl view ess \<longleftrightarrow> memtable_invar (ev_memtable view)
     \<and> om_sorted (imm_data view)
     \<and> list_all2 (sst_holds bl) (ev_sstables view) ess \<and> list_all om_sorted ess"

lemma view_ok_memtable: "view_ok bl view ess \<Longrightarrow> om_sorted (mt_data (ev_memtable view))"
  by (simp add: view_ok_def memtable_invar_def)

subsection \<open>Point reads\<close>

lemma read_sstables_holds:
  "list_all2 (sst_holds bl) ssts ess \<Longrightarrow> list_all om_sorted ess \<Longrightarrow>
     read_sstables bl ssts k s = Ok (settle (visible (concat ess) k s))"
  by (induction rule: list_all2_induct)
     (auto simp: sst_read_at_holds visible_append split: option.split)

lemma imm_get_at:
  "om_sorted (imm_data view) \<Longrightarrow>
     Option.bind (ev_immutable view) (\<lambda>imm. get_at imm k s) = visible (imm_data view) k s"
  by (cases "ev_immutable view") (simp_all add: imm_data_def get_at_visible memtable_invar_def)

lemma read_at_layers:
  assumes "view_ok (env_bloom env) (eng_view eng) ess"
  shows "read_at env eng k s = Ok (settle (visible (layers (eng_view eng) ess) k s))"
proof -
  let ?v = "eng_view eng"
  have "list_all2 (sst_holds (env_bloom env)) (rev (ev_sstables ?v)) (rev ess)"
      "list_all om_sorted (rev ess)"
    using assms by (simp_all add: view_ok_def list_all2_rev)
  then have "read_sstables (env_bloom env) (rev (ev_sstables ?v)) k s
      = Ok (settle (visible (concat (rev ess)) k s))"
    by (rule read_sstables_holds)
  then show ?thesis
    using assms imm_get_at [of ?v k s] get_at_visible [of "ev_memtable ?v" k s]
    by (simp add: read_at_def view_ok_def layers_def visible_append Let_def split: option.split)
qed

subsection \<open>Scans\<close>

lemma overlay_get:
  assumes "om_sorted m" and "om_sorted e"
  shows "om_sorted (overlay (first_visible_per_key (map version_of e) s) m)"
    and "om_get (overlay (first_visible_per_key (map version_of e) s) m) k
       = (case visible e k s of None \<Rightarrow> om_get m k | Some v \<Rightarrow> Some v)"
proof -
  let ?kvs = "first_visible_per_key (map version_of e) s"
  show "om_sorted (overlay ?kvs m)"
    unfolding overlay_def by (rule om.insert_all_invar [OF assms(1)])
  have "distinct (map fst ?kvs)"
    by (rule om_sorted_distinct [OF first_visible_per_key_sorted [OF assms(2)]])
  then have "map_of (rev ?kvs) = map_of ?kvs" by (subst map_of_inject_set) (simp_all flip: rev_map)
  then show "om_get (overlay ?kvs m) k = (case visible e k s of None \<Rightarrow> om_get m k | Some v \<Rightarrow> Some v)"
    unfolding overlay_def om.insert_all_get [OF assms(1)]
    by (simp add: map_add_def first_visible_per_key_get [OF assms(2)])
qed

lemma overlay_sstables_holds:
  assumes "list_all2 (sst_holds bl) ssts ess" and "list_all om_sorted ess" and "om_sorted m"
  shows "\<exists>m'. overlay_sstables ssts s m = Ok m' \<and> om_sorted m'
     \<and> (\<forall>k. om_get m' k = (case visible (concat (rev ess)) k s of None \<Rightarrow> om_get m k | Some v \<Rightarrow> Some v))"
  using assms
proof (induction ssts ess arbitrary: m rule: list_all2_induct)
  case Nil
  then show ?case by simp
next
  case (Cons sst ssts e ess)
  let ?m = "overlay (first_visible_per_key (map version_of e) s) m"
  have m: "om_sorted ?m" using overlay_get(1) Cons.prems by simp
  obtain m' where "overlay_sstables ssts s ?m = Ok m'" "om_sorted m'"
      "\<forall>k. om_get m' k = (case visible (concat (rev ess)) k s of None \<Rightarrow> om_get ?m k | Some v \<Rightarrow> Some v)"
    using Cons.IH [OF _ m] Cons.prems by auto
  then show ?case
    using scan_all_versions_holds [OF Cons.hyps(1)] overlay_get(2) [of m e s] Cons.prems
    by (auto simp: visible_append split: option.splits)
qed

lemma live_entries_get:
  "om_sorted m \<Longrightarrow> om_sorted (live_entries m) \<and> (\<forall>k. om_get (live_entries m) k = settle (om_get m k))
     \<and> fst ` set (live_entries m) \<subseteq> fst ` set m"
proof (induction m)
  case Nil
  then show ?case by (simp add: live_entries_def)
next
  case (Cons p m)
  obtain k v where p: "p = (k, v)" by (cases p)
  from Cons have IH: "om_sorted (live_entries m)" "\<forall>k. om_get (live_entries m) k = settle (om_get m k)"
      "fst ` set (live_entries m) \<subseteq> fst ` set m" by simp_all
  have k: "om_get m k = None" using om_sorted_notin_tail Cons.prems by (simp add: p)
  have lt: "\<forall>e \<in> set (live_entries m). k < fst e"
  proof
    fix e
    assume "e \<in> set (live_entries m)"
    then have "fst e \<in> fst ` set m" using IH(3) by blast
    then show "k < fst e" using Cons.prems by (auto simp: p)
  qed
  have "live_entries (p # m) = (case v of None \<Rightarrow> live_entries m | Some x \<Rightarrow> (k, x) # live_entries m)"
    by (simp add: p live_entries_def map_filter_simps split: option.split)
  with IH k lt show ?case by (cases v) (auto simp: p)
qed

lemma scan_at_layers:
  assumes "view_ok bl (eng_view eng) ess"
  shows "\<exists>xs. scan_at eng s = Ok xs \<and> om_sorted xs
     \<and> (\<forall>k. om_get xs k = settle (visible (layers (eng_view eng) ess) k s))"
proof -
  let ?v = "eng_view eng"
  have h: "list_all2 (sst_holds bl) (ev_sstables ?v) ess" "list_all om_sorted ess"
      "om_sorted (imm_data ?v)" "om_sorted (mt_data (ev_memtable ?v))"
    using assms view_ok_memtable [OF assms] by (simp_all add: view_ok_def)
  obtain m where m: "overlay_sstables (ev_sstables ?v) s [] = Ok m" "om_sorted m"
      "\<forall>k. om_get m k = visible (concat (rev ess)) k s"
    using overlay_sstables_holds [OF h(1,2), of "[]" s] by (auto simp: case_option_id cong: option.case_cong)
  define m1 where "m1 = (case ev_immutable ?v of None \<Rightarrow> m
      | Some imm \<Rightarrow> overlay (first_visible_per_key (iter_versions imm) s) m)"
  have m1: "om_sorted m1" "\<forall>k. om_get m1 k = visible (imm_data ?v @ concat (rev ess)) k s"
    using m overlay_get [OF m(2) h(3), of s]
    by (auto simp: m1_def imm_data_def iter_versions_def visible_append split: option.splits)
  define m2 where "m2 = overlay (first_visible_per_key (iter_versions (ev_memtable ?v)) s) m1"
  have m2: "om_sorted m2" "\<forall>k. om_get m2 k = visible (layers ?v ess) k s"
    using m1 overlay_get [OF m1(1) h(4), of s]
    by (auto simp: m2_def iter_versions_def layers_def visible_append split: option.splits)
  have "scan_at eng s = Ok (live_entries m2)"
    by (simp add: scan_at_def m(1) Let_def m1_def [symmetric] m2_def [symmetric])
  with live_entries_get [OF m2(1)] m2(2) show ?thesis by simp
qed

end
