(* ===== verification/LsmMerge.thy ===== *)
theory LsmMerge
  imports LsmReads
begin

text \<open>
  The merge of a compaction.  With the layers in commit order, the merged table
  shows every snapshot at or above the watermark what the layers showed it; with no
  snapshot open, it shows the same to every reader at or after the last commit.
\<close>

subsection \<open>Order of layers\<close>

definition has_key :: "bytes \<Rightarrow> InternalKey \<times> bytes \<Rightarrow> bool" where
  "has_key k e \<longleftrightarrow> user_key (fst e) = k"

text \<open>Every version in the first list is newer than those of its key in the second.\<close>

definition newer :: "(InternalKey \<times> bytes) list \<Rightarrow> (InternalKey \<times> bytes) list \<Rightarrow> bool" where
  "newer a b \<longleftrightarrow> (\<forall>x \<in> set a. \<forall>y \<in> set b.
     user_key (fst x) = user_key (fst y) \<longrightarrow> ik_seq (fst y) < ik_seq (fst x))"

text \<open>A list of layers, newest first, each sorted and each newer than the later ones.\<close>

definition layered :: "(InternalKey \<times> bytes) list list \<Rightarrow> bool" where
  "layered ls \<longleftrightarrow> list_all om_sorted ls \<and> sorted_wrt newer ls"

lemma visible_filter: "visible (filter (has_key k) m) k s = visible m k s"
  by (induction m) (auto simp: visible_Cons has_key_def)

lemma newer_imp_less:
  "newer a b \<Longrightarrow> x \<in> set a \<Longrightarrow> y \<in> set b \<Longrightarrow> has_key k x \<Longrightarrow> has_key k y \<Longrightarrow> fst x < fst y"
  by (auto simp: newer_def has_key_def ik_less_iff)

lemma om_sorted_append:
  "om_sorted (a @ b) \<longleftrightarrow> om_sorted a \<and> om_sorted b \<and> (\<forall>x \<in> set a. \<forall>y \<in> set b. fst x < fst y)"
  by (simp add: sorted_wrt_append)

lemma om_sorted_filter: "om_sorted m \<Longrightarrow> om_sorted (filter P m)"
  by (induction m) auto

text \<open>Within one key, the layers read newest first are in strict version order.\<close>

lemma layered_key_sorted: "layered ls \<Longrightarrow> om_sorted (filter (has_key k) (concat ls))"
proof (induction ls)
  case Nil
  then show ?case by simp
next
  case (Cons l ls)
  have "fst x < fst y" if "x \<in> set l" "y \<in> set (concat ls)" "has_key k x" "has_key k y" for x y
    using Cons.prems that newer_imp_less [of l _ x y k] by (auto simp: layered_def)
  moreover have "om_sorted (filter (has_key k) l)" "layered ls"
    using Cons.prems om_sorted_filter by (auto simp: layered_def)
  ultimately show ?case
    using Cons.IH unfolding concat.simps filter_append om_sorted_append by auto
qed

subsection \<open>Stable sorting\<close>

lemma sorted_wrt_subseq: "subseq xs ys \<Longrightarrow> sorted_wrt R ys \<Longrightarrow> sorted_wrt R xs"
  by (induction rule: list_emb.induct) (auto dest: list_emb_set)

lemma subseq_pair: "i < j \<Longrightarrow> j < length xs \<Longrightarrow> subseq [xs ! i, xs ! j] xs"
proof (induction xs arbitrary: i j)
  case Nil
  then show ?case by simp
next
  case (Cons x xs)
  obtain j' where j: "j = Suc j'" using Cons.prems by (cases j) auto
  show ?case
  proof (cases i)
    case 0
    then show ?thesis using Cons.prems j by (simp add: subseq_singleton_left)
  next
    case (Suc i')
    then have "subseq [xs ! i', xs ! j'] xs" using Cons j by simp
    then show ?thesis unfolding Suc j nth_Cons_Suc by (rule list_emb_Cons)
  qed
qed

text \<open>
  A stable sort puts a list in the order \<open>R\<close> when the sort key decides \<open>R\<close> and
  entries with equal sort keys already were in that order.
\<close>

lemma sort_key_refines:
  assumes key: "\<And>x y. x \<in> set xs \<Longrightarrow> y \<in> set xs \<Longrightarrow> f x < f y \<Longrightarrow> R x y"
    and ties: "\<And>c. sorted_wrt R (filter (\<lambda>x. f x = c) xs)"
  shows "sorted_wrt R (sort_key f xs)"
  unfolding sorted_wrt_iff_nth_less
proof (intro allI impI)
  fix i j
  let ?ys = "sort_key f xs"
  assume ij: "i < j" "j < length ?ys"
  have mem: "?ys ! i \<in> set xs" "?ys ! j \<in> set xs"
    using ij nth_mem [of _ ?ys] by (metis less_trans set_sort)+
  have le: "f (?ys ! i) \<le> f (?ys ! j)"
    using ij sorted_sort_key [of f xs] by (auto simp: sorted_wrt_iff_nth_less)
  show "R (?ys ! i) (?ys ! j)"
  proof (cases "f (?ys ! i) < f (?ys ! j)")
    case True
    then show ?thesis using key mem by blast
  next
    case False
    then have eq: "f (?ys ! i) = f (?ys ! j)" using le by simp
    let ?P = "\<lambda>x. f x = f (?ys ! j)"
    have "subseq (filter ?P [?ys ! i, ?ys ! j]) (filter ?P ?ys)"
      by (rule subseq_filter [OF subseq_pair [OF ij]])
    moreover have "filter ?P ?ys = filter ?P xs" by (rule sort_key_stable)
    ultimately have "sorted_wrt R [?ys ! i, ?ys ! j]"
      using ties sorted_wrt_subseq eq by fastforce
    then show ?thesis by simp
  qed
qed

lemma om_sorted_unique:
  assumes "om_sorted xs" and "om_sorted ys" and "set xs = set ys"
  shows "xs = ys"
proof (rule map_sorted_distinct_set_unique)
  show "inj_on fst (set xs \<union> set ys)"
    using om_sorted_distinct [OF assms(1)] assms(3) by (simp add: distinct_map)
qed (use assms in \<open>simp_all add: strict_sorted_iff\<close>)

subsection \<open>Collecting the versions of a key\<close>

definition strip :: "InternalKey \<times> bytes \<Rightarrow> u64 \<times> u8 \<times> bytes option" where
  "strip e = (ik_seq (fst e), ik_tag (fst e), value_of e)"

definition vlist :: "(bytes \<times> key_versions) list \<Rightarrow> bytes \<Rightarrow> key_versions" where
  "vlist by_key k = (case om_get by_key k of None \<Rightarrow> [] | Some vs \<Rightarrow> vs)"

lemma push_versions:
  assumes "om_sorted bk"
  shows "om_sorted (fold push_version (map version_of e) bk)
    \<and> vlist (fold push_version (map version_of e) bk) k = vlist bk k @ map strip (filter (has_key k) e)"
  using assms
proof (induction e arbitrary: bk)
  case Nil
  then show ?case by simp
next
  case (Cons x e)
  obtain ik v where x: "x = (ik, v)" by (cases x)
  let ?bk = "push_version (version_of x) bk"
  have "om_sorted ?bk" "vlist ?bk k = vlist bk k @ map strip (filter (has_key k) [x])"
    using Cons.prems
    by (auto simp: push_version_def version_of_value vlist_def strip_def has_key_def split: option.split)
  with Cons.IH [of ?bk] show ?case by simp
qed

lemma collect_versions_holds:
  assumes "list_all2 (sst_holds bl) ssts ess" and "om_sorted bk"
  shows "\<exists>bk'. collect_versions ssts bk = Ok bk' \<and> om_sorted bk'
    \<and> (\<forall>k. vlist bk' k = vlist bk k @ map strip (filter (has_key k) (concat ess)))"
  using assms
proof (induction ssts ess arbitrary: bk rule: list_all2_induct)
  case Nil
  then show ?case by simp
next
  case (Cons sst ssts e ess)
  let ?bk = "fold push_version (map version_of e) bk"
  have P: "om_sorted ?bk" "\<And>k. vlist ?bk k = vlist bk k @ map strip (filter (has_key k) e)"
    using push_versions [OF Cons.prems] by simp_all
  obtain bk' where "collect_versions ssts ?bk = Ok bk'" "om_sorted bk'"
      "\<forall>k. vlist bk' k = vlist ?bk k @ map strip (filter (has_key k) (concat ess))"
    using Cons.IH [OF P(1)] by blast
  then show ?case using scan_all_versions_holds [OF Cons.hyps(1)] P(2) by simp
qed

subsection \<open>Sorting the versions of a key\<close>

definition newest_key :: "InternalKey \<times> bytes \<Rightarrow> u64" where
  "newest_key e = - 1 - ik_seq (fst e)"

lemma neg_less: "(- 1 - a :: u64) < - 1 - b \<longleftrightarrow> b < a"
proof -
  have u: "unat (- 1 - c :: u64) = 2 ^ 64 - 1 - unat c" for c :: u64
    by (subst unat_sub) (simp_all add: unat_max_u64)
  show ?thesis using unat_u64_less [of a] unat_u64_less [of b]
    unfolding word_less_nat_alt u by simp linarith
qed

lemma sort_key_map: "sort_key f (map g xs) = map g (sort_key (f \<circ> g) xs)"
proof -
  have ins: "insort_key f (g x) (map g ys) = map g (insort_key (\<lambda>x. f (g x)) x ys)" for x ys
    by (induction ys) auto
  show ?thesis by (induction xs) (simp_all add: ins comp_def)
qed

text \<open>Reading the layers newest first is what sorting their versions gives.\<close>

lemma sort_newest_first_layers:
  assumes "layered (rev ess)"
  shows "sort_newest_first (map strip (filter (has_key k) (concat ess)))
       = map strip (filter (has_key k) (concat (rev ess)))"
proof -
  let ?B = "filter (has_key k) (concat ess)"
  have "sorted_wrt (\<lambda>x y. fst x < fst y) (sort_key newest_key ?B)"
  proof (rule sort_key_refines)
    show "fst x < fst y" if "x \<in> set ?B" "y \<in> set ?B" "newest_key x < newest_key y" for x y
      using that by (auto simp: newest_key_def neg_less has_key_def ik_less_iff)
    show "sorted_wrt (\<lambda>x y. fst x < fst y) (filter (\<lambda>x. newest_key x = c) ?B)" for c
      using assms
    proof (induction ess)
      case Nil
      then show ?case by simp
    next
      case (Cons e ess)
      have e: "om_sorted e" "\<forall>l \<in> set ess. newer l e" "layered (rev ess)"
        using Cons.prems by (auto simp: layered_def sorted_wrt_append)
      have "fst x < fst y" if "x \<in> set e" "y \<in> set (concat ess)" "has_key k x" "has_key k y"
          "newest_key x = newest_key y" for x y
        using e(2) that unfolding newer_def has_key_def newest_key_def by fastforce
      with Cons.IH [OF e(3)] om_sorted_filter [OF e(1)] show ?case
        by (auto simp: sorted_wrt_append sorted_wrt_map)
    qed
  qed
  then have "om_sorted (sort_key newest_key ?B)" by (simp add: sorted_wrt_map)
  moreover have "om_sorted (filter (has_key k) (concat (rev ess)))"
    by (rule layered_key_sorted [OF assms])
  ultimately have "sort_key newest_key ?B = filter (has_key k) (concat (rev ess))"
    by (rule om_sorted_unique) simp
  moreover have "(\<lambda>v. - 1 - fst v) \<circ> strip = newest_key"
    by (simp add: fun_eq_iff strip_def newest_key_def)
  ultimately show ?thesis by (simp add: sort_newest_first_def sort_key_map)
qed

subsection \<open>Keeping what a snapshot can see\<close>

text \<open>
  The readers a compaction with this watermark must serve: with a snapshot open,
  every snapshot at or above the oldest; with none, every reader that has all of the
  versions in view.
\<close>

definition served :: "u64 \<Rightarrow> (InternalKey \<times> bytes) list \<Rightarrow> u64 \<Rightarrow> bool" where
  "served w m s \<longleftrightarrow> w \<le> s \<or> w = - 1 \<and> (\<forall>e \<in> set m. ik_seq (fst e) \<le> s)"

lemma value_of_kept:
  "user_key (fst e) = k \<Longrightarrow>
     value_of (InternalKey k (ik_seq (fst e)) (ik_tag (fst e)), unwrap_or_default (value_of e)) = value_of e"
  by (simp add: value_of_def is_delete_def unwrap_or_default_def)

lemma keep_visible:
  assumes "list_all (has_key k) A" and "served w A s"
  shows "settle (visible (keep_versions w k (map strip A)) k s) = settle (visible A k s)"
  using assms
proof (induction A)
  case Nil
  then show ?case by simp
next
  case (Cons e A)
  have e: "user_key (fst e) = k" "list_all (has_key k) A" "served w A s"
    using Cons.prems by (auto simp: has_key_def [of k e] served_def)
  note IH = Cons.IH [OF e(2,3)]
  show ?case
  proof (cases "w \<le> ik_seq (fst e)")
    case True
    then show ?thesis using IH e value_of_kept [OF e(1)] by (simp add: strip_def visible_Cons)
  next
    case False
    then have "ik_seq (fst e) \<le> s" using Cons.prems(2) by (auto simp: served_def)
    moreover have "value_of e = None" if "ik_tag (fst e) = DELETE_TAG"
      using that by (simp add: value_of_def is_delete_def)
    ultimately show ?thesis
      using False e value_of_kept [OF e(1)] by (simp add: strip_def visible_Cons)
  qed
qed

lemma keep_prefix:
  "list_all (has_key k) A \<Longrightarrow> prefix (map fst (keep_versions w k (map strip A))) (map fst A)"
proof (induction A)
  case Nil
  then show ?case by simp
next
  case (Cons e A)
  have "InternalKey k (ik_seq (fst e)) (ik_tag (fst e)) = fst e"
    using Cons.prems by (auto simp: has_key_def)
  with Cons show ?case by (simp add: strip_def)
qed

lemma keep_key: "e \<in> set (keep_versions w k vs) \<Longrightarrow> user_key (fst e) = k"
  by (induction w k vs rule: keep_versions.induct) (auto split: if_splits)

lemma om_sorted_prefix: "om_sorted m \<Longrightarrow> prefix ks (map fst m) \<Longrightarrow> sorted_wrt (<) ks"
  by (auto simp: prefix_def sorted_wrt_append)

text \<open>The merged list, key by key.\<close>

lemma visible_by_key:
  assumes "om_sorted bk"
  shows "visible (concat (map (\<lambda>(key, vs). keep_versions w key (g vs)) bk)) k s
       = (case om_get bk k of None \<Rightarrow> None | Some vs \<Rightarrow> visible (keep_versions w k (g vs)) k s)"
  using assms
proof (induction bk)
  case Nil
  then show ?case by simp
next
  case (Cons p bk)
  obtain key vs where p: "p = (key, vs)" by (cases p)
  have other: "visible (keep_versions w key (g vs)) k s = None" if "key \<noteq> k"
    using that keep_key by (fastforce simp: visible_None_iff)
  have "om_get bk key = None" using om_sorted_notin_tail Cons.prems by (simp add: p)
  with Cons other show ?case by (auto simp: p visible_append split: option.split)
qed

lemma sorted_by_key:
  assumes "om_sorted bk" and "\<And>key vs. (key, vs) \<in> set bk \<Longrightarrow> om_sorted (keep_versions w key (g vs))"
  shows "om_sorted (concat (map (\<lambda>(key, vs). keep_versions w key (g vs)) bk))"
  using assms
proof (induction bk)
  case Nil
  then show ?case by simp
next
  case (Cons p bk)
  obtain key vs where p: "p = (key, vs)" by (cases p)
  have "fst x < fst y" if "x \<in> set (keep_versions w key (g vs))" "(key', vs') \<in> set bk"
      "y \<in> set (keep_versions w key' (g vs'))" for x y key' vs'
  proof -
    have "key < key'" using Cons.prems(1) that(2) by (auto simp: p)
    then show ?thesis
      using keep_key [OF that(1)] keep_key [OF that(3)] by (simp add: ik_less_iff)
  qed
  moreover have "om_sorted (keep_versions w key (g vs))" using Cons.prems(2) by (simp add: p)
  moreover have "om_sorted (concat (map (\<lambda>(key, vs). keep_versions w key (g vs)) bk))"
    using Cons by simp
  ultimately show ?case
    unfolding p list.map concat.simps prod.case om_sorted_append by auto
qed

text \<open>
  The whole merge: the entries written are sorted, and every reader the watermark
  serves sees through them what it saw through the layers.
\<close>

lemma compact_entries_correct:
  assumes "list_all2 (sst_holds bl) ssts ess" and "layered (rev ess)"
  shows "\<exists>bk. collect_versions ssts [] = Ok bk \<and> om_sorted (compact_entries w bk)
    \<and> (\<forall>k s. served w (concat ess) s \<longrightarrow>
         settle (visible (compact_entries w bk) k s) = settle (visible (concat (rev ess)) k s))
    \<and> (\<forall>e \<in> set (compact_entries w bk). \<exists>e' \<in> set (concat ess). fst e' = fst e)"
proof -
  obtain bk where bk: "collect_versions ssts [] = Ok bk" "om_sorted bk"
      "\<forall>k. vlist bk k = map strip (filter (has_key k) (concat ess))"
    using collect_versions_holds [OF assms(1), of "[]"] by (auto simp: vlist_def)
  let ?A = "\<lambda>k. filter (has_key k) (concat (rev ess))"
  have A: "list_all (has_key k) (?A k)" for k by (simp add: list_all_iff)
  have sorted_vs: "sort_newest_first (vlist bk k) = map strip (?A k)" for k
    using sort_newest_first_layers [OF assms(2)] bk(3) by simp
  have get: "sort_newest_first vs = map strip (?A key)" if "(key, vs) \<in> set bk" for key vs
    using sorted_vs [of key] om.entries_mem [OF bk(2), of key vs] that by (simp add: vlist_def)
  let ?es = "concat (map (\<lambda>(key, vs). keep_versions w key (sort_newest_first vs)) bk)"
  have "om_sorted ?es"
  proof (rule sorted_by_key [OF bk(2)])
    fix key vs assume "(key, vs) \<in> set bk"
    then show "om_sorted (keep_versions w key (sort_newest_first vs))"
      using om_sorted_prefix [OF layered_key_sorted [OF assms(2)] keep_prefix [OF A]] get by simp
  qed
  then have es: "compact_entries w bk = ?es" "om_sorted ?es"
    by (simp_all add: compact_entries_def sort_key_id_if_sorted strict_sorted_iff)
  have "settle (visible ?es k s) = settle (visible (concat (rev ess)) k s)"
    if "served w (concat ess) s" for k s
  proof -
    have "served w (?A k) s" using that unfolding served_def by fastforce
    then have keep: "settle (visible (keep_versions w k (map strip (?A k))) k s)
        = settle (visible (concat (rev ess)) k s)"
      using keep_visible [OF A] by (simp add: visible_filter)
    show ?thesis
    proof (cases "om_get bk k")
      case None
      then have "?A k = []" using bk(3) [rule_format, of k] by (auto simp: vlist_def filter_empty_conv)
      with None keep show ?thesis by (simp add: visible_by_key [OF bk(2)])
    next
      case (Some vs)
      then show ?thesis using keep get [OF map_of_SomeD [OF Some]]
        by (simp add: visible_by_key [OF bk(2)])
    qed
  qed
  moreover have "\<exists>e' \<in> set (concat ess). fst e' = fst e" if mem: "e \<in> set ?es" for e
  proof -
    obtain key vs where kv: "(key, vs) \<in> set bk" "e \<in> set (keep_versions w key (sort_newest_first vs))"
      using mem by auto
    then have "fst e \<in> set (map fst (?A key))"
      using keep_prefix [OF A, of w key] get [OF kv(1)] set_mono_prefix by fastforce
    then obtain e' where "e' \<in> set (?A key)" "fst e = fst e'" by (auto simp del: filter_concat)
    then show ?thesis by (intro bexI [of _ e']) simp_all
  qed
  ultimately show ?thesis using bk(1) es by auto
qed

end
