(* ===== verification/LsmSteps.thy ===== *)
theory LsmSteps
  imports LsmMerge
begin

text \<open>
  The engine's operations preserve its invariant and change what readers see only
  as they should: the operations one by one, then their runs.
\<close>

definition eng_layers :: "'b LsmEngine \<Rightarrow> (InternalKey \<times> bytes) list list \<Rightarrow> (InternalKey \<times> bytes) list" where
  "eng_layers eng ess = layers (eng_view eng) ess"

definition next_seq :: "'b LsmEngine \<Rightarrow> u64" where
  "next_seq eng = ws_next_commit_seq (eng_write eng)"

abbreviation snapshots :: "'b LsmEngine \<Rightarrow> (u64 \<times> u32) list" where
  "snapshots eng \<equiv> ws_open_snapshots (eng_write eng)"

text \<open>
  The engine's invariant, with the contents of its SSTables: a well-formed view
  whose layers are in commit order, and no version, no open snapshot at or above the
  next commit sequence number.
\<close>

definition eng_ok :: "'b bloom_ops \<Rightarrow> 'b LsmEngine \<Rightarrow> (InternalKey \<times> bytes) list list \<Rightarrow> bool" where
  "eng_ok bl eng ess \<longleftrightarrow> view_ok bl (eng_view eng) ess
     \<and> layered (mt_data (ev_memtable (eng_view eng)) # imm_data (eng_view eng) # rev ess)
     \<and> (\<forall>e \<in> set (eng_layers eng ess). ik_seq (fst e) < next_seq eng)
     \<and> om_sorted (snapshots eng) \<and> (\<forall>p \<in> set (snapshots eng). fst p < next_seq eng)"

text \<open>What a reader at a snapshot gets, on the abstract side.\<close>

definition sees :: "'b LsmEngine \<Rightarrow> (InternalKey \<times> bytes) list list \<Rightarrow> bytes \<Rightarrow> u64 \<Rightarrow> bytes option" where
  "sees eng ess k s = settle (visible (eng_layers eng ess) k s)"

lemma eng_ok_read: "eng_ok (env_bloom env) eng ess \<Longrightarrow> read_at env eng k s = Ok (sees eng ess k s)"
  by (simp add: eng_ok_def sees_def eng_layers_def read_at_layers)

lemma eng_ok_scan:
  "eng_ok bl eng ess \<Longrightarrow>
     \<exists>xs. scan_at eng s = Ok xs \<and> om_sorted xs \<and> (\<forall>k. om_get xs k = sees eng ess k s)"
  using scan_at_layers [of bl eng ess s] by (auto simp: eng_ok_def sees_def eng_layers_def)

lemma eng_ok_scan_eq:
  assumes "eng_ok bl eng ess" and "eng_ok bl' eng' ess'" and "\<And>k. sees eng' ess' k s = sees eng ess k s"
  shows "scan_at eng' s = scan_at eng s"
proof -
  obtain xs ys where xs: "scan_at eng s = Ok xs" "om_sorted xs" "\<forall>k. om_get xs k = sees eng ess k s"
    and ys: "scan_at eng' s = Ok ys" "om_sorted ys" "\<forall>k. om_get ys k = sees eng' ess' k s"
    using eng_ok_scan [OF assms(1)] eng_ok_scan [OF assms(2)] by blast
  have "map_of ys = map_of xs" using xs ys assms(3) by auto
  then have "set ys = set xs"
    using om_sorted_distinct xs(2) ys(2) map_of_inject_set by blast
  with om_sorted_unique xs ys show ?thesis by metis
qed

subsection \<open>Writing\<close>

definition ik_entry :: "u64 \<Rightarrow> batch_entry \<Rightarrow> InternalKey \<times> bytes" where
  "ik_entry c e = (case e of
     (_, key, Some v) \<Rightarrow> (InternalKey key c PUT_TAG, v)
   | (_, key, None) \<Rightarrow> (InternalKey key c DELETE_TAG, []))"

lemma insert_entry_data:
  "mt_data (insert_entry c e mt) = (case ik_entry c e of (ik, v) \<Rightarrow> om_insert ik v (mt_data mt))"
  by (auto simp: insert_entry_def ik_entry_def split: prod.splits option.splits)

lemma ik_entry_simps:
  "ik_seq (fst (ik_entry c e)) = c" "user_key (fst (ik_entry c e)) = fst (snd e)"
  "value_of (ik_entry c e) = snd (snd e)"
  by (auto simp: ik_entry_def value_of_def is_delete_def PUT_TAG_def DELETE_TAG_def
      split: prod.splits option.splits)

lemma insert_entries_data:
  "mt_data (fold (insert_entry c) es mt) = fold (\<lambda>(ik, v). om_insert ik v) (map (ik_entry c) es) (mt_data mt)"
  by (induction es arbitrary: mt) (simp_all add: insert_entry_data split: prod.split)

text \<open>A version above the snapshot does not change what the snapshot sees.\<close>

lemma visible_insert_above:
  "s < ik_seq ik \<Longrightarrow> visible (om_insert ik v m) k s = visible m k s"
  by (induction ik v m rule: om_insert.induct) (auto simp: visible_Cons)

lemma visible_insert_all_above:
  "\<forall>e \<in> set kvs. s < ik_seq (fst e) \<Longrightarrow>
     visible (fold (\<lambda>(ik, v). om_insert ik v) kvs m) k s = visible m k s"
  by (induction kvs arbitrary: m) (auto simp: visible_insert_above)

lemma insert_all_set:
  "om_sorted m \<Longrightarrow> set (fold (\<lambda>(ik, v). om_insert ik v) kvs m) \<subseteq> set m \<union> set kvs"
proof (induction kvs arbitrary: m)
  case Nil
  then show ?case by simp
next
  case (Cons p kvs)
  obtain ik v where p: "p = (ik, v)" by (cases p)
  have "set (om_insert ik v m) \<subseteq> set m \<union> {p}" using om_insert_set [OF Cons.prems] by (auto simp: p)
  then show ?case using Cons.IH [of "om_insert ik v m"] Cons.prems by (auto simp: p)
qed

text \<open>The engine after the log append and the inserts of a batch.\<close>

definition with_batch :: "batch_entry list \<Rightarrow> Wal \<Rightarrow> 'b LsmEngine \<Rightarrow> 'b LsmEngine" where
  "with_batch es wal eng =
     eng\<lparr>eng_write := (eng_write eng)\<lparr>ws_next_commit_seq := next_seq eng + 1, ws_wal := wal\<rparr>,
         eng_view := (eng_view eng)\<lparr>ev_memtable :=
            fold (insert_entry (next_seq eng)) es (ev_memtable (eng_view eng))\<rparr>\<rparr>"

lemma with_batch_data:
  assumes ok: "eng_ok bl eng ess"
    and m'_def: "m' = mt_data (ev_memtable (eng_view (with_batch es wal eng)))"
  shows "om_sorted m'"
    and "x \<in> set m' \<Longrightarrow> x \<in> set (mt_data (ev_memtable (eng_view eng))) \<or> ik_seq (fst x) = next_seq eng"
    and "s < next_seq eng \<Longrightarrow> visible m' k s = visible (mt_data (ev_memtable (eng_view eng))) k s"
proof -
  let ?m = "mt_data (ev_memtable (eng_view eng))" and ?kvs = "map (ik_entry (next_seq eng)) es"
  have m': "m' = fold (\<lambda>(ik, v). om_insert ik v) ?kvs ?m"
    by (simp add: m'_def with_batch_def insert_entries_data)
  have m: "om_sorted ?m" using ok by (simp add: eng_ok_def view_ok_def memtable_invar_def)
  show "om_sorted m'" unfolding m' by (rule om.insert_all_invar [OF m])
  show "x \<in> set ?m \<or> ik_seq (fst x) = next_seq eng" if "x \<in> set m'"
    using that insert_all_set [OF m, of ?kvs] unfolding m' by (auto simp: ik_entry_simps)
  show "visible m' k s = visible ?m k s" if "s < next_seq eng"
    unfolding m' by (rule visible_insert_all_above) (use that in \<open>simp add: ik_entry_simps\<close>)
qed

lemma with_batch_view:
  "imm_data (eng_view (with_batch es wal eng)) = imm_data (eng_view eng)"
  "ev_sstables (eng_view (with_batch es wal eng)) = ev_sstables (eng_view eng)"
  "next_seq (with_batch es wal eng) = next_seq eng + 1"
  "snapshots (with_batch es wal eng) = snapshots eng"
  by (simp_all add: with_batch_def imm_data_def next_seq_def)

lemma eng_layers_eq:
  "eng_layers eng ess = mt_data (ev_memtable (eng_view eng)) @ imm_data (eng_view eng) @ concat (rev ess)"
  by (simp add: eng_layers_def layers_def)

lemma with_batch_ok:
  assumes ok: "eng_ok bl eng ess" and max: "next_seq eng \<noteq> - 1"
  shows "eng_ok bl (with_batch es wal eng) ess"
    and "s < next_seq eng \<Longrightarrow> sees (with_batch es wal eng) ess k s = sees eng ess k s"
proof -
  let ?eng = "with_batch es wal eng"
  let ?m = "mt_data (ev_memtable (eng_view eng))" and ?m' = "mt_data (ev_memtable (eng_view ?eng))"
  note D = with_batch_data [OF ok refl, where es = es and wal = wal]
  note V = with_batch_view [of es wal eng]
  let ?old = "imm_data (eng_view eng) # rev ess"
  have lay: "layered (?m # ?old)" and vw: "view_ok bl (eng_view eng) ess"
    and bound: "\<forall>e \<in> set ?m \<union> set (concat ?old). ik_seq (fst e) < next_seq eng"
    and snaps: "om_sorted (snapshots eng)" "\<forall>p \<in> set (snapshots eng). fst p < next_seq eng"
    using ok by (auto simp: eng_ok_def eng_layers_eq)
  have "newer ?m' l" if "l \<in> set ?old" for l
    unfolding newer_def
  proof (intro ballI impI)
    fix x y
    assume x: "x \<in> set ?m'" and y: "y \<in> set l" and k: "user_key (fst x) = user_key (fst y)"
    have "y \<in> set (concat ?old)" using y that by auto
    then have "ik_seq (fst y) < next_seq eng" using bound by blast
    moreover have "newer ?m l" using lay that by (auto simp: layered_def)
    ultimately show "ik_seq (fst y) < ik_seq (fst x)"
      using D(2) [OF x] y k by (auto simp: newer_def)
  qed
  then have "layered (?m' # ?old)" using lay D(1) by (auto simp: layered_def)
  moreover have "view_ok bl (eng_view ?eng) ess"
    using vw D(1) by (simp add: view_ok_def memtable_invar_def V)
  moreover have "ik_seq (fst e) < next_seq eng + 1" if "e \<in> set ?m' \<union> set (concat ?old)" for e
  proof (rule u64_less_Suc [OF max])
    have "e \<in> set ?m \<union> set (concat ?old) \<or> ik_seq (fst e) = next_seq eng" using that D(2) by blast
    with bound show "ik_seq (fst e) \<le> next_seq eng" by (metis order_less_imp_le order_refl)
  qed
  moreover have "\<forall>p \<in> set (snapshots eng). fst p < next_seq eng + 1"
    using snaps(2) u64_less_Suc [OF max] by (auto simp: less_imp_le)
  ultimately show "eng_ok bl ?eng ess"
    using snaps(1) by (simp add: eng_ok_def eng_layers_eq V)
  show "sees ?eng ess k s = sees eng ess k s" if "s < next_seq eng"
    using D(3) [OF that] by (simp add: sees_def eng_layers_eq V visible_append)
qed

text \<open>A reader at the batch's own sequence number sees the batch over the old state.\<close>

lemma visible_insert_other:
  "user_key ik \<noteq> k \<Longrightarrow> visible (om_insert ik v m) k s = visible m k s"
  by (induction ik v m rule: om_insert.induct) (auto simp: visible_Cons)

lemma visible_insert_all_other:
  "\<forall>e \<in> set kvs. user_key (fst e) \<noteq> k \<Longrightarrow>
     visible (fold (\<lambda>(ik, v). om_insert ik v) kvs m) k s = visible m k s"
  by (induction kvs arbitrary: m) (auto simp: visible_insert_other)

lemma visible_insert_batch:
  assumes m: "om_sorted m" and old: "\<forall>e \<in> set m. ik_seq (fst e) < c"
    and dist: "distinct (map (user_key \<circ> fst) kvs)" and new: "\<forall>e \<in> set kvs. ik_seq (fst e) = c"
    and e: "e \<in> set kvs"
  shows "visible (fold (\<lambda>(ik, v). om_insert ik v) kvs m) (user_key (fst e)) c = Some (value_of e)"
proof (rule visible_least)
  let ?m = "fold (\<lambda>(ik, v). om_insert ik v) kvs m"
  show srt: "om_sorted ?m" by (rule om.insert_all_invar [OF m])
  have "distinct (map fst kvs)" using dist by (auto simp: distinct_map intro: inj_on_imageI2)
  then have "map_of (rev kvs) (fst e) = Some (snd e)"
    using e by (subst map_of_eq_Some_iff) (simp_all add: rev_map [symmetric])
  then have "om_get ?m (fst e) = Some (snd e)" by (simp add: om.insert_all_get [OF m])
  then show "e \<in> set ?m" using om.entries_mem [OF srt, of "fst e" "snd e"] by simp
  show "ik_seq (fst e) \<le> c" using e new by simp
  fix e'
  assume e': "e' \<in> set ?m" "user_key (fst e') = user_key (fst e)"
  show "fst e \<le> fst e'"
  proof (cases "e' \<in> set m")
    case True
    then show ?thesis using old new e e'(2) by (auto simp: ik_le_iff)
  next
    case False
    then have "e' \<in> set kvs" using insert_all_set [OF m, of kvs] e'(1) by blast
    then have "e' = e" using dist e e'(2) by (simp add: distinct_map inj_on_def)
    then show ?thesis by simp
  qed
qed simp

lemma with_batch_latest:
  assumes ok: "eng_ok bl eng ess" and dist: "distinct (map (fst \<circ> snd) es)"
  shows "sees (with_batch es wal eng) ess k (next_seq eng)
       = (case map_of (map snd es) k of Some v \<Rightarrow> v | None \<Rightarrow> sees eng ess k (next_seq eng))"
proof -
  let ?m = "mt_data (ev_memtable (eng_view eng))" and ?c = "next_seq eng"
  let ?kvs = "map (ik_entry ?c) es"
  have m': "mt_data (ev_memtable (eng_view (with_batch es wal eng)))
      = fold (\<lambda>(ik, v). om_insert ik v) ?kvs ?m"
    by (simp add: with_batch_def insert_entries_data)
  have m: "om_sorted ?m" "\<forall>e \<in> set ?m. ik_seq (fst e) < ?c"
    using ok by (simp_all add: eng_ok_def view_ok_def memtable_invar_def eng_layers_eq)
  show ?thesis
  proof (cases "map_of (map snd es) k")
    case None
    then have "k \<notin> (fst \<circ> snd) ` set es" by (simp add: map_of_eq_None_iff image_comp)
    then have "\<forall>e \<in> set ?kvs. user_key (fst e) \<noteq> k" by (auto simp: ik_entry_simps)
    then show ?thesis using None visible_insert_all_other [of ?kvs k ?m ?c]
      by (simp add: sees_def eng_layers_eq with_batch_view m' visible_append)
  next
    case (Some v)
    then obtain t where t: "(t, k, v) \<in> set es" by (auto dest!: map_of_SomeD)
    have "visible (fold (\<lambda>(ik, v). om_insert ik v) ?kvs ?m)
        (user_key (fst (ik_entry ?c (t, k, v)))) ?c = Some (value_of (ik_entry ?c (t, k, v)))"
      by (rule visible_insert_batch [OF m])
         (use dist t in \<open>auto simp: ik_entry_simps comp_def distinct_map\<close>)
    then show ?thesis using Some
      by (simp add: sees_def eng_layers_eq m' visible_append ik_entry_simps)
  qed
qed

subsection \<open>Flushing\<close>

text \<open>Freezing the memtable when none is waiting moves it one layer down.\<close>

lemma layered_Nil: "layered ([] # l # ls) \<longleftrightarrow> layered (l # ls)"
  by (auto simp: layered_def newer_def)

lemma layered_drop_empty: "layered (l # [] # ls) \<longleftrightarrow> layered (l # ls)"
  by (auto simp: layered_def newer_def)

lemma begin_flush_ok:
  assumes ok: "eng_ok bl eng ess" and imm: "imm_data (eng_view eng) = []"
    and "begin_flush env lease eng = (r, eng')"
  shows "eng_ok bl eng' ess" and "sees eng' ess = sees eng ess" and "next_seq eng' = next_seq eng"
    and "snapshots eng' = snapshots eng"
    and "r = Ok (Some pf) \<Longrightarrow> ev_immutable (eng_view eng') \<noteq> None \<and> pf_entries pf = imm_data (eng_view eng')"
    and "r = Ok None \<Longrightarrow> imm_data (eng_view eng') = []" and "r = Err e \<Longrightarrow> eng' = eng"
proof -
  let ?m = "mt_data (ev_memtable (eng_view eng))"
  have "eng_view eng' = eng_view eng \<or>
      (mt_data (ev_memtable (eng_view eng')) = [] \<and> imm_data (eng_view eng') = ?m
       \<and> ev_sstables (eng_view eng') = ev_sstables (eng_view eng))"
    and nx: "next_seq eng' = next_seq eng" "snapshots eng' = snapshots eng"
    using assms(3)
    by (auto simp: begin_flush_def Let_def imm_data_def memtable_new_def next_seq_def split: if_splits)
  then consider "eng_view eng' = eng_view eng"
    | "mt_data (ev_memtable (eng_view eng')) = []" "imm_data (eng_view eng') = ?m"
       "ev_sstables (eng_view eng') = ev_sstables (eng_view eng)"
    by blast
  then have "eng_ok bl eng' ess \<and> sees eng' ess = sees eng ess"
  proof cases
    case 1
    then show ?thesis using ok nx by (simp add: eng_ok_def sees_def fun_eq_iff eng_layers_def)
  next
    case 2
    have "eng_layers eng' ess = eng_layers eng ess" using 2 imm by (simp add: eng_layers_eq)
    with 2 ok nx imm show ?thesis
      by (simp add: eng_ok_def sees_def fun_eq_iff view_ok_def memtable_invar_def layered_Nil
          layered_drop_empty)
  qed
  then show "eng_ok bl eng' ess" "sees eng' ess = sees eng ess" by simp_all
  show "next_seq eng' = next_seq eng" "snapshots eng' = snapshots eng" by (fact nx)+
  show "r = Ok (Some pf) \<Longrightarrow> ev_immutable (eng_view eng') \<noteq> None \<and> pf_entries pf = imm_data (eng_view eng')"
    using assms(3) by (auto simp: begin_flush_def Let_def imm_data_def to_entries_def split: if_splits)
  show "r = Ok None \<Longrightarrow> imm_data (eng_view eng') = []" "r = Err e \<Longrightarrow> eng' = eng"
    using assms(3) by (auto simp: begin_flush_def Let_def imm_data_def to_entries_def split: if_splits)
qed

text \<open>A committed flush turns the frozen memtable into the newest SSTable.\<close>

lemma begin_compact_view:
  assumes "begin_compact env lease eng = (r, eng')"
  shows "eng_view eng' = eng_view eng" and "next_seq eng' = next_seq eng"
    and "snapshots eng' = snapshots eng"
    and "r = Ok (Some pc) \<Longrightarrow> pc_sstables pc = ev_sstables (eng_view eng)
           \<and> pc_watermark pc = (case snapshots eng of [] \<Rightarrow> - 1 | (s, _) # _ \<Rightarrow> s)"
  using assms by (auto simp: begin_compact_def Let_def next_seq_def split: if_splits)

lemma commit_flush_view:
  assumes "commit_flush env lease pf sst eng st = (r, eng', st')"
  shows "eng' = eng \<or>
      (ev_memtable (eng_view eng') = ev_memtable (eng_view eng) \<and> ev_immutable (eng_view eng') = None
       \<and> ev_sstables (eng_view eng') = ev_sstables (eng_view eng) @ [sst])"
    and "next_seq eng' = next_seq eng" and "snapshots eng' = snapshots eng"
  using assms
  by (auto simp: commit_flush_def Let_def next_seq_def split: prod.splits sum.splits if_splits
      dest: begin_compact_view)

lemma commit_flush_ok:
  assumes ok: "eng_ok bl eng ess" and "commit_flush env lease pf sst eng st = (r, eng', st')"
    and holds: "sst_holds bl sst (imm_data (eng_view eng))" and "eng' \<noteq> eng"
  shows "eng_ok bl eng' (ess @ [imm_data (eng_view eng)])"
    and "sees eng' (ess @ [imm_data (eng_view eng)]) = sees eng ess"
    and "ev_immutable (eng_view eng') = None"
proof -
  let ?es = "ess @ [imm_data (eng_view eng)]"
  note v = commit_flush_view [OF assms(2)]
  have mt: "ev_memtable (eng_view eng') = ev_memtable (eng_view eng)"
      "ev_immutable (eng_view eng') = None" "ev_sstables (eng_view eng') = ev_sstables (eng_view eng) @ [sst]"
    using v(1) assms(4) by auto
  then have imm: "imm_data (eng_view eng') = []" by (simp add: imm_data_def)
  have lay: "eng_layers eng' ?es = eng_layers eng ess" by (simp add: eng_layers_eq mt imm)
  have "view_ok bl (eng_view eng') ?es"
    using ok holds by (simp add: eng_ok_def view_ok_def mt imm list_all2_appendI)
  then show "eng_ok bl eng' ?es"
    using ok lay v(2,3) by (simp add: eng_ok_def mt imm layered_drop_empty)
  show "sees eng' ?es = sees eng ess" by (simp add: sees_def fun_eq_iff lay)
  show "ev_immutable (eng_view eng') = None" by (fact mt(2))
qed

lemma create_in_store_holds:
  assumes "create_in_store bl store key sid es st = (Ok sst, st')" and "sst_fits bl es" and "bloom_ok bl"
  shows "sst_holds bl sst es"
  using assms decode_build_holds [of bl es key sid sst]
  by (auto simp: create_in_store_def Let_def split: prod.splits sum.splits)

subsection \<open>Compacting\<close>

definition compaction_fits :: "'b bloom_ops \<Rightarrow> 'b PendingCompaction \<Rightarrow> bool" where
  "compaction_fits bl pc \<longleftrightarrow> (\<forall>bk. collect_versions (pc_sstables pc) [] = Ok bk \<longrightarrow>
     sst_fits bl (compact_entries (pc_watermark pc) bk))"

lemma commit_compact_view:
  assumes "commit_compact env lease pc sst eng st = (r, eng', st')"
    and "pc_sstables pc = ev_sstables (eng_view eng)"
  shows "eng' = eng \<or> eng_view eng' = (eng_view eng)\<lparr>ev_sstables := [sst]\<rparr>"
    and "next_seq eng' = next_seq eng" and "snapshots eng' = snapshots eng"
proof -
  have "filter (\<lambda>s. sst_id s \<notin> set (map sst_id (pc_sstables pc))) (ev_sstables (eng_view eng)) = []"
    using assms(2) by (simp add: filter_empty_conv)
  then show "eng' = eng \<or> eng_view eng' = (eng_view eng)\<lparr>ev_sstables := [sst]\<rparr>"
      "next_seq eng' = next_seq eng" "snapshots eng' = snapshots eng"
    using assms(1)
    by (auto simp: commit_compact_def Let_def next_seq_def split: prod.splits sum.splits)
qed

lemma layered_replace_tail:
  assumes "layered (a # b # ls)" and "om_sorted m"
    and "\<forall>e \<in> set m. \<exists>e' \<in> set (concat ls). fst e' = fst e"
  shows "layered [a, b, m]"
proof -
  have n: "newer l m" if "\<forall>l' \<in> set ls. newer l l'" for l
    unfolding newer_def
  proof (intro ballI impI)
    fix x y
    assume xy: "x \<in> set l" "y \<in> set m" "user_key (fst x) = user_key (fst y)"
    obtain y' l' where "l' \<in> set ls" "y' \<in> set l'" "fst y' = fst y" using assms(3) xy(2) by fastforce
    with that xy show "ik_seq (fst y) < ik_seq (fst x)" by (metis newer_def)
  qed
  then show ?thesis using assms(1,2) by (auto simp: layered_def)
qed

lemma run_compaction_ok:
  assumes ok: "eng_ok bl eng ess" and bl: "bl = env_bloom env" "bloom_ok bl"
    and pc: "pc_sstables pc = ev_sstables (eng_view eng)" and fits: "compaction_fits bl pc"
    and run: "run_compaction env lease pc eng st = (r, eng', st')" and "eng' \<noteq> eng"
  obtains ess' where "eng_ok bl eng' ess'"
    and "\<And>k s. served (pc_watermark pc) (concat ess) s \<Longrightarrow> sees eng' ess' k s = sees eng ess k s"
    and "next_seq eng' = next_seq eng" and "snapshots eng' = snapshots eng"
    and "imm_data (eng_view eng') = imm_data (eng_view eng)"
    and "ev_immutable (eng_view eng') = ev_immutable (eng_view eng)"
proof -
  let ?v = "eng_view eng" and ?w = "pc_watermark pc"
  let ?a = "mt_data (ev_memtable ?v)" and ?b = "imm_data ?v"
  have holds: "list_all2 (sst_holds bl) (pc_sstables pc) ess" and lay: "layered (?a # ?b # rev ess)"
    using ok pc by (auto simp: eng_ok_def view_ok_def)
  obtain bk where bk: "collect_versions (pc_sstables pc) [] = Ok bk" "om_sorted (compact_entries ?w bk)"
      "\<forall>k s. served ?w (concat ess) s \<longrightarrow>
         settle (visible (compact_entries ?w bk) k s) = settle (visible (concat (rev ess)) k s)"
      "\<forall>e \<in> set (compact_entries ?w bk). \<exists>e' \<in> set (concat ess). fst e' = fst e"
    using compact_entries_correct [OF holds, of ?w] lay by (auto simp: layered_def)
  let ?m = "compact_entries ?w bk"
  obtain sst st1 where fin: "finish_compact env pc st = (Ok sst, st1)"
      and com: "commit_compact env lease pc sst eng st1 = (r, eng', st')"
    using run \<open>eng' \<noteq> eng\<close> by (auto simp: run_compaction_def split: prod.splits sum.splits)
  have m: "sst_holds bl sst ?m"
    using fin create_in_store_holds [OF _ _ bl(2)] fits bk(1) bl(1)
    by (auto simp: finish_compact_def compaction_fits_def)
  note v = commit_compact_view [OF com pc]
  have view: "eng_view eng' = ?v\<lparr>ev_sstables := [sst]\<rparr>" using v(1) \<open>eng' \<noteq> eng\<close> by simp
  then have imm: "imm_data (eng_view eng') = ?b" by (simp add: imm_data_def)
  have vs: "ev_memtable (eng_view eng') = ev_memtable ?v" "ev_sstables (eng_view eng') = [sst]"
      "ev_immutable (eng_view eng') = ev_immutable ?v"
    by (simp_all add: view)
  have "layered [?a, ?b, ?m]" using layered_replace_tail [OF lay bk(2)] bk(4) by simp
  moreover have "\<forall>e \<in> set ?m. ik_seq (fst e) < next_seq eng"
  proof -
    have "\<forall>e \<in> set (concat ess). ik_seq (fst e) < next_seq eng"
      using ok by (simp add: eng_ok_def eng_layers_eq)
    with bk(4) show ?thesis by metis
  qed
  ultimately have "eng_ok bl eng' [?m]"
    using ok m bk(2) v(2,3) by (auto simp: eng_ok_def view_ok_def vs imm eng_layers_eq)
  moreover have "sees eng' [?m] k s = sees eng ess k s" if "served ?w (concat ess) s" for k s
    using bk(3) that by (simp add: sees_def eng_layers_eq vs imm visible_append split: option.split)
  ultimately show thesis using that [of "[?m]"] v(2,3) imm vs by simp
qed

subsection \<open>Snapshots\<close>

lemma register_snapshot_ok:
  assumes "eng_ok bl eng ess" and "s < next_seq eng"
  shows "eng_ok bl (register_snapshot s eng) ess" and "sees (register_snapshot s eng) ess = sees eng ess"
  using assms
  by (auto simp: eng_ok_def register_snapshot_def count_snapshot_def next_seq_def eng_layers_def
      sees_def fun_eq_iff om_insert_set)

lemma release_snapshot_ok:
  assumes "eng_ok bl eng ess"
  shows "eng_ok bl (release_snapshot s eng) ess" and "sees (release_snapshot s eng) ess = sees eng ess"
proof -
  have "eng_view (release_snapshot s eng) = eng_view eng"
      "next_seq (release_snapshot s eng) = next_seq eng"
    by (simp_all add: release_snapshot_def next_seq_def Let_def split: option.split)
  moreover have "om_sorted (snapshots (release_snapshot s eng))
      \<and> (\<forall>p \<in> set (snapshots (release_snapshot s eng)). fst p < next_seq eng)"
  proof (cases "om_get (snapshots eng) s")
    case None
    then show ?thesis using assms by (simp add: release_snapshot_def eng_ok_def)
  next
    case (Some c)
    have s: "om_sorted (snapshots eng)" "\<forall>p \<in> set (snapshots eng). fst p < next_seq eng"
      using assms by (simp_all add: eng_ok_def)
    moreover have "s < next_seq eng" using s(2) map_of_SomeD [OF Some] by fastforce
    ultimately show ?thesis using Some om_remove_subset [of s "snapshots eng"]
      by (auto simp: release_snapshot_def Let_def om_insert_set)
  qed
  ultimately show "eng_ok bl (release_snapshot s eng) ess"
      "sees (release_snapshot s eng) ess = sees eng ess"
    using assms by (simp_all add: eng_ok_def sees_def eng_layers_def fun_eq_iff)
qed

text \<open>The watermark is at or below every open snapshot.\<close>

lemma watermark_le:
  assumes "om_sorted (snapshots eng)" and "s \<in> fst ` set (snapshots eng)"
  shows "(case snapshots eng of [] \<Rightarrow> - 1 | (s, _) # _ \<Rightarrow> s) \<le> s"
  using assms by (cases "snapshots eng") (auto simp: less_imp_le)

subsection \<open>Runs\<close>

text \<open>
  The steps of an engine with at most one flush in flight.  A state carries the
  pending flush and the object store.  A flush begins only when no frozen memtable is
  waiting, and a compaction runs from its capture to its commit without another
  flush being committed in between; writes, snapshots and failures come at any time.
\<close>

inductive lsm_step ::
  "('b, 's) lsm_env \<Rightarrow> 'b LsmEngine \<times> PendingFlush option \<times> 's
     \<Rightarrow> 'b LsmEngine \<times> PendingFlush option \<times> 's \<Rightarrow> bool"
  for env where
  put_batch: "next_seq eng \<noteq> - 1 \<Longrightarrow> write_batch env lease fault entries eng = (r, eng') \<Longrightarrow>
    (ev_immutable (eng_view eng') \<noteq> ev_immutable (eng_view eng) \<Longrightarrow> imm_data (eng_view eng) = []) \<Longrightarrow>
    lsm_step env (eng, pend, st)
      (eng', case r of Inr (_, Some pf) \<Rightarrow> Some pf | _ \<Rightarrow> pend, st)"
| freeze: "imm_data (eng_view eng) = [] \<Longrightarrow> begin_flush env lease eng = (r, eng') \<Longrightarrow>
    lsm_step env (eng, None, st) (eng', case r of Inr p \<Rightarrow> p | _ \<Rightarrow> None, st)"
| build_failed: "finish_flush env pf st = (Err e, st') \<Longrightarrow> lsm_step env (eng, Some pf, st) (eng, Some pf, st')"
| commit: "sst_fits (env_bloom env) (pf_entries pf) \<Longrightarrow> finish_flush env pf st = (Ok sst, st1) \<Longrightarrow>
    commit_flush env lease pf sst eng st1 = (r, eng', st') \<Longrightarrow>
    lsm_step env (eng, Some pf, st) (eng', if eng' = eng then Some pf else None, st')"
| compact: "begin_compact env lease eng = (Ok (Some pc), eng1) \<Longrightarrow>
    compaction_fits (env_bloom env) pc \<Longrightarrow>
    run_compaction env lease pc eng1 st = (r, eng', st') \<Longrightarrow>
    lsm_step env (eng, pend, st) (eng', pend, st')"
| compact_skipped: "begin_compact env lease eng = (r, eng') \<Longrightarrow> r \<noteq> Ok (Some pc) \<Longrightarrow>
    lsm_step env (eng, pend, st) (eng', pend, st)"
| snapshot: "snapshot_now eng = (s, eng') \<Longrightarrow> next_seq eng \<noteq> 0 \<Longrightarrow>
    lsm_step env (eng, pend, st) (eng', pend, st)"
| release: "lsm_step env (eng, pend, st) (release_snapshot s eng, pend, st)"

text \<open>The invariant of a run: the pending flush is the frozen memtable's.\<close>

definition run_ok ::
  "'b bloom_ops \<Rightarrow> 'b LsmEngine \<Rightarrow> PendingFlush option \<Rightarrow> (InternalKey \<times> bytes) list list \<Rightarrow> bool" where
  "run_ok bl eng pend ess \<longleftrightarrow> eng_ok bl eng ess
     \<and> (\<forall>pf. pend = Some pf \<longrightarrow> pf_entries pf = imm_data (eng_view eng))"

lemma write_batch_cases:
  assumes "write_batch env lease fault es eng = (r, eng')"
  obtains (wal_failed) e wal where "r = Err (WalFailed e)"
      "eng' = eng\<lparr>eng_write := (eng_write eng)\<lparr>ws_next_commit_seq := next_seq eng + 1, ws_wal := wal\<rparr>\<rparr>"
    | (room) wal where "r = Ok (next_seq eng, None)" "eng' = with_batch es wal eng"
    | (full) wal q where "begin_flush env lease (with_batch es wal eng) = (q, eng')"
      "r = (case q of Inl e \<Rightarrow> Err e | Inr p \<Rightarrow> Ok (next_seq eng, p))"
      "is_full (fold (insert_entry (next_seq eng)) es (ev_memtable (eng_view eng)))"
  using assms
  by (auto simp: write_batch_def with_batch_def next_seq_def Let_def
      split: prod.splits sum.splits if_splits)

lemma begin_flush_immutable:
  "begin_flush env lease eng = (q, eng') \<Longrightarrow> eng' = eng \<or> ev_immutable (eng_view eng') = Some (ev_memtable (eng_view eng))"
  by (auto simp: begin_flush_def Let_def split: if_splits)

lemma wal_failed_ok:
  assumes "eng_ok bl eng ess" and "next_seq eng \<noteq> - 1"
    and "eng' = eng\<lparr>eng_write := (eng_write eng)\<lparr>ws_next_commit_seq := next_seq eng + 1, ws_wal := wal\<rparr>\<rparr>"
  shows "eng_ok bl eng' ess" and "sees eng' ess = sees eng ess" and "next_seq eng' = next_seq eng + 1"
    and "eng_view eng' = eng_view eng"
  using assms u64_less_Suc [OF assms(2)]
  by (auto simp: eng_ok_def sees_def eng_layers_def next_seq_def fun_eq_iff less_imp_le)

lemma lsm_step_put_batch:
  assumes ok: "run_ok bl eng pend ess" and max: "next_seq eng \<noteq> - 1"
    and w: "write_batch env lease fault es eng = (r, eng')"
    and guard: "ev_immutable (eng_view eng') \<noteq> ev_immutable (eng_view eng) \<Longrightarrow> imm_data (eng_view eng) = []"
  shows "run_ok bl eng' (case r of Inr (_, Some pf) \<Rightarrow> Some pf | _ \<Rightarrow> pend) ess"
    and "s < next_seq eng \<Longrightarrow> sees eng' ess k s = sees eng ess k s"
    and "next_seq eng' = next_seq eng + 1"
    and "r = Ok x \<Longrightarrow> fst x = next_seq eng \<and> (\<exists>wal. sees eng' ess = sees (with_batch es wal eng) ess)"
proof -
  have eng: "eng_ok bl eng ess" using ok by (simp add: run_ok_def)
  from w have "run_ok bl eng' (case r of Inr (_, Some pf) \<Rightarrow> Some pf | _ \<Rightarrow> pend) ess
    \<and> (s < next_seq eng \<longrightarrow> sees eng' ess k s = sees eng ess k s) \<and> next_seq eng' = next_seq eng + 1
    \<and> (r = Ok x \<longrightarrow> fst x = next_seq eng \<and> (\<exists>wal. sees eng' ess = sees (with_batch es wal eng) ess))"
  proof (cases rule: write_batch_cases)
    case (wal_failed e wal)
    then show ?thesis using wal_failed_ok [OF eng max wal_failed(2)] ok by (simp add: run_ok_def)
  next
    case (room wal)
    then show ?thesis using with_batch_ok [OF eng max] ok by (auto simp: run_ok_def with_batch_view)
  next
    case (full wal q)
    note B = with_batch_ok [OF eng max, where es = es and wal = wal]
    show ?thesis
    proof (cases "lh_valid lease")
      case False
      then have "q = Err Fenced" "eng' = with_batch es wal eng"
        using full(1) by (auto simp: begin_flush_def)
      then show ?thesis using B full(2) ok by (simp add: run_ok_def with_batch_view)
    next
      case True
      then have frozen: "ev_immutable (eng_view eng') = Some (ev_memtable (eng_view (with_batch es wal eng)))"
        using full(1) by (auto simp: begin_flush_def Let_def split: if_splits)
      have "imm_data (eng_view eng) = []"
      proof (rule ccontr)
        assume imm: "imm_data (eng_view eng) \<noteq> []"
        then have "imm_data (eng_view eng) = mt_data (ev_memtable (eng_view (with_batch es wal eng)))"
          using guard frozen by (cases "ev_immutable (eng_view eng)") (auto simp: imm_data_def)
        then have "newer (imm_data (eng_view eng)) (imm_data (eng_view eng))"
          using B(1) by (simp add: eng_ok_def layered_def with_batch_view)
        with imm show False by (cases "imm_data (eng_view eng)") (auto simp: newer_def)
      qed
      then have imm: "imm_data (eng_view (with_batch es wal eng)) = []" by (simp add: with_batch_view)
      note F = begin_flush_ok [OF B(1) imm full(1)]
      have "\<forall>pf. (case q of Inr (Some pf) \<Rightarrow> Some pf | _ \<Rightarrow> pend) = Some pf \<longrightarrow>
          pf_entries pf = imm_data (eng_view eng')"
        using F(5-7) ok imm \<open>imm_data (eng_view eng) = []\<close>
        by (cases q) (auto simp: run_ok_def split: option.splits)
      moreover have "(case r of Inr (_, Some pf) \<Rightarrow> Some pf | _ \<Rightarrow> pend)
          = (case q of Inr (Some pf) \<Rightarrow> Some pf | _ \<Rightarrow> pend)"
        by (simp add: full(2) split: sum.split option.split)
      moreover have "r = Ok x \<longrightarrow> fst x = next_seq eng" using full(2) by (cases q) auto
      ultimately show ?thesis using F(1-3) B(2) by (auto simp: run_ok_def with_batch_view)
    qed
  qed
  then show "run_ok bl eng' (case r of Inr (_, Some pf) \<Rightarrow> Some pf | _ \<Rightarrow> pend) ess"
      "s < next_seq eng \<Longrightarrow> sees eng' ess k s = sees eng ess k s"
      "next_seq eng' = next_seq eng + 1"
      "r = Ok x \<Longrightarrow> fst x = next_seq eng \<and> (\<exists>wal. sees eng' ess = sees (with_batch es wal eng) ess)"
    by simp_all
qed

text \<open>
  One step: the invariant holds again, sequence numbers do not go back, and an open
  snapshot sees what it saw.
\<close>

definition preserves ::
  "'b bloom_ops \<Rightarrow> 'b LsmEngine \<Rightarrow> (InternalKey \<times> bytes) list list \<Rightarrow> 'b LsmEngine \<Rightarrow> PendingFlush option
     \<Rightarrow> (InternalKey \<times> bytes) list list \<Rightarrow> bool" where
  "preserves bl eng ess eng' pend' ess' \<longleftrightarrow> run_ok bl eng' pend' ess'
     \<and> (\<forall>k. \<forall>s \<in> fst ` set (snapshots eng). sees eng' ess' k s = sees eng ess k s)"

lemma lsm_step_preserves:
  assumes bl: "bl = env_bloom env" "bloom_ok bl" and ok: "run_ok bl eng pend ess"
    and step: "lsm_step env (eng, pend, st) (eng', pend', st')"
  shows "\<exists>ess'. preserves bl eng ess eng' pend' ess'"
proof -
  have eng: "eng_ok bl eng ess" and snaps: "om_sorted (snapshots eng)"
      "\<forall>s \<in> fst ` set (snapshots eng). s < next_seq eng"
    using ok by (auto simp: run_ok_def eng_ok_def)
  from step show ?thesis
  proof cases

    case (put_batch lease fault entries r)
    show ?thesis
      using lsm_step_put_batch [OF ok put_batch(3,4)] put_batch(1,5) snaps(2)
      by (intro exI [of _ ess]) (auto simp: preserves_def)
  next
    case (freeze lease r)
    then show ?thesis using begin_flush_ok [OF eng freeze(4,5)]
      by (intro exI [of _ ess])
         (auto simp: preserves_def run_ok_def split: sum.splits)
  next
    case (build_failed pf e)
    then show ?thesis using ok by (auto simp: preserves_def)
  next
    case (commit pf sst st1 lease r)
    have pf: "pf_entries pf = imm_data (eng_view eng)" using ok commit(1) by (simp add: run_ok_def)
    have holds: "sst_holds bl sst (imm_data (eng_view eng))"
      using create_in_store_holds [OF _ _ bl(2)] commit(3,4) pf bl(1) by (simp add: finish_flush_def)
    show ?thesis
    proof (cases "eng' = eng")
      case True
      then show ?thesis using ok commit(1,2) by (auto simp: preserves_def)
    next
      case False
      then show ?thesis
        using commit_flush_ok [OF eng commit(5) holds False] commit(2)
        by (intro exI [of _ "ess @ [imm_data (eng_view eng)]"]) (simp add: preserves_def run_ok_def)
    qed
  next
    case (compact lease pc eng1 r)
    note V = begin_compact_view [OF compact(2)]
    have eng1: "eng_ok bl eng1 ess" "sees eng1 ess = sees eng ess"
      using eng V(1-3) by (simp_all add: eng_ok_def sees_def eng_layers_def fun_eq_iff)
    have pc: "pc_sstables pc = ev_sstables (eng_view eng1)" using V(1,4) by simp
    show ?thesis
    proof (cases "eng' = eng1")
      case True
      then show ?thesis using ok eng1 V(1) compact(1)
        by (intro exI [of _ ess]) (simp add: preserves_def run_ok_def)
    next
      case False
      obtain ess' where ess': "eng_ok bl eng' ess'" "imm_data (eng_view eng') = imm_data (eng_view eng1)"
          "\<And>k s. served (pc_watermark pc) (concat ess) s \<Longrightarrow> sees eng' ess' k s = sees eng1 ess k s"
        using run_compaction_ok [OF eng1(1) bl pc _ compact(4) False] compact(3) bl(1) by metis
      moreover have "served (pc_watermark pc) (concat ess) s" if "s \<in> fst ` set (snapshots eng)" for s
        using watermark_le [OF snaps(1) that] V(4) by (simp add: served_def)
      ultimately show ?thesis using ok eng1(2) V(1) compact(1)
        by (intro exI [of _ ess']) (simp add: preserves_def run_ok_def)
    qed
  next
    case (compact_skipped lease r pc)
    then show ?thesis using ok begin_compact_view [OF compact_skipped(3)]
      by (intro exI [of _ ess])
         (simp add: preserves_def run_ok_def eng_ok_def sees_def eng_layers_def)
  next
    case (snapshot s)
    have "s < next_seq eng"
      using snapshot(3,4) u64_pred_less
      by (auto simp: snapshot_now_def current_seq_def next_seq_def Let_def)
    moreover have "eng' = register_snapshot s eng" using snapshot(3) by (auto simp: snapshot_now_def Let_def)
    ultimately show ?thesis using register_snapshot_ok [OF eng] ok snapshot(1)
      by (intro exI [of _ ess]) (simp add: preserves_def run_ok_def register_snapshot_def)
  next
    case (release s)
    have "eng_view (release_snapshot s eng) = eng_view eng"
      by (simp add: release_snapshot_def Let_def split: option.split)
    then show ?thesis using release_snapshot_ok [OF eng] ok release
      by (intro exI [of _ ess]) (simp add: preserves_def run_ok_def)
  qed
qed

text \<open>Runs in which the snapshot \<open>s\<close> is open before every step.\<close>

inductive lsm_run ::
  "('b, 's) lsm_env \<Rightarrow> u64 \<Rightarrow> 'b LsmEngine \<times> PendingFlush option \<times> 's
     \<Rightarrow> 'b LsmEngine \<times> PendingFlush option \<times> 's \<Rightarrow> bool"
  for env s where
  start: "lsm_run env s c c"
| more: "lsm_run env s c (eng, pend, st) \<Longrightarrow> s \<in> fst ` set (snapshots eng) \<Longrightarrow>
    lsm_step env (eng, pend, st) c' \<Longrightarrow> lsm_run env s c c'"

lemma lsm_run_preserves:
  assumes "bloom_ok (env_bloom env)" and "run_ok (env_bloom env) eng pend ess"
    and "lsm_run env s (eng, pend, st) (eng', pend', st')"
  shows "\<exists>ess'. run_ok (env_bloom env) eng' pend' ess' \<and> (\<forall>k. sees eng' ess' k s = sees eng ess k s)"
  using assms(3,1,2)
proof (induction "(eng, pend, st)" "(eng', pend', st')" arbitrary: eng' pend' st' rule: lsm_run.induct)
  case start
  then show ?case by blast
next
  case (more eng1 pend1 st1 eng2 pend2 st2)
  obtain ess1 where "run_ok (env_bloom env) eng1 pend1 ess1" "\<forall>k. sees eng1 ess1 k s = sees eng ess k s"
    using more by blast
  moreover obtain ess2 where "preserves (env_bloom env) eng1 ess1 eng2 pend2 ess2"
    using lsm_step_preserves [OF refl more(5) calculation(1) more(4)] by blast
  ultimately show ?case using more(3) unfolding preserves_def by (metis (no_types, lifting))
qed

end
