(* ===== verification/LsmProps.thy ===== *)
theory LsmProps
  imports LsmSteps
begin

text \<open>
  The properties of the storage engine that its users rely on, and two
  interleavings in which the code does not keep them.
\<close>

subsection \<open>A small environment for examples\<close>

fun example_ids :: "bytes \<Rightarrow> u64 list" where
  "example_ids (a # b # c # d # e # f # g # h # rest) =
     u64_from_be_bytes [a, b, c, d, e, f, g, h] # example_ids rest"
| "example_ids bs = []"

definition example_codec :: manifest_codec where
  "example_codec =
     \<lparr>mc_serialize = (\<lambda>m. Some (u64_to_be_bytes (mf_wal_segment_seq m)
         @ u64_to_be_bytes (mf_writer_fencing_token m) @ u64_to_be_bytes (mf_max_commit_seq m)
         @ concat (map (\<lambda>i. u64_to_be_bytes i) (mf_sstable_ids m)))),
      mc_deserialize = (\<lambda>b. Some \<lparr>mf_sstable_ids = example_ids (drop 24 b),
         mf_wal_segment_seq = u64_from_be_bytes (take 8 b),
         mf_writer_fencing_token = u64_from_be_bytes (take 8 (drop 8 b)),
         mf_max_commit_seq = u64_from_be_bytes (take 8 (drop 16 b))\<rparr>),
      mc_deserialize_v0 = (\<lambda>_. None)\<rparr>"

definition example_env :: "(u8, LocalFs) lsm_env" where
  "example_env = \<lparr>env_bloom = tiny_bloom, env_store = LocalFsObjectStore example_hash,
     env_codec = example_codec, env_shard_count = DEFAULT_SST_SHARD_COUNT,
     env_compaction_threshold = DEFAULT_COMPACTION_SSTABLE_THRESHOLD\<rparr>"

definition example_lease :: LeaseHandle where
  "example_lease = \<lparr>lh_token = 1, lh_valid = True\<rparr>"

text \<open>The engine that recovery builds from an empty log and an empty store.\<close>

definition fresh_engine :: "u8 LsmEngine" where
  "fresh_engine =
     \<lparr>eng_write = \<lparr>ws_wal = wal_open [], ws_sstable_id = 1, ws_wal_seg_id = 1,
        ws_manifest_etag = None, ws_committed_wal_segment_seq = 0, ws_next_commit_seq = 1,
        ws_open_snapshots = []\<rparr>,
      eng_view = \<lparr>ev_memtable = memtable_new MEMTABLE_MAX_SIZE, ev_immutable = None,
        ev_sstables = []\<rparr>\<rparr>"

lemma fresh_engine_opens:
  "fst (lsm_open example_env [] \<lparr>fs_files = [], fs_io = []\<rparr>) = Ok fresh_engine"
  by (simp add: lsm_open_def read_all_bytes_def wal_open_def StdWalIo_new_def replay_def
      replay_loop.simps manifest_load_def example_env_def LocalFsObjectStore_def local_get_def
      next_io.simps manifest_default_def fresh_engine_def Let_def)

lemma fresh_engine_ok: "eng_ok bl fresh_engine []"
  by (simp add: eng_ok_def fresh_engine_def view_ok_def imm_data_def layered_def newer_def
      eng_layers_eq memtable_new_def memtable_invar_def)

lemma write_example:
  assumes "\<not> is_full (fold (insert_entry (next_seq eng)) es (ev_memtable (eng_view eng)))"
  shows "\<exists>wal. write_batch env lease None es eng = (Ok (next_seq eng, None), with_batch es wal eng)"
proof
  let ?wal = "snd (append_batch None (next_seq eng) (map wal_entry_of es) (ws_wal (eng_write eng)))"
  show "write_batch env lease None es eng = (Ok (next_seq eng, None), with_batch es ?wal eng)"
    using assms by (simp add: write_batch_def append_batch_def with_batch_def next_seq_def Let_def)
qed


text \<open>In the example a snapshot is taken between two writes of one key.\<close>

definition one_write :: "u8 LsmEngine" where
  "one_write = snd (write_batch example_env example_lease None [([], [1], Some [10])] fresh_engine)"

definition snapshot_taken :: "u8 LsmEngine" where
  "snapshot_taken = snd (snapshot_now one_write)"

definition two_writes :: "u8 LsmEngine" where
  "two_writes = snd (write_batch example_env example_lease None [([], [1], Some [20])] snapshot_taken)"

lemma example_bloom_ok: "bloom_ok (env_bloom example_env)"
  by (simp add: example_env_def tiny_bloom_ok)

lemmas small_memtable = is_full_def insert_entry_def memtable_insert_def memtable_new_def
  MEMTABLE_MAX_SIZE_def fresh_engine_def with_batch_def next_seq_def Let_def

lemma one_write_ok: "eng_ok bl one_write []" "next_seq one_write = 2" "snapshots one_write = []"
    "ev_immutable (eng_view one_write) = None"
    "mt_data (ev_memtable (eng_view one_write)) = [(InternalKey [1] 1 0, [10])]"
    "mt_size_bytes (ev_memtable (eng_view one_write)) = 11"
    "mt_max_size (ev_memtable (eng_view one_write)) = MEMTABLE_MAX_SIZE"
    "ws_sstable_id (eng_write one_write) = 1" "ws_manifest_etag (eng_write one_write) = None"
    "ws_wal_seg_id (eng_write one_write) = 1" "ev_sstables (eng_view one_write) = []"
proof -
  have n: "next_seq fresh_engine = 1" by (simp add: fresh_engine_def next_seq_def)
  obtain wal where w: "one_write = with_batch [([], [1], Some [10])] wal fresh_engine"
  proof -
    have "\<not> is_full (fold (insert_entry (next_seq fresh_engine)) [([], [1], Some [10])]
        (ev_memtable (eng_view fresh_engine)))"
      by (simp add: small_memtable)
    from write_example [OF this] that show thesis by (metis one_write_def snd_conv)
  qed
  show "eng_ok bl one_write []" unfolding w by (rule with_batch_ok(1) [OF fresh_engine_ok]) (simp add: n)
  show "next_seq one_write = 2" "snapshots one_write = []" "ev_immutable (eng_view one_write) = None"
      "mt_data (ev_memtable (eng_view one_write)) = [(InternalKey [1] 1 0, [10])]"
      "mt_size_bytes (ev_memtable (eng_view one_write)) = 11"
      "mt_max_size (ev_memtable (eng_view one_write)) = MEMTABLE_MAX_SIZE"
      "ws_sstable_id (eng_write one_write) = 1" "ws_manifest_etag (eng_write one_write) = None"
      "ws_wal_seg_id (eng_write one_write) = 1" "ev_sstables (eng_view one_write) = []"
    unfolding w by (simp_all add: small_memtable PUT_TAG_def)
qed

lemma snapshot_taken_eq: "snapshot_taken = register_snapshot 1 one_write"
  using one_write_ok(2) by (simp add: snapshot_taken_def snapshot_now_def current_seq_def next_seq_def Let_def)

lemma snapshot_taken_run: "run_ok bl snapshot_taken None []"
  using register_snapshot_ok(1) [OF one_write_ok(1), of 1] one_write_ok(2)
  by (simp add: run_ok_def snapshot_taken_eq)

lemma two_writes_run: "lsm_run example_env 1 (snapshot_taken, None, st) (two_writes, None, st)"
proof -
  have v: "eng_view snapshot_taken = eng_view one_write" "next_seq snapshot_taken = 2"
    using one_write_ok(2) by (simp_all add: snapshot_taken_eq register_snapshot_def next_seq_def)
  obtain wal where w: "write_batch example_env example_lease None [([], [1], Some [20])] snapshot_taken
      = (Ok (2, None), with_batch [([], [1], Some [20])] wal snapshot_taken)"
  proof -
    have "\<not> is_full (fold (insert_entry (next_seq snapshot_taken)) [([], [1], Some [20])]
        (ev_memtable (eng_view snapshot_taken)))"
      using one_write_ok(6,7)
      by (simp add: v is_full_def insert_entry_def memtable_insert_def MEMTABLE_MAX_SIZE_def Let_def)
    from write_example [OF this] that show thesis by (metis v(2))
  qed
  then have two: "two_writes = with_batch [([], [1], Some [20])] wal snapshot_taken"
    by (simp add: two_writes_def)
  have "ev_immutable (eng_view two_writes) = ev_immutable (eng_view snapshot_taken)"
    by (simp add: two with_batch_def)
  then have "lsm_step example_env (snapshot_taken, None, st) (two_writes, None, st)"
    using lsm_step.put_batch [OF _ w [folded two], of None st] by (simp add: v)
  moreover have "1 \<in> fst ` set (snapshots snapshot_taken)"
    using one_write_ok(3) by (simp add: snapshot_taken_eq register_snapshot_def count_snapshot_def)
  ultimately show ?thesis by (intro lsm_run.more [OF lsm_run.start])
qed




text \<open>
  C16: A scan at a snapshot agrees with point reads at it: it succeeds, lists its
  keys in strictly increasing order, and holds a key with a value exactly when the
  point read returns that value; deleted and never written keys are absent.
\<close>

theorem scan_agrees_with_reads:
  assumes "eng_ok (env_bloom env) eng ess"
  shows "\<exists>xs. scan_at eng s = Ok xs \<and> sorted_wrt (<) (map fst xs)
     \<and> (\<forall>k v. (k, v) \<in> set xs \<longleftrightarrow> read_at env eng k s = Ok (Some v))"
proof -
  obtain xs where xs: "scan_at eng s = Ok xs" "om_sorted xs" "\<forall>k. om_get xs k = sees eng ess k s"
    using eng_ok_scan [OF assms] by blast
  then have "(k, v) \<in> set xs \<longleftrightarrow> read_at env eng k s = Ok (Some v)" for k v
    using om.entries_mem [OF xs(2), of k v] eng_ok_read [OF assms] by simp
  with xs show ?thesis by blast
qed

theorem scan_agrees_with_reads_witness:
  "\<exists>xs. scan_at one_write 1 = Ok xs \<and> ([1], [10]) \<in> set xs"
proof -
  have "read_at example_env one_write [1] 1 = Ok (Some [10])"
    using eng_ok_read [OF one_write_ok(1), of example_env "[1]" 1] one_write_ok(4,5)
    by (simp add: sees_def eng_layers_eq imm_data_def visible_def value_of_def is_delete_def DELETE_TAG_def)
  then show ?thesis
    using scan_agrees_with_reads [of example_env one_write "[]" 1] one_write_ok(1) by blast
qed

text \<open>
  C3: A compaction, whether it succeeds, is refused or fails part way, changes no
  read: every open snapshot and every reader at or after the last commit gets the
  same answer for every key from the merged table as from the tables it replaces.
\<close>

theorem compact_all_preserves_reads:
  assumes "bloom_ok (env_bloom env)" and "eng_ok (env_bloom env) eng ess"
    and "\<And>pc eng1. begin_compact env lease eng = (Ok (Some pc), eng1) \<Longrightarrow> compaction_fits (env_bloom env) pc"
    and "compact_all env lease eng st = (r, eng', st')"
    and s: "s \<in> fst ` set (snapshots eng) \<or> current_seq eng \<le> s"
  shows "read_at env eng' k s = read_at env eng k s"
proof -
  obtain q eng1 where q: "begin_compact env lease eng = (q, eng1)" by force
  note V = begin_compact_view [OF q]
  have eng1: "eng_ok (env_bloom env) eng1 ess" "sees eng1 ess = sees eng ess"
    using assms(2) V(1-3) by (simp_all add: eng_ok_def sees_def eng_layers_def fun_eq_iff)
  show ?thesis
  proof (cases "eng_view eng' = eng_view eng1")
    case True
    then show ?thesis using V(1) by (simp add: read_at_def)
  next
    case False
    then obtain pc where pc: "q = Ok (Some pc)" and run: "run_compaction env lease pc eng1 st = (r, eng', st')"
      using assms(4) q V(1) by (auto simp: compact_all_def split: sum.splits option.splits)
    obtain ess' where ess': "eng_ok (env_bloom env) eng' ess'"
        "\<And>k s. served (pc_watermark pc) (concat ess) s \<Longrightarrow> sees eng' ess' k s = sees eng1 ess k s"
      using run_compaction_ok [OF eng1(1) refl assms(1) _ _ run] V(1,4) pc assms(3) q False by metis
    have bounds: "\<forall>e \<in> set (concat ess). ik_seq (fst e) < next_seq eng"
        "om_sorted (snapshots eng)" "\<forall>p \<in> set (snapshots eng). fst p < next_seq eng"
      using assms(2) by (simp_all add: eng_ok_def eng_layers_eq)
    have "served (pc_watermark pc) (concat ess) s"
    proof (cases "s \<in> fst ` set (snapshots eng)")
      case True
      then show ?thesis using watermark_le [OF bounds(2) True] V(4) pc by (simp add: served_def)
    next
      case False
      then have cur: "x \<le> s" if "x < next_seq eng" for x
        using s u64_le_pred [OF that] by (auto simp: current_seq_def next_seq_def)
      show ?thesis using V(4) [OF pc] bounds(1,3) cur
        by (cases "snapshots eng") (auto simp: served_def)
    qed
    then show ?thesis
      using eng_ok_read [OF assms(2)] eng_ok_read [OF ess'(1)] ess'(2) eng1(2) by simp
  qed
qed

text \<open>Two tables with two versions of one key, as the example.\<close>

definition example_table :: "u64 \<Rightarrow> (InternalKey \<times> bytes) list \<Rightarrow> u8 SSTable" where
  "example_table sid es =
     (case decode tiny_bloom (sstable_key 256 sid) sid (build_bytes tiny_bloom es) of
        Inr sst \<Rightarrow> sst
      | Inl _ \<Rightarrow> \<lparr>sst_key = [], sst_id = 0, sst_index = [], sst_bloom = 0, sst_data = []\<rparr>)"

abbreviation old_version :: "InternalKey \<times> bytes" where
  "old_version \<equiv> (InternalKey [1] 1 0, [10])"

abbreviation new_version :: "InternalKey \<times> bytes" where
  "new_version \<equiv> (InternalKey [1] 2 0, [20])"

lemmas fits_simps = sst_fits_def build_bytes_eq encode_data_def encode_index_def
  encode_index_entry_def is_delete_def DELETE_TAG_def

lemma example_table_holds:
  assumes "sst_fits tiny_bloom es"
  shows "sst_holds tiny_bloom (example_table sid es) es" and "sst_id (example_table sid es) = sid"
  using decode_build [OF assms, of "sstable_key 256 sid" sid]
    decode_build_holds [OF assms tiny_bloom_ok, of "sstable_key 256 sid" sid]
  by (simp_all add: example_table_def)

definition two_tables :: "u8 LsmEngine" where
  "two_tables = fresh_engine\<lparr>eng_write := (eng_write fresh_engine)\<lparr>ws_next_commit_seq := 3, ws_sstable_id := 3\<rparr>,
     eng_view := (eng_view fresh_engine)\<lparr>ev_sstables :=
       [example_table 1 [old_version], example_table 2 [new_version]]\<rparr>\<rparr>"

lemma versions_fit: "sst_fits tiny_bloom [old_version]" "sst_fits tiny_bloom [new_version]"
  by (simp_all add: fits_simps)

lemma two_tables_ok: "eng_ok tiny_bloom two_tables [[old_version], [new_version]]"
  using example_table_holds(1) [OF versions_fit(1), of 1] example_table_holds(1) [OF versions_fit(2), of 2]
  by (simp add: eng_ok_def two_tables_def fresh_engine_def view_ok_def imm_data_def layered_def newer_def
      eng_layers_eq memtable_new_def memtable_invar_def next_seq_def)

theorem compact_all_preserves_reads_witness:
  "case compact_all example_env example_lease two_tables \<lparr>fs_files = [], fs_io = []\<rparr> of
     (r, eng', st') \<Rightarrow> read_at example_env eng' [1] 2 = Ok (Some [20])"
proof -
  obtain r eng' st' where c: "compact_all example_env example_lease two_tables \<lparr>fs_files = [], fs_io = []\<rparr>
      = (r, eng', st')" by (metis prod_cases3)
  have env: "env_bloom example_env = tiny_bloom" by (simp add: example_env_def)
  have fits: "compaction_fits tiny_bloom pc"
    if "begin_compact example_env example_lease two_tables = (Ok (Some pc), eng1)" for pc eng1
  proof -
    have "pc_sstables pc = [example_table 1 [old_version], example_table 2 [new_version]]" "pc_watermark pc = - 1"
      using begin_compact_view(4) [OF that refl] by (simp_all add: two_tables_def fresh_engine_def)
    then show ?thesis
      using scan_all_versions_holds [OF example_table_holds(1) [OF versions_fit(1), of 1]]
        scan_all_versions_holds [OF example_table_holds(1) [OF versions_fit(2), of 2]]
      by (simp add: compaction_fits_def version_of_def push_version_def compact_entries_def
          sort_newest_first_def unwrap_or_default_def fits_simps)
  qed
  have "read_at example_env two_tables [1] 2 = Ok (Some [20])"
    using eng_ok_read [of example_env two_tables] two_tables_ok
    by (simp add: env sees_def eng_layers_eq two_tables_def fresh_engine_def imm_data_def memtable_new_def
        visible_def value_of_def is_delete_def DELETE_TAG_def)
  moreover have "current_seq two_tables = 2" by (simp add: current_seq_def two_tables_def)
  ultimately show ?thesis
    using compact_all_preserves_reads [OF example_bloom_ok _ _ c, of "[[old_version], [new_version]]" 2 "[1]"]
      two_tables_ok fits by (simp add: c env)
qed

subsection \<open>Interleavings that break the promise\<close>

text \<open>
  C18: A flush that commits while a compaction is being built ends up below the
  merged table.  The compaction keeps the flushed table but appends its own result
  after it, so a reader that got the flushed table's version of a key before the
  compaction was committed gets the merged table's older version after it.
\<close>

theorem compaction_shadows_flush:
  assumes c: "sst_holds (env_bloom env) c ec" "om_sorted ec" "visible ec k s = Some new_value"
    and m: "sst_holds (env_bloom env) m em" "om_sorted em" "visible em k s = Some old_value"
    and view: "ev_sstables (eng_view eng) = pc_sstables pc @ [c]"
      "sst_id c \<notin> set (map sst_id (pc_sstables pc))"
      "get_at (ev_memtable (eng_view eng)) k s = None" "ev_immutable (eng_view eng) = None"
    and "commit_compact env lease pc m eng st = (Ok (), eng', st')"
  shows "read_at env eng k s = Ok new_value \<and> read_at env eng' k s = Ok old_value"
proof -
  have "filter (\<lambda>s. sst_id s \<notin> set (map sst_id (pc_sstables pc))) (ev_sstables (eng_view eng)) = [c]"
    using view(1,2) by (simp add: filter_empty_conv)
  then have "ev_sstables (eng_view eng') = [c, m]" "ev_memtable (eng_view eng') = ev_memtable (eng_view eng)"
      "ev_immutable (eng_view eng') = None"
    using assms(11) view(4)
    by (auto simp: commit_compact_def Let_def split: prod.splits sum.splits)
  then show ?thesis
    using sst_read_at_holds [OF c(1,2)] sst_read_at_holds [OF m(1,2)] c(3) m(3) view
    by (simp add: read_at_def)
qed

text \<open>The compaction of the example captured one table; the second was flushed meanwhile.\<close>

definition capture :: "u8 PendingCompaction" where
  "capture = \<lparr>pc_sstables = [example_table 1 [old_version]], pc_watermark = - 1, pc_new_id = 3,
     pc_new_key = sstable_key 256 3\<rparr>"

theorem compaction_shadows_flush_witness:
  "case commit_compact example_env example_lease capture (example_table 3 [old_version]) two_tables
        \<lparr>fs_files = [], fs_io = []\<rparr> of
     (r, eng', st') \<Rightarrow> read_at example_env two_tables [1] 2 = Ok (Some [20])
       \<and> read_at example_env eng' [1] 2 = Ok (Some [10])"
proof -
  obtain r eng' st' where c: "commit_compact example_env example_lease capture
      (example_table 3 [old_version]) two_tables \<lparr>fs_files = [], fs_io = []\<rparr> = (r, eng', st')"
    by (metis prod_cases3)
  have "r = Ok ()"
    using c by (auto simp: commit_compact_def save_cas_def example_env_def example_codec_def
        LocalFsObjectStore_def local_defs next_io.simps two_tables_def fresh_engine_def Let_def
        split: prod.splits)
  moreover have "visible [new_version] [1] 2 = Some (Some [20])" "visible [old_version] [1] 2 = Some (Some [10])"
    by (simp_all add: visible_def value_of_def is_delete_def DELETE_TAG_def)
  moreover have "get_at (ev_memtable (eng_view two_tables)) [1] 2 = None" "ev_immutable (eng_view two_tables) = None"
    by (simp_all add: two_tables_def fresh_engine_def get_at_def memtable_new_def)
  moreover have "ev_sstables (eng_view two_tables) = pc_sstables capture @ [example_table 2 [new_version]]"
    by (simp add: two_tables_def capture_def)
  ultimately show ?thesis
    using compaction_shadows_flush [of example_env "example_table 2 [new_version]" "[new_version]" "[1]" 2
        "Some [20]" "example_table 3 [old_version]" "[old_version]" "Some [10]" two_tables capture]
      example_table_holds(1) [OF versions_fit(1), of 3] example_table_holds [OF versions_fit(2), of 2]
      example_table_holds(2) [OF versions_fit(1), of 1] c
    by (simp add: example_env_def capture_def)
qed

text \<open>
  Committing a flush empties the whole log, also of batches that were appended
  after the memtable was frozen.  They live on in the active memtable alone: after a
  crash at this point the log replays to nothing and they are lost, although each of
  them was acknowledged as durable.
\<close>

theorem flush_empties_log:
  assumes "commit_flush env lease pending sst eng st = (r, eng', st')" and "eng' \<noteq> eng"
  shows "ev_memtable (eng_view eng') = ev_memtable (eng_view eng)
     \<and> replay (read_all_bytes (ws_wal (eng_write eng'))) = Ok ([], 0)"
proof -
  have "replay [] = Ok ([], 0)" by (simp add: replay_def replay_loop.simps)
  moreover have "read_all_bytes (ws_wal (eng_write eng')) = []"
    using assms
    by (auto simp: commit_flush_def begin_compact_def Let_def wal_truncate_def read_all_bytes_def
        split: prod.splits sum.splits if_splits)
  ultimately show ?thesis using commit_flush_view(1) [OF assms(1)] assms(2) by auto
qed

text \<open>In the example one key is frozen for the flush and another is written before it commits.\<close>

definition frozen :: "u8 LsmEngine" where
  "frozen = snd (begin_flush example_env example_lease one_write)"

definition late_write :: "u8 LsmEngine" where
  "late_write = snd (write_batch example_env example_lease None [([], [2], Some [30])] frozen)"

definition frozen_flush :: PendingFlush where
  "frozen_flush = \<lparr>pf_entries = [old_version], pf_sstable_id = 1, pf_sst_key = sstable_key 256 1\<rparr>"

lemma frozen_begin: "begin_flush example_env example_lease one_write = (Ok (Some frozen_flush), frozen)"
  using one_write_ok(5,8)
  by (auto simp: frozen_def begin_flush_def example_lease_def example_env_def frozen_flush_def
      to_entries_def DEFAULT_SST_SHARD_COUNT_def Let_def)

lemma frozen_eq:
  "frozen = \<lparr>eng_write = (eng_write one_write)\<lparr>ws_sstable_id := 2\<rparr>,
     eng_view = \<lparr>ev_memtable = memtable_new MEMTABLE_MAX_SIZE,
       ev_immutable = Some (ev_memtable (eng_view one_write)), ev_sstables = []\<rparr>\<rparr>"
  using one_write_ok(5,8,11)
  by (simp add: frozen_def begin_flush_def example_lease_def to_entries_def Let_def)

lemma late_write_eq: "\<exists>wal. late_write = with_batch [([], [2], Some [30])] wal frozen"
proof -
  have "\<not> is_full (fold (insert_entry (next_seq frozen)) [([], [2], Some [30])] (ev_memtable (eng_view frozen)))"
    by (simp add: frozen_eq small_memtable)
  from write_example [OF this] show ?thesis unfolding late_write_def by (metis snd_conv)
qed

theorem flush_empties_log_witness:
  "case commit_flush example_env example_lease frozen_flush (example_table 1 [old_version]) late_write
        \<lparr>fs_files = [], fs_io = []\<rparr> of
     (r, eng', st') \<Rightarrow> get_at (ev_memtable (eng_view eng')) [2] 2 = Some (Some [30])
       \<and> replay (read_all_bytes (ws_wal (eng_write eng'))) = Ok ([], 0)"
proof -
  obtain wal where late: "late_write = with_batch [([], [2], Some [30])] wal frozen"
    using late_write_eq by blast
  have mt: "mt_data (ev_memtable (eng_view late_write)) = [(InternalKey [2] 2 0, [30])]"
    using one_write_ok(2)
    by (simp add: late with_batch_def frozen_eq insert_entry_def memtable_new_def next_seq_def PUT_TAG_def)
  then have get: "get_at (ev_memtable (eng_view late_write)) [2] 2 = Some (Some [30])"
    by (simp add: get_at_def ik_seek_def PUT_TAG_def is_delete_def DELETE_TAG_def)
  have st: "ws_manifest_etag (eng_write late_write) = None" "ws_wal_seg_id (eng_write late_write) = 1"
      "ev_immutable (eng_view late_write) \<noteq> None" "ev_sstables (eng_view late_write) = []"
    using one_write_ok(9,10) by (simp_all add: late with_batch_def frozen_eq)
  obtain r eng' st' where c: "commit_flush example_env example_lease frozen_flush
      (example_table 1 [old_version]) late_write \<lparr>fs_files = [], fs_io = []\<rparr> = (r, eng', st')"
    by (metis prod_cases3)
  have "ev_immutable (eng_view eng') = None"
    using c st(1,2,4)
    by (auto simp: commit_flush_def ship_wal_def save_cas_def example_env_def example_codec_def
        LocalFsObjectStore_def local_defs next_io.simps wal_segment_key_def MANIFEST_KEY_def
        local_path_for_def DEFAULT_COMPACTION_SSTABLE_THRESHOLD_def Let_def
        split: prod.splits if_splits)
  then have "eng' \<noteq> late_write" using st(3) by auto
  with flush_empties_log [OF c] get c show ?thesis by simp
qed

end
