(* ===== verification/DatabaseSteps.thy ===== *)
theory DatabaseSteps
  imports Database LsmProps
begin

text \<open>
  What one write of the database, with the flush and the compaction it may trigger,
  does to the engine: the invariant holds again, open snapshots see what they saw,
  and the newest rows are the old ones with the batch applied.
\<close>

definition newest :: "'b LsmEngine \<Rightarrow> (InternalKey \<times> bytes) list list \<Rightarrow> bytes \<Rightarrow> bytes option" where
  "newest eng ess k = sees eng ess k (- 1)"

definition applied :: "batch_entry list \<Rightarrow> (bytes \<Rightarrow> bytes option) \<Rightarrow> bytes \<Rightarrow> bytes option" where
  "applied es rows k = (case map_of (map snd es) k of Some v \<Rightarrow> v | None \<Rightarrow> rows k)"

lemma visible_all:
  "\<forall>e \<in> set m. ik_seq (fst e) \<le> s \<Longrightarrow> \<forall>e \<in> set m. ik_seq (fst e) \<le> s' \<Longrightarrow> visible m k s = visible m k s'"
  by (induction m) (auto simp: visible_Cons)

lemma newest_eq:
  assumes "eng_ok bl eng ess" and "current_seq eng \<le> s"
  shows "sees eng ess k s = newest eng ess k"
proof -
  have "ik_seq (fst e) \<le> s" if "e \<in> set (eng_layers eng ess)" for e
    using assms that u64_le_pred [of "ik_seq (fst e)" "next_seq eng"]
    by (auto simp: eng_ok_def current_seq_def next_seq_def)
  then show ?thesis
    using visible_all [of "eng_layers eng ess" s "- 1" k] by (simp add: newest_def sees_def)
qed

subsection \<open>The pending flush\<close>

text \<open>Everything that the flush and the compaction after it build fits the table format.\<close>

definition flush_fits ::
  "('b, 's) lsm_env \<Rightarrow> LeaseHandle \<Rightarrow> PendingFlush option \<Rightarrow> 'b LsmEngine \<Rightarrow> 's \<Rightarrow> bool" where
  "flush_fits env lease pending eng st \<longleftrightarrow> (\<forall>pf. pending = Some pf \<longrightarrow>
     sst_fits (env_bloom env) (pf_entries pf)
     \<and> (\<forall>sst st1 pc eng1 st2. finish_flush env pf st = (Ok sst, st1) \<longrightarrow>
          commit_flush env lease pf sst eng st1 = (Ok (Some pc), eng1, st2) \<longrightarrow>
          compaction_fits (env_bloom env) pc))"

text \<open>The reads that must not change: open snapshots and everything from the last commit on.\<close>

definition same_reads ::
  "'b LsmEngine \<Rightarrow> (InternalKey \<times> bytes) list list \<Rightarrow> 'b LsmEngine \<Rightarrow> (InternalKey \<times> bytes) list list \<Rightarrow> bool" where
  "same_reads eng ess eng' ess' \<longleftrightarrow> snapshots eng' = snapshots eng \<and> next_seq eng' = next_seq eng
     \<and> newest eng' ess' = newest eng ess
     \<and> (\<forall>k. \<forall>s \<in> fst ` set (snapshots eng). sees eng' ess' k s = sees eng ess k s)"

lemma same_reads_trans:
  "same_reads a as b bs \<Longrightarrow> same_reads b bs c cs \<Longrightarrow> same_reads a as c cs"
  by (simp add: same_reads_def)

lemma same_readsI:
  assumes "eng_view eng' = eng_view eng" and "next_seq eng' = next_seq eng" and "snapshots eng' = snapshots eng"
    and "eng_ok bl eng ess"
  shows "eng_ok bl eng' ess \<and> same_reads eng ess eng' ess"
  using assms by (simp add: eng_ok_def same_reads_def newest_def sees_def eng_layers_def fun_eq_iff)

lemma served_watermark:
  assumes "eng_ok bl eng ess" and "s \<in> fst ` set (snapshots eng) \<or> s = - 1"
    and "w = (case snapshots eng of [] \<Rightarrow> - 1 | (s, _) # _ \<Rightarrow> s)"
  shows "served w (concat ess) s"
proof (cases "s = - 1")
  case True
  then show ?thesis by (simp add: served_def)
next
  case False
  then show ?thesis using assms watermark_le [of eng s] by (simp add: eng_ok_def served_def)
qed

lemma run_compaction_same:
  assumes ok: "eng_ok bl eng ess" and bl: "bl = env_bloom env" "bloom_ok bl"
    and "pc_sstables pc = ev_sstables (eng_view eng)" and "compaction_fits bl pc"
    and w: "pc_watermark pc = (case snapshots eng of [] \<Rightarrow> - 1 | (s, _) # _ \<Rightarrow> s)"
    and run: "run_compaction env lease pc eng st = (r, eng', st')"
  shows "\<exists>ess'. eng_ok bl eng' ess' \<and> same_reads eng ess eng' ess' \<and> imm_data (eng_view eng') = imm_data (eng_view eng)"
proof (cases "eng' = eng")
  case True
  then show ?thesis using ok by (auto simp: same_reads_def)
next
  case False
  obtain ess' where "eng_ok bl eng' ess'" "next_seq eng' = next_seq eng" "snapshots eng' = snapshots eng"
      "imm_data (eng_view eng') = imm_data (eng_view eng)"
      "\<And>k s. served (pc_watermark pc) (concat ess) s \<Longrightarrow> sees eng' ess' k s = sees eng ess k s"
    using run_compaction_ok [OF ok bl assms(4,5) run False] by metis
  then show ?thesis using served_watermark [OF ok _ w]
    by (intro exI [of _ ess']) (simp add: same_reads_def newest_def fun_eq_iff)
qed

lemma commit_flush_pending:
  assumes "commit_flush env lease pf sst eng st = (Ok (Some pc), eng', st')"
  shows "pc_sstables pc = ev_sstables (eng_view eng')"
    and "pc_watermark pc = (case snapshots eng' of [] \<Rightarrow> - 1 | (s, _) # _ \<Rightarrow> s)"
  using assms
  by (auto simp: commit_flush_def begin_compact_def Let_def split: prod.splits sum.splits if_splits)

lemma finish_pending_ok:
  assumes ok: "eng_ok (env_bloom env) eng ess" and bl: "bloom_ok (env_bloom env)"
    and pend: "\<And>pf. pending = Some pf \<Longrightarrow> pf_entries pf = imm_data (eng_view eng)"
    and fits: "flush_fits env lease pending eng st"
    and run: "finish_pending env lease pending eng st = (r, eng', st')"
  shows "\<exists>ess'. eng_ok (env_bloom env) eng' ess' \<and> same_reads eng ess eng' ess'
           \<and> (imm_data (eng_view eng') = [] \<or> imm_data (eng_view eng') = imm_data (eng_view eng))"
proof (cases pending)
  case None
  then show ?thesis using ok run by (auto simp: finish_pending_def same_reads_def)
next
  case (Some pf)
  show ?thesis
  proof (cases "fst (finish_flush env pf st)")
    case (Inl e)
    then have "eng' = eng" using run Some by (auto simp: finish_pending_def split: prod.splits)
    then show ?thesis using ok by (auto simp: same_reads_def)
  next
    case (Inr sst)
    then obtain st1 where fin: "finish_flush env pf st = (Ok sst, st1)" by (cases "finish_flush env pf st") auto
    obtain q eng1 st2 where com: "commit_flush env lease pf sst eng st1 = (q, eng1, st2)" by (metis prod_cases3)
    have "sst_fits (env_bloom env) (pf_entries pf)" using fits Some by (simp add: flush_fits_def)
    then have holds: "sst_holds (env_bloom env) sst (imm_data (eng_view eng))"
      using create_in_store_holds [OF fin [unfolded finish_flush_def] _ bl] pend [OF Some] by simp
    have A: "\<exists>ess1. eng_ok (env_bloom env) eng1 ess1 \<and> same_reads eng ess eng1 ess1
        \<and> (imm_data (eng_view eng1) = [] \<or> imm_data (eng_view eng1) = imm_data (eng_view eng))"
    proof (cases "eng1 = eng")
      case True
      then show ?thesis using ok by (auto simp: same_reads_def)
    next
      case False
      note F = commit_flush_ok [OF ok com holds False]
      show ?thesis using F commit_flush_view(2,3) [OF com]
        by (intro exI [of _ "ess @ [imm_data (eng_view eng)]"])
           (simp add: same_reads_def newest_def fun_eq_iff imm_data_def)
    qed
    show ?thesis
    proof (cases "\<exists>pc. q = Ok (Some pc)")
      case True
      then obtain pc where q: "q = Ok (Some pc)" ..
      have run1: "run_compaction env lease pc eng1 st2 = (r, eng', st')"
        using run by (simp add: finish_pending_def Some fin com q)
      have "compaction_fits (env_bloom env) pc" using fits fin com q Some by (auto simp: flush_fits_def)
      then show ?thesis
        using A run_compaction_same [OF _ refl bl commit_flush_pending(1) _ commit_flush_pending(2) run1] com q
        by (metis same_reads_trans)
    next
      case False
      then have "eng' = eng1"
        using run by (auto simp: finish_pending_def Some fin com split: sum.splits option.splits)
      then show ?thesis using A by blast
    qed
  qed
qed

subsection \<open>A batch\<close>

text \<open>
  The limits of a write: a sequence number is left, the memtable does not fill up
  while an older frozen one still waits, and what a flush builds fits.
\<close>

definition write_fits ::
  "('b, 's) lsm_env \<Rightarrow> LeaseHandle \<Rightarrow> nat option \<Rightarrow> batch_entry list \<Rightarrow> 'b LsmEngine \<Rightarrow> 's \<Rightarrow> bool" where
  "write_fits env lease fault es eng st \<longleftrightarrow> next_seq eng \<noteq> - 1
     \<and> (imm_data (eng_view eng) = []
        \<or> \<not> is_full (fold (insert_entry (next_seq eng)) es (ev_memtable (eng_view eng))))
     \<and> (\<forall>c pending eng1. write_batch env lease fault es eng = (Ok (c, pending), eng1) \<longrightarrow>
          flush_fits env lease pending eng1 st)"

definition batch_done ::
  "('b, 's) lsm_env \<Rightarrow> batch_entry list \<Rightarrow> 'b LsmEngine \<Rightarrow> (InternalKey \<times> bytes) list list \<Rightarrow> bool
     \<Rightarrow> 'b LsmEngine \<Rightarrow> (InternalKey \<times> bytes) list list \<Rightarrow> bool" where
  "batch_done env es eng ess ok eng' ess' \<longleftrightarrow> eng_ok (env_bloom env) eng' ess'
     \<and> snapshots eng' = snapshots eng \<and> next_seq eng' = next_seq eng + 1
     \<and> (\<forall>k. \<forall>s \<in> fst ` set (snapshots eng). sees eng' ess' k s = sees eng ess k s)
     \<and> (newest eng' ess' = applied es (newest eng ess) \<or> \<not> ok \<and> newest eng' ess' = newest eng ess)"

lemma with_batch_done:
  assumes ok: "eng_ok (env_bloom env) eng ess" and max: "next_seq eng \<noteq> - 1"
    and dist: "distinct (map (fst \<circ> snd) es)"
  shows "batch_done env es eng ess b (with_batch es wal eng) ess"
proof -
  note B = with_batch_ok [OF ok max, where es = es and wal = wal]
  have nx: "next_seq (with_batch es wal eng) = next_seq eng + 1"
      "snapshots (with_batch es wal eng) = snapshots eng"
    by (simp_all add: with_batch_def next_seq_def)
  have "current_seq (with_batch es wal eng) = next_seq eng" using nx(1) by (simp add: current_seq_def next_seq_def)
  moreover have "current_seq eng \<le> next_seq eng \<or> next_seq eng = 0"
    using u64_pred_less [of "next_seq eng"] by (auto simp: current_seq_def next_seq_def)
  moreover have "sees eng ess k 0 = newest eng ess k" if "next_seq eng = 0" for k
  proof -
    have "eng_layers eng ess = []" using ok that by (cases "eng_layers eng ess") (auto simp: eng_ok_def)
    then show ?thesis by (simp add: newest_def sees_def)
  qed
  ultimately have "newest (with_batch es wal eng) ess k = applied es (newest eng ess) k" for k
    using newest_eq [OF B(1), of "next_seq eng" k] newest_eq [OF ok, of "next_seq eng" k]
      with_batch_latest [OF ok dist, of wal k]
    by (auto simp: applied_def split: option.splits)
  moreover have "\<forall>s \<in> fst ` set (snapshots eng). s < next_seq eng" using ok by (auto simp: eng_ok_def)
  ultimately show ?thesis using B nx by (auto simp: batch_done_def)
qed

lemma batch_done_then:
  assumes "batch_done env es eng ess b eng1 ess1" and "eng_ok (env_bloom env) eng' ess'"
    and "same_reads eng1 ess1 eng' ess'"
  shows "batch_done env es eng ess b eng' ess'"
  using assms by (simp add: batch_done_def same_reads_def)

lemma batch_done_weaken: "batch_done env es eng ess True eng' ess' \<Longrightarrow> batch_done env es eng ess b eng' ess'"
  by (auto simp: batch_done_def)

lemma write_batch_done:
  assumes ok: "eng_ok (env_bloom env) eng ess" and dist: "distinct (map (fst \<circ> snd) es)"
    and fits: "write_fits env lease fault es eng st"
    and w: "write_batch env lease fault es eng = (r, eng1)"
  shows "batch_done env es eng ess (is_ok r) eng1 ess"
    and "r = Ok (c, Some pf) \<Longrightarrow> pf_entries pf = imm_data (eng_view eng1)"
proof -
  have max: "next_seq eng \<noteq> - 1" using fits by (simp add: write_fits_def)
  from w have "batch_done env es eng ess (is_ok r) eng1 ess
    \<and> (r = Ok (c, Some pf) \<longrightarrow> pf_entries pf = imm_data (eng_view eng1))"
  proof (cases rule: write_batch_cases)
    case (wal_failed e wal)
    note F = wal_failed_ok [OF ok max wal_failed(2)]
    show ?thesis using F wal_failed by (auto simp: batch_done_def newest_def)
  next
    case (room wal)
    then show ?thesis using with_batch_done [OF ok max dist] by simp
  next
    case (full wal q)
    note D = with_batch_done [OF ok max dist, where wal = wal and b = True]
    have D1: "eng_ok (env_bloom env) (with_batch es wal eng) ess" using D by (simp add: batch_done_def)
    show ?thesis
    proof (cases "eng1 = with_batch es wal eng")
      case True
      have "q \<noteq> Ok (Some pf)"
        using full(1) True by (auto simp: begin_flush_def Let_def next_seq_def split: if_splits
            dest!: arg_cong [of _ _ "\<lambda>e. ws_sstable_id (eng_write e)"])
      then show ?thesis using D batch_done_weaken True full(2) by (auto split: sum.splits)
    next
      case False
      have "imm_data (eng_view (with_batch es wal eng)) = []"
        using fits full(3) by (simp add: write_fits_def with_batch_def imm_data_def)
      note F = begin_flush_ok [OF D1 this full(1)]
      have "same_reads (with_batch es wal eng) ess eng1 ess"
        using F(2-4) by (simp add: same_reads_def newest_def fun_eq_iff)
      then show ?thesis
        using batch_done_then [OF D F(1)] batch_done_weaken F(5) [of pf] full(2)
        by (cases q) auto
    qed
  qed
  then show "batch_done env es eng ess (is_ok r) eng1 ess"
    and "r = Ok (c, Some pf) \<Longrightarrow> pf_entries pf = imm_data (eng_view eng1)" by simp_all
qed

text \<open>The write with its flush, as the three writers of the database run it.\<close>

lemma write_finish_done:
  assumes ok: "eng_ok (env_bloom env) eng ess" and bl: "bloom_ok (env_bloom env)"
    and dist: "distinct (map (fst \<circ> snd) es)" and fits: "write_fits env lease fault es eng st"
    and w: "write_batch env lease fault es eng = (Ok (c, pending), eng1)"
    and run: "finish_pending env lease pending eng1 st = (r, eng', st')"
  shows "\<exists>ess'. batch_done env es eng ess True eng' ess'"
proof -
  note D = write_batch_done [OF ok dist fits w]
  have "eng_ok (env_bloom env) eng1 ess" using D(1) by (simp add: batch_done_def)
  moreover have "flush_fits env lease pending eng1 st" using fits w by (auto simp: write_fits_def)
  ultimately obtain ess' where "eng_ok (env_bloom env) eng' ess'" "same_reads eng1 ess eng' ess'"
    using finish_pending_ok [OF _ bl _ _ run] D(2) by blast
  then show ?thesis using batch_done_then D(1) by fastforce
qed

end
