(* ===== verification/TxnSim.thy ===== *)
theory TxnSim
  imports DatabaseSteps
begin

text \<open>
  Transactions.  The sessions of a database are a transition system over its
  operations; the specification is a transition system on plain maps, in which a
  transaction is a copy of the rows at its start and the changes it has staged.
  Every run of the sessions is a run of the specification with the same events.
\<close>

subsection \<open>Events and the specification\<close>

datatype db_event =
    Began nat
  | Wrote "nat option" bytes bytes "bytes option" bool
  | Saw "nat option" bytes bytes "(db_error, bytes option) result"
  | Listed "nat option" bytes "(db_error, KeyValue list) result"
  | Committed nat bool
  | RolledBack nat
  | Flushed bool

type_synonym rows = "bytes \<times> bytes \<Rightarrow> bytes option"
type_synonym changes = "bytes \<times> bytes \<Rightarrow> bytes option option"
type_synonym spec_state = "rows \<times> (nat \<Rightarrow> (rows \<times> changes) option)"

definition overlaid :: "changes \<Rightarrow> rows \<Rightarrow> rows" where
  "overlaid ch rows tk = (case ch tk of Some w \<Rightarrow> w | None \<Rightarrow> rows tk)"

text \<open>What a reader sees: the committed rows, or a transaction's snapshot under its changes.\<close>

definition spec_view :: "spec_state \<Rightarrow> nat option \<Rightarrow> rows" where
  "spec_view sp h = (case h of
     None \<Rightarrow> fst sp
   | Some i \<Rightarrow> (case snd sp i of Some (snap, ch) \<Rightarrow> overlaid ch snap | None \<Rightarrow> fst sp))"

definition lists_table :: "rows \<Rightarrow> bytes \<Rightarrow> KeyValue list \<Rightarrow> bool" where
  "lists_table rows table kvs \<longleftrightarrow> sorted_wrt (<) (map kv_key kvs)
     \<and> (\<forall>k v. \<lparr>kv_key = k, kv_value = v\<rparr> \<in> set kvs \<longleftrightarrow> rows (table, k) = Some v)"

text \<open>A write or commit that reports an error may have been applied or not.\<close>

inductive spec_step :: "spec_state \<Rightarrow> db_event \<Rightarrow> spec_state \<Rightarrow> bool" where
  spec_begin: "txns h = None \<Longrightarrow>
    spec_step (rows, txns) (Began h) (rows, txns(h \<mapsto> (rows, \<lambda>_. None)))"
| spec_stage: "txns h = Some (snap, ch) \<Longrightarrow>
    spec_step (rows, txns) (Wrote (Some h) table key w True)
      (rows, txns(h \<mapsto> (snap, ch((table, key) \<mapsto> w))))"
| spec_write: "rows' = rows((table, key) := w) \<or> \<not> ok \<and> rows' = rows \<Longrightarrow>
    spec_step (rows, txns) (Wrote None table key w ok) (rows', txns)"
| spec_read: "(\<And>i. h = Some i \<Longrightarrow> txns i \<noteq> None) \<Longrightarrow>
    spec_step (rows, txns) (Saw h table key (Ok (spec_view (rows, txns) h (table, key)))) (rows, txns)"
| spec_scan: "(\<And>i. h = Some i \<Longrightarrow> txns i \<noteq> None) \<Longrightarrow> lists_table (spec_view (rows, txns) h) table kvs \<Longrightarrow>
    spec_step (rows, txns) (Listed h table (Ok kvs)) (rows, txns)"
| spec_commit: "txns h = Some (snap, ch) \<Longrightarrow> rows' = overlaid ch rows \<or> \<not> ok \<and> rows' = rows \<Longrightarrow>
    spec_step (rows, txns) (Committed h ok) (rows', txns(h := None))"
| spec_rollback: "txns h \<noteq> None \<Longrightarrow> spec_step (rows, txns) (RolledBack h) (rows, txns(h := None))"
| spec_flush: "spec_step sp (Flushed ok) sp"

inductive spec_run :: "spec_state \<Rightarrow> db_event list \<Rightarrow> spec_state \<Rightarrow> bool" where
  spec_stop: "spec_run sp [] sp"
| spec_more: "spec_run sp evs sp1 \<Longrightarrow> spec_step sp1 ev sp2 \<Longrightarrow> spec_run sp (evs @ [ev]) sp2"

subsection \<open>The sessions\<close>

text \<open>
  A state is the database and the open transactions, by handle.  Table names are the
  names of the program's \<open>&str\<close> without a NUL byte.  A write that goes to the
  engine stays within \<open>write_fits\<close>; a snapshot has fewer than \<open>2 ^ 32\<close> readers.
\<close>

type_synonym ('b, 's, 'i) sessions = "('b, 's, 'i) Database \<times> (nat \<Rightarrow> TransactionState option)"

definition table_name :: "bytes \<Rightarrow> bool" where
  "table_name table \<longleftrightarrow> valid_utf8 table \<and> 0 \<notin> set table"

definition put_txn :: "nat option \<Rightarrow> TransactionState option \<Rightarrow> (nat \<Rightarrow> TransactionState option)
    \<Rightarrow> nat \<Rightarrow> TransactionState option" where
  "put_txn h t txns = (case h of None \<Rightarrow> txns | Some i \<Rightarrow> txns(i := t))"

inductive db_step :: "('b, 's) lsm_env \<Rightarrow> 'i maintainer \<Rightarrow> ('b, 's, 'i) sessions \<Rightarrow> db_event
    \<Rightarrow> ('b, 's, 'i) sessions \<Rightarrow> bool" for env maintain where
  step_begin: "txns h = None \<Longrightarrow> om_get (snapshots (db_lsm db)) (current_seq (db_lsm db)) \<noteq> Some (- 1) \<Longrightarrow>
    begin_txn db = (t, db') \<Longrightarrow>
    db_step env maintain (db, txns) (Began h) (db', txns(h \<mapsto> t))"
| step_write: "table_name table \<Longrightarrow> (\<And>i. h = Some i \<Longrightarrow> txns i \<noteq> None) \<Longrightarrow>
    (h = None \<Longrightarrow> write_fits env lease fault [(table, make_key table key, Some val)] (db_lsm db) (db_store db)) \<Longrightarrow>
    txn_write env maintain lease fault (Option.bind h txns) table key val db = (r, t, db') \<Longrightarrow>
    db_step env maintain (db, txns) (Wrote h table key (Some val) (is_ok r)) (db', put_txn h t txns)"
| step_delete: "table_name table \<Longrightarrow> (\<And>i. h = Some i \<Longrightarrow> txns i \<noteq> None) \<Longrightarrow>
    (h = None \<Longrightarrow> write_fits env lease fault [(table, make_key table key, None)] (db_lsm db) (db_store db)) \<Longrightarrow>
    txn_delete env lease fault (Option.bind h txns) table key db = (r, t, db') \<Longrightarrow>
    db_step env maintain (db, txns) (Wrote h table key None (is_ok r)) (db', put_txn h t txns)"
| step_read: "table_name table \<Longrightarrow> (\<And>i. h = Some i \<Longrightarrow> txns i \<noteq> None) \<Longrightarrow>
    db_step env maintain (db, txns) (Saw h table key (txn_read env (Option.bind h txns) table key db)) (db, txns)"
| step_scan: "table_name table \<Longrightarrow> (\<And>i. h = Some i \<Longrightarrow> txns i \<noteq> None) \<Longrightarrow>
    db_step env maintain (db, txns) (Listed h table (txn_scan (Option.bind h txns) table db)) (db, txns)"
| step_commit: "txns h = Some t \<Longrightarrow>
    write_fits env lease fault (fst (commit_batch (ts_staged t))) (snd (snd (take_staged t (db_lsm db)))) (db_store db) \<Longrightarrow>
    commit_txn env maintain lease fault t db = (r, t', db') \<Longrightarrow>
    db_step env maintain (db, txns) (Committed h (is_ok r)) (db', txns(h := None))"
| step_rollback: "txns h = Some t \<Longrightarrow> rollback_txn t db = (t', db') \<Longrightarrow>
    db_step env maintain (db, txns) (RolledBack h) (db', txns(h := None))"
| step_drop: "txns h = Some t \<Longrightarrow>
    db_step env maintain (db, txns) (RolledBack h) (db\<lparr>db_lsm := txn_drop t (db_lsm db)\<rparr>, txns(h := None))"
| step_flush: "imm_data (eng_view (db_lsm db)) = [] \<Longrightarrow>
    (\<And>pending eng. begin_flush env lease (db_lsm db) = (Ok pending, eng) \<Longrightarrow>
       flush_fits env lease pending eng (db_store db)) \<Longrightarrow>
    db_flush env lease db = (r, db') \<Longrightarrow>
    db_step env maintain (db, txns) (Flushed (is_ok r)) (db', txns)"

inductive db_run :: "('b, 's) lsm_env \<Rightarrow> 'i maintainer \<Rightarrow> ('b, 's, 'i) sessions \<Rightarrow> db_event list
    \<Rightarrow> ('b, 's, 'i) sessions \<Rightarrow> bool" for env maintain where
  run_stop: "db_run env maintain c [] c"
| run_more: "db_run env maintain c evs c1 \<Longrightarrow> db_step env maintain c1 ev c2 \<Longrightarrow>
    db_run env maintain c (evs @ [ev]) c2"

subsection \<open>Keys of tables\<close>

lemma make_key_inject:
  assumes "table_name t" and "table_name t'"
  shows "make_key t k = make_key t' k' \<longleftrightarrow> t = t' \<and> k = k'"
proof -
  have "takeWhile (\<lambda>b. b \<noteq> 0) (make_key u j) = u" if "table_name u" for u j
    using that by (auto simp: make_key_def table_name_def intro: takeWhile_tail [THEN trans])
  with assms show ?thesis by (metis append_same_eq make_key_def same_append_eq)
qed

lemma table_of_make_key: "table_name t \<Longrightarrow> table_of (make_key t k) = Some t"
proof -
  assume t: "table_name t"
  then have "position (\<lambda>b. b = 0) (t @ 0 # k) = Some (length t)"
    by (intro position_append) (auto simp: table_name_def)
  with t show ?thesis by (simp add: table_of_def make_key_def table_name_def)
qed

lemma prefix_make_key: "prefix (make_prefix t) k \<longleftrightarrow> (\<exists>k'. k = make_key t k')"
  by (auto simp: prefix_def make_prefix_def make_key_def)

lemma drop_make_key [simp]: "drop (length (make_prefix t)) (make_key t k) = k"
  by (simp add: make_prefix_def make_key_def)

lemma make_key_less [simp]: "make_key t k < make_key t k' \<longleftrightarrow> k < k'"
proof (induction t)
  case Nil
  then show ?case by (simp add: make_key_def)
next
  case (Cons b t)
  then show ?case by (simp add: make_key_def)
qed

subsection \<open>The simulation\<close>

definition readers :: "(nat \<Rightarrow> TransactionState option) \<Rightarrow> u64 \<Rightarrow> nat set" where
  "readers txns s = {h. \<exists>t. txns h = Some t \<and> ts_snapshot_seq t = s}"

definition snapshot_count :: "(u64 \<times> u32) list \<Rightarrow> u64 \<Rightarrow> nat" where
  "snapshot_count snaps s = (case om_get snaps s of None \<Rightarrow> 0 | Some c \<Rightarrow> unat c)"

text \<open>The engine's snapshot counters count the open transactions of each snapshot.\<close>

definition counts_ok :: "(u64 \<times> u32) list \<Rightarrow> (nat \<Rightarrow> TransactionState option) \<Rightarrow> bool" where
  "counts_ok snaps txns \<longleftrightarrow> finite (dom txns)
     \<and> (\<forall>s. snapshot_count snaps s = card (readers txns s)) \<and> (\<forall>s. om_get snaps s \<noteq> Some 0)"

definition txn_ok ::
  "'b LsmEngine \<Rightarrow> (InternalKey \<times> bytes) list list \<Rightarrow> TransactionState \<Rightarrow> rows \<times> changes \<Rightarrow> bool" where
  "txn_ok eng ess t sc \<longleftrightarrow> \<not> ts_finished t \<and> om_sorted (ts_staged t)
     \<and> (\<forall>k \<in> fst ` set (ts_staged t). \<exists>tb k'. table_name tb \<and> k = make_key tb k')
     \<and> (\<forall>tb k. table_name tb \<longrightarrow> snd sc (tb, k) = om_get (ts_staged t) (make_key tb k)
          \<and> fst sc (tb, k) = sees eng ess (make_key tb k) (ts_snapshot_seq t))"

definition rows_ok :: "'b LsmEngine \<Rightarrow> (InternalKey \<times> bytes) list list \<Rightarrow> rows \<Rightarrow> bool" where
  "rows_ok eng ess rows \<longleftrightarrow> (\<forall>tb k. table_name tb \<longrightarrow> rows (tb, k) = newest eng ess (make_key tb k))"

definition sim_at :: "('b, 's) lsm_env \<Rightarrow> 'b LsmEngine \<Rightarrow> (InternalKey \<times> bytes) list list
    \<Rightarrow> (nat \<Rightarrow> TransactionState option) \<Rightarrow> spec_state \<Rightarrow> bool" where
  "sim_at env eng ess txns sp \<longleftrightarrow> eng_ok (env_bloom env) eng ess \<and> next_seq eng \<noteq> 0
     \<and> counts_ok (snapshots eng) txns \<and> rows_ok eng ess (fst sp)
     \<and> (\<forall>h. rel_option (txn_ok eng ess) (txns h) (snd sp h))"

definition sim :: "('b, 's) lsm_env \<Rightarrow> ('b, 's, 'i) sessions \<Rightarrow> spec_state \<Rightarrow> bool" where
  "sim env c sp \<longleftrightarrow> (\<exists>ess. sim_at env (db_lsm (fst c)) ess (snd c) sp)"

lemma snapshot_count_insert: "snapshot_count (om_insert s c snaps) = (snapshot_count snaps)(s := unat c)"
  by (simp add: snapshot_count_def fun_eq_iff)

lemma snapshot_count_remove:
  "om_sorted snaps \<Longrightarrow> snapshot_count (om_remove s snaps) = (snapshot_count snaps)(s := 0)"
  by (simp add: snapshot_count_def fun_eq_iff)

lemma finite_readers: "finite (dom txns) \<Longrightarrow> finite (readers txns s)"
  by (rule rev_finite_subset) (auto simp: readers_def)

lemma counts_ok_count:
  assumes "counts_ok snaps txns" and "txns h = Some t"
  obtains c where "om_get snaps (ts_snapshot_seq t) = Some c" and "unat c = card (readers txns (ts_snapshot_seq t))"
    and "c \<noteq> 0"
proof -
  let ?s = "ts_snapshot_seq t"
  have "h \<in> readers txns ?s" using assms(2) by (simp add: readers_def)
  then have "card (readers txns ?s) \<noteq> 0"
    using assms(1) finite_readers [of txns ?s] by (auto simp: counts_ok_def)
  then have "snapshot_count snaps ?s \<noteq> 0" and eq: "snapshot_count snaps ?s = card (readers txns ?s)"
    using assms(1) by (simp_all add: counts_ok_def)
  then obtain c where c: "om_get snaps ?s = Some c" by (cases "om_get snaps ?s") (simp_all add: snapshot_count_def)
  moreover have "unat c = card (readers txns ?s)" using eq c by (simp add: snapshot_count_def)
  moreover have "c \<noteq> 0" using assms(1) c unfolding counts_ok_def by blast
  ultimately show thesis using that by blast
qed

lemma counts_ok_open:
  assumes "counts_ok snaps txns" and "txns h = Some t"
  shows "ts_snapshot_seq t \<in> fst ` set snaps"
proof -
  obtain c where "om_get snaps (ts_snapshot_seq t) = Some c" using counts_ok_count [OF assms] by blast
  then show ?thesis using map_of_SomeD by force
qed

lemma counts_ok_begin:
  assumes ok: "counts_ok snaps txns" and "txns h = None" and "ts_snapshot_seq t = s"
    and max: "om_get snaps s \<noteq> Some (- 1)"
  shows "counts_ok (count_snapshot s snaps) (txns(h \<mapsto> t))"
proof -
  let ?c = "case om_get snaps s of None \<Rightarrow> 0 | Some c \<Rightarrow> c"
  have R: "readers (txns(h \<mapsto> t)) s' = (if s' = s then insert h (readers txns s) else readers txns s')" for s'
    using assms(2,3) by (auto simp: readers_def)
  have "h \<notin> readers txns s" using assms(2) by (simp add: readers_def)
  then have card: "card (insert h (readers txns s)) = Suc (card (readers txns s))"
    using ok finite_readers by (simp add: counts_ok_def)
  have "1 + ?c \<noteq> 0" using max by (auto simp: add_eq_0_iff split: option.split)
  moreover have "unat ?c = snapshot_count snaps s" by (simp add: snapshot_count_def split: option.split)
  ultimately have "unat (?c + 1) = Suc (card (readers txns s))" "?c + 1 \<noteq> 0"
    using unatSuc [of ?c] ok by (simp_all add: counts_ok_def add.commute)
  then show ?thesis
    using ok by (simp add: counts_ok_def count_snapshot_def snapshot_count_insert R card)
qed

lemma counts_ok_release:
  assumes ok: "counts_ok (snapshots eng) txns" and sorted: "om_sorted (snapshots eng)" and "txns h = Some t"
  shows "counts_ok (snapshots (release_snapshot (ts_snapshot_seq t) eng)) (txns(h := None))"
proof -
  let ?s = "ts_snapshot_seq t"
  have R: "readers (txns(h := None)) s = (if s = ?s then readers txns s - {h} else readers txns s)" for s
    using assms(3) by (auto simp: readers_def)
  obtain c where c: "om_get (snapshots eng) ?s = Some c" "unat c = card (readers txns ?s)" "c \<noteq> 0"
    using counts_ok_count [OF ok assms(3)] by blast
  have "h \<in> readers txns ?s" using assms(3) by (simp add: readers_def)
  then have card: "card (readers txns ?s - {h}) = unat (c - 1)" using c by (simp add: unat_minus_one)
  have "finite (dom txns - {h})" using ok by (simp add: counts_ok_def)
  moreover have "snapshots (release_snapshot ?s eng) =
      (if c - 1 = 0 then om_remove ?s (snapshots eng) else om_insert ?s (c - 1) (snapshots eng))"
    by (simp add: release_snapshot_def Let_def c(1))
  ultimately show ?thesis
    using ok sorted card
    by (simp add: counts_ok_def snapshot_count_insert snapshot_count_remove R)
qed

lemma txn_ok_cong:
  assumes "txn_ok eng ess t sc" and "\<And>k. sees eng' ess' k (ts_snapshot_seq t) = sees eng ess k (ts_snapshot_seq t)"
  shows "txn_ok eng' ess' t sc"
  using assms by (simp add: txn_ok_def)

lemma txn_ok_sees: "sees eng' ess' = sees eng ess \<Longrightarrow> txn_ok eng' ess' = txn_ok eng ess"
  by (simp add: txn_ok_def fun_eq_iff)

lemma rows_ok_sees: "sees eng' ess' = sees eng ess \<Longrightarrow> rows_ok eng' ess' = rows_ok eng ess"
  by (simp add: rows_ok_def newest_def fun_eq_iff)

lemma txns_ok_cong:
  assumes "counts_ok (snapshots eng) txns" and "\<forall>h. rel_option (txn_ok eng ess) (txns h) (stx h)"
    and "\<forall>k. \<forall>s \<in> fst ` set (snapshots eng). sees eng' ess' k s = sees eng ess k s"
  shows "\<forall>h. rel_option (txn_ok eng' ess') (txns h) (stx h)"
proof
  fix h
  show "rel_option (txn_ok eng' ess') (txns h) (stx h)"
  proof (cases "txns h")
    case None
    then show ?thesis using spec [OF assms(2), of h] by simp
  next
    case (Some t)
    then obtain sc where sc: "stx h = Some sc" "txn_ok eng ess t sc"
      using spec [OF assms(2), of h] by (cases "stx h") auto
    have "txn_ok eng' ess' t sc"
      by (rule txn_ok_cong [OF sc(2)]) (use assms(3) counts_ok_open [OF assms(1) Some] in blast)
    then show ?thesis using Some sc(1) by simp
  qed
qed

text \<open>Operations that keep every read keep the simulation; so does a batch.\<close>

lemma sim_same_reads:
  assumes "sim_at env eng ess txns sp" and "eng_ok (env_bloom env) eng' ess'" and "same_reads eng ess eng' ess'"
  shows "sim_at env eng' ess' txns sp"
  using assms txns_ok_cong [of eng txns ess "snd sp" eng' ess']
  by (simp add: sim_at_def same_reads_def rows_ok_def)

lemma sim_batch:
  assumes sim: "sim_at env eng ess txns (rows, stx)" and max: "next_seq eng \<noteq> - 1"
    and bd: "batch_done env es eng ess ok eng' ess'"
    and rows: "\<And>tb k. table_name tb \<Longrightarrow> rows' (tb, k) = applied es (newest eng ess) (make_key tb k)"
  shows "\<exists>rows''. sim_at env eng' ess' txns (rows'', stx) \<and> (rows'' = rows' \<or> \<not> ok \<and> rows'' = rows)"
proof -
  have "sim_at env eng' ess' txns (r, stx)" if "rows_ok eng' ess' r" for r
    using that sim bd max txns_ok_cong [of eng txns ess stx eng' ess']
    by (simp add: sim_at_def batch_done_def eq_neg_iff_add_eq_0)
  moreover have "rows_ok eng' ess' rows' \<or> \<not> ok \<and> rows_ok eng' ess' rows"
    using sim bd rows by (auto simp: batch_done_def rows_ok_def sim_at_def)
  ultimately show ?thesis by blast
qed

subsection \<open>One step\<close>

definition simulated :: "('b, 's) lsm_env \<Rightarrow> spec_state \<Rightarrow> db_event \<Rightarrow> ('b, 's, 'i) sessions \<Rightarrow> bool" where
  "simulated env sp ev c' \<longleftrightarrow> (\<exists>sp'. spec_step sp ev sp' \<and> sim env c' sp')"

lemma simulatedI: "spec_step sp ev sp' \<Longrightarrow> sim_at env (db_lsm db') ess txns' sp' \<Longrightarrow> simulated env sp ev (db', txns')"
  unfolding simulated_def sim_def by (metis fst_conv snd_conv)

lemma sim_txn:
  assumes "sim_at env eng ess txns (rows, stx)" and "txns h = Some t"
  obtains sc where "stx h = Some sc" and "txn_ok eng ess t sc"
proof -
  have "rel_option (txn_ok eng ess) (txns h) (stx h)" using assms(1) by (simp add: sim_at_def)
  then show thesis using that assms(2) by (cases "stx h") auto
qed

lemma simulated_begin:
  assumes sim: "sim_at env (db_lsm db) ess txns (rows, stx)" and h: "txns h = None"
    and max: "om_get (snapshots (db_lsm db)) (current_seq (db_lsm db)) \<noteq> Some (- 1)"
    and t: "begin_txn db = (t, db')"
  shows "simulated env (rows, stx) (Began h) (db', txns(h \<mapsto> t))"
proof -
  let ?eng = "db_lsm db"
  let ?s = "current_seq ?eng"
  have t': "ts_snapshot_seq t = ?s" "\<not> ts_finished t" "ts_staged t = []"
      "db_lsm db' = register_snapshot ?s ?eng"
    using t by (auto simp: begin_txn_def snapshot_now_def TxnHandle_new_def Let_def)
  have S: "eng_ok (env_bloom env) ?eng ess" "next_seq ?eng \<noteq> 0" "counts_ok (snapshots ?eng) txns"
      "rows_ok ?eng ess rows" "\<forall>h. rel_option (txn_ok ?eng ess) (txns h) (stx h)"
    using sim by (simp_all add: sim_at_def)
  have "?s < next_seq ?eng" using u64_pred_less S(2) by (simp add: current_seq_def next_seq_def)
  note R = register_snapshot_ok [OF S(1) this]
  have "counts_ok (snapshots (db_lsm db')) (txns(h \<mapsto> t))"
    using counts_ok_begin [OF S(3) h t'(1) max] t'(4) by (simp add: register_snapshot_def)
  moreover have "newest ?eng ess k = sees ?eng ess k ?s" for k using newest_eq [OF S(1), of ?s k] by simp
  then have "txn_ok (db_lsm db') ess t (rows, \<lambda>_. None)"
    using t' S(4) R(2) by (simp add: txn_ok_def rows_ok_def)
  moreover have "next_seq (db_lsm db') = next_seq ?eng" by (simp add: t'(4) register_snapshot_def next_seq_def)
  ultimately have "sim_at env (db_lsm db') ess (txns(h \<mapsto> t)) (rows, stx(h \<mapsto> (rows, \<lambda>_. None)))"
    using S R(1) txn_ok_sees [OF R(2)] rows_ok_sees [OF R(2)] by (simp add: sim_at_def t'(4))
  moreover have "stx h = None" using spec [OF S(5), of h] h by (cases "stx h") simp_all
  ultimately show ?thesis using simulatedI [OF spec_begin] by blast
qed

text \<open>Staging a change in a transaction.\<close>

lemma txn_ok_stage:
  assumes "txn_ok eng ess t (snap, ch)" and tb: "table_name table"
    and t': "t' = t\<lparr>ts_staged := om_insert (make_key table key) w (ts_staged t)\<rparr>"
  shows "txn_ok eng ess t' (snap, ch((table, key) \<mapsto> w))"
proof -
  have "fst ` set (ts_staged t') = insert (make_key table key) (fst ` set (ts_staged t))"
    by (simp add: t' om_insert_keys)
  then show ?thesis
    using assms by (auto simp: txn_ok_def make_key_inject)
qed

lemma simulated_stage:
  assumes sim: "sim_at env (db_lsm db) ess txns (rows, stx)" and t: "txns h = Some t" and tb: "table_name table"
    and t': "t' = t\<lparr>ts_staged := om_insert (make_key table key) w (ts_staged t)\<rparr>"
  shows "simulated env (rows, stx) (Wrote (Some h) table key w True) (db, txns(h \<mapsto> t'))"
proof -
  obtain snap ch where sc: "stx h = Some (snap, ch)" "txn_ok (db_lsm db) ess t (snap, ch)"
    using sim_txn [OF sim t] by (metis surj_pair)
  have "readers (txns(h \<mapsto> t')) = readers txns" using t by (auto simp: readers_def t' fun_eq_iff)
  moreover have "dom (txns(h \<mapsto> t')) = dom txns" using t by auto
  ultimately have "counts_ok (snapshots (db_lsm db)) (txns(h \<mapsto> t'))"
    using sim by (simp add: sim_at_def counts_ok_def)
  then have "sim_at env (db_lsm db) ess (txns(h \<mapsto> t')) (rows, stx(h \<mapsto> (snap, ch((table, key) \<mapsto> w))))"
    using sim txn_ok_stage [OF sc(2) tb t'] by (simp add: sim_at_def)
  then show ?thesis by (rule simulatedI [OF spec_stage [of stx h, OF sc(1)]])
qed

text \<open>Writing outside a transaction.\<close>

lemma applied_one:
  assumes "rows_ok eng ess rows" and "table_name table" and "table_name tb"
  shows "(rows((table, key) := w)) (tb, k) = applied [(x, make_key table key, w)] (newest eng ess) (make_key tb k)"
  using assms make_key_inject [OF assms(2,3), of key k] make_key_inject [OF assms(3,2), of k key]
  by (auto simp: applied_def rows_ok_def)

lemma simulated_write:
  assumes sim: "sim_at env (db_lsm db) ess txns (rows, stx)" and tb: "table_name table"
    and fits: "write_fits env lease fault [(table, make_key table key, w)] (db_lsm db) (db_store db)"
    and bd: "batch_done env [(table, make_key table key, w)] (db_lsm db) ess ok (db_lsm db') ess'"
  shows "simulated env (rows, stx) (Wrote None table key w ok) (db', txns)"
proof -
  have max: "next_seq (db_lsm db) \<noteq> - 1" using fits by (simp add: write_fits_def)
  obtain rows'' where R: "sim_at env (db_lsm db') ess' txns (rows'', stx)"
      "rows'' = rows((table, key) := w) \<or> \<not> ok \<and> rows'' = rows"
    using sim_batch [OF sim max bd, of "rows((table, key) := w)"] applied_one [OF _ tb, of "db_lsm db" ess rows]
      sim by (metis (no_types, lifting) fst_conv sim_at_def)
  show ?thesis by (rule simulatedI [OF spec_write [OF R(2)] R(1)])
qed

lemma db_write_done:
  assumes ok: "eng_ok (env_bloom env) (db_lsm db) ess" and bl: "bloom_ok (env_bloom env)"
    and fits: "write_fits env lease fault [(table, make_key table key, Some val)] (db_lsm db) (db_store db)"
    and w: "db_write env maintain lease fault table key val db = (r, db')" and "db_role db \<noteq> Reader"
  shows "\<exists>ess'. batch_done env [(table, make_key table key, Some val)] (db_lsm db) ess (is_ok r) (db_lsm db') ess'"
proof -
  let ?es = "[(table, make_key table key, Some val)]"
  obtain q eng1 where q: "write_batch env lease fault ?es (db_lsm db) = (q, eng1)" by force
  note D = write_batch_done(1) [OF ok _ fits q]
  show ?thesis
  proof (cases q)
    case (Inl e)
    then have "\<not> is_ok r" "db_lsm db' = eng1"
      using w q assms(5) by (auto simp: db_write_def check_writable_def lsm_write_def Let_def)
    then show ?thesis using D Inl by auto
  next
    case (Inr cp)
    then obtain c pending where cp: "q = Ok (c, pending)" by (cases cp) auto
    obtain f eng' st' where f: "finish_pending env lease pending eng1 (db_store db) = (f, eng', st')"
      by (metis prod_cases3)
    have "db_lsm db' = eng'"
      using w q cp f assms(5)
      by (auto simp: db_write_def check_writable_def lsm_write_def Let_def split: sum.splits prod.splits)
    then show ?thesis
      using write_finish_done [OF ok bl _ fits q [unfolded cp] f] batch_done_weaken by (simp, blast)
  qed
qed

lemma db_delete_done:
  assumes ok: "eng_ok (env_bloom env) (db_lsm db) ess" and bl: "bloom_ok (env_bloom env)"
    and fits: "write_fits env lease fault [(table, make_key table key, None)] (db_lsm db) (db_store db)"
    and w: "db_delete env lease fault table key db = (r, db')" and "db_role db \<noteq> Reader"
  shows "\<exists>ess'. batch_done env [(table, make_key table key, None)] (db_lsm db) ess (is_ok r) (db_lsm db') ess'"
proof -
  let ?es = "[(table, make_key table key, None)]"
  obtain q eng1 where q: "write_batch env lease fault ?es (db_lsm db) = (q, eng1)" by force
  note D = write_batch_done(1) [OF ok _ fits q]
  show ?thesis
  proof (cases q)
    case (Inl e)
    then have "\<not> is_ok r" "db_lsm db' = eng1"
      using w q assms(5) by (auto simp: db_delete_def check_writable_def lsm_delete_def)
    then show ?thesis using D Inl by auto
  next
    case (Inr cp)
    then obtain c pending where cp: "q = Ok (c, pending)" by (cases cp) auto
    obtain f eng' st' where f: "finish_pending env lease pending eng1 (db_store db) = (f, eng', st')"
      by (metis prod_cases3)
    have "db_lsm db' = eng'"
      using w q cp f assms(5)
      by (auto simp: db_delete_def check_writable_def lsm_delete_def split: sum.splits prod.splits)
    then show ?thesis
      using write_finish_done [OF ok bl _ fits q [unfolded cp] f] batch_done_weaken by (simp, blast)
  qed
qed

text \<open>Reading and scanning.\<close>

lemma simulated_read:
  assumes sim: "sim_at env (db_lsm db) ess txns (rows, stx)" and tb: "table_name table"
    and h: "\<And>i. h = Some i \<Longrightarrow> txns i \<noteq> None"
  shows "simulated env (rows, stx) (Saw h table key (txn_read env (Option.bind h txns) table key db)) (db, txns)"
proof -
  have ok: "eng_ok (env_bloom env) (db_lsm db) ess" and R: "rows_ok (db_lsm db) ess rows"
    using sim by (simp_all add: sim_at_def)
  have view: "txn_read env (Option.bind h txns) table key db = Ok (spec_view (rows, stx) h (table, key))"
  proof (cases h)
    case None
    then show ?thesis using R tb
      by (simp add: txn_read_def spec_view_def rows_ok_def newest_def eng_ok_read [OF ok])
  next
    case (Some i)
    then obtain t where t: "txns i = Some t" using h by blast
    then obtain snap ch where "stx i = Some (snap, ch)" "txn_ok (db_lsm db) ess t (snap, ch)"
      using sim_txn [OF sim] by (metis surj_pair)
    then show ?thesis using Some t tb
      by (auto simp: txn_read_def spec_view_def staged_read_def overlaid_def txn_ok_def Let_def
          eng_ok_read [OF ok] split: option.splits)
  qed
  have "stx i \<noteq> None" if "h = Some i" for i using h [OF that] sim_txn [OF sim] by (metis option.exhaust option.simps(3))
  then have "spec_step (rows, stx) (Saw h table key (txn_read env (Option.bind h txns) table key db)) (rows, stx)"
    unfolding view by (rule spec_read)
  then show ?thesis using sim by (rule simulatedI)
qed

definition listing :: "bytes \<Rightarrow> merged \<Rightarrow> KeyValue list" where
  "listing pre merged = List.map_filter (\<lambda>(k, v).
     map_option (\<lambda>val. \<lparr>kv_key = drop (length pre) k, kv_value = val\<rparr>) v) merged"

lemma listing_simps:
  "listing pre [] = []"
  "listing pre ((k, v) # m) = (case v of
     None \<Rightarrow> listing pre m | Some val \<Rightarrow> \<lparr>kv_key = drop (length pre) k, kv_value = val\<rparr> # listing pre m)"
  by (simp_all add: listing_def map_filter_simps split: option.split)

lemma listing_lists:
  assumes "om_sorted m" and "\<forall>k \<in> fst ` set m. prefix (make_prefix table) k"
  shows "sorted_wrt (<) (map kv_key (listing (make_prefix table) m))
    \<and> (\<forall>k v. \<lparr>kv_key = k, kv_value = v\<rparr> \<in> set (listing (make_prefix table) m)
          \<longleftrightarrow> om_get m (make_key table k) = Some (Some v))"
  using assms
proof (induction m)
  case Nil
  then show ?case by (simp add: listing_simps)
next
  case (Cons e m)
  obtain k v where e: "e = (k, v)" by (cases e)
  obtain k0 where k: "k = make_key table k0" using Cons.prems(2) by (auto simp: e prefix_make_key)
  have IH: "sorted_wrt (<) (map kv_key (listing (make_prefix table) m))"
      "\<And>k v. \<lparr>kv_key = k, kv_value = v\<rparr> \<in> set (listing (make_prefix table) m)
          \<longleftrightarrow> om_get m (make_key table k) = Some (Some v)"
    using Cons by auto
  have above: "k0 < kv_key kv" if "kv \<in> set (listing (make_prefix table) m)" for kv
  proof -
    have kv: "\<lparr>kv_key = kv_key kv, kv_value = kv_value kv\<rparr> = kv" by simp
    then have "om_get m (make_key table (kv_key kv)) = Some (Some (kv_value kv))"
      using IH(2) [of "kv_key kv" "kv_value kv", unfolded kv] that by blast
    then have "make_key table (kv_key kv) \<in> fst ` set m" using map_of_SomeD by force
    then have "make_key table k0 < make_key table (kv_key kv)" using Cons.prems(1)
      by (auto simp: e k simp del: make_key_less)
    then show ?thesis by simp
  qed
  have inj: "make_key table k' = make_key table k0 \<longleftrightarrow> k' = k0" for k' by (simp add: make_key_def)
  have "\<lparr>kv_key = k0, kv_value = w\<rparr> \<notin> set (listing (make_prefix table) m)" for w
    using above by force
  then show ?case
    using IH above by (auto simp: e k listing_simps inj split: option.splits)
qed

lemma distinct_map_of_rev: "distinct (map fst xs) \<Longrightarrow> map_of (rev xs) = map_of xs"
  by (rule map_of_eqI) (auto simp: rev_map [symmetric] dest: map_of_is_SomeI)

lemma om_get_filter_keys:
  "map_of (filter (\<lambda>(k, v). P k) xs) k = (if P k then map_of xs k else None)"
  by (induction xs) auto

lemma fold_insert_Some:
  "fold (\<lambda>(k, v). om_insert k (Some v)) xs m = overlay (map (\<lambda>(k, v). (k, Some v)) xs) m"
  unfolding overlay_def fold_map by (rule fold_cong) (auto simp: fun_eq_iff)

lemma overlay_sorted_get:
  "om_sorted m \<Longrightarrow> om_sorted (overlay xs m) \<and> om_get (overlay xs m) = om_get m ++ map_of (rev xs)"
  using om.insert_all_invar [of m xs] om.insert_all_get [of m xs] by (simp add: overlay_def)

lemma txn_scan_lists:
  assumes ok: "eng_ok bl (db_lsm db) ess" and staged: "om_sorted staged"
    and t: "staged = (case txn of None \<Rightarrow> [] | Some t \<Rightarrow> ts_staged t)"
    and s: "s = (case txn of None \<Rightarrow> - 1 | Some t \<Rightarrow> ts_snapshot_seq t)"
    and view: "\<And>k. rows (table, k) = (case om_get staged (make_key table k) of
        Some w \<Rightarrow> w | None \<Rightarrow> sees (db_lsm db) ess (make_key table k) s)"
  shows "\<exists>kvs. txn_scan txn table db = Ok kvs \<and> lists_table rows table kvs"
proof -
  let ?P = "\<lambda>k. prefix (make_prefix table) k"
  obtain xs where xs: "scan_at (db_lsm db) s = Ok xs" "om_sorted xs" "\<forall>k. om_get xs k = sees (db_lsm db) ess k s"
    using eng_ok_scan [OF ok] by blast
  define base where "base = overlay (map (\<lambda>(k, v). (k, Some v)) (filter (\<lambda>(k, v). ?P k) xs)) []"
  define merged where "merged = overlay (filter (\<lambda>(k, w). ?P k) staged) base"
  have scan: "txn_scan txn table db = Ok (listing (make_prefix table) merged)"
    using xs(1) s t
    by (auto simp: txn_scan_def listing_def merged_def base_def fold_insert_Some Let_def overlay_def
        split: option.splits)
  have "map_of (map (\<lambda>(k, v). (k, Some v)) zs) k = map_option Some (map_of zs k)" for k and zs :: "(bytes \<times> bytes) list"
    by (induction zs) auto
  moreover have "distinct (map fst (map (\<lambda>(k, v). (k, Some v)) (filter (\<lambda>(k, v). ?P k) xs)))"
    using om_sorted_distinct [OF xs(2)] by (simp add: comp_def case_prod_unfold distinct_map_filter)
  ultimately have base: "om_sorted base" "om_get base k = (if ?P k then map_option Some (om_get xs k) else None)" for k
    using overlay_sorted_get [of "[]" "map (\<lambda>(k, v). (k, Some v)) (filter (\<lambda>(k, v). ?P k) xs)"]
    by (simp_all add: base_def distinct_map_of_rev om_get_filter_keys)
  have "distinct (map fst (filter (\<lambda>(k, w). ?P k) staged))"
    using om_sorted_distinct [OF staged] by (rule distinct_map_filter)
  then have merged: "om_sorted merged"
      "om_get merged k = (if ?P k then (case om_get staged k of Some w \<Rightarrow> Some w | None \<Rightarrow> om_get base k) else None)" for k
    using overlay_sorted_get [OF base(1), of "filter (\<lambda>(k, w). ?P k) staged"] base(2)
    by (simp_all add: merged_def distinct_map_of_rev om_get_filter_keys map_add_def)
  have "?P k" if "k \<in> fst ` set merged" for k
    using that merged(2) [of k] by (metis map_of_eq_None_iff)
  then have "lists_table rows table (listing (make_prefix table) merged)"
    using listing_lists [OF merged(1), of table] merged(2) base(2) xs(3) view
    by (auto simp: lists_table_def prefix_make_key split: option.splits)
  with scan show ?thesis by blast
qed

lemma simulated_scan:
  assumes sim: "sim_at env (db_lsm db) ess txns (rows, stx)" and tb: "table_name table"
    and h: "\<And>i. h = Some i \<Longrightarrow> txns i \<noteq> None"
  shows "simulated env (rows, stx) (Listed h table (txn_scan (Option.bind h txns) table db)) (db, txns)"
proof -
  have ok: "eng_ok (env_bloom env) (db_lsm db) ess" and R: "rows_ok (db_lsm db) ess rows"
    using sim by (simp_all add: sim_at_def)
  have "\<exists>kvs. txn_scan (Option.bind h txns) table db = Ok kvs \<and> lists_table (spec_view (rows, stx) h) table kvs"
  proof (cases h)
    case None
    then show ?thesis using R tb
      by (intro txn_scan_lists [OF ok, where staged = "[]" and s = "- 1"])
         (simp_all add: spec_view_def rows_ok_def newest_def)
  next
    case (Some i)
    then obtain t where t: "txns i = Some t" using h by blast
    then obtain snap ch where "stx i = Some (snap, ch)" "txn_ok (db_lsm db) ess t (snap, ch)"
      using sim_txn [OF sim] by (metis surj_pair)
    then show ?thesis using Some t tb
      by (intro txn_scan_lists [OF ok, where staged = "ts_staged t" and s = "ts_snapshot_seq t"])
         (simp_all add: spec_view_def overlaid_def txn_ok_def split: option.split)
  qed
  then obtain kvs where kvs: "txn_scan (Option.bind h txns) table db = Ok kvs"
      "lists_table (spec_view (rows, stx) h) table kvs" by blast
  have "stx i \<noteq> None" if "h = Some i" for i using h [OF that] sim_txn [OF sim] by (metis option.exhaust option.simps(3))
  then show ?thesis unfolding kvs(1) by (intro simulatedI [OF spec_scan [OF _ kvs(2)] sim])
qed

text \<open>Ending a transaction.\<close>

lemma sim_release:
  assumes sim: "sim_at env eng ess txns (rows, stx)" and t: "txns h = Some t"
  shows "sim_at env (release_snapshot (ts_snapshot_seq t) eng) ess (txns(h := None)) (rows, stx(h := None))"
proof -
  have ok: "eng_ok (env_bloom env) eng ess" and C: "counts_ok (snapshots eng) txns"
    using sim by (simp_all add: sim_at_def)
  note R = release_snapshot_ok [OF ok, of "ts_snapshot_seq t"]
  have "next_seq (release_snapshot (ts_snapshot_seq t) eng) = next_seq eng"
    by (simp add: release_snapshot_def next_seq_def Let_def split: option.split)
  moreover have "om_sorted (snapshots eng)" using ok by (simp add: eng_ok_def)
  note counts_ok_release [OF C this t]
  ultimately show ?thesis
    using sim R(1) txn_ok_sees [OF R(2)] rows_ok_sees [OF R(2)] by (simp add: sim_at_def)
qed

lemma simulated_end:
  assumes sim: "sim_at env (db_lsm db) ess txns (rows, stx)" and t: "txns h = Some t"
    and "db_lsm db' = release_snapshot (ts_snapshot_seq t) (db_lsm db)"
  shows "simulated env (rows, stx) (RolledBack h) (db', txns(h := None))"
proof -
  have "stx h \<noteq> None" using sim_txn [OF sim t] by blast
  then have "spec_step (rows, stx) (RolledBack h) (rows, stx(h := None))" by (rule spec_rollback)
  then show ?thesis by (rule simulatedI) (use sim_release [OF sim t] assms(3) in simp)
qed

lemma commit_batch_all:
  assumes "\<forall>k \<in> fst ` set staged. \<exists>tb k'. table_name tb \<and> k = make_key tb k'"
  shows "map snd (fst (commit_batch staged)) = staged"
  using assms
proof (induction staged)
  case (Cons e staged)
  obtain k w where e: "e = (k, w)" by (cases e)
  obtain tb k' where "table_name tb" "k = make_key tb k'" using Cons.prems by (auto simp: e)
  then show ?case using Cons by (cases "commit_batch staged") (simp add: e table_of_make_key)
qed simp

lemma commit_txn_done:
  assumes ok: "eng_ok (env_bloom env) eng ess" and bl: "bloom_ok (env_bloom env)"
    and dist: "distinct (map (fst \<circ> snd) (fst (commit_batch staged)))"
    and fits: "write_fits env lease fault (fst (commit_batch staged)) eng (db_store db)"
    and take: "take_staged t (db_lsm db) = (staged, t1, eng)"
    and c: "commit_txn env maintain lease fault t db = (r, t', db')"
    and "staged \<noteq> []" and "db_role db \<noteq> Reader"
  shows "\<exists>ess'. batch_done env (fst (commit_batch staged)) eng ess (is_ok r) (db_lsm db') ess'"
proof -
  obtain es per_row where es: "commit_batch staged = (es, per_row)" by force
  obtain q eng1 where q: "write_batch env lease fault es eng = (q, eng1)" by force
  note D = write_batch_done(1) [OF ok dist fits, unfolded es fst_conv, OF q]
  show ?thesis
  proof (cases q)
    case (Inl e)
    then have "\<not> is_ok r" "db_lsm db' = eng1"
      using c take es q assms(7,8) by (auto simp: commit_txn_def check_writable_def Let_def)
    then show ?thesis using D Inl es by auto
  next
    case (Inr cp)
    then obtain n pending where cp: "q = Ok (n, pending)" by (cases cp) auto
    obtain f eng' st' where f: "finish_pending env lease pending eng1 (db_store db) = (f, eng', st')"
      by (metis prod_cases3)
    have "db_lsm db' = eng'"
      using c take es q cp f assms(7,8)
      by (auto simp: commit_txn_def check_writable_def Let_def split: sum.splits prod.splits)
    then show ?thesis
      using write_finish_done [OF ok bl dist fits, unfolded es fst_conv, OF q [unfolded cp] f] batch_done_weaken es
      by (simp, blast)
  qed
qed

lemma simulated_commit:
  assumes sim: "sim_at env (db_lsm db) ess txns (rows, stx)" and bl: "bloom_ok (env_bloom env)"
    and t: "txns h = Some t"
    and fits: "write_fits env lease fault (fst (commit_batch (ts_staged t))) (snd (snd (take_staged t (db_lsm db)))) (db_store db)"
    and c: "commit_txn env maintain lease fault t db = (r, t', db')"
  shows "simulated env (rows, stx) (Committed h (is_ok r)) (db', txns(h := None))"
proof -
  let ?eng = "release_snapshot (ts_snapshot_seq t) (db_lsm db)" and ?es = "fst (commit_batch (ts_staged t))"
  obtain snap ch where sc: "stx h = Some (snap, ch)" "txn_ok (db_lsm db) ess t (snap, ch)"
    using sim_txn [OF sim t] by (metis surj_pair)
  have T: "\<not> ts_finished t" "om_sorted (ts_staged t)" "map snd ?es = ts_staged t"
    using sc(2) commit_batch_all [of "ts_staged t"] by (simp_all add: txn_ok_def)
  have take: "take_staged t (db_lsm db) = (ts_staged t, t\<lparr>ts_finished := True, ts_staged := []\<rparr>, ?eng)"
    using T(1) by (simp add: take_staged_def finish_locked_def)
  have sim1: "sim_at env ?eng ess (txns(h := None)) (rows, stx(h := None))" by (rule sim_release [OF sim t])
  have ok: "eng_ok (env_bloom env) ?eng ess" and R: "rows_ok ?eng ess rows"
    using sim1 by (simp_all add: sim_at_def)
  have fits1: "write_fits env lease fault ?es ?eng (db_store db)" using fits take by simp
  have dist: "distinct (map (fst \<circ> snd) ?es)"
    using om_sorted_distinct [OF T(2)] T(3) by (metis map_map)
  have rows: "overlaid ch rows (tb, k) = applied ?es (newest ?eng ess) (make_key tb k)" if "table_name tb" for tb k
    using that sc(2) R by (simp add: overlaid_def applied_def T(3) txn_ok_def rows_ok_def split: option.split)
  have step: "simulated env (rows, stx) (Committed h (is_ok r)) (db', txns(h := None))"
    if "sim_at env (db_lsm db') ess' (txns(h := None)) (rows', stx(h := None))"
      "rows' = overlaid ch rows \<or> \<not> is_ok r \<and> rows' = rows" for ess' rows'
    by (rule simulatedI [OF spec_commit [of stx h, OF sc(1) that(2)] that(1)])
  show ?thesis
  proof (cases "ts_staged t = [] \<or> db_role db = Reader")
    case True
    then have db': "db_lsm db' = ?eng" and "\<not> is_ok r \<or> ts_staged t = []"
      using c take by (auto simp: commit_txn_def check_writable_def Let_def split: if_splits)
    moreover have "sim_at env ?eng ess (txns(h := None)) (overlaid ch rows, stx(h := None))" if "ts_staged t = []"
      using sim1 rows that T(3) by (simp add: sim_at_def rows_ok_def applied_def)
    ultimately show ?thesis using step sim1 by metis
  next
    case False
    have bd: "\<exists>ess'. batch_done env ?es ?eng ess (is_ok r) (db_lsm db') ess'"
      by (rule commit_txn_done [OF ok bl dist fits1 take c]) (use False in auto)
    then obtain ess' where "batch_done env ?es ?eng ess (is_ok r) (db_lsm db') ess'" ..
    with sim_batch [OF sim1 _ this rows] fits1 step show ?thesis by (auto simp: write_fits_def)
  qed
qed

text \<open>Flushing.\<close>

lemma lsm_flush_eq:
  "lsm_flush env lease eng st = (case begin_flush env lease eng of
     (Inl e, eng) \<Rightarrow> (Err e, eng, st) | (Inr pending, eng) \<Rightarrow> finish_pending env lease pending eng st)"
  by (auto simp: lsm_flush_def finish_pending_def split: prod.splits sum.splits option.splits)

lemma simulated_flush:
  assumes sim: "sim_at env (db_lsm db) ess txns sp" and bl: "bloom_ok (env_bloom env)"
    and imm: "imm_data (eng_view (db_lsm db)) = []"
    and fits: "\<And>pending eng. begin_flush env lease (db_lsm db) = (Ok pending, eng) \<Longrightarrow>
       flush_fits env lease pending eng (db_store db)"
    and f: "db_flush env lease db = (r, db')"
  shows "simulated env sp (Flushed (is_ok r)) (db', txns)"
proof -
  let ?eng = "db_lsm db"
  have ok: "eng_ok (env_bloom env) ?eng ess" using sim by (simp add: sim_at_def)
  have "\<exists>ess'. eng_ok (env_bloom env) (db_lsm db') ess' \<and> same_reads ?eng ess (db_lsm db') ess'"
  proof (cases "db_role db = Reader")
    case True
    then have "db' = db" using f by (simp add: db_flush_def check_writable_def)
    then show ?thesis using ok by (auto simp: same_reads_def)
  next
    case False
    obtain q eng1 where q: "begin_flush env lease ?eng = (q, eng1)" by force
    note F = begin_flush_ok [OF ok imm q]
    have same: "same_reads ?eng ess eng1 ess" using F(2-4) by (simp add: same_reads_def newest_def fun_eq_iff)
    show ?thesis
    proof (cases q)
      case (Inl e)
      then have "db_lsm db' = eng1"
        using f q False by (auto simp: db_flush_def check_writable_def lsm_flush_eq)
      then show ?thesis using F(1) same by blast
    next
      case (Inr pending)
      obtain g eng' st' where g: "finish_pending env lease pending eng1 (db_store db) = (g, eng', st')"
        by (metis prod_cases3)
      have "db_lsm db' = eng'"
        using f q g Inr False by (auto simp: db_flush_def check_writable_def lsm_flush_eq split: sum.splits)
      then show ?thesis
        using finish_pending_ok [OF F(1) bl _ fits g] q Inr F(5) same_reads_trans [OF same] by blast
    qed
  qed
  then obtain ess' where "sim_at env (db_lsm db') ess' txns sp" using sim_same_reads [OF sim] by blast
  then show ?thesis by (rule simulatedI [OF spec_flush])
qed

text \<open>A write or a delete, in a transaction or outside.\<close>

lemma simulated_txn_write:
  assumes sim: "sim_at env (db_lsm db) ess txns (rows, stx)" and bl: "bloom_ok (env_bloom env)"
    and tb: "table_name table" and h: "\<And>i. h = Some i \<Longrightarrow> txns i \<noteq> None"
    and fits: "h = None \<Longrightarrow> write_fits env lease fault [(table, make_key table key, Some val)] (db_lsm db) (db_store db)"
    and w: "txn_write env maintain lease fault (Option.bind h txns) table key val db = (r, t, db')"
  shows "simulated env (rows, stx) (Wrote h table key (Some val) (is_ok r)) (db', put_txn h t txns)"
proof (cases h)
  case None
  then have w1: "db_write env maintain lease fault table key val db = (r, db')"
    using w by (auto simp: txn_write_def split: prod.splits)
  show ?thesis
  proof (cases "db_role db = Reader")
    case True
    then have "db' = db" "\<not> is_ok r" using w1 by (auto simp: db_write_def check_writable_def)
    then show ?thesis using simulatedI [OF spec_write sim] None by (simp add: put_txn_def)
  next
    case False
    obtain ess' where "batch_done env [(table, make_key table key, Some val)] (db_lsm db) ess (is_ok r) (db_lsm db') ess'"
      using db_write_done [OF _ bl fits [OF None] w1 False] sim by (auto simp: sim_at_def)
    then show ?thesis using simulated_write [OF sim tb fits [OF None]] None by (simp add: put_txn_def)
  qed
next
  case (Some i)
  then obtain t0 where t0: "txns i = Some t0" using h by blast
  then have "\<not> ts_finished t0" using sim_txn [OF sim t0] by (auto simp: txn_ok_def)
  then show ?thesis
    using simulated_stage [OF sim t0 tb refl, of key "Some val"] Some t0 w
    by (auto simp: txn_write_def stage_write_def put_txn_def)
qed

lemma simulated_txn_delete:
  assumes sim: "sim_at env (db_lsm db) ess txns (rows, stx)" and bl: "bloom_ok (env_bloom env)"
    and tb: "table_name table" and h: "\<And>i. h = Some i \<Longrightarrow> txns i \<noteq> None"
    and fits: "h = None \<Longrightarrow> write_fits env lease fault [(table, make_key table key, None)] (db_lsm db) (db_store db)"
    and w: "txn_delete env lease fault (Option.bind h txns) table key db = (r, t, db')"
  shows "simulated env (rows, stx) (Wrote h table key None (is_ok r)) (db', put_txn h t txns)"
proof (cases h)
  case None
  then have w1: "db_delete env lease fault table key db = (r, db')"
    using w by (auto simp: txn_delete_def split: prod.splits)
  show ?thesis
  proof (cases "db_role db = Reader")
    case True
    then have "db' = db" "\<not> is_ok r" using w1 by (auto simp: db_delete_def check_writable_def)
    then show ?thesis using simulatedI [OF spec_write sim] None by (simp add: put_txn_def)
  next
    case False
    obtain ess' where "batch_done env [(table, make_key table key, None)] (db_lsm db) ess (is_ok r) (db_lsm db') ess'"
      using db_delete_done [OF _ bl fits [OF None] w1 False] sim by (auto simp: sim_at_def)
    then show ?thesis using simulated_write [OF sim tb fits [OF None]] None by (simp add: put_txn_def)
  qed
next
  case (Some i)
  then obtain t0 where t0: "txns i = Some t0" using h by blast
  then have "\<not> ts_finished t0" using sim_txn [OF sim t0] by (auto simp: txn_ok_def)
  then show ?thesis
    using simulated_stage [OF sim t0 tb refl, of key None] Some t0 w
    by (auto simp: txn_delete_def stage_delete_def put_txn_def)
qed

text \<open>Every step of the sessions is a step of the specification.\<close>

lemma db_step_simulated:
  assumes bl: "bloom_ok (env_bloom env)" and sim: "sim env c sp" and step: "db_step env maintain c ev c'"
  shows "simulated env sp ev c'"
proof -
  obtain rows stx where sp: "sp = (rows, stx)" by (cases sp)
  obtain ess where S: "sim_at env (db_lsm (fst c)) ess (snd c) (rows, stx)" using sim by (auto simp: sim_def sp)
  from step S have "simulated env (rows, stx) ev c'"
  proof (induction rule: db_step.induct)
    case (step_begin txns h db t db')
    then show ?case using simulated_begin by fastforce
  next
    case (step_write table h txns lease fault key val db r t db')
    then show ?case by (intro simulated_txn_write [OF _ bl]) simp_all
  next
    case (step_delete table h txns lease fault key db r t db')
    then show ?case by (intro simulated_txn_delete [OF _ bl]) simp_all
  next
    case (step_read table h txns db key)
    then show ?case by (intro simulated_read) simp_all
  next
    case (step_scan table h txns db)
    then show ?case by (intro simulated_scan) simp_all
  next
    case (step_commit txns h t lease fault db r t' db')
    then show ?case by (intro simulated_commit [OF _ bl]) simp_all
  next
    case (step_rollback txns h t db t' db')
    then have S1: "sim_at env (db_lsm db) ess txns (rows, stx)" by simp
    have "\<not> ts_finished t" using sim_txn [OF S1 step_rollback(1)] by (auto simp: txn_ok_def)
    then have "db_lsm db' = release_snapshot (ts_snapshot_seq t) (db_lsm db)"
      using step_rollback(2) by (auto simp: rollback_txn_def txn_discard_def finish_locked_def)
    then show ?case by (rule simulated_end [OF S1 step_rollback(1)])
  next
    case (step_drop txns h t db)
    then have S1: "sim_at env (db_lsm db) ess txns (rows, stx)" by simp
    have "\<not> ts_finished t" using sim_txn [OF S1 step_drop(1)] by (auto simp: txn_ok_def)
    then show ?case by (intro simulated_end [OF S1 step_drop(1)]) (simp add: txn_drop_def)
  next
    case (step_flush db lease r db' txns)
    then have S1: "sim_at env (db_lsm db) ess txns (rows, stx)" by simp
    show ?case by (rule simulated_flush [OF S1 bl step_flush(1) step_flush(2) step_flush(3)])
  qed
  then show ?thesis by (simp add: sp)
qed

end
