(* ===== verification/TxnProps.thy ===== *)
theory TxnProps
  imports TxnSim
begin

text \<open>
  The properties of transactions: sessions of the database are runs of the
  specification of \<open>TxnSim\<close>, and two transactions that change the same row both
  commit.
\<close>

definition committed_rows :: "('b, 's) lsm_env \<Rightarrow> ('b, 's, 'i) Database \<Rightarrow> rows" where
  "committed_rows env db = (\<lambda>(table, key).
     case txn_read env None table key db of Inr v \<Rightarrow> v | Inl _ \<Rightarrow> None)"

text \<open>A database that no transaction is using.\<close>

definition idle :: "('b, 's) lsm_env \<Rightarrow> ('b, 's, 'i) Database \<Rightarrow> bool" where
  "idle env db \<longleftrightarrow> (\<exists>ess. eng_ok (env_bloom env) (db_lsm db) ess)
     \<and> next_seq (db_lsm db) \<noteq> 0 \<and> snapshots (db_lsm db) = []"

lemma txn_read_None:
  "eng_ok (env_bloom env) (db_lsm db) ess \<Longrightarrow>
     txn_read env None table key db = Ok (newest (db_lsm db) ess (make_key table key))"
  by (simp add: txn_read_def eng_ok_read newest_def)

lemma idle_sim:
  assumes "idle env db"
  shows "sim env (db, \<lambda>_. None) (committed_rows env db, \<lambda>_. None)"
proof -
  obtain ess where ok: "eng_ok (env_bloom env) (db_lsm db) ess" using assms by (auto simp: idle_def)
  have "rows_ok (db_lsm db) ess (committed_rows env db)"
    by (simp add: rows_ok_def committed_rows_def txn_read_None [OF ok])
  moreover have "counts_ok [] (\<lambda>_. None)" by (simp add: counts_ok_def snapshot_count_def readers_def)
  ultimately show ?thesis using ok assms by (auto simp: sim_def sim_at_def idle_def)
qed

lemma db_run_simulated:
  assumes "db_run env maintain c evs c'" and "bloom_ok (env_bloom env)" and "sim env c sp"
  shows "\<exists>sp'. spec_run sp evs sp' \<and> sim env c' sp'"
  using assms
proof (induction rule: db_run.induct)
  case (run_stop c)
  then show ?case using spec_stop by blast
next
  case (run_more c evs c1 ev c2)
  then obtain sp1 where "spec_run sp evs sp1" "sim env c1 sp1" by blast
  moreover obtain sp2 where "spec_step sp1 ev sp2" "sim env c2 sp2"
    using db_step_simulated [OF run_more(4) \<open>sim env c1 sp1\<close> run_more(2)] by (auto simp: simulated_def)
  ultimately show ?case using spec_more by blast
qed

lemma sim_rows:
  assumes "sim env (db, txns) (rows, stx)" and "table_name table"
  shows "txn_read env None table key db = Ok (rows (table, key))"
proof -
  obtain ess where "eng_ok (env_bloom env) (db_lsm db) ess" "rows_ok (db_lsm db) ess rows"
    using assms(1) by (auto simp: sim_def sim_at_def)
  with assms(2) show ?thesis by (simp add: txn_read_None rows_ok_def)
qed


subsection \<open>Two transactions on one row\<close>

lemma spec_run_snoc: "spec_run sp (evs @ [ev]) sp2 \<longleftrightarrow> (\<exists>sp1. spec_run sp evs sp1 \<and> spec_step sp1 ev sp2)"
  by (subst spec_run.simps) auto

lemma spec_run_Nil: "spec_run sp [] sp2 \<longleftrightarrow> sp2 = sp"
  by (subst spec_run.simps) auto

lemma spec_run_Cons: "spec_run sp (ev # evs) sp2 \<longleftrightarrow> (\<exists>sp1. spec_step sp ev sp1 \<and> spec_run sp1 evs sp2)"
proof (induction evs arbitrary: sp2 rule: rev_induct)
  case Nil
  show ?case using spec_run_snoc [of sp "[]" ev sp2] by (simp add: spec_run_Nil del: split_paired_Ex)
next
  case (snoc e evs)
  show ?case using spec_run_snoc [of sp "ev # evs" e sp2] by (auto simp: spec_run_snoc snoc)
qed

inductive_simps spec_step_simps:
  "spec_step (rows, txns) (Began h) sp'"
  "spec_step (rows, txns) (Wrote (Some h) table key w ok) sp'"
  "spec_step (rows, txns) (Wrote None table key w ok) sp'"
  "spec_step (rows, txns) (Saw h table key r) sp'"
  "spec_step (rows, txns) (Committed h ok) sp'"

lemma db_run_Cons:
  "db_step env maintain c ev c1 \<Longrightarrow> db_run env maintain c1 evs c2 \<Longrightarrow> db_run env maintain c (ev # evs) c2"
proof (rotate_tac 1, induction rule: db_run.induct)
  case (run_stop c1)
  then show ?case using db_run.run_more [OF db_run.run_stop] by fastforce
next
  case (run_more c1 evs c2 e c3)
  then show ?case using db_run.run_more [of env maintain c "ev # evs" c2 e c3] by simp
qed

text \<open>A commit that leaves room in the memtable.\<close>

abbreviation no_indexes :: "unit maintainer" where
  "no_indexes \<equiv> (\<lambda>_ _ _ ix. (Ok (), ix))"

lemma maintain_rows_none: "maintain_rows no_indexes rows ix = (Ok (), ix)"
  by (induction rows) auto

lemma engine_view_simps:
  "eng_view (release_snapshot s eng) = eng_view eng" "next_seq (release_snapshot s eng) = next_seq eng"
  "eng_view (register_snapshot s eng) = eng_view eng" "next_seq (register_snapshot s eng) = next_seq eng"
  "ev_memtable (eng_view (with_batch es wal eng)) = fold (insert_entry (next_seq eng)) es (ev_memtable (eng_view eng))"
  "next_seq (with_batch es wal eng) = next_seq eng + 1"
  by (simp_all add: release_snapshot_def register_snapshot_def with_batch_def next_seq_def Let_def split: option.split)

lemma commit_step:
  assumes t: "txns h = Some t" "\<not> ts_finished t" "ts_staged t \<noteq> []" and "db_role db = Writer"
    and eng: "eng = release_snapshot (ts_snapshot_seq t) (db_lsm db)" and es: "es = fst (commit_batch (ts_staged t))"
    and room: "\<not> is_full (fold (insert_entry (next_seq eng)) es (ev_memtable (eng_view eng)))" "next_seq eng \<noteq> - 1"
  shows "\<exists>wal. db_step env no_indexes (db, txns) (Committed h True)
     (db\<lparr>db_lsm := with_batch es wal eng\<rparr>, txns(h := None))"
proof -
  obtain wal where w: "write_batch env example_lease None es eng = (Ok (next_seq eng, None), with_batch es wal eng)"
    using write_example [OF room(1)] by blast
  obtain per_row where cb: "commit_batch (ts_staged t) = (es, per_row)" by (cases "commit_batch (ts_staged t)") (simp add: es)
  have take: "take_staged t (db_lsm db) = (ts_staged t, t\<lparr>ts_finished := True, ts_staged := []\<rparr>, eng)"
    using t(2) by (simp add: take_staged_def finish_locked_def eng)
  have "write_fits env example_lease None es eng (db_store db)"
    using room w by (simp add: write_fits_def flush_fits_def)
  moreover have "commit_txn env no_indexes example_lease None t db
      = (Ok (), t\<lparr>ts_finished := True, ts_staged := []\<rparr>, db\<lparr>db_lsm := with_batch es wal eng\<rparr>)"
    using assms(3,4) w by (simp add: commit_txn_def take cb check_writable_def finish_pending_def maintain_rows_none)
  ultimately show ?thesis
    using step_commit [of txns h t env example_lease None db no_indexes, OF t(1)] take cb by fastforce
qed

lemma begin_step:
  assumes "txns h = None" and "om_get (snapshots (db_lsm db)) (current_seq (db_lsm db)) \<noteq> Some (- 1)"
  shows "db_step env maintain (db, txns) (Began h)
    (db\<lparr>db_lsm := register_snapshot (current_seq (db_lsm db)) (db_lsm db), db_next_tx_id := db_next_tx_id db + 1\<rparr>,
     txns(h \<mapsto> TxnHandle_new (db_next_tx_id db) (current_seq (db_lsm db))))"
  using assms by (intro step_begin) (simp_all add: begin_txn_def snapshot_now_def Let_def)

lemma stage_step:
  assumes "txns h = Some t" and "\<not> ts_finished t" and "ts_staged t = []" and "table_name table"
  shows "db_step env maintain (db, txns) (Wrote (Some h) table key (Some v) True)
    (db, txns(h \<mapsto> t\<lparr>ts_staged := [(make_key table key, Some v)]\<rparr>))"
  using step_write [of table "Some h" txns env example_lease None key v db maintain "Ok ()"] assms
  by (simp add: txn_write_def stage_write_def put_txn_def)

text \<open>Two transactions on an idle database begin, read, change the row and commit.\<close>

lemma two_writers_run:
  assumes "idle env db" and "db_role db = Writer" and tb: "table_name table"
    and n: "n = next_seq (db_lsm db)" "n \<noteq> - 1" "n + 1 \<noteq> - 1"
    and mt: "mt = insert_entry n (table, make_key table key, Some a) (ev_memtable (eng_view (db_lsm db)))"
    and room: "\<not> is_full mt" "\<not> is_full (insert_entry (n + 1) (table, make_key table key, Some b) mt)"
  shows "\<exists>c r0 r1 r2. db_run env no_indexes (db, \<lambda>_. None)
    [Began 0, Began 1, Saw (Some 0) table key r0, Saw (Some 1) table key r1,
     Wrote (Some 0) table key (Some a) True, Wrote (Some 1) table key (Some b) True,
     Committed 0 True, Committed 1 True, Saw None table key r2] c"
proof -
  let ?s = "current_seq (db_lsm db)" and ?ck = "make_key table key"
  let ?e1 = "register_snapshot ?s (db_lsm db)"
  let ?e2 = "register_snapshot ?s ?e1"
  let ?db2 = "db\<lparr>db_lsm := ?e2, db_next_tx_id := db_next_tx_id db + 1 + 1\<rparr>"
  let ?t0 = "TxnHandle_new (db_next_tx_id db) ?s" and ?t1 = "TxnHandle_new (db_next_tx_id db + 1) ?s"
  let ?m1 = "(\<lambda>_. None)(0 \<mapsto> ?t0, 1 \<mapsto> ?t1)"
  let ?m3 = "?m1(0 \<mapsto> ?t0\<lparr>ts_staged := [(?ck, Some a)]\<rparr>, 1 \<mapsto> ?t1\<lparr>ts_staged := [(?ck, Some b)]\<rparr>)"
  have snaps: "snapshots (db_lsm db) = []" using assms(1) by (simp add: idle_def)
  have cur: "current_seq ?e1 = ?s" by (simp add: current_seq_def register_snapshot_def)
  note b0 = begin_step [of "\<lambda>_. None" 0 db env no_indexes]
  have "snapshots ?e1 = [(?s, 1)]" using snaps by (simp add: register_snapshot_def count_snapshot_def)
  then have b1: "db_step env no_indexes (db\<lparr>db_lsm := ?e1, db_next_tx_id := db_next_tx_id db + 1\<rparr>, (\<lambda>_. None)(0 \<mapsto> ?t0))
      (Began 1) (?db2, ?m1)"
    using begin_step [of "(\<lambda>_. None)(0 \<mapsto> ?t0)" 1 "db\<lparr>db_lsm := ?e1, db_next_tx_id := db_next_tx_id db + 1\<rparr>"]
    by (simp add: cur)
  have rd: "db_step env no_indexes (?db2, ?m1) (Saw (Some 0) table key (txn_read env (Some ?t0) table key ?db2)) (?db2, ?m1)"
      "db_step env no_indexes (?db2, ?m1) (Saw (Some 1) table key (txn_read env (Some ?t1) table key ?db2)) (?db2, ?m1)"
    using step_read [OF tb, of "Some 0" ?m1 env no_indexes ?db2 key] step_read [OF tb, of "Some 1" ?m1 env no_indexes ?db2 key]
    by simp_all
  have st: "db_step env no_indexes (?db2, ?m1) (Wrote (Some 0) table key (Some a) True)
        (?db2, ?m1(0 \<mapsto> ?t0\<lparr>ts_staged := [(?ck, Some a)]\<rparr>))"
      "db_step env no_indexes (?db2, ?m1(0 \<mapsto> ?t0\<lparr>ts_staged := [(?ck, Some a)]\<rparr>))
        (Wrote (Some 1) table key (Some b) True) (?db2, ?m3)"
    by (intro stage_step tb; simp add: TxnHandle_new_def)+
  obtain wal where c0: "db_step env no_indexes (?db2, ?m3) (Committed 0 True)
      (?db2\<lparr>db_lsm := with_batch [(table, ?ck, Some a)] wal (release_snapshot ?s ?e2)\<rparr>, ?m3(0 := None))"
    using commit_step [of ?m3 0 "?t0\<lparr>ts_staged := [(?ck, Some a)]\<rparr>" ?db2 _ "[(table, ?ck, Some a)]", OF _ _ _ _ refl]
      assms by (auto simp: TxnHandle_new_def engine_view_simps table_of_make_key)
  let ?e3 = "with_batch [(table, ?ck, Some a)] wal (release_snapshot ?s ?e2)"
  obtain db4 where c1: "db_step env no_indexes (?db2\<lparr>db_lsm := ?e3\<rparr>, ?m3(0 := None)) (Committed 1 True)
      (db4, ?m3(0 := None, 1 := None))"
    using commit_step [of "?m3(0 := None)" 1 "?t1\<lparr>ts_staged := [(?ck, Some b)]\<rparr>" "?db2\<lparr>db_lsm := ?e3\<rparr>" _
        "[(table, ?ck, Some b)]", OF _ _ _ _ refl] assms
    by (auto simp: TxnHandle_new_def engine_view_simps table_of_make_key)
  note fin = step_read [OF tb, of None "?m3(0 := None, 1 := None)" env no_indexes db4 key]
  show ?thesis
    using db_run_Cons [OF b0 db_run_Cons [OF b1 db_run_Cons [OF rd(1) db_run_Cons [OF rd(2) db_run_Cons [OF st(1)
      db_run_Cons [OF st(2) db_run_Cons [OF c0 db_run_Cons [OF c1 db_run_Cons [OF fin run_stop]]]]]]]]] snaps
    by (simp, blast)
qed

text \<open>
  C33: Lost updates.  Commits do not look at each other.  On any idle database with
  room in the memtable, two transactions that both begin, read the same row and change
  it both commit successfully, and the second silently replaces the first one's
  change, which its own reads never saw.
\<close>

theorem lost_update:
  assumes "bloom_ok (env_bloom env)" and "idle env db" and "db_role db = Writer" and "table_name table"
    and "n = next_seq (db_lsm db)" and "n \<noteq> - 1" and "n + 1 \<noteq> - 1"
    and "mt = insert_entry n (table, make_key table key, Some a) (ev_memtable (eng_view (db_lsm db)))"
    and "\<not> is_full mt" and "\<not> is_full (insert_entry (n + 1) (table, make_key table key, Some b) mt)"
  shows "\<exists>c. db_run env no_indexes (db, \<lambda>_. None)
    [Began 0, Began 1,
     Saw (Some 0) table key (Ok (committed_rows env db (table, key))),
     Saw (Some 1) table key (Ok (committed_rows env db (table, key))),
     Wrote (Some 0) table key (Some a) True, Wrote (Some 1) table key (Some b) True,
     Committed 0 True, Committed 1 True, Saw None table key (Ok (Some b))] c"
proof -
  obtain c r0 r1 r2 where run: "db_run env no_indexes (db, \<lambda>_. None)
    [Began 0, Began 1, Saw (Some 0) table key r0, Saw (Some 1) table key r1,
     Wrote (Some 0) table key (Some a) True, Wrote (Some 1) table key (Some b) True,
     Committed 0 True, Committed 1 True, Saw None table key r2] c"
    using two_writers_run [OF assms(2-10)] by blast
  obtain sp' where "spec_run (committed_rows env db, \<lambda>_. None)
    [Began 0, Began 1, Saw (Some 0) table key r0, Saw (Some 1) table key r1,
     Wrote (Some 0) table key (Some a) True, Wrote (Some 1) table key (Some b) True,
     Committed 0 True, Committed 1 True, Saw None table key r2] sp'"
    using db_run_simulated [OF run assms(1) idle_sim [OF assms(2)]] by blast
  then have eqs: "r0 = Ok (committed_rows env db (table, key))" "r1 = Ok (committed_rows env db (table, key))"
      "r2 = Ok (Some b)"
    by (auto simp: spec_run_Cons spec_run_Nil spec_step_simps spec_view_def overlaid_def)
  show ?thesis using run unfolding eqs by blast
qed

text \<open>The table \<open>t\<close> of a fresh database, as the example.\<close>

definition fresh_db :: "(u8, LocalFs, unit) Database" where
  "fresh_db = \<lparr>db_lsm = fresh_engine, db_store = \<lparr>fs_files = [], fs_io = []\<rparr>, db_indexes = (),
     db_role = Writer, db_next_tx_id = 1, db_schemas = [], db_functions = [], db_sequences = [], db_index_files = [],
     db_topics = [], db_topic_dirs = (\<lambda>_. TopicDir_absent), db_flux_bus = []\<rparr>"

lemma fresh_db_idle: "idle example_env fresh_db" "db_role fresh_db = Writer" "next_seq (db_lsm fresh_db) = 1"
  using fresh_engine_ok by (auto simp: idle_def fresh_db_def) (simp_all add: fresh_engine_def next_seq_def)

lemma table_t: "table_name [116]"
  using valid_utf8_ascii [of "[116]"] by (simp add: table_name_def)

lemma fresh_db_room:
  "\<not> is_full (insert_entry 1 ([116], make_key [116] [1], Some [10]) (ev_memtable (eng_view (db_lsm fresh_db))))"
  "\<not> is_full (insert_entry (1 + 1) ([116], make_key [116] [1], Some [20])
     (insert_entry 1 ([116], make_key [116] [1], Some [10]) (ev_memtable (eng_view (db_lsm fresh_db)))))"
  by (simp_all add: fresh_db_def small_memtable make_key_def)


theorem lost_update_witness:
  "\<exists>c. db_run example_env no_indexes (fresh_db, \<lambda>_. None)
    [Began 0, Began 1, Saw (Some 0) [116] [1] (Ok (committed_rows example_env fresh_db ([116], [1]))),
     Saw (Some 1) [116] [1] (Ok (committed_rows example_env fresh_db ([116], [1]))),
     Wrote (Some 0) [116] [1] (Some [10]) True, Wrote (Some 1) [116] [1] (Some [20]) True,
     Committed 0 True, Committed 1 True, Saw None [116] [1] (Ok (Some [20]))] c"
  by (rule lost_update [OF example_bloom_ok fresh_db_idle(1,2) table_t, where n = 1])
     (use fresh_db_idle(3) fresh_db_room in simp_all)

end
