(* ===== verification/Bits.thy ===== *)
theory Bits
  imports Prelude
begin

unbundle bit_operations_syntax

text \<open>
  Bit-level vocabulary of the codecs: the shifts of Rust, which take the shift
  amount modulo the width, the low seven bits and the continuation flag of a
  variable-length integer, and the contract of a codec that writes a value and
  reads it back from the middle of a buffer.
\<close>

subsection \<open>Shifts\<close>

text \<open>
  \<open>x << s\<close> and \<open>x >> s\<close> on 64 bits.  A build with overflow checks panics for
  \<open>s \<ge> 64\<close>; a release build uses the low six bits of \<open>s\<close>.
\<close>

definition shl_u64 :: "u64 \<Rightarrow> nat \<Rightarrow> u64" where
  "shl_u64 x s = push_bit (s mod 64) x"

definition shr_u64 :: "u64 \<Rightarrow> nat \<Rightarrow> u64" where
  "shr_u64 x s = drop_bit (s mod 64) x"

lemma shl_u64_small: "s < 64 \<Longrightarrow> shl_u64 x s = push_bit s x"
  by (simp add: shl_u64_def)

lemma shr_u64_small: "s < 64 \<Longrightarrow> shr_u64 x s = drop_bit s x"
  by (simp add: shr_u64_def)

lemma drop_bit_and_one: "drop_bit i (x :: u64) AND 1 = 1 \<longleftrightarrow> bit x i"
  by (simp add: and_one_eq bit_iff_odd_drop_bit odd_iff_mod_2_eq_one)

subsection \<open>Seven-bit groups\<close>

lemma mask_7: "(0x7f :: 'a::len word) = mask 7"
  by (simp add: mask_eq_exp_minus_1)

lemma bit_0x80: "bit (0x80 :: int) i \<longleftrightarrow> i = 7"
proof -
  have "(0x80 :: int) = push_bit 7 1" by simp
  then show ?thesis by (simp only: bit_push_bit_iff bit_1_iff) auto
qed

lemma group_low: "(ucast (v AND 0x7f :: u64) :: u8) AND 0x7f = ucast (v AND 0x7f)"
  by (rule bit_word_eqI) (auto simp: mask_7 bit_simps)

lemma group_low_flagged: "((ucast (v AND 0x7f :: u64) :: u8) OR 0x80) AND 0x7f = ucast (v AND 0x7f)"
  by (rule bit_word_eqI) (auto simp: mask_7 bit_simps bit_0x80)

lemma group_flag: "(ucast (v AND 0x7f :: u64) :: u8) AND 0x80 = 0"
  by (rule bit_word_eqI) (auto simp: mask_7 bit_simps bit_0x80)

lemma group_flag_set: "((ucast (v AND 0x7f :: u64) :: u8) OR 0x80) AND 0x80 \<noteq> 0"
proof -
  have "bit (((ucast (v AND 0x7f :: u64) :: u8) OR 0x80) AND 0x80) 7"
    by (simp add: bit_simps bit_0x80)
  then show ?thesis by (metis bit_0_eq bot_apply bot_bool_def)
qed

lemma group_widen: "(ucast (ucast (v AND 0x7f :: u64) :: u8) :: u64) = v AND 0x7f"
  by (rule bit_word_eqI) (auto simp: mask_7 bit_simps)

lemma group_join:
  "push_bit s (v AND 0x7f) OR push_bit (s + 7) (drop_bit 7 v) = push_bit s (v :: u64)"
proof (rule bit_word_eqI)
  fix n
  have "7 + (n - (s + 7)) = n - s" if "s + 7 \<le> n" using that by simp
  then show "bit (push_bit s (v AND 0x7f) OR push_bit (s + 7) (drop_bit 7 v)) n = bit (push_bit s v) n"
    by (cases "s + 7 \<le> n") (auto simp: mask_7 bit_simps)
qed

lemma group_single: "drop_bit 7 v = 0 \<Longrightarrow> v AND 0x7f = (v :: u64)"
  using group_join [of 0 v] by simp

lemmas group_simps = group_low group_low_flagged group_flag group_flag_set group_widen

lemma unat_drop_bit_7: "unat (drop_bit 7 (v :: u64)) = unat v div 128"
proof -
  have "take_bit 64 (unat v) = unat v" using unat_u64_less [of v] by (simp add: take_bit_nat_eq_self)
  then show ?thesis by (simp only: unsigned_drop_bit_eq) (simp add: drop_bit_eq_div)
qed

lemma drop_bit_7_less: "drop_bit 7 v \<noteq> 0 \<Longrightarrow> unat (drop_bit 7 v) < unat (v :: u64)"
proof -
  assume "drop_bit 7 v \<noteq> 0"
  then have "unat v div 128 \<noteq> 0" by (metis unat_drop_bit_7 unat_eq_zero)
  then show ?thesis unfolding unat_drop_bit_7 by (simp add: div_less_dividend)
qed

text \<open>Another group fits while the value has bits above the ones already shifted out.\<close>

lemma group_shift_less:
  assumes "unat v < 2 ^ (64 - s)" and "drop_bit 7 v \<noteq> 0" and "s < 64"
  shows "s + 7 < 64" "unat (drop_bit 7 (v :: u64)) < 2 ^ (64 - (s + 7))"
proof -
  have d: "unat (drop_bit 7 v) = unat v div 2 ^ 7" unfolding unat_drop_bit_7 by simp
  have "unat (drop_bit 7 v) \<noteq> 0" using assms(2) by (metis unat_eq_zero)
  then have "2 ^ 7 \<le> unat v" unfolding d by (simp add: div_eq_0_iff)
  with assms(1) have "(2 :: nat) ^ 7 < 2 ^ (64 - s)" by linarith
  then have "7 < 64 - s" by (rule power_less_imp_less_exp [rotated]) simp
  then show s: "s + 7 < 64" by simp
  have "64 - s = 7 + (64 - (s + 7))" using s by simp
  then have "unat v < 2 ^ 7 * 2 ^ (64 - (s + 7))"
    using assms(1) by (metis power_add)
  then show "unat (drop_bit 7 v) < 2 ^ (64 - (s + 7))"
    unfolding d by (intro less_mult_imp_div_less) (simp only: mult.commute)
qed

text \<open>The same facts for the shifts as the sources write them.\<close>

lemma shr_7: "shr_u64 v 7 = drop_bit 7 v"
  by (simp only: shr_u64_def) simp

lemma shr_7_single: "shr_u64 v 7 = 0 \<Longrightarrow> v AND 0x7f = v"
  unfolding shr_7 by (rule group_single)

lemma shr_7_join:
  "s + 7 < 64 \<Longrightarrow> shl_u64 (v AND 0x7f) s OR shl_u64 (shr_u64 v 7) (s + 7) = shl_u64 v s"
  unfolding shr_7 using group_join [of s v] by (simp only: shl_u64_small)

lemma shr_7_less: "shr_u64 v 7 \<noteq> 0 \<Longrightarrow> unat (shr_u64 v 7) < unat v"
  unfolding shr_7 by (rule drop_bit_7_less)

lemma shr_7_fits:
  assumes "unat v < 2 ^ (64 - s)" and "shr_u64 v 7 \<noteq> 0" and "s < 64"
  shows "s + 7 < 64" "unat (shr_u64 v 7) < 2 ^ (64 - (s + 7))"
  using assms group_shift_less [of v s] unfolding shr_7 by blast+

lemma shl_u64_0 [simp]: "shl_u64 v 0 = v"
  by (simp add: shl_u64_def)

subsection \<open>Codecs\<close>

text \<open>
  A codec writes a value as bytes and reads it back from any position of a
  buffer.  What it promises gives that no encoding is a proper prefix of another
  one, and that a sequence of encodings reads back as the sequence.
\<close>

fun read_many :: "'a reader \<Rightarrow> nat \<Rightarrow> 'a list reader" where
  "read_many p 0 buf pos = Some ([], pos)"
| "read_many p (Suc n) buf pos =
     (case p buf pos of
        None \<Rightarrow> None
      | Some (x, next) \<Rightarrow> map_option (\<lambda>(xs, end). (x # xs, end)) (read_many p n buf next))"

locale field_codec =
  fixes enc :: "'a \<Rightarrow> bytes"
    and dec :: "'a reader"
  assumes dec_enc: "dec (pre @ enc x @ rest) (length pre) = Some (x, length pre + length (enc x))"
begin

lemma enc_prefix_free: "enc x @ r = enc y @ s \<Longrightarrow> x = y \<and> r = s"
  using dec_enc [of "[]" x r] dec_enc [of "[]" y s] by simp

lemma read_many_enc:
  "read_many dec (length xs) (pre @ concat (map enc xs) @ rest) (length pre)
     = Some (xs, length pre + length (concat (map enc xs)))"
proof (induction xs arbitrary: pre)
  case Nil
  then show ?case by simp
next
  case (Cons x xs)
  from Cons.IH [of "pre @ enc x"] show ?case by (simp add: dec_enc)
qed

end

end
