(* ===== verification/Http2.thy ===== *)
theory Http2
  imports Bits
begin

unbundle bit_operations_syntax

text \<open>
  The HTTP/2 frame layer of the gRPC endpoint (\<open>wire/grpc/http2.rs\<close>): frames,
  the connection preface, SETTINGS payloads and the padding of HEADERS and DATA
  frames.  A byte stream that is read is the list of bytes still to come; reading
  returns what is left of it.
\<close>

definition PREFACE :: bytes where
  "PREFACE = map (\<lambda>c. word_of_nat (of_char c)) ''PRI * HTTP/2.0'' @ [13, 10, 13, 10]
     @ map (\<lambda>c. word_of_nat (of_char c)) ''SM'' @ [13, 10, 13, 10]"

definition FRAME_DATA :: u8 where "FRAME_DATA = 0x0"
definition FRAME_HEADERS :: u8 where "FRAME_HEADERS = 0x1"
definition FRAME_RST_STREAM :: u8 where "FRAME_RST_STREAM = 0x3"
definition FRAME_SETTINGS :: u8 where "FRAME_SETTINGS = 0x4"
definition FRAME_PING :: u8 where "FRAME_PING = 0x6"
definition FRAME_GOAWAY :: u8 where "FRAME_GOAWAY = 0x7"
definition FRAME_WINDOW_UPDATE :: u8 where "FRAME_WINDOW_UPDATE = 0x8"
definition FRAME_CONTINUATION :: u8 where "FRAME_CONTINUATION = 0x9"

definition FLAG_END_STREAM :: u8 where "FLAG_END_STREAM = 0x1"
definition FLAG_ACK :: u8 where "FLAG_ACK = 0x1"
definition FLAG_END_HEADERS :: u8 where "FLAG_END_HEADERS = 0x4"
definition FLAG_PADDED :: u8 where "FLAG_PADDED = 0x8"
definition FLAG_PRIORITY :: u8 where "FLAG_PRIORITY = 0x20"

definition SETTINGS_INITIAL_WINDOW_SIZE :: u16 where "SETTINGS_INITIAL_WINDOW_SIZE = 0x4"

lemmas frame_constants =
  FRAME_DATA_def FRAME_HEADERS_def FRAME_RST_STREAM_def FRAME_SETTINGS_def FRAME_PING_def
  FRAME_GOAWAY_def FRAME_WINDOW_UPDATE_def FRAME_CONTINUATION_def

lemmas flag_constants =
  FLAG_END_STREAM_def FLAG_ACK_def FLAG_END_HEADERS_def FLAG_PADDED_def FLAG_PRIORITY_def

record Frame =
  frame_type :: u8
  frame_flags :: u8
  stream_id :: u32
  payload :: bytes

datatype http2_error =
    UnexpectedEof | FrameTooLarge nat | PayloadTooLong | InvalidPreface | BadSettingsLength
  | MissingPadLength | PriorityTruncated | PaddingExceedsPayload

definition frame_flag :: "Frame \<Rightarrow> u8 \<Rightarrow> bool" where
  "frame_flag f flag \<longleftrightarrow> frame_flags f AND flag \<noteq> 0"

definition read_exact :: "nat \<Rightarrow> bytes \<Rightarrow> (http2_error, bytes \<times> bytes) result" where
  "read_exact n r = (if length r < n then Err UnexpectedEof else Ok (take n r, drop n r))"

definition read_frame :: "bytes \<Rightarrow> (http2_error, (Frame \<times> bytes) option) result" where
  "read_frame r =
     (case read_exact 9 r of
        Inl e \<Rightarrow> Ok None
      | Inr (header, r) \<Rightarrow>
          let len = unat (u32_from_be_bytes [0, header ! 0, header ! 1, header ! 2]);
              sid = u32_from_be_bytes (slice header 5 9) AND 0x7fffffff in
          if 16 * 1024 * 1024 < len then Err (FrameTooLarge len)
          else
            and_then (if 0 < len then read_exact len r else Ok ([], r)) (\<lambda>(body, r).
              Ok (Some (\<lparr>frame_type = header ! 3, frame_flags = header ! 4, stream_id = sid, payload = body\<rparr>, r))))"

definition write_frame :: "u8 \<Rightarrow> u8 \<Rightarrow> u32 \<Rightarrow> bytes \<Rightarrow> (http2_error, bytes) result" where
  "write_frame ft fl sid body =
     (let len = length body in
      if 0xffffff < len then Err PayloadTooLong
      else Ok ([word_of_nat (len div 2 ^ 16), word_of_nat (len div 2 ^ 8), word_of_nat len, ft, fl]
        @ u32_to_be_bytes (sid AND 0x7fffffff) @ body))"

definition read_preface :: "bytes \<Rightarrow> (http2_error, bytes) result" where
  "read_preface r =
     and_then (read_exact 24 r) (\<lambda>(buf, r). if buf = PREFACE then Ok r else Err InvalidPreface)"

function settings_loop :: "bytes \<Rightarrow> nat \<Rightarrow> (u16 \<times> u32) list" where
  "settings_loop body i =
     (if i < length body then
        (u16_from_be_bytes (slice body i (i + 2)), u32_from_be_bytes (slice body (i + 2) (i + 6)))
          # settings_loop body (i + 6)
      else [])"
  by pat_completeness auto
termination
  by (relation "measure (\<lambda>(body, i). length body - i)") auto

declare settings_loop.simps [simp del]

definition parse_settings :: "bytes \<Rightarrow> (http2_error, (u16 \<times> u32) list) result" where
  "parse_settings body =
     (if length body mod 6 \<noteq> 0 then Err BadSettingsLength else Ok (settings_loop body 0))"

definition headers_block_fragment :: "Frame \<Rightarrow> (http2_error, bytes) result" where
  "headers_block_fragment frame =
     and_then
       (if frame_flag frame FLAG_PADDED then
          (case payload frame of [] \<Rightarrow> Err MissingPadLength | p # data \<Rightarrow> Ok (unat p, data))
        else Ok (0, payload frame)) (\<lambda>(pad_len, data).
     and_then
       (if frame_flag frame FLAG_PRIORITY then
          (if length data < 5 then Err PriorityTruncated else Ok (drop 5 data))
        else Ok data) (\<lambda>data.
     if length data < pad_len then Err PaddingExceedsPayload
     else Ok (take (length data - pad_len) data)))"

definition data_payload :: "Frame \<Rightarrow> (http2_error, bytes) result" where
  "data_payload frame =
     (if frame_flag frame FLAG_PADDED then
        (case payload frame of
           [] \<Rightarrow> Err MissingPadLength
         | p # data \<Rightarrow>
             if length data < unat p then Err PaddingExceedsPayload
             else Ok (take (length data - unat p) data))
      else Ok (payload frame))"

definition encode_settings :: "(u16 \<times> u32) list \<Rightarrow> bytes" where
  "encode_settings entries = concat (map (\<lambda>(sid, v). u16_to_be_bytes sid @ u32_to_be_bytes v) entries)"

subsection \<open>Frames read back\<close>

lemma len24:
  assumes "n < 2 ^ 24"
  shows "unat (u32_from_be_bytes [0, word_of_nat (n div 2 ^ 16), word_of_nat (n div 2 ^ 8), word_of_nat n]) = n"
proof -
  have "[0, word_of_nat (n div 2 ^ 16), word_of_nat (n div 2 ^ 8), word_of_nat n] = be_nat 4 n"
    using assms by (simp add: be_nat_numeral)
  then show ?thesis using assms by (simp add: unat_of_nat)
qed

lemma read_frame_write:
  assumes "write_frame ft fl sid body = Ok bs"
  shows "read_frame (bs @ rest)
    = Ok (Some (\<lparr>frame_type = ft, frame_flags = fl, stream_id = sid AND 0x7fffffff, payload = body\<rparr>, rest))"
proof -
  let ?len = "length body"
  let ?h = "[word_of_nat (?len div 2 ^ 16), word_of_nat (?len div 2 ^ 8), word_of_nat ?len, ft, fl]
      @ u32_to_be_bytes (sid AND 0x7fffffff) :: bytes"
  have len: "?len \<le> 0xffffff" and bs: "bs = ?h @ body"
    using assms by (auto simp: write_frame_def Let_def split: if_splits)
  have h: "read_exact 9 (bs @ rest) = Ok (?h, body @ rest)" by (simp add: read_exact_def bs)
  have n: "unat (u32_from_be_bytes [0, ?h ! 0, ?h ! 1, ?h ! 2]) = ?len"
    using len24 [of ?len] len by simp
  have s: "u32_from_be_bytes (slice ?h 5 9) = sid AND 0x7fffffff"
    by (simp add: slice_def)
  have "\<not> 16 * 1024 * 1024 < ?len" using len by simp
  then show ?thesis
    unfolding read_frame_def h using n s by (simp add: Let_def and.assoc read_exact_def)
qed

text \<open>
  A frame that was written reads back as the same frame, whatever follows it
  on the connection; only the reserved top bit of the stream identifier is
  cleared.
\<close>

theorem frame_round_trip:
  assumes "length body \<le> 0xffffff"
  shows "\<exists>bs. write_frame ft fl sid body = Ok bs \<and> (\<forall>rest. read_frame (bs @ rest)
    = Ok (Some (\<lparr>frame_type = ft, frame_flags = fl, stream_id = sid AND 0x7fffffff, payload = body\<rparr>, rest)))"
proof -
  obtain bs where "write_frame ft fl sid body = Ok bs"
    using assms by (simp add: write_frame_def Let_def)
  with read_frame_write [OF this] show ?thesis by blast
qed

theorem frame_round_trip_witness:
  "length [1, 2, 3 :: u8] \<le> 0xffffff \<and>
   (\<exists>bs. write_frame FRAME_DATA FLAG_END_STREAM 3 [1, 2, 3] = Ok bs \<and> (\<forall>rest. read_frame (bs @ rest)
     = Ok (Some (\<lparr>frame_type = FRAME_DATA, frame_flags = FLAG_END_STREAM, stream_id = 3 AND 0x7fffffff, payload = [1, 2, 3]\<rparr>, rest))))"
  using frame_round_trip [of "[1, 2, 3]" FRAME_DATA FLAG_END_STREAM 3] by simp

text \<open>
  A connection cut inside a frame header ends the session like an orderly
  close: fewer than nine bytes left, also more than none, are reported as the end
  of the stream and not as an error.
\<close>

theorem truncated_header_is_eof:
  assumes "length r < 9"
  shows "read_frame r = Ok None"
  using assms by (simp add: read_frame_def read_exact_def)

theorem truncated_header_is_eof_witness: "length [0, 0, 5, 1 :: u8] < 9 \<and> read_frame [0, 0, 5, 1] = Ok None"
  using truncated_header_is_eof [of "[0, 0, 5, 1]"] by simp

lemma settings_loop_encode:
  "settings_loop (pre @ encode_settings es) (length pre) = es"
proof (induction es arbitrary: pre)
  case Nil
  then show ?case by (subst settings_loop.simps) (simp add: encode_settings_def)
next
  case (Cons e es)
  obtain a b where e: "e = (a, b)" by (cases e)
  have split: "encode_settings (e # es) = u16_to_be_bytes a @ u32_to_be_bytes b @ encode_settings es"
    by (simp add: encode_settings_def e)
  have "slice (pre @ u16_to_be_bytes a @ u32_to_be_bytes b @ encode_settings es) (length pre) (length pre + 2)
      = u16_to_be_bytes a"
    by (rule slice_chunk) simp_all
  moreover have "slice ((pre @ u16_to_be_bytes a) @ u32_to_be_bytes b @ encode_settings es)
      (length pre + 2) (length pre + 6) = u32_to_be_bytes b"
    by (rule slice_chunk) simp_all
  moreover have "settings_loop ((pre @ u16_to_be_bytes a @ u32_to_be_bytes b) @ encode_settings es)
      (length (pre @ u16_to_be_bytes a @ u32_to_be_bytes b)) = es" by (rule Cons.IH)
  ultimately show ?case
    unfolding split by (subst settings_loop.simps) (simp add: e add.assoc)
qed

lemma length_encode_settings: "length (encode_settings es) = 6 * length es"
  by (induction es) (simp_all add: encode_settings_def case_prod_beta)

text \<open>
  A SETTINGS payload parses to the parameters it was made of, in order.
\<close>

theorem settings_round_trip: "parse_settings (encode_settings es) = Ok es"
  using settings_loop_encode [of "[]" es] by (simp add: parse_settings_def length_encode_settings)

text \<open>
  Padding and priority fields are removed exactly: a HEADERS frame built
  with any padding of at most 255 octets and any five-octet priority field gives
  back its header block fragment, and a padded DATA frame its data.
\<close>

theorem padding_stripped:
  assumes pad: "length pad = unat p" and prio: "length prio = 5"
  shows "headers_block_fragment \<lparr>frame_type = FRAME_HEADERS, frame_flags = FLAG_PADDED OR FLAG_PRIORITY,
           stream_id = sid, payload = p # prio @ frag @ pad\<rparr> = Ok frag
       \<and> data_payload \<lparr>frame_type = FRAME_DATA, frame_flags = FLAG_PADDED, stream_id = sid, payload = p # frag @ pad\<rparr>
           = Ok frag"
  using assms by (simp add: headers_block_fragment_def data_payload_def frame_flag_def flag_constants)

theorem padding_stripped_witness:
  "length [0, 0 :: u8] = unat (2 :: u8) \<and> length [1, 2, 3, 4, 5 :: u8] = 5 \<and>
   headers_block_fragment \<lparr>frame_type = FRAME_HEADERS, frame_flags = FLAG_PADDED OR FLAG_PRIORITY,
     stream_id = 1, payload = 2 # [1, 2, 3, 4, 5] @ [7] @ [0, 0]\<rparr> = Ok [7]"
  using padding_stripped [of "[0, 0]" 2 "[1, 2, 3, 4, 5]" 1 "[7]"] by simp

end
