(* ===== verification/Compress.thy ===== *)
theory Compress
  imports Bits
begin

unbundle bit_operations_syntax

text \<open>
  The time-series codecs of \<open>storage/compress.rs\<close>: the bit writer and reader,
  the Gorilla encoding of floating-point samples, zigzag and variable-length
  integers, the delta-of-delta encoding of timestamps and the dictionary encoding
  of tags.  A floating-point value is its bit pattern, which is all that
  \<open>f64::to_bits\<close> and \<open>f64::from_bits\<close> see; integer arithmetic wraps, as in a
  release build.
\<close>

subsection \<open>Bit writer and reader\<close>

record BitWriter =
  bw_buf :: bytes
  bw_cur :: u8
  bw_nbits :: nat

definition bw_new :: BitWriter where
  "bw_new = \<lparr>bw_buf = [], bw_cur = 0, bw_nbits = 0\<rparr>"

definition write_bit :: "bool \<Rightarrow> BitWriter \<Rightarrow> BitWriter" where
  "write_bit b w =
     (let cur = push_bit 1 (bw_cur w) OR (if b then 1 else 0);
          nbits = bw_nbits w + 1 in
      if nbits = 8 then \<lparr>bw_buf = bw_buf w @ [cur], bw_cur = 0, bw_nbits = 0\<rparr>
      else w\<lparr>bw_cur := cur, bw_nbits := nbits\<rparr>)"

primrec write_bits :: "u64 \<Rightarrow> nat \<Rightarrow> BitWriter \<Rightarrow> BitWriter" where
  "write_bits v 0 w = w"
| "write_bits v (Suc i) w = write_bits v i (write_bit (shr_u64 v i AND 1 = 1) w)"

definition bw_finish :: "BitWriter \<Rightarrow> bytes \<times> nat" where
  "bw_finish w =
     (if 0 < bw_nbits w then (bw_buf w @ [push_bit (8 - bw_nbits w) (bw_cur w)], bw_nbits w)
      else (bw_buf w, 0))"

record BitReader =
  br_buf :: bytes
  byte_pos :: nat
  bit_pos :: nat

definition br_new :: "bytes \<Rightarrow> BitReader" where
  "br_new buf = \<lparr>br_buf = buf, byte_pos = 0, bit_pos = 0\<rparr>"

definition read_bit :: "BitReader \<Rightarrow> bool option \<times> BitReader" where
  "read_bit r =
     (if byte_pos r < length (br_buf r) then
        (let b = (drop_bit (7 - bit_pos r) (br_buf r ! byte_pos r) AND 1 = 1);
             pos = bit_pos r + 1 in
         (Some b, if pos = 8 then r\<lparr>bit_pos := 0, byte_pos := byte_pos r + 1\<rparr>
                  else r\<lparr>bit_pos := pos\<rparr>))
      else (None, r))"

primrec read_bits_loop :: "nat \<Rightarrow> u64 \<Rightarrow> BitReader \<Rightarrow> u64 option \<times> BitReader" where
  "read_bits_loop 0 v r = (Some v, r)"
| "read_bits_loop (Suc n) v r =
     (case read_bit r of
        (None, r') \<Rightarrow> (None, r')
      | (Some b, r') \<Rightarrow> read_bits_loop n (shl_u64 v 1 OR (if b then 1 else 0)) r')"

definition read_bits :: "nat \<Rightarrow> BitReader \<Rightarrow> u64 option \<times> BitReader" where
  "read_bits count r = read_bits_loop count 0 r"

subsection \<open>Gorilla encoding\<close>

definition leading_zeros :: "u64 \<Rightarrow> nat" where
  "leading_zeros x = length (takeWhile (\<lambda>i. \<not> bit x i) (rev [0..<64]))"

definition trailing_zeros :: "u64 \<Rightarrow> nat" where
  "trailing_zeros x = length (takeWhile (\<lambda>i. \<not> bit x i) [0..<64])"

record gorilla_enc =
  ge_writer :: BitWriter
  ge_prev :: u64
  ge_leading :: u8
  ge_trailing :: u8

definition gorilla_encode_step :: "u64 \<Rightarrow> gorilla_enc \<Rightarrow> gorilla_enc" where
  "gorilla_encode_step bits st =
     (let xor = bits XOR ge_prev st; w = ge_writer st in
      if xor = 0 then st\<lparr>ge_writer := write_bit False w, ge_prev := bits\<rparr>
      else
        let w = write_bit True w;
            leading = word_of_nat (leading_zeros xor);
            trailing = word_of_nat (trailing_zeros xor) in
        if ge_leading st \<noteq> 65 \<and> ge_leading st \<le> leading \<and> ge_trailing st \<le> trailing then
          let w = write_bit False w;
              meaningful = 64 - ge_leading st - ge_trailing st in
          st\<lparr>ge_writer := write_bits (shr_u64 xor (unat (ge_trailing st))) (unat meaningful) w,
             ge_prev := bits\<rparr>
        else
          let w = write_bits (ucast leading) 6 (write_bit True w);
              meaningful = 64 - leading - trailing;
              w = write_bits (ucast meaningful) 6 w in
          \<lparr>ge_writer = write_bits (shr_u64 xor (unat trailing)) (unat meaningful) w,
           ge_prev = bits, ge_leading = leading, ge_trailing = trailing\<rparr>)"

definition gorilla_encode :: "u64 list \<Rightarrow> bytes" where
  "gorilla_encode values =
     (case values of
        [] \<Rightarrow> []
      | v0 # vs \<Rightarrow>
          let st = fold gorilla_encode_step vs
                \<lparr>ge_writer = write_bits v0 64 bw_new, ge_prev = v0,
                 ge_leading = 65, ge_trailing = 0\<rparr>;
              (bs, valid_last_bits) = bw_finish (ge_writer st) in
          u32_to_be_bytes (len_u32 values) @ [word_of_nat valid_last_bits] @ bs)"

definition or_zero :: "u64 option \<times> BitReader \<Rightarrow> u64 \<times> BitReader" where
  "or_zero p = (case fst p of Some v \<Rightarrow> v | None \<Rightarrow> 0, snd p)"

text \<open>The window of the next sample: read from the stream, or the previous one.\<close>

definition read_window :: "bool \<Rightarrow> u8 \<Rightarrow> u8 \<Rightarrow> BitReader \<Rightarrow> (u8 \<times> u8) \<times> BitReader" where
  "read_window new_window prev_leading prev_trailing r =
     (if new_window then
        let (leading, r) = or_zero (read_bits 6 r);
            (raw, r) = or_zero (read_bits 6 r);
            meaningful = (if (ucast raw :: u8) = 0 then 64 else ucast raw);
            trailing = 64 - ucast leading - meaningful in
        ((ucast leading, trailing), r)
      else ((prev_leading, prev_trailing), r))"

primrec gorilla_decode_loop :: "nat \<Rightarrow> BitReader \<Rightarrow> u64 \<Rightarrow> u8 \<Rightarrow> u8 \<Rightarrow> u64 list" where
  "gorilla_decode_loop 0 r prev prev_leading prev_trailing = []"
| "gorilla_decode_loop (Suc n) r prev prev_leading prev_trailing =
     (case read_bit r of
        (None, r) \<Rightarrow> []
      | (Some control, r) \<Rightarrow>
          if \<not> control then prev # gorilla_decode_loop n r prev prev_leading prev_trailing
          else
            (case read_bit r of
               (None, r) \<Rightarrow> []
             | (Some new_window, r) \<Rightarrow>
                 let ((leading, trailing), r) = read_window new_window prev_leading prev_trailing r;
                     meaningful = 64 - leading - trailing;
                     (bits, r) = or_zero (read_bits (unat meaningful) r);
                     prev = prev XOR shl_u64 bits (unat trailing) in
                 prev # gorilla_decode_loop n r prev leading trailing))"

definition gorilla_decode :: "bytes \<Rightarrow> u64 list" where
  "gorilla_decode data =
     (if length data < 5 then []
      else
        let count = unat (u32_from_be_bytes (slice data 0 4)) in
        if count = 0 then []
        else
          let (prev, r) = or_zero (read_bits 64 (br_new (drop 5 data))) in
          prev # gorilla_decode_loop (count - 1) r prev 65 0)"

subsection \<open>Integers\<close>

definition zigzag_encode :: "i64 \<Rightarrow> u64" where
  "zigzag_encode v = push_bit 1 v XOR signed_drop_bit 63 v"

definition zigzag_decode :: "u64 \<Rightarrow> i64" where
  "zigzag_decode v = shr_u64 v 1 XOR - (v AND 1)"

function write_varint :: "u64 \<Rightarrow> bytes" where
  "write_varint v =
     (let byte = ucast (v AND 0x7f); v = shr_u64 v 7 in
      if v = 0 then [byte] else (byte OR 0x80) # write_varint v)"
  by pat_completeness auto
termination
  by (relation "measure unat") (auto simp: shr_7_less)

declare write_varint.simps [simp del]

function read_varint_loop :: "bytes \<Rightarrow> nat \<Rightarrow> u64 \<Rightarrow> nat \<Rightarrow> (u64 \<times> nat) option" where
  "read_varint_loop data pos v shift =
     (if length data \<le> pos then None
      else
        let byte = data ! pos; v = v OR shl_u64 (ucast (byte AND 0x7f)) shift in
        if byte AND 0x80 = 0 then Some (v, pos + 1)
        else read_varint_loop data (pos + 1) v (shift + 7))"
  by pat_completeness auto
termination
  by (relation "measure (\<lambda>(data, pos, _). length data - pos)") auto

declare read_varint_loop.simps [simp del]

definition read_varint :: "u64 reader" where
  "read_varint data pos = read_varint_loop data pos 0 0"

subsection \<open>Delta of delta\<close>

primrec delta_delta_loop :: "i64 list \<Rightarrow> i64 \<Rightarrow> i64 \<Rightarrow> bytes" where
  "delta_delta_loop [] prev prev_delta = []"
| "delta_delta_loop (v # vs) prev prev_delta =
     (let delta = v - prev; dd = delta - prev_delta in
      write_varint (zigzag_encode dd) @ delta_delta_loop vs v delta)"

definition delta_delta_encode :: "i64 list \<Rightarrow> bytes" where
  "delta_delta_encode values =
     write_varint (word_of_nat (length values)) @
     (case values of
        [] \<Rightarrow> []
      | [v0] \<Rightarrow> write_varint (zigzag_encode v0)
      | v0 # v1 # vs \<Rightarrow>
          let prev_delta = v1 - v0 in
          write_varint (zigzag_encode v0) @ write_varint (zigzag_encode prev_delta)
            @ delta_delta_loop vs v1 prev_delta)"

primrec delta_delta_decode_loop :: "nat \<Rightarrow> bytes \<Rightarrow> nat \<Rightarrow> i64 \<Rightarrow> i64 \<Rightarrow> i64 list" where
  "delta_delta_decode_loop 0 data pos prev prev_delta = []"
| "delta_delta_decode_loop (Suc n) data pos prev prev_delta =
     (case read_varint data pos of
        None \<Rightarrow> []
      | Some (dd_raw, pos) \<Rightarrow>
          let delta = prev_delta + zigzag_decode dd_raw; v = prev + delta in
          v # delta_delta_decode_loop n data pos v delta)"

definition delta_delta_decode :: "bytes \<Rightarrow> i64 list" where
  "delta_delta_decode data =
     (case read_varint data 0 of
        None \<Rightarrow> []
      | Some (count_raw, pos) \<Rightarrow>
          let count = unat count_raw in
          if count = 0 then []
          else
            (case read_varint data pos of
               None \<Rightarrow> []
             | Some (first, pos) \<Rightarrow>
                 let first = zigzag_decode first in
                 if count = 1 then [first]
                 else
                   (case read_varint data pos of
                      None \<Rightarrow> [first]
                    | Some (d0, pos) \<Rightarrow>
                        let prev_delta = zigzag_decode d0; prev = first + prev_delta in
                        first # prev # delta_delta_decode_loop (count - 2) data pos prev prev_delta)))"

subsection \<open>Dictionary\<close>

record dict_state =
  dict :: "string list"
  dict_index :: "string \<rightharpoonup> u32"
  codes :: "u32 list"

definition dictionary_step :: "string \<Rightarrow> dict_state \<Rightarrow> dict_state" where
  "dictionary_step v st =
     (case dict_index st v of
        Some code \<Rightarrow> st\<lparr>codes := codes st @ [code]\<rparr>
      | None \<Rightarrow>
          let d = dict st @ [v]; code = word_of_nat (length d - 1) in
          \<lparr>dict = d, dict_index = (dict_index st)(v \<mapsto> code), codes = codes st @ [code]\<rparr>)"

definition dictionary_encode :: "string list \<Rightarrow> string list \<times> u32 list" where
  "dictionary_encode values =
     (let st = fold dictionary_step values \<lparr>dict = [], dict_index = (\<lambda>_. None), codes = []\<rparr> in
      (dict st, codes st))"

subsection \<open>Integers read back\<close>

lemma zigzag_round_trip [codec, simp]: "zigzag_decode (zigzag_encode v) = v"
proof (rule bit_word_eqI)
  fix n
  assume n: "n < LENGTH(64)"
  have sgn: "bit (signed_drop_bit 63 v) i \<longleftrightarrow> i < 64 \<and> bit v 63" for i
    by (cases "i = 0") (auto simp: bit_signed_drop_bit_iff dest: bit_imp_le_length)
  have z: "bit (zigzag_encode v) i \<longleftrightarrow> i < 64 \<and> (if i = 0 then bit v 63 else bit v (i - 1) \<noteq> bit v 63)" for i
    unfolding zigzag_encode_def bit_xor_iff bit_push_bit_iff sgn
    by (cases "i = 0") (auto simp: possible_bit_word)
  have low: "zigzag_encode v AND 1 = (if bit v 63 then 1 else 0)"
    by (rule bit_word_eqI) (auto simp: bit_and_iff bit_1_iff z)
  show "bit (zigzag_decode (zigzag_encode v)) n = bit v n"
  proof (cases "n = 63")
    case True
    then show ?thesis using n
      by (simp add: zigzag_decode_def low bit_xor_iff shr_u64_small bit_drop_bit_eq z)
  next
    case False
    then show ?thesis using n
      by (simp add: zigzag_decode_def low bit_xor_iff shr_u64_small bit_drop_bit_eq z)
  qed
qed

lemma read_varint_loop_write:
  "s < 64 \<Longrightarrow> unat v < 2 ^ (64 - s) \<Longrightarrow>
   read_varint_loop (pre @ write_varint v @ rest) (length pre) acc s
     = Some (acc OR shl_u64 v s, length pre + length (write_varint v))"
proof (induction v arbitrary: pre acc s rule: write_varint.induct)
  case (1 v)
  show ?case
  proof (cases "shr_u64 v 7 = 0")
    case True
    have "write_varint v = [ucast (v AND 0x7f)]"
      by (subst write_varint.simps) (simp add: Let_def True)
    then show ?thesis
      using group_flag [of v] group_low [of v] group_widen [of v]
      by (subst read_varint_loop.simps) (simp add: Let_def nth_append shr_7_single [OF True])
  next
    case False
    note fits = shr_7_fits [OF \<open>unat v < 2 ^ (64 - s)\<close> False \<open>s < 64\<close>]
    have w: "write_varint v = (ucast (v AND 0x7f) OR 0x80) # write_varint (shr_u64 v 7)"
      by (subst write_varint.simps) (simp add: Let_def False)
    let ?b = "ucast (v AND 0x7f) OR 0x80 :: u8"
    have "read_varint_loop (pre @ write_varint v @ rest) (length pre) acc s
        = read_varint_loop ((pre @ [?b]) @ write_varint (shr_u64 v 7) @ rest) (length (pre @ [?b]))
            (acc OR shl_u64 (v AND 0x7f) s) (s + 7)"
      unfolding w by (subst read_varint_loop.simps) (simp add: Let_def nth_append group_simps)
    also have "\<dots> = Some ((acc OR shl_u64 (v AND 0x7f) s) OR shl_u64 (shr_u64 v 7) (s + 7),
        length (pre @ [?b]) + length (write_varint (shr_u64 v 7)))"
      by (rule "1.IH" [OF refl refl False fits])
    finally show ?thesis
      by (simp add: w or.assoc shr_7_join [OF fits(1)])
  qed
qed

interpretation varint: field_codec write_varint read_varint
proof
  fix pre rest :: bytes and x :: u64
  show "read_varint (pre @ write_varint x @ rest) (length pre)
      = Some (x, length pre + length (write_varint x))"
    unfolding read_varint_def using unat_u64_less [of x] by (subst read_varint_loop_write) simp_all
qed

lemma read_varint_at [codec]:
  "pos = length pre \<Longrightarrow> read_varint (pre @ write_varint x @ rest) pos = Some (x, pos + length (write_varint x))"
  by (simp add: varint.dec_enc)

lemma delta_delta_loop_round_trip:
  "delta_delta_decode_loop (length vs) (pre @ delta_delta_loop vs prev pd) (length pre) prev pd = vs"
proof (induction vs arbitrary: pre prev pd)
  case Nil
  then show ?case by simp
next
  case (Cons v vs)
  from Cons.IH [of "pre @ write_varint (zigzag_encode (v - prev - pd))" v "v - prev"]
  show ?case by (simp add: Let_def varint.dec_enc)
qed

text \<open>
  Delta-of-delta encoding loses nothing: decoding the encoding of any list
  of fewer than 2^64 integers gives the list back, also when the differences wrap
  around.
\<close>

theorem delta_delta_round_trip:
  assumes "length values < 2 ^ 64"
  shows "delta_delta_decode (delta_delta_encode values) = values"
proof -
  let ?n = "write_varint (word_of_nat (length values))"
  have len: "unat (word_of_nat (length values) :: u64) = length values"
    using assms by (simp add: unat_of_nat)
  consider "values = []" | v0 where "values = [v0]" | v0 v1 vs where "values = v0 # v1 # vs"
    by (metis list.exhaust)
  then show ?thesis
  proof cases
    case 1
    then show ?thesis
      using read_varint_at [of 0 "[]" 0 "[]"] by (simp add: delta_delta_decode_def delta_delta_encode_def)
  next
    case 2
    then show ?thesis
      using len read_varint_at [of 0 "[]" "word_of_nat (length values)" "write_varint (zigzag_encode v0)"]
        read_varint_at [of "length ?n" ?n "zigzag_encode v0" "[]"]
      by (simp add: delta_delta_decode_def delta_delta_encode_def Let_def)
  next
    case 3
    let ?d = "write_varint (zigzag_encode v0) @ write_varint (zigzag_encode (v1 - v0)) @ delta_delta_loop vs v1 (v1 - v0)"
    have e: "delta_delta_encode values = ?n @ ?d"
      by (simp add: delta_delta_encode_def Let_def 3)
    show ?thesis
      unfolding delta_delta_decode_def e
      using len delta_delta_loop_round_trip [of vs
          "?n @ write_varint (zigzag_encode v0) @ write_varint (zigzag_encode (v1 - v0))" v1 "v1 - v0"]
        read_varint_at [of 0 "[]" "word_of_nat (length values)" ?d]
        read_varint_at [of "length ?n" ?n "zigzag_encode v0"
          "write_varint (zigzag_encode (v1 - v0)) @ delta_delta_loop vs v1 (v1 - v0)"]
        read_varint_at [of "length ?n + length (write_varint (zigzag_encode v0))"
          "?n @ write_varint (zigzag_encode v0)" "zigzag_encode (v1 - v0)" "delta_delta_loop vs v1 (v1 - v0)"]
      by (simp add: 3 Let_def add.assoc)
  qed
qed

theorem delta_delta_round_trip_witness:
  "length [1000, 1010, 1020, - 5 :: i64] < 2 ^ 64 \<and>
   delta_delta_decode (delta_delta_encode [1000, 1010, 1020, - 5]) = [1000, 1010, 1020, - 5]"
  using delta_delta_round_trip [of "[1000, 1010, 1020, - 5]"] by simp

subsection \<open>Dictionary codes\<close>

definition dict_inv :: "string list \<Rightarrow> dict_state \<Rightarrow> bool" where
  "dict_inv vs st \<longleftrightarrow>
     dict st = rev (remdups (rev vs)) \<and>
     (\<forall>v. case dict_index st v of
            None \<Rightarrow> v \<notin> set vs
          | Some c \<Rightarrow> v \<in> set vs \<and> unat c < length (dict st) \<and> dict st ! unat c = v) \<and>
     (\<forall>c \<in> set (codes st). unat c < length (dict st)) \<and>
     map (\<lambda>c. dict st ! unat c) (codes st) = vs"

lemma dict_inv_index:
  "dict_inv vs st \<Longrightarrow> case dict_index st u of None \<Rightarrow> u \<notin> set vs
     | Some c \<Rightarrow> u \<in> set vs \<and> unat c < length (dict st) \<and> dict st ! unat c = u"
  by (simp add: dict_inv_def)

lemma dict_inv_step:
  assumes inv: "dict_inv vs st" and len: "length vs < 2 ^ 32"
  shows "dict_inv (vs @ [v]) (dictionary_step v st)"
proof (cases "dict_index st v")
  case (Some c)
  with inv have "v \<in> set vs" "unat c < length (dict st)" "dict st ! unat c = v"
    using dict_inv_index [OF inv, of v] by simp_all
  moreover have "rev (remdups (rev (vs @ [v]))) = rev (remdups (rev vs))" "set (vs @ [v]) = set vs"
    using \<open>v \<in> set vs\<close> by auto
  moreover have "dictionary_step v st = st\<lparr>codes := codes st @ [c]\<rparr>"
    by (simp add: dictionary_step_def Some)
  ultimately show ?thesis
    using inv unfolding dict_inv_def by (elim conjE, intro conjI) (simp_all cong: option.case_cong)
next
  case None
  with inv have new: "v \<notin> set vs" using dict_inv_index [OF inv, of v] by simp
  have d: "dict st = rev (remdups (rev vs))" using inv by (simp add: dict_inv_def)
  have "length (dict st) \<le> length vs"
    unfolding d using length_remdups_leq [of "rev vs"] by simp
  with len have c: "unat (word_of_nat (length (dict st)) :: u32) = length (dict st)"
    by (simp add: unat_of_nat)
  have rng: "unat c < length (dict st)" if "c \<in> set (codes st)" for c
    using inv that unfolding dict_inv_def by blast
  have all: "map (\<lambda>c. dict st ! unat c) (codes st) = vs"
    using inv unfolding dict_inv_def by blast
  have "map (\<lambda>c. (dict st @ [v]) ! unat c) (codes st) = map (\<lambda>c. dict st ! unat c) (codes st)"
    by (rule map_cong) (simp_all add: nth_append rng)
  then have old: "map (\<lambda>c. (dict st @ [v]) ! unat c) (codes st) = vs" by (simp only: all)
  have st: "dictionary_step v st
      = \<lparr>dict = dict st @ [v], dict_index = (dict_index st)(v \<mapsto> word_of_nat (length (dict st))),
         codes = codes st @ [word_of_nat (length (dict st))]\<rparr>"
    by (simp add: dictionary_step_def None Let_def)
  have "case ((dict_index st)(v \<mapsto> word_of_nat (length (dict st)))) u of None \<Rightarrow> u \<notin> set (vs @ [v])
      | Some c \<Rightarrow> u \<in> set (vs @ [v]) \<and> unat c < length (dict st @ [v]) \<and> (dict st @ [v]) ! unat c = u" for u
    using dict_inv_index [OF inv, of u] c by (auto simp: nth_append split: option.splits)
  moreover have "dict st @ [v] = rev (remdups (rev (vs @ [v])))" using new by (simp add: d)
  moreover have "(dict st @ [v]) ! unat (word_of_nat (length (dict st)) :: u32) = v"
    unfolding c by simp
  moreover have "unat c < length (dict st @ [v])" if "c \<in> set (codes st @ [word_of_nat (length (dict st))])" for c
    using that c rng by (auto simp: less_SucI)
  ultimately show ?thesis
    unfolding dict_inv_def st dict_state.select_convs using old by simp
qed

lemma dict_inv_fold:
  "dict_inv us st \<Longrightarrow> length us + length vs \<le> 2 ^ 32 \<Longrightarrow>
   dict_inv (us @ vs) (fold dictionary_step vs st)"
proof (induction vs arbitrary: us st)
  case Nil
  then show ?case by simp
next
  case (Cons v vs)
  from Cons.IH [OF dict_inv_step [OF Cons.prems(1), of v]] Cons.prems(2) show ?case by simp
qed

text \<open>
  Dictionary encoding returns the distinct tags in the order they were
  first seen, and looking every code up in the dictionary gives the column back.
\<close>

theorem dictionary_round_trip:
  assumes "length values \<le> 2 ^ 32" and "dictionary_encode values = (d, cs)"
  shows "d = rev (remdups (rev values)) \<and> map (\<lambda>c. d ! unat c) cs = values"
proof -
  have "dict_inv [] \<lparr>dict = [], dict_index = (\<lambda>_. None), codes = []\<rparr>"
    by (simp add: dict_inv_def)
  from dict_inv_fold [OF this, of "values"] assms show ?thesis
    by (auto simp: dictionary_encode_def dict_inv_def Let_def)
qed

theorem dictionary_round_trip_witness:
  "dictionary_encode [''eu'', ''us'', ''eu''] = ([''eu'', ''us''], [0, 1, 0]) \<and>
   [''eu'', ''us''] = rev (remdups (rev [''eu'', ''us'', ''eu''])) \<and>
   map (\<lambda>c. [''eu'', ''us''] ! unat (c :: u32)) [0, 1, 0] = [''eu'', ''us'', ''eu'']"
proof -
  have e: "dictionary_encode [''eu'', ''us'', ''eu''] = ([''eu'', ''us''], [0, 1, 0])"
    by (simp add: dictionary_encode_def dictionary_step_def Let_def)
  show ?thesis using dictionary_round_trip [OF _ e] e by simp
qed

subsection \<open>Bits written are bits read\<close>

definition bits8 :: "u8 \<Rightarrow> bool list" where
  "bits8 b = map (bit b) (rev [0..<8])"

definition bits_of :: "bytes \<Rightarrow> bool list" where
  "bits_of bs = concat (map bits8 bs)"

definition bw_bits :: "BitWriter \<Rightarrow> bool list" where
  "bw_bits w = bits_of (bw_buf w) @ map (bit (bw_cur w)) (rev [0..<bw_nbits w])"

definition bw_ok :: "BitWriter \<Rightarrow> bool" where
  "bw_ok w \<longleftrightarrow> bw_nbits w < 8"

definition remaining :: "BitReader \<Rightarrow> bool list" where
  "remaining r = drop (8 * byte_pos r + bit_pos r) (bits_of (br_buf r))"

definition br_ok :: "BitReader \<Rightarrow> bool" where
  "br_ok r \<longleftrightarrow> bit_pos r < 8"

abbreviation msb_first :: "u64 \<Rightarrow> nat \<Rightarrow> bool list" where
  "msb_first x n \<equiv> map (bit x) (rev [0..<n])"

lemma shift_in_bits:
  assumes "n < 8"
  shows "map (bit (push_bit 1 c OR (if b then 1 else 0) :: u8)) (rev [0..<Suc n])
    = map (bit c) (rev [0..<n]) @ [b]"
proof -
  have b: "bit (push_bit 1 c OR (if b then 1 else 0) :: u8) i
      \<longleftrightarrow> (if i = 0 then b else i < 8 \<and> bit c (i - 1))" for i
    unfolding bit_or_iff bit_push_bit_iff by (auto simp: possible_bit_word bit_1_iff)
  have "[0..<Suc n] = 0 # map Suc [0..<n]" by (simp only: map_Suc_upt upt_conv_Cons zero_less_Suc)
  then have "map (bit (push_bit 1 c OR (if b then 1 else 0) :: u8)) (rev [0..<Suc n])
      = map (\<lambda>i. bit (push_bit 1 c OR (if b then 1 else 0) :: u8) (Suc i)) (rev [0..<n])
        @ [bit (push_bit 1 c OR (if b then 1 else 0) :: u8) 0]"
    by (simp only: rev.simps map_append rev_map map_map comp_def list.map)
  also have "\<dots> = map (bit c) (rev [0..<n]) @ [b]"
    using assms unfolding b by simp
  finally show ?thesis .
qed

lemma write_bit_bits: "bw_ok w \<Longrightarrow> bw_bits (write_bit b w) = bw_bits w @ [b] \<and> bw_ok (write_bit b w)"
proof -
  assume ok: "bw_ok w"
  let ?c = "push_bit 1 (bw_cur w) OR (if b then 1 else 0) :: u8"
  have s: "map (bit ?c) (rev [0..<bw_nbits w + 1]) = map (bit (bw_cur w)) (rev [0..<bw_nbits w]) @ [b]"
    using shift_in_bits [of "bw_nbits w" "bw_cur w" b] ok by (simp only: bw_ok_def Suc_eq_plus1)
  show ?thesis
  proof (cases "bw_nbits w + 1 = 8")
    case True
    have "bits8 ?c = map (bit (bw_cur w)) (rev [0..<bw_nbits w]) @ [b]"
      using s unfolding True bits8_def .
    with True show ?thesis
      unfolding write_bit_def Let_def by (simp only: if_True) (simp add: bw_bits_def bw_ok_def bits_of_def)
  next
    case False
    with s ok show ?thesis
      unfolding write_bit_def Let_def by (simp only: if_False) (simp add: bw_bits_def bw_ok_def)
  qed
qed

lemma write_bits_bits:
  "n \<le> 64 \<Longrightarrow> bw_ok w \<Longrightarrow> bw_bits (write_bits x n w) = bw_bits w @ msb_first x n \<and> bw_ok (write_bits x n w)"
proof (induction n arbitrary: w)
  case 0
  then show ?case by simp
next
  case (Suc n)
  then have "(shr_u64 x n AND 1 = 1) = bit x n"
    by (simp add: shr_u64_small drop_bit_and_one)
  with Suc show ?case by (simp add: write_bit_bits)
qed

lemma bw_finish_bits:
  assumes "bw_ok w"
  shows "\<exists>pad. bits_of (fst (bw_finish w)) = bw_bits w @ pad"
proof (cases "bw_nbits w = 0")
  case True
  then show ?thesis by (simp add: bw_finish_def bw_bits_def)
next
  case False
  let ?n = "bw_nbits w" and ?c = "bw_cur w"
  have n: "?n < 8" using assms by (simp add: bw_ok_def)
  have "[0..<8] = [0..<8 - ?n] @ map (\<lambda>i. i + (8 - ?n)) [0..<?n]"
    using n upt_add_eq_append [of 0 "8 - ?n" ?n] map_add_upt [of "8 - ?n" ?n] by simp
  then have "bits8 (push_bit (8 - ?n) ?c)
      = map (\<lambda>i. bit (push_bit (8 - ?n) ?c) (i + (8 - ?n))) (rev [0..<?n])
        @ map (bit (push_bit (8 - ?n) ?c)) (rev [0..<8 - ?n])"
    by (simp only: bits8_def rev_append map_append rev_map map_map comp_def)
  also have "map (\<lambda>i. bit (push_bit (8 - ?n) ?c) (i + (8 - ?n))) (rev [0..<?n]) = map (bit ?c) (rev [0..<?n])"
    using n by (auto simp: bit_push_bit_iff)
  finally show ?thesis
    using False by (simp add: bw_finish_def bw_bits_def bits_of_def)
qed

lemma length_bits_of: "length (bits_of bs) = 8 * length bs"
  by (induction bs) (simp_all add: bits_of_def bits8_def)

lemma nth_bits_of: "i < length bs \<Longrightarrow> j < 8 \<Longrightarrow> bits_of bs ! (8 * i + j) = bit (bs ! i) (7 - j)"
proof (induction bs arbitrary: i)
  case Nil
  then show ?case by simp
next
  case (Cons b bs)
  have split: "bits_of (b # bs) = bits8 b @ bits_of bs" by (simp add: bits_of_def)
  have l: "length (bits8 b) = 8" by (simp add: bits8_def)
  show ?case
  proof (cases i)
    case 0
    have "bits8 b ! j = bit b (7 - j)" using Cons.prems by (simp add: bits8_def rev_nth)
    with 0 Cons.prems show ?thesis by (simp add: split nth_append l)
  next
    case (Suc k)
    then have "8 * i + j = length (bits8 b) + (8 * k + j)" by (simp add: l)
    with Cons Suc show ?thesis by (simp only: split nth_append_length_plus) simp
  qed
qed

lemma read_bit_remaining:
  assumes ok: "br_ok r" and rem: "remaining r = b # bs"
  shows "\<exists>r'. read_bit r = (Some b, r') \<and> br_ok r' \<and> remaining r' = bs"
proof -
  let ?p = "8 * byte_pos r + bit_pos r"
  have p: "?p < length (bits_of (br_buf r))"
    using rem unfolding remaining_def by (metis drop_all leI list.distinct(1))
  then have i: "byte_pos r < length (br_buf r)" by (simp add: length_bits_of)
  have j: "bit_pos r < 8" using ok by (simp add: br_ok_def)
  have "b # bs = bits_of (br_buf r) ! ?p # drop (Suc ?p) (bits_of (br_buf r))"
    using rem Cons_nth_drop_Suc [OF p] by (simp add: remaining_def)
  then have b: "b = bit (br_buf r ! byte_pos r) (7 - bit_pos r)"
    and bs: "bs = drop (Suc ?p) (bits_of (br_buf r))" using nth_bits_of [OF i j] by auto
  have "(drop_bit (7 - bit_pos r) (br_buf r ! byte_pos r) AND 1 = 1) = b"
    unfolding b by (simp add: and_one_eq bit_iff_odd_drop_bit odd_iff_mod_2_eq_one)
  then show ?thesis
    using i j bs by (auto simp: read_bit_def Let_def br_ok_def remaining_def)
qed

lemma read_bits_remaining:
  "n \<le> 64 \<Longrightarrow> br_ok r \<Longrightarrow> remaining r = msb_first x n @ bs \<Longrightarrow>
   \<exists>r'. read_bits_loop n a r = (Some (push_bit n a OR take_bit n x), r') \<and> br_ok r' \<and> remaining r' = bs"
proof (induction n arbitrary: r a)
  case 0
  then show ?case by simp
next
  case (Suc n)
  from Suc.prems(3) have "remaining r = bit x n # msb_first x n @ bs" by simp
  from read_bit_remaining [OF Suc.prems(2) this] obtain r1 where
    r1: "read_bit r = (Some (bit x n), r1)" "br_ok r1" "remaining r1 = msb_first x n @ bs" by auto
  have v: "push_bit n (shl_u64 a 1 OR (if bit x n then 1 else 0)) OR take_bit n x
      = push_bit (Suc n) a OR take_bit (Suc n) x"
  proof (rule bit_word_eqI)
    fix i
    assume "i < LENGTH(64)"
    have n: "n < 64" using Suc.prems(1) by simp
    have "Suc (n + (i - Suc n)) = i" if "Suc n \<le> i" using that by simp
    moreover have "i - n - 1 = i - Suc n" by simp
    ultimately show "bit (push_bit n (shl_u64 a 1 OR (if bit x n then 1 else 0)) OR take_bit n x) i
        = bit (push_bit (Suc n) a OR take_bit (Suc n) x) i"
      using n unfolding shl_u64_def bit_or_iff bit_push_bit_iff bit_take_bit_iff
      by (auto simp: possible_bit_word bit_1_iff le_Suc_eq less_Suc_eq)
  qed
  from Suc.IH [OF _ r1(2,3), of "shl_u64 a 1 OR (if bit x n then 1 else 0)"] Suc.prems(1)
  show ?case unfolding v by (auto simp: r1(1))
qed

lemma read_bits_at:
  assumes "n \<le> 64" "br_ok r" "remaining r = msb_first x n @ bs"
  shows "\<exists>r'. or_zero (read_bits n r) = (take_bit n x, r') \<and> br_ok r' \<and> remaining r' = bs"
  using read_bits_remaining [OF assms, of 0] by (auto simp: read_bits_def or_zero_def)

subsection \<open>Gorilla samples read back\<close>

lemma zero_counts:
  assumes "x \<noteq> (0 :: u64)"
  shows "leading_zeros x + trailing_zeros x < 64"
    and "i < trailing_zeros x \<Longrightarrow> \<not> bit x i"
    and "64 - leading_zeros x \<le> i \<Longrightarrow> \<not> bit x i"
proof -
  let ?T = "takeWhile (\<lambda>i. \<not> bit x i) [0..<64]" and ?L = "takeWhile (\<lambda>i. \<not> bit x i) (rev [0..<64])"
  have lens: "length ?T \<le> 64" "length ?L \<le> 64"
    using length_takeWhile_le [of "\<lambda>i. \<not> bit x i" "[0..<64]"]
      length_takeWhile_le [of "\<lambda>i. \<not> bit x i" "rev [0..<64]"] by auto
  have t: "\<not> bit x i" if "i < length ?T" for i
    using that lens takeWhile_nth [OF that] nth_mem [OF that] set_takeWhileD by fastforce
  have l: "\<not> bit x (63 - i)" if "i < length ?L" for i
    using that lens takeWhile_nth [OF that] nth_mem [OF that] set_takeWhileD
    by (fastforce simp: rev_nth)
  obtain k where k1: "bit x k" using assms by (metis bit_0_eq bit_eqI bot_apply bot_bool_def)
  have k: "bit x k" "k < 64" using k1 bit_imp_le_length [OF k1] by simp_all
  have "length ?T \<le> k" using t [of k] k(1) by (meson not_le)
  moreover have "length ?L \<le> 63 - k" 
  proof (rule ccontr)
    assume "\<not> length ?L \<le> 63 - k"
    then have "\<not> bit x (63 - (63 - k))" by (intro l) simp
    moreover have "63 - (63 - k) = k" using k(2) by simp
    ultimately show False using k(1) by simp
  qed
  ultimately show "leading_zeros x + trailing_zeros x < 64"
    using k(2) by (simp add: leading_zeros_def trailing_zeros_def)
  show "i < trailing_zeros x \<Longrightarrow> \<not> bit x i" using t by (simp add: trailing_zeros_def)
  show "\<not> bit x i" if "64 - leading_zeros x \<le> i"
    using l [of "63 - i"] that bit_imp_le_length [of x i] lens
    by (cases "i < 64") (auto simp: leading_zeros_def)
qed

lemma window_recovers:
  assumes x: "x \<noteq> (0 :: u64)" and l: "l \<le> leading_zeros x" and t: "t \<le> trailing_zeros x"
  shows "push_bit t (take_bit (64 - l - t) (drop_bit t x)) = x"
proof (rule bit_word_eqI)
  fix i
  show "bit (push_bit t (take_bit (64 - l - t) (drop_bit t x))) i = bit x i"
  proof (cases "bit x i")
    case True
    have "trailing_zeros x \<le> i" "i < 64 - leading_zeros x" "i < 64"
      using True zero_counts(2) [OF x, of i] zero_counts(3) [OF x, of i] bit_imp_le_length [OF True]
      by (auto intro: leI)
    with True l t have "t \<le> i" "i - t < 64 - l - t" "t + (i - t) = i" by auto
    with True \<open>i < 64\<close> show ?thesis by (simp add: bit_push_bit_iff bit_take_bit_iff bit_drop_bit_eq)
  next
    case False
    then show ?thesis by (auto simp: bit_push_bit_iff bit_take_bit_iff bit_drop_bit_eq)
  qed
qed

text \<open>The window is the sentinel of the first sample, or one that fits in 64 bits.\<close>

definition window_ok :: "u8 \<Rightarrow> u8 \<Rightarrow> bool" where
  "window_ok l t \<longleftrightarrow> (l = 65 \<and> t = 0) \<or> unat l + unat t < 64"

text \<open>The bits of a sample, and what the decoder does with them.\<close>

definition sample_ok :: "u64 \<Rightarrow> gorilla_enc \<Rightarrow> bool list \<Rightarrow> bool" where
  "sample_ok v st em \<longleftrightarrow>
     (let st' = gorilla_encode_step v st in
      bw_bits (ge_writer st') = bw_bits (ge_writer st) @ em \<and> bw_ok (ge_writer st') \<and>
      ge_prev st' = v \<and> window_ok (ge_leading st') (ge_trailing st') \<and>
      (\<forall>r rest n. br_ok r \<and> remaining r = em @ rest \<longrightarrow>
         (\<exists>r'. br_ok r' \<and> remaining r' = rest \<and>
            gorilla_decode_loop (Suc n) r (ge_prev st) (ge_leading st) (ge_trailing st)
              = v # gorilla_decode_loop n r' v (ge_leading st') (ge_trailing st'))))"

lemma sample_same:
  assumes "bw_ok (ge_writer st)" "window_ok (ge_leading st) (ge_trailing st)" "v = ge_prev st"
  shows "sample_ok v st [False]"
proof -
  have "\<exists>r'. br_ok r' \<and> remaining r' = rest \<and>
      gorilla_decode_loop (Suc n) r v (ge_leading st) (ge_trailing st)
        = v # gorilla_decode_loop n r' v (ge_leading st) (ge_trailing st)"
    if r: "br_ok r" "remaining r = [False] @ rest" for r rest n
  proof -
    from r(2) have "remaining r = False # rest" by simp
    from read_bit_remaining [OF r(1) this] show ?thesis by auto
  qed
  then show ?thesis
    using assms write_bit_bits [of "ge_writer st" False]
    by (simp add: sample_ok_def gorilla_encode_step_def Let_def del: gorilla_decode_loop.simps)
qed

lemma word_window:
  assumes "unat (l :: u8) + unat (t :: u8) < 64"
  shows "unat (64 - l - t) = 64 - unat l - unat t"
proof -
  have "l \<le> 64" using assms by (simp add: word_le_nat_alt)
  then have "unat (64 - l) = 64 - unat l" by (simp add: unat_sub)
  moreover from this have "t \<le> 64 - l" using assms by (simp add: word_le_nat_alt)
  ultimately show ?thesis by (simp add: unat_sub)
qed

lemma read_sample:
  assumes x: "x \<noteq> 0" and lt: "unat l + unat t < 64"
    and l: "unat l \<le> leading_zeros x" and t: "unat t \<le> trailing_zeros x"
    and r: "br_ok r" "remaining r = msb_first (shr_u64 x (unat t)) (unat (64 - l - t :: u8)) @ rest"
  shows "\<exists>b r'. or_zero (read_bits (unat (64 - l - t)) r) = (b, r') \<and> shl_u64 b (unat t) = x
    \<and> br_ok r' \<and> remaining r' = rest"
proof -
  have n: "unat (64 - l - t) \<le> 64" and t64: "unat t < 64" using word_window [OF lt] lt by auto
  from read_bits_at [OF n r] obtain r' where
    r': "or_zero (read_bits (unat (64 - l - t)) r)
       = (take_bit (unat (64 - l - t)) (shr_u64 x (unat t)), r')" "br_ok r'" "remaining r' = rest"
    by auto
  moreover have "shl_u64 (take_bit (unat (64 - l - t)) (shr_u64 x (unat t))) (unat t) = x"
    using window_recovers [OF x l t] t64 by (simp add: shl_u64_small shr_u64_small word_window [OF lt])
  ultimately show ?thesis by blast
qed

lemma xor_back: "a XOR (v XOR a) = (v :: u64)"
  by (rule bit_word_eqI) (auto simp: bit_xor_iff)

lemma sample_old_window:
  assumes w: "bw_ok (ge_writer st)" and x: "v XOR ge_prev st \<noteq> 0"
    and win: "ge_leading st \<noteq> 65" "window_ok (ge_leading st) (ge_trailing st)"
    and l: "ge_leading st \<le> word_of_nat (leading_zeros (v XOR ge_prev st))"
    and t: "ge_trailing st \<le> word_of_nat (trailing_zeros (v XOR ge_prev st))"
  shows "sample_ok v st (True # False # msb_first (shr_u64 (v XOR ge_prev st) (unat (ge_trailing st)))
    (unat (64 - ge_leading st - ge_trailing st)))" (is "sample_ok v st (True # False # ?em)")
proof -
  let ?x = "v XOR ge_prev st" and ?l = "ge_leading st" and ?t = "ge_trailing st"
  have lt: "unat ?l + unat ?t < 64" using win by (auto simp: window_ok_def)
  have n: "unat (64 - ?l - ?t) \<le> 64" using word_window [OF lt] by simp
  have l': "unat ?l \<le> leading_zeros ?x" and t': "unat ?t \<le> trailing_zeros ?x"
    using l t zero_counts(1) [OF x] by (auto simp: word_le_nat_alt unat_of_nat)
  let ?st = "gorilla_encode_step v st"
  have st: "?st = st\<lparr>ge_writer := write_bits (shr_u64 ?x (unat ?t)) (unat (64 - ?l - ?t))
      (write_bit False (write_bit True (ge_writer st))), ge_prev := v\<rparr>"
    using x win l t by (simp add: gorilla_encode_step_def Let_def)
  have "\<exists>r'. br_ok r' \<and> remaining r' = rest \<and>
      gorilla_decode_loop (Suc n) r (ge_prev st) ?l ?t = v # gorilla_decode_loop n r' v ?l ?t"
    if r: "br_ok r" "remaining r = (True # False # ?em) @ rest" for r rest n
  proof -
    obtain r1 where r1: "read_bit r = (Some True, r1)" "br_ok r1" "remaining r1 = False # ?em @ rest"
      using read_bit_remaining [OF r(1)] r(2) by auto
    obtain r2 where r2: "read_bit r1 = (Some False, r2)" "br_ok r2" "remaining r2 = ?em @ rest"
      using read_bit_remaining [OF r1(2)] r1(3) by auto
    obtain b r3 where r3: "or_zero (read_bits (unat (64 - ?l - ?t)) r2) = (b, r3)"
      "shl_u64 b (unat ?t) = ?x" "br_ok r3" "remaining r3 = rest"
      using read_sample [OF x lt l' t' r2(2,3)] by blast
    have "ge_prev st XOR ?x = v" by (rule xor_back)
    then have "gorilla_decode_loop (Suc n) r (ge_prev st) ?l ?t = v # gorilla_decode_loop n r3 v ?l ?t"
      by (simp add: r1(1) r2(1) r3(1,2) read_window_def Let_def)
    with r3(3,4) show ?thesis by blast
  qed
  then show ?thesis
    using n write_bit_bits [OF w, of True] write_bit_bits [of "write_bit True (ge_writer st)" False]
      write_bits_bits [OF n, of "write_bit False (write_bit True (ge_writer st))" "shr_u64 ?x (unat ?t)"] win
    by (simp add: sample_ok_def Let_def st del: gorilla_decode_loop.simps)
qed

text \<open>A new window is stored as its two lengths, a full window as length zero.\<close>

lemma low_six: "unat (ucast (take_bit 6 (ucast (m :: u8) :: u64)) :: u8) = unat m mod 64"
proof -
  have "(ucast (take_bit 6 (ucast m :: u64)) :: u8) = take_bit 6 m"
    by (rule bit_word_eqI) (auto simp: bit_simps)
  moreover have "unat (take_bit 6 m) = unat m mod 2 ^ 6"
    by (simp only: unsigned_take_bit_eq) (simp only: take_bit_eq_mod)
  ultimately show ?thesis by simp
qed

lemma read_new_window:
  assumes lt: "L + T < 64" and r: "br_ok r"
    and rem: "remaining r = msb_first (ucast (word_of_nat L :: u8)) 6
      @ msb_first (ucast (64 - word_of_nat L - word_of_nat T :: u8)) 6 @ rest"
  shows "\<exists>r'. read_window True pl pt r = ((word_of_nat L, word_of_nat T), r') \<and> br_ok r' \<and> remaining r' = rest"
proof -
  obtain r1 where r1: "or_zero (read_bits 6 r) = (take_bit 6 (ucast (word_of_nat L :: u8)), r1)" "br_ok r1"
    "remaining r1 = msb_first (ucast (64 - word_of_nat L - word_of_nat T :: u8)) 6 @ rest"
    using read_bits_at [OF _ r, of 6] rem by auto
  obtain r2 where r2: "or_zero (read_bits 6 r1) = (take_bit 6 (ucast (64 - word_of_nat L - word_of_nat T :: u8)), r2)"
    "br_ok r2" "remaining r2 = rest"
    using read_bits_at [OF _ r1(2), of 6] r1(3) by auto
  let ?m = "64 - word_of_nat L - word_of_nat T :: u8"
  have uL: "unat (word_of_nat L :: u8) = L" and uT: "unat (word_of_nat T :: u8) = T"
    using lt by (simp_all add: unat_of_nat)
  have um: "unat ?m = 64 - L - T" using word_window [of "word_of_nat L" "word_of_nat T"] lt by (simp add: uL uT)
  have lead: "ucast (take_bit 6 (ucast (word_of_nat L :: u8) :: u64)) = (word_of_nat L :: u8)"
    using lt by (simp only: word_unat_eq_iff low_six uL) simp
  have mean: "ucast (take_bit 6 (ucast ?m :: u64)) = (word_of_nat ((64 - L - T) mod 64) :: u8)"
    using lt by (simp only: word_unat_eq_iff low_six um) (simp add: unat_of_nat)
  have full: "(if (word_of_nat ((64 - L - T) mod 64) :: u8) = 0 then 64
      else word_of_nat ((64 - L - T) mod 64)) = ?m"
  proof (cases "L + T = 0")
    case False
    then have "(64 - L - T) mod 64 = 64 - L - T" "64 - L - T \<noteq> 0" using lt by auto
    moreover have "unat (word_of_nat (64 - L - T) :: u8) = 64 - L - T" by (simp add: unat_of_nat)
    ultimately show ?thesis by (metis um unat_0 word_unat_eq_iff)
  qed simp
  have "read_window True pl pt r = ((word_of_nat L, 64 - word_of_nat L - ?m), r2)"
    unfolding read_window_def r1(1) r2(1) Let_def if_True prod.case lead mean full ..
  with r2(2,3) show ?thesis by simp
qed

lemma sample_new_window:
  assumes w: "bw_ok (ge_writer st)" and x: "v XOR ge_prev st \<noteq> 0"
    and new: "\<not> (ge_leading st \<noteq> 65 \<and> ge_leading st \<le> word_of_nat (leading_zeros (v XOR ge_prev st))
      \<and> ge_trailing st \<le> word_of_nat (trailing_zeros (v XOR ge_prev st)))"
    and l: "l = (word_of_nat (leading_zeros (v XOR ge_prev st)) :: u8)"
    and t: "t = word_of_nat (trailing_zeros (v XOR ge_prev st))"
  shows "sample_ok v st (True # True # msb_first (ucast l) 6 @ msb_first (ucast (64 - l - t)) 6
    @ msb_first (shr_u64 (v XOR ge_prev st) (unat t)) (unat (64 - l - t)))"
    (is "sample_ok v st (True # True # ?a @ ?b @ ?c)")
proof -
  let ?x = "v XOR ge_prev st"
  note lt' = zero_counts(1) [OF x]
  have u: "unat l = leading_zeros ?x" "unat t = trailing_zeros ?x"
    using lt' by (simp_all add: l t unat_of_nat)
  have lt: "unat l + unat t < 64" using lt' by (simp add: u)
  have n: "unat (64 - l - t) \<le> 64" using word_window [OF lt] by simp
  let ?w = "write_bits (ucast (64 - l - t)) 6 (write_bits (ucast l) 6 (write_bit True (write_bit True (ge_writer st))))"
  have st: "gorilla_encode_step v st = \<lparr>ge_writer = write_bits (shr_u64 ?x (unat t)) (unat (64 - l - t)) ?w,
      ge_prev = v, ge_leading = l, ge_trailing = t\<rparr>"
    using x new by (simp only: gorilla_encode_step_def Let_def if_False l t)
  have "\<exists>r'. br_ok r' \<and> remaining r' = rest \<and>
      gorilla_decode_loop (Suc n) r (ge_prev st) (ge_leading st) (ge_trailing st)
        = v # gorilla_decode_loop n r' v l t"
    if r: "br_ok r" "remaining r = (True # True # ?a @ ?b @ ?c) @ rest" for r rest n
  proof -
    obtain r1 where r1: "read_bit r = (Some True, r1)" "br_ok r1" "remaining r1 = True # ?a @ ?b @ ?c @ rest"
      using read_bit_remaining [OF r(1)] r(2) by auto
    obtain r2 where r2: "read_bit r1 = (Some True, r2)" "br_ok r2" "remaining r2 = ?a @ ?b @ ?c @ rest"
      using read_bit_remaining [OF r1(2)] r1(3) by auto
    obtain r3 where r3: "read_window True (ge_leading st) (ge_trailing st) r2 = ((l, t), r3)"
      "br_ok r3" "remaining r3 = ?c @ rest"
      using read_new_window [OF lt' r2(2)] r2(3) unfolding l t by blast
    obtain b r4 where r4: "or_zero (read_bits (unat (64 - l - t)) r3) = (b, r4)"
      "shl_u64 b (unat t) = ?x" "br_ok r4" "remaining r4 = rest"
      using read_sample [OF x lt _ _ r3(2,3)] by (auto simp: u)
    have "gorilla_decode_loop (Suc n) r (ge_prev st) (ge_leading st) (ge_trailing st)
        = v # gorilla_decode_loop n r4 v l t"
      by (simp add: r1(1) r2(1) r3(1) r4(1,2) Let_def xor_back)
    with r4(3,4) show ?thesis by blast
  qed
  moreover have "bw_ok ?w" "bw_bits ?w = bw_bits (ge_writer st) @ True # True # ?a @ ?b"
    using w by (simp_all add: write_bit_bits write_bits_bits)
  ultimately show ?thesis
    using write_bits_bits [OF n, of ?w "shr_u64 ?x (unat t)"] lt
    by (simp add: sample_ok_def Let_def st window_ok_def del: gorilla_decode_loop.simps upt.simps)
qed

lemma sample_exists:
  assumes "bw_ok (ge_writer st)" "window_ok (ge_leading st) (ge_trailing st)"
  shows "\<exists>em. sample_ok v st em"
proof (cases "v XOR ge_prev st = 0")
  case True
  then have "v = ge_prev st" using xor_back [of "ge_prev st" v] by simp
  from sample_same [OF assms this] show ?thesis ..
next
  case False
  with sample_old_window [OF assms(1) False _ assms(2)] sample_new_window [OF assms(1) False _ refl refl]
  show ?thesis by blast
qed

lemma gorilla_samples:
  "bw_ok (ge_writer st) \<Longrightarrow> window_ok (ge_leading st) (ge_trailing st) \<Longrightarrow>
   \<exists>em. bw_bits (ge_writer (fold gorilla_encode_step vs st)) = bw_bits (ge_writer st) @ em
     \<and> bw_ok (ge_writer (fold gorilla_encode_step vs st))
     \<and> (\<forall>r pad. br_ok r \<and> remaining r = em @ pad \<longrightarrow>
          gorilla_decode_loop (length vs) r (ge_prev st) (ge_leading st) (ge_trailing st) = vs)"
proof (induction vs arbitrary: st)
  case Nil
  then show ?case by auto
next
  case (Cons v vs)
  obtain em1 where em1: "sample_ok v st em1" using sample_exists [OF Cons.prems] by blast
  let ?st = "gorilla_encode_step v st"
  have ok: "bw_bits (ge_writer ?st) = bw_bits (ge_writer st) @ em1" "bw_ok (ge_writer ?st)"
    "ge_prev ?st = v" "window_ok (ge_leading ?st) (ge_trailing ?st)"
    and dec: "\<And>r rest n. br_ok r \<Longrightarrow> remaining r = em1 @ rest \<Longrightarrow>
      \<exists>r'. br_ok r' \<and> remaining r' = rest \<and>
        gorilla_decode_loop (Suc n) r (ge_prev st) (ge_leading st) (ge_trailing st)
          = v # gorilla_decode_loop n r' v (ge_leading ?st) (ge_trailing ?st)"
    using em1 unfolding sample_ok_def Let_def by blast+
  obtain em2 where em2:
    "bw_bits (ge_writer (fold gorilla_encode_step vs ?st)) = bw_bits (ge_writer ?st) @ em2"
    "bw_ok (ge_writer (fold gorilla_encode_step vs ?st))"
    "\<And>r pad. br_ok r \<Longrightarrow> remaining r = em2 @ pad \<Longrightarrow>
      gorilla_decode_loop (length vs) r v (ge_leading ?st) (ge_trailing ?st) = vs"
    using Cons.IH [OF ok(2,4)] unfolding ok(3) by blast
  have "gorilla_decode_loop (length (v # vs)) r (ge_prev st) (ge_leading st) (ge_trailing st) = v # vs"
    if r: "br_ok r" "remaining r = (em1 @ em2) @ pad" for r pad
  proof -
    from dec [OF r(1), of "em2 @ pad" "length vs"] r(2) obtain r' where
      "br_ok r'" "remaining r' = em2 @ pad"
      "gorilla_decode_loop (Suc (length vs)) r (ge_prev st) (ge_leading st) (ge_trailing st)
        = v # gorilla_decode_loop (length vs) r' v (ge_leading ?st) (ge_trailing ?st)"
      by (auto simp del: gorilla_decode_loop.simps)
    with em2(3) show ?thesis by (simp del: gorilla_decode_loop.simps)
  qed
  then show ?case
    using ok(1) em2(1,2) by (intro exI [of _ "em1 @ em2"]) (auto simp del: gorilla_decode_loop.simps)
qed

text \<open>
  C28: Gorilla encoding is lossless: decoding the encoding of any list of
  floating-point samples gives the samples back bit for bit.
\<close>

theorem gorilla_round_trip:
  assumes "length vs < 2 ^ 32"
  shows "gorilla_decode (gorilla_encode vs) = vs"
proof (cases vs)
  case Nil
  then show ?thesis by (simp add: gorilla_encode_def gorilla_decode_def)
next
  case (Cons v0 ws)
  let ?st = "\<lparr>ge_writer = write_bits v0 64 bw_new, ge_prev = v0, ge_leading = 65, ge_trailing = 0\<rparr>"
  let ?w = "ge_writer (fold gorilla_encode_step ws ?st)"
  have w0: "bw_ok bw_new" "bw_bits bw_new = []"
    by (simp_all add: bw_ok_def bw_new_def bw_bits_def bits_of_def)
  have w1: "bw_bits (write_bits v0 64 bw_new) = msb_first v0 64" "bw_ok (write_bits v0 64 bw_new)"
    using write_bits_bits [of 64 bw_new v0] w0 by simp_all
  obtain em where em: "bw_bits ?w = msb_first v0 64 @ em" "bw_ok ?w"
    "\<And>r pad. br_ok r \<Longrightarrow> remaining r = em @ pad \<Longrightarrow> gorilla_decode_loop (length ws) r v0 65 0 = ws"
    using gorilla_samples [of ?st ws] w1 by (auto simp: window_ok_def)
  obtain bs n where fin: "bw_finish ?w = (bs, n)" by fastforce
  obtain pad where "bits_of bs = msb_first v0 64 @ em @ pad"
    using bw_finish_bits [OF em(2)] fin em(1) by auto
  then have r: "br_ok (br_new bs)" "remaining (br_new bs) = msb_first v0 64 @ em @ pad"
    by (simp_all add: br_ok_def br_new_def remaining_def)
  obtain r' where r': "or_zero (read_bits 64 (br_new bs)) = (v0, r')" "br_ok r'" "remaining r' = em @ pad"
    using read_bits_at [OF _ r] take_bit_word_eq_self [of 64 v0] by auto
  have enc: "gorilla_encode vs = u32_to_be_bytes (len_u32 vs) @ word_of_nat n # bs"
    by (simp add: gorilla_encode_def Cons Let_def fin)
  have "unat (u32_from_be_bytes (slice (gorilla_encode vs) 0 4)) = length vs"
    using assms unfolding enc by (simp add: slice_def)
  moreover have "drop 5 (gorilla_encode vs) = bs" "\<not> length (gorilla_encode vs) < 5"
    unfolding enc by simp_all
  ultimately show ?thesis
    by (simp add: gorilla_decode_def r'(1) em(3) [OF r'(2,3)] Let_def Cons)
qed

theorem gorilla_round_trip_witness:
  "length [0x4045400000000000, 0x4045400000000000, 0x4045800000000000 :: u64] < 2 ^ 32 \<and>
   gorilla_decode (gorilla_encode [0x4045400000000000, 0x4045400000000000, 0x4045800000000000])
     = [0x4045400000000000, 0x4045400000000000, 0x4045800000000000]"
  using gorilla_round_trip [of "[0x4045400000000000, 0x4045400000000000, 0x4045800000000000]"] by simp

end
