(* ===== verification/Hpack.thy ===== *)
theory Hpack
  imports Compress Utf8
begin

unbundle bit_operations_syntax

text \<open>
  Header compression of the gRPC endpoint's HTTP/2 layer
  (\<open>wire/grpc/hpack.rs\<close>): the static table, the Huffman code, the integer and
  string primitives, the decoder with its dynamic table and the stateless encoder.
  Strings are their UTF-8 bytes.  Lengths, table sizes and decoded integers are
  natural numbers, with the overflow checks of the source written out.
\<close>

type_synonym Header = "bytes \<times> bytes"

datatype hpack_error =
    CodeTooLong | EosSymbol | LeftoverTooLong | BadPadding
  | TruncatedInteger | IntegerOverflow | TruncatedString | InvalidUtf8
  | IndexZero | IndexOutOfRange nat | TruncatedName | TruncatedValue

definition STATIC_TABLE :: "Header list" where
  "STATIC_TABLE = map (\<lambda>(n, v). (ascii n, ascii v)) [
     ('':authority'', ''''), ('':method'', ''GET''), ('':method'', ''POST''),
     ('':path'', ''/''), ('':path'', ''/index.html''), ('':scheme'', ''http''),
     ('':scheme'', ''https''), ('':status'', ''200''), ('':status'', ''204''),
     ('':status'', ''206''), ('':status'', ''304''), ('':status'', ''400''),
     ('':status'', ''404''), ('':status'', ''500''), (''accept-charset'', ''''),
     (''accept-encoding'', ''gzip, deflate''), (''accept-language'', ''''),
     (''accept-ranges'', ''''), (''accept'', ''''),
     (''access-control-allow-origin'', ''''), (''age'', ''''), (''allow'', ''''),
     (''authorization'', ''''), (''cache-control'', ''''), (''content-disposition'', ''''),
     (''content-encoding'', ''''), (''content-language'', ''''),
     (''content-length'', ''''), (''content-location'', ''''), (''content-range'', ''''),
     (''content-type'', ''''), (''cookie'', ''''), (''date'', ''''), (''etag'', ''''),
     (''expect'', ''''), (''expires'', ''''), (''from'', ''''), (''host'', ''''),
     (''if-match'', ''''), (''if-modified-since'', ''''), (''if-none-match'', ''''),
     (''if-range'', ''''), (''if-unmodified-since'', ''''), (''last-modified'', ''''),
     (''link'', ''''), (''location'', ''''), (''max-forwards'', ''''),
     (''proxy-authenticate'', ''''), (''proxy-authorization'', ''''), (''range'', ''''),
     (''referer'', ''''), (''refresh'', ''''), (''retry-after'', ''''), (''server'', ''''),
     (''set-cookie'', ''''), (''strict-transport-security'', ''''),
     (''transfer-encoding'', ''''), (''user-agent'', ''''), (''vary'', ''''),
     (''via'', ''''), (''www-authenticate'', '''')]"

subsection \<open>Huffman code\<close>

definition HUFFMAN :: "(nat \<times> nat) list" where
  "HUFFMAN = [
     (0x1ff8, 13), (0x7fffd8, 23), (0xfffffe2, 28), (0xfffffe3, 28), (0xfffffe4, 28),
     (0xfffffe5, 28), (0xfffffe6, 28), (0xfffffe7, 28), (0xfffffe8, 28), (0xffffea, 24),
     (0x3ffffffc, 30), (0xfffffe9, 28), (0xfffffea, 28), (0x3ffffffd, 30), (0xfffffeb, 28),
     (0xfffffec, 28), (0xfffffed, 28), (0xfffffee, 28), (0xfffffef, 28), (0xffffff0, 28),
     (0xffffff1, 28), (0xffffff2, 28), (0x3ffffffe, 30), (0xffffff3, 28), (0xffffff4, 28),
     (0xffffff5, 28), (0xffffff6, 28), (0xffffff7, 28), (0xffffff8, 28), (0xffffff9, 28),
     (0xffffffa, 28), (0xffffffb, 28), (0x14, 6), (0x3f8, 10), (0x3f9, 10), (0xffa, 12),
     (0x1ff9, 13), (0x15, 6), (0xf8, 8), (0x7fa, 11), (0x3fa, 10), (0x3fb, 10), (0xf9, 8),
     (0x7fb, 11), (0xfa, 8), (0x16, 6), (0x17, 6), (0x18, 6), (0x0, 5), (0x1, 5), (0x2, 5),
     (0x19, 6), (0x1a, 6), (0x1b, 6), (0x1c, 6), (0x1d, 6), (0x1e, 6), (0x1f, 6),
     (0x5c, 7), (0xfb, 8), (0x7ffc, 15), (0x20, 6), (0xffb, 12), (0x3fc, 10), (0x1ffa, 13),
     (0x21, 6), (0x5d, 7), (0x5e, 7), (0x5f, 7), (0x60, 7), (0x61, 7), (0x62, 7),
     (0x63, 7), (0x64, 7), (0x65, 7), (0x66, 7), (0x67, 7), (0x68, 7), (0x69, 7),
     (0x6a, 7), (0x6b, 7), (0x6c, 7), (0x6d, 7), (0x6e, 7), (0x6f, 7), (0x70, 7),
     (0x71, 7), (0x72, 7), (0xfc, 8), (0x73, 7), (0xfd, 8), (0x1ffb, 13), (0x7fff0, 19),
     (0x1ffc, 13), (0x3ffc, 14), (0x22, 6), (0x7ffd, 15), (0x3, 5), (0x23, 6), (0x4, 5),
     (0x24, 6), (0x5, 5), (0x25, 6), (0x26, 6), (0x27, 6), (0x6, 5), (0x74, 7), (0x75, 7),
     (0x28, 6), (0x29, 6), (0x2a, 6), (0x7, 5), (0x2b, 6), (0x76, 7), (0x2c, 6), (0x8, 5),
     (0x9, 5), (0x2d, 6), (0x77, 7), (0x78, 7), (0x79, 7), (0x7a, 7), (0x7b, 7),
     (0x7ffe, 15), (0x7fc, 11), (0x3ffd, 14), (0x1ffd, 13), (0xffffffc, 28), (0xfffe6, 20),
     (0x3fffd2, 22), (0xfffe7, 20), (0xfffe8, 20), (0x3fffd3, 22), (0x3fffd4, 22),
     (0x3fffd5, 22), (0x7fffd9, 23), (0x3fffd6, 22), (0x7fffda, 23), (0x7fffdb, 23),
     (0x7fffdc, 23), (0x7fffdd, 23), (0x7fffde, 23), (0xffffeb, 24), (0x7fffdf, 23),
     (0xffffec, 24), (0xffffed, 24), (0x3fffd7, 22), (0x7fffe0, 23), (0xffffee, 24),
     (0x7fffe1, 23), (0x7fffe2, 23), (0x7fffe3, 23), (0x7fffe4, 23), (0x1fffdc, 21),
     (0x3fffd8, 22), (0x7fffe5, 23), (0x3fffd9, 22), (0x7fffe6, 23), (0x7fffe7, 23),
     (0xffffef, 24), (0x3fffda, 22), (0x1fffdd, 21), (0xfffe9, 20), (0x3fffdb, 22),
     (0x3fffdc, 22), (0x7fffe8, 23), (0x7fffe9, 23), (0x1fffde, 21), (0x7fffea, 23),
     (0x3fffdd, 22), (0x3fffde, 22), (0xfffff0, 24), (0x1fffdf, 21), (0x3fffdf, 22),
     (0x7fffeb, 23), (0x7fffec, 23), (0x1fffe0, 21), (0x1fffe1, 21), (0x3fffe0, 22),
     (0x1fffe2, 21), (0x7fffed, 23), (0x3fffe1, 22), (0x7fffee, 23), (0x7fffef, 23),
     (0xfffea, 20), (0x3fffe2, 22), (0x3fffe3, 22), (0x3fffe4, 22), (0x7ffff0, 23),
     (0x3fffe5, 22), (0x3fffe6, 22), (0x7ffff1, 23), (0x3ffffe0, 26), (0x3ffffe1, 26),
     (0xfffeb, 20), (0x7fff1, 19), (0x3fffe7, 22), (0x7ffff2, 23), (0x3fffe8, 22),
     (0x1ffffec, 25), (0x3ffffe2, 26), (0x3ffffe3, 26), (0x3ffffe4, 26), (0x7ffffde, 27),
     (0x7ffffdf, 27), (0x3ffffe5, 26), (0xfffff1, 24), (0x1ffffed, 25), (0x7fff2, 19),
     (0x1fffe3, 21), (0x3ffffe6, 26), (0x7ffffe0, 27), (0x7ffffe1, 27), (0x3ffffe7, 26),
     (0x7ffffe2, 27), (0xfffff2, 24), (0x1fffe4, 21), (0x1fffe5, 21), (0x3ffffe8, 26),
     (0x3ffffe9, 26), (0xffffffd, 28), (0x7ffffe3, 27), (0x7ffffe4, 27), (0x7ffffe5, 27),
     (0xfffec, 20), (0xfffff3, 24), (0xfffed, 20), (0x1fffe6, 21), (0x3fffe9, 22),
     (0x1fffe7, 21), (0x1fffe8, 21), (0x7ffff3, 23), (0x3fffea, 22), (0x3fffeb, 22),
     (0x1ffffee, 25), (0x1ffffef, 25), (0xfffff4, 24), (0xfffff5, 24), (0x3ffffea, 26),
     (0x7ffff4, 23), (0x3ffffeb, 26), (0x7ffffe6, 27), (0x3ffffec, 26), (0x3ffffed, 26),
     (0x7ffffe7, 27), (0x7ffffe8, 27), (0x7ffffe9, 27), (0x7ffffea, 27), (0x7ffffeb, 27),
     (0xffffffe, 28), (0x7ffffec, 27), (0x7ffffed, 27), (0x7ffffee, 27), (0x7ffffef, 27),
     (0x7fffff0, 27), (0x3ffffee, 26), (0x3fffffff, 30)]"

fun find_entry :: "nat \<Rightarrow> (nat \<times> nat) list \<Rightarrow> nat \<Rightarrow> nat \<Rightarrow> nat option" where
  "find_entry symbol [] cur bits = None"
| "find_entry symbol ((code, len) # es) cur bits =
     (if len = bits \<and> code = cur then Some symbol else find_entry (symbol + 1) es cur bits)"

definition match_symbol :: "nat \<Rightarrow> nat \<Rightarrow> nat option" where
  "match_symbol cur bits = find_entry 0 HUFFMAN cur bits"

record huffman_state =
  hs_out :: bytes
  hs_cur :: nat
  hs_bits :: nat

definition huffman_bit :: "bool \<Rightarrow> huffman_state \<Rightarrow> (hpack_error, huffman_state) result" where
  "huffman_bit b st =
     (let cur = (2 * hs_cur st + (if b then 1 else 0)) mod 2 ^ 32;
          cur_bits = hs_bits st + 1 in
      if 30 < cur_bits then Err CodeTooLong
      else
        (case match_symbol cur cur_bits of
           None \<Rightarrow> Ok (st\<lparr>hs_cur := cur, hs_bits := cur_bits\<rparr>)
         | Some symbol \<Rightarrow>
             if symbol = 256 then Err EosSymbol
             else Ok \<lparr>hs_out = hs_out st @ [word_of_nat symbol], hs_cur = 0, hs_bits = 0\<rparr>))"

fun huffman_bits :: "bool list \<Rightarrow> huffman_state \<Rightarrow> (hpack_error, huffman_state) result" where
  "huffman_bits [] st = Ok st"
| "huffman_bits (b # bs) st = and_then (huffman_bit b st) (huffman_bits bs)"

definition byte_bits :: "u8 \<Rightarrow> bool list" where
  "byte_bits byte = map (\<lambda>bit_i. drop_bit bit_i byte AND 1 = 1) (rev [0..<8])"

definition huffman_decode :: "bytes \<Rightarrow> (hpack_error, bytes) result" where
  "huffman_decode input =
     and_then (huffman_bits (concat (map byte_bits input)) \<lparr>hs_out = [], hs_cur = 0, hs_bits = 0\<rparr>)
       (\<lambda>st.
          if 0 < hs_bits st then
            if 8 \<le> hs_bits st then Err LeftoverTooLong
            else if hs_cur st \<noteq> 2 ^ hs_bits st - 1 then Err BadPadding
            else Ok (hs_out st)
          else Ok (hs_out st))"

subsection \<open>Integers and strings\<close>

fun decode_integer_loop :: "bytes \<Rightarrow> nat \<Rightarrow> nat \<Rightarrow> (hpack_error, nat \<times> bytes) result" where
  "decode_integer_loop [] value m = Err TruncatedInteger"
| "decode_integer_loop (b # rest) value m =
     (if 63 \<le> m then Err IntegerOverflow
      else
        let value = value + (unat (b AND 0x7f) * 2 ^ m) mod 2 ^ 64 in
        if 2 ^ 64 \<le> value then Err IntegerOverflow
        else if b AND 0x80 = 0 then Ok (value, rest)
        else decode_integer_loop rest value (m + 7))"

definition decode_integer :: "u8 \<Rightarrow> nat \<Rightarrow> bytes \<Rightarrow> (hpack_error, nat \<times> bytes) result" where
  "decode_integer first n rest =
     (let mask = 2 ^ n - 1; prefix = unat first mod 2 ^ n in
      if prefix < mask then Ok (prefix, rest) else decode_integer_loop rest mask 0)"

fun encode_integer_loop :: "nat \<Rightarrow> bytes" where
  "encode_integer_loop value =
     (if 128 \<le> value then (word_of_nat (value mod 128) OR 0x80) # encode_integer_loop (value div 128)
      else [word_of_nat value])"

declare encode_integer_loop.simps [simp del]

definition encode_integer :: "nat \<Rightarrow> nat \<Rightarrow> u8 \<Rightarrow> bytes" where
  "encode_integer value n prefix_bits =
     (let max = 2 ^ n - 1 in
      if value < max then [prefix_bits OR word_of_nat value]
      else (prefix_bits OR word_of_nat max) # encode_integer_loop (value - max))"

definition decode_string :: "u8 \<Rightarrow> bytes \<Rightarrow> (hpack_error, bytes \<times> bytes) result" where
  "decode_string first rest =
     and_then (decode_integer first 7 rest) (\<lambda>(len, rest).
       if length rest < len then Err TruncatedString
       else
         let raw = take len rest; rest = drop len rest in
         if first AND 0x80 \<noteq> 0 then and_then (huffman_decode raw) (\<lambda>s. Ok (s, rest))
         else Ok (raw, rest))"

definition encode_string :: "bytes \<Rightarrow> bytes" where
  "encode_string s = encode_integer (length s) 7 0x00 @ s"

subsection \<open>The decoder\<close>

record Decoder =
  dynamic :: "Header list"
  dynamic_size :: nat
  max_dynamic_size :: nat

definition Decoder_new :: Decoder where
  "Decoder_new = \<lparr>dynamic = [], dynamic_size = 0, max_dynamic_size = 4096\<rparr>"

definition entry_size :: "Header \<Rightarrow> nat" where
  "entry_size h = length (fst h) + length (snd h) + 32"

text \<open>Evict from the back until \<open>more\<close> octets fit, or nothing is left.\<close>

function evict :: "nat \<Rightarrow> Decoder \<Rightarrow> Decoder" where
  "evict extra d =
     (if max_dynamic_size d < dynamic_size d + extra \<and> dynamic d \<noteq> [] then
        evict extra (d\<lparr>dynamic := butlast (dynamic d),
                      dynamic_size := dynamic_size d - entry_size (last (dynamic d))\<rparr>)
      else d)"
  by pat_completeness auto
termination
  by (relation "measure (\<lambda>(_, d). length (dynamic d))") auto

declare evict.simps [simp del]

definition insert_dynamic :: "Header \<Rightarrow> Decoder \<Rightarrow> Decoder" where
  "insert_dynamic h d =
     (let sz = entry_size h; d = evict sz d in
      if sz \<le> max_dynamic_size d then
        d\<lparr>dynamic := h # dynamic d, dynamic_size := dynamic_size d + sz\<rparr>
      else d)"

definition set_max_size :: "nat \<Rightarrow> Decoder \<Rightarrow> Decoder" where
  "set_max_size new_max d = evict 0 (d\<lparr>max_dynamic_size := new_max\<rparr>)"

definition resolve_index :: "Decoder \<Rightarrow> nat \<Rightarrow> (hpack_error, Header) result" where
  "resolve_index d index =
     (if index = 0 then Err IndexZero
      else if index \<le> length STATIC_TABLE then Ok (STATIC_TABLE ! (index - 1))
      else
        let dyn_idx = index - length STATIC_TABLE - 1 in
        if dyn_idx < length (dynamic d) then Ok (dynamic d ! dyn_idx)
        else Err (IndexOutOfRange index))"

definition resolve_name :: "Decoder \<Rightarrow> nat \<Rightarrow> (hpack_error, bytes) result" where
  "resolve_name d index = and_then (resolve_index d index) (\<lambda>h. Ok (fst h))"

definition from_utf8 :: "bytes \<Rightarrow> (hpack_error, bytes) result" where
  "from_utf8 bs = (if valid_utf8 bs then Ok bs else Err InvalidUtf8)"

definition decode_str :: "hpack_error \<Rightarrow> bytes \<Rightarrow> (hpack_error, bytes \<times> bytes) result" where
  "decode_str truncated block =
     (case block of
        [] \<Rightarrow> Err truncated
      | first # block \<Rightarrow>
          and_then (decode_string first block) (\<lambda>(s, block).
          and_then (from_utf8 s) (\<lambda>s. Ok (s, block))))"

definition decode_literal :: "Decoder \<Rightarrow> u8 \<Rightarrow> nat \<Rightarrow> bytes \<Rightarrow> (hpack_error, Header \<times> bytes) result" where
  "decode_literal d first name_prefix_bits block =
     and_then (decode_integer first name_prefix_bits block) (\<lambda>(name_index, block).
     and_then
       (if name_index = 0 then decode_str TruncatedName block
        else and_then (resolve_name d name_index) (\<lambda>name. Ok (name, block))) (\<lambda>(name, block).
     and_then (decode_str TruncatedValue block) (\<lambda>(value, block). Ok ((name, value), block))))"

text \<open>
  One header field representation: the header it yields, if any, the new state of
  the dynamic table and the rest of the block.
\<close>

definition decode_field ::
  "Decoder \<Rightarrow> u8 \<Rightarrow> bytes \<Rightarrow> (hpack_error, Header list \<times> Decoder \<times> bytes) result" where
  "decode_field d first block =
     (if first AND 0x80 \<noteq> 0 then
        and_then (decode_integer first 7 block) (\<lambda>(index, block).
        and_then (resolve_index d index) (\<lambda>h. Ok ([h], d, block)))
      else if first AND 0x40 \<noteq> 0 then
        and_then (decode_literal d first 6 block) (\<lambda>(h, block). Ok ([h], insert_dynamic h d, block))
      else if first AND 0x20 \<noteq> 0 then
        and_then (decode_integer first 5 block) (\<lambda>(new_max, block). Ok ([], set_max_size new_max d, block))
      else
        and_then (decode_literal d first 4 block) (\<lambda>(h, block). Ok ([h], d, block)))"

lemma decode_integer_loop_rest:
  "decode_integer_loop bs value m = Ok (v, rest) \<Longrightarrow> length rest \<le> length bs"
proof (induction bs "value" m rule: decode_integer_loop.induct)
  case (2 b rest vl m)
  from "2.prems" show ?case
    by (auto simp: Let_def split: if_splits dest: "2.IH" [rotated -1])
qed simp

lemma decode_integer_rest: "decode_integer first n bs = Ok (v, rest) \<Longrightarrow> length rest \<le> length bs"
  by (auto simp: decode_integer_def Let_def split: if_splits dest: decode_integer_loop_rest)

lemma decode_string_rest: "decode_string first bs = Ok (s, rest) \<Longrightarrow> length rest \<le> length bs"
  by (auto simp: decode_string_def and_then_Ok_iff Let_def split: if_splits dest!: decode_integer_rest)

lemma decode_str_rest: "decode_str e bs = Ok (s, rest) \<Longrightarrow> length rest \<le> length bs"
  by (auto simp: decode_str_def and_then_Ok_iff split: list.splits dest!: decode_string_rest)

lemma decode_literal_rest: "decode_literal d first n bs = Ok (h, rest) \<Longrightarrow> length rest \<le> length bs"
  by (auto simp: decode_literal_def and_then_Ok_iff split: if_splits
      dest!: decode_integer_rest decode_str_rest)

lemma decode_field_rest: "decode_field d first bs = Ok (hs, d', rest) \<Longrightarrow> length rest \<le> length bs"
  by (auto simp: decode_field_def and_then_Ok_iff split: if_splits
      dest!: decode_integer_rest decode_literal_rest)

text \<open>
  A block is decoded field by field.  The dynamic table keeps the changes of the
  fields before an error.
\<close>

function hpack_decode ::
  "Decoder \<Rightarrow> bytes \<Rightarrow> Header list \<Rightarrow> (hpack_error, Header list) result \<times> Decoder" where
  "hpack_decode d [] headers = (Ok headers, d)"
| "hpack_decode d (first # block) headers =
     (case decode_field d first block of
        Inl e \<Rightarrow> (Err e, d)
      | Inr (hs, d', rest) \<Rightarrow> hpack_decode d' rest (headers @ hs))"
  by pat_completeness auto
termination
  by (relation "measure (\<lambda>(d, block, headers). length block)")
    (auto simp: le_imp_less_Suc dest: decode_field_rest)

definition Decoder_decode :: "Decoder \<Rightarrow> bytes \<Rightarrow> (hpack_error, Header list) result \<times> Decoder" where
  "Decoder_decode d block = hpack_decode d block []"

subsection \<open>The encoder\<close>

definition static_full_match :: "bytes \<Rightarrow> bytes \<Rightarrow> nat option" where
  "static_full_match name value =
     map_option Suc (position (\<lambda>(n, v). n = name \<and> v = value) STATIC_TABLE)"

definition static_name_match :: "bytes \<Rightarrow> nat option" where
  "static_name_match name = map_option Suc (position (\<lambda>(n, _). n = name) STATIC_TABLE)"

definition encode_header :: "Header \<Rightarrow> bytes" where
  "encode_header h =
     (case h of (name, value) \<Rightarrow>
      (case static_full_match name value of
         Some idx \<Rightarrow> encode_integer idx 7 0x80
       | None \<Rightarrow>
           (case static_name_match name of
              Some idx \<Rightarrow> encode_integer idx 4 0x00 @ encode_string value
            | None \<Rightarrow> 0x00 # encode_string name @ encode_string value)))"

definition hpack_encode :: "Header list \<Rightarrow> bytes" where
  "hpack_encode headers = concat (map encode_header headers)"

subsection \<open>Integers and strings read back\<close>

lemma and_0x80_iff: "(b :: u8) AND 0x80 = 0 \<longleftrightarrow> unat b < 128"
proof -
  have "b AND 0x80 = 0 \<longleftrightarrow> \<not> bit b 7"
  proof
    assume "b AND 0x80 = 0"
    then have "\<not> bit (b AND 0x80) 7" by simp
    then show "\<not> bit b 7" by (simp add: bit_and_iff bit_simps bit_0x80)
  next
    assume "\<not> bit b 7"
    then show "b AND 0x80 = 0"
      by (intro bit_word_eqI) (auto simp: bit_and_iff bit_simps bit_0x80)
  qed
  also have "\<dots> \<longleftrightarrow> even (unat b div 2 ^ 7)"
  proof -
    have "bit (unat b) 7 = bit b 7" by (simp add: bit_unsigned_iff)
    then show ?thesis unfolding bit_iff_odd [of "unat b"] by blast
  qed
  also have "\<dots> \<longleftrightarrow> unat b < 128"
  proof -
    have "unat b div 128 < 2" using unat_u8_less [of b] by (intro less_mult_imp_div_less) simp
    then have "unat b div 128 = 0 \<or> unat b div 128 = 1" by linarith
    moreover have "unat b div 128 = 0 \<longleftrightarrow> unat b < 128" by (simp add: div_eq_0_iff)
    ultimately show ?thesis by auto
  qed
  finally show ?thesis .
qed

lemma unat_and_0x7f: "unat ((b :: u8) AND 0x7f) = unat b mod 128"
proof -
  have "b AND 0x7f = take_bit 7 b" by (simp only: mask_7 take_bit_eq_mask)
  then show ?thesis by (simp only: unsigned_take_bit_eq) (simp only: take_bit_eq_mod, simp)
qed

lemma flagged_byte:
  assumes "v < 128"
  shows "unat (word_of_nat v OR 0x80 :: u8) = v + 128"
proof -
  have "word_of_nat v OR 0x80 = (word_of_nat v :: u8) + 0x80"
  proof (rule disjunctive_add [symmetric])
    fix n
    show "\<not> bit (word_of_nat v :: u8) n \<or> \<not> bit (0x80 :: u8) n"
    proof (cases "n = 7")
      case True
      have "(word_of_nat v :: u8) AND 0x80 = 0" using assms by (simp add: and_0x80_iff unat_of_nat)
      then have "\<not> bit ((word_of_nat v :: u8) AND 0x80) 7" by simp
      then show ?thesis unfolding True by (simp add: bit_and_iff)
    qed (simp add: bit_simps bit_0x80)
  qed
  then show ?thesis using assms by (simp add: unat_word_ariths unat_of_nat)
qed

lemma decode_integer_loop_encode:
  "v * 2 ^ m < 2 ^ 63 \<Longrightarrow> m < 63 \<Longrightarrow> acc + v * 2 ^ m < 2 ^ 64 \<Longrightarrow>
   decode_integer_loop (encode_integer_loop v @ rest) acc m = Ok (acc + v * 2 ^ m, rest)"
proof (induction v arbitrary: acc m rule: encode_integer_loop.induct)
  case (1 v)
  show ?case
  proof (cases "128 \<le> v")
    case False
    then have "encode_integer_loop v = [word_of_nat v]" by (simp add: encode_integer_loop.simps)
    moreover have "unat (word_of_nat v :: u8) = v" using False by (simp add: unat_of_nat)
    ultimately show ?thesis
      using False "1.prems" by (simp add: Let_def and_0x80_iff unat_and_0x7f)
  next
    case True
    let ?b = "word_of_nat (v mod 128) OR 0x80 :: u8"
    have e: "encode_integer_loop v = ?b # encode_integer_loop (v div 128)"
      using True by (subst encode_integer_loop.simps) simp
    have split: "v * 2 ^ m = (v mod 128) * 2 ^ m + (v div 128) * 2 ^ (m + 7)"
    proof -
      have "v * 2 ^ m = (v mod 128 + 128 * (v div 128)) * 2 ^ m" by (simp only: mod_mult_div_eq)
      then show ?thesis by (simp only: power_add add_mult_distrib) simp
    qed
    have "(2 :: nat) ^ (m + 7) \<le> v * 2 ^ m" using True by (simp add: power_add)
    with "1.prems"(1) have "(2 :: nat) ^ (m + 7) < 2 ^ 63" by linarith
    then have m: "m + 7 < 63" by (rule power_less_imp_less_exp [rotated]) simp
    have small: "(v mod 128) * 2 ^ m mod 2 ^ 64 = (v mod 128) * 2 ^ m"
    proof (rule mod_less)
      have "(v mod 128) * 2 ^ m < 2 ^ 63" using split "1.prems"(1) by linarith
      also have "(2 :: nat) ^ 63 < 2 ^ 64" by simp
      finally show "(v mod 128) * 2 ^ m < 2 ^ 64" .
    qed
    have b: "unat (?b AND 0x7f) = v mod 128" "?b AND 0x80 \<noteq> 0"
      using flagged_byte [of "v mod 128"] by (simp_all add: unat_and_0x7f and_0x80_iff)
    have "decode_integer_loop (encode_integer_loop v @ rest) acc m
        = decode_integer_loop (encode_integer_loop (v div 128) @ rest) (acc + (v mod 128) * 2 ^ m) (m + 7)"
      using "1.prems"(2,3) split by (simp add: e Let_def b small)
    also have "\<dots> = Ok (acc + (v mod 128) * 2 ^ m + (v div 128) * 2 ^ (m + 7), rest)"
      using "1.prems"(1,3) split m by (intro "1.IH" [OF True]) linarith+
    finally show ?thesis using split by simp
  qed
qed

lemma flag_bits:
  "(b :: u8) AND 0x80 \<noteq> 0 \<longleftrightarrow> bit b 7" "b AND 0x40 \<noteq> 0 \<longleftrightarrow> bit b 6" "b AND 0x20 \<noteq> 0 \<longleftrightarrow> bit b 5"
proof -
  have flag: "b AND push_bit k 1 \<noteq> 0 \<longleftrightarrow> bit b k" for k
  proof
    assume "b AND push_bit k 1 \<noteq> 0"
    then obtain i where "bit (b AND push_bit k 1) i" by (metis bit_0_eq bit_eqI bot_apply bot_bool_def)
    then show "bit b k" unfolding bit_and_iff bit_push_bit_iff bit_1_iff by auto
  next
    assume b: "bit b k"
    then have "bit (b AND push_bit k 1) k"
      using bit_imp_le_length [OF b] unfolding bit_and_iff bit_push_bit_iff bit_1_iff by simp
    then show "b AND push_bit k 1 \<noteq> 0" by (metis bit_0_eq bot_apply bot_bool_def)
  qed
  have "(0x80 :: u8) = push_bit 7 1" "(0x40 :: u8) = push_bit 6 1" "(0x20 :: u8) = push_bit 5 1"
    by simp_all
  then show "b AND 0x80 \<noteq> 0 \<longleftrightarrow> bit b 7" "b AND 0x40 \<noteq> 0 \<longleftrightarrow> bit b 6" "b AND 0x20 \<noteq> 0 \<longleftrightarrow> bit b 5"
    using flag by metis+
qed

lemma prefix_byte:
  assumes n: "n \<le> 8" and pb: "take_bit n pb = 0" and v: "v < 2 ^ n"
  shows "unat (pb OR word_of_nat v :: u8) mod 2 ^ n = v"
    and "n \<le> i \<Longrightarrow> bit (pb OR word_of_nat v :: u8) i = bit pb i"
proof -
  have "v < 256" using v n power_increasing [of n 8 "2 :: nat"] by simp
  then have u: "unat (word_of_nat v :: u8) = v" by (simp add: unat_of_nat)
  have t: "take_bit n (word_of_nat v :: u8) = word_of_nat v"
    using v by (simp add: word_unat_eq_iff unsigned_take_bit_eq u take_bit_nat_eq_self)
  have "take_bit n (pb OR word_of_nat v) = (word_of_nat v :: u8)"
    unfolding take_bit_or pb t by simp
  then have "take_bit n (unat (pb OR word_of_nat v :: u8)) = v"
    by (metis u unsigned_take_bit_eq)
  then show "unat (pb OR word_of_nat v :: u8) mod 2 ^ n = v" by (simp only: take_bit_eq_mod)
  have "\<not> bit (word_of_nat v :: u8) i" if "n \<le> i" for i
    using that bit_take_bit_iff [of n "word_of_nat v :: u8" i] by (simp add: t)
  then show "n \<le> i \<Longrightarrow> bit (pb OR word_of_nat v :: u8) i = bit pb i"
    by (simp add: bit_or_iff)
qed

lemma integer_round_trip:
  assumes n: "n \<le> 8" and pb: "take_bit n pb = 0" and v: "v < 2 ^ 63"
  obtains first tl where "encode_integer v n pb = first # tl"
    "\<And>rest. decode_integer first n (tl @ rest) = Ok (v, rest)"
    "\<And>i. n \<le> i \<Longrightarrow> bit first i = bit pb i"
proof (cases "v < 2 ^ n - 1")
  case True
  then have "v < 2 ^ n" by linarith
  from prefix_byte [OF n pb this] True show ?thesis
    by (intro that [of "pb OR word_of_nat v" "[]"]) (simp_all add: encode_integer_def decode_integer_def Let_def)
next
  case False
  let ?max = "2 ^ n - 1 :: nat"
  have max: "?max < 2 ^ n" by simp
  have "decode_integer (pb OR word_of_nat ?max) n (encode_integer_loop (v - ?max) @ rest) = Ok (v, rest)" for rest
  proof -
    have "v - ?max < 2 ^ 63" "?max + (v - ?max) = v" "v < 2 ^ 64"
      using v False by (linarith, linarith, simp)
    then have "decode_integer_loop (encode_integer_loop (v - ?max) @ rest) ?max 0 = Ok (v, rest)"
      using decode_integer_loop_encode [of "v - ?max" 0 ?max rest] by simp
    then show ?thesis
      unfolding decode_integer_def Let_def prefix_byte(1) [OF n pb max] by simp
  qed
  with prefix_byte(2) [OF n pb max] False show ?thesis
    by (intro that [of "pb OR word_of_nat ?max" "encode_integer_loop (v - ?max)"])
      (simp_all add: encode_integer_def Let_def)
qed

lemma decode_str_encode:
  assumes "valid_utf8 s" "length s < 2 ^ 63"
  shows "decode_str e (encode_string s @ rest) = Ok (s, rest)"
proof -
  obtain first tl where f: "encode_integer (length s) 7 0 = first # tl"
    "\<And>rest. decode_integer first 7 (tl @ rest) = Ok (length s, rest)" "\<And>i. 7 \<le> i \<Longrightarrow> bit first i = bit (0 :: u8) i"
    using integer_round_trip [where n = 7 and pb = 0 and v = "length s"] assms(2) by auto
  have "\<not> bit first 7" using f(3) [of 7] by simp
  then have "first AND 0x80 = 0" using flag_bits(1) by blast
  with f assms(1) show ?thesis
    by (simp add: encode_string_def decode_str_def decode_string_def from_utf8_def Let_def)
qed

subsection \<open>Header lists read back\<close>

lemma position_Some: "position p xs = Some i \<Longrightarrow> i < length xs \<and> p (xs ! i)"
  by (induction xs arbitrary: i) (auto split: if_splits)

lemma length_STATIC_TABLE [simp]: "length STATIC_TABLE = 61"
  by (simp add: STATIC_TABLE_def)

lemma static_full_match_Some:
  "static_full_match n v = Some idx \<Longrightarrow> 0 < idx \<and> idx \<le> 61 \<and> resolve_index d idx = Ok (n, v)"
  by (auto simp: static_full_match_def resolve_index_def dest!: position_Some)

lemma static_name_match_Some:
  "static_name_match n = Some idx \<Longrightarrow> 0 < idx \<and> idx \<le> 61 \<and> resolve_name d idx = Ok n"
  by (auto simp: static_name_match_def resolve_name_def resolve_index_def dest!: position_Some)

definition header_ok :: "Header \<Rightarrow> bool" where
  "header_ok h \<longleftrightarrow> valid_utf8 (fst h) \<and> valid_utf8 (snd h) \<and> length (fst h) < 2 ^ 63 \<and> length (snd h) < 2 ^ 63"

lemma decode_field_encode:
  assumes ok: "header_ok (n, v)"
  obtains first tl where "encode_header (n, v) = first # tl"
    "\<And>rest. decode_field d first (tl @ rest) = Ok ([(n, v)], d, rest)"
proof (cases "static_full_match n v")
  case (Some idx)
  note idx = static_full_match_Some [OF Some, of d]
  obtain first tl where f: "encode_integer idx 7 0x80 = first # tl"
    "\<And>rest. decode_integer first 7 (tl @ rest) = Ok (idx, rest)" "\<And>i. 7 \<le> i \<Longrightarrow> bit first i = bit (0x80 :: u8) i"
    using integer_round_trip [where n = 7 and pb = "0x80" and v = idx] idx by (auto simp: take_bit_eq_mod)
  have "first AND 0x80 \<noteq> 0" using f(3) [of 7] flag_bits(1) by (simp add: bit_simps bit_0x80)
  then show ?thesis
    using that [of first tl] f(1,2) Some idx by (simp add: encode_header_def decode_field_def)
next
  case None
  have flags: "first AND 0x80 = 0" "first AND 0x40 = 0" "first AND 0x20 = 0"
    if "\<And>i. 4 \<le> i \<Longrightarrow> bit first i = bit (0 :: u8) i" for first :: u8
    using that [of 7] that [of 6] that [of 5] flag_bits [of first] by auto
  have str: "decode_str e (encode_string n @ rest) = Ok (n, rest)" "decode_str e (encode_string v @ rest) = Ok (v, rest)" for e rest
    using ok by (simp_all add: header_ok_def decode_str_encode)
  show ?thesis
  proof (cases "static_name_match n")
    case (Some idx)
    note idx = static_name_match_Some [OF Some, of d]
    obtain first tl where f: "encode_integer idx 4 0 = first # tl"
      "\<And>rest. decode_integer first 4 (tl @ rest) = Ok (idx, rest)" "\<And>i. 4 \<le> i \<Longrightarrow> bit first i = bit (0 :: u8) i"
      using integer_round_trip [where n = 4 and pb = 0 and v = idx] idx by auto
    show ?thesis
      using that [of first "tl @ encode_string v"] f(1,2) None Some idx flags [OF f(3)]
      by (simp add: encode_header_def decode_field_def decode_literal_def str)
  next
    case none: None
    show ?thesis
      using that [of 0 "encode_string n @ encode_string v"] None none
      by (simp add: encode_header_def decode_field_def decode_literal_def decode_integer_def Let_def str)
  qed
qed

lemma hpack_decode_encode:
  "list_all header_ok hs \<Longrightarrow> hpack_decode d (hpack_encode hs) acc = (Ok (acc @ hs), d)"
proof (induction hs arbitrary: acc)
  case Nil
  then show ?case by (simp add: hpack_encode_def)
next
  case (Cons h hs)
  obtain n v where h: "h = (n, v)" by (cases h)
  obtain first tl where f: "encode_header (n, v) = first # tl"
    "\<And>rest. decode_field d first (tl @ rest) = Ok ([(n, v)], d, rest)"
    using decode_field_encode [of n v d] Cons.prems h by auto
  have e: "hpack_encode (h # hs) = first # tl @ hpack_encode hs" by (simp add: hpack_encode_def h f(1))
  show ?case unfolding e using Cons.IH [of "acc @ [h]"] Cons.prems by (simp add: f(2) h)
qed

text \<open>
  C26: Header compression is lossless: whatever the decoder's dynamic table
  holds, the block the encoder makes of a header list decodes to the same list, in
  order, and leaves the dynamic table as it was.
\<close>

theorem hpack_round_trip:
  assumes "list_all header_ok hs"
  shows "Decoder_decode d (hpack_encode hs) = (Ok hs, d)"
  using hpack_decode_encode [OF assms, of d "[]"] by (simp add: Decoder_decode_def)

theorem hpack_round_trip_witness:
  "Decoder_decode Decoder_new (hpack_encode [(ascii '':status'', ascii ''200''), (ascii ''grpc-status'', ascii ''0''), (ascii ''date'', ascii ''x'')])
     = (Ok [(ascii '':status'', ascii ''200''), (ascii ''grpc-status'', ascii ''0''), (ascii ''date'', ascii ''x'')], Decoder_new)"
proof -
  have "header_ok (ascii '':status'', ascii ''200'')" "header_ok (ascii ''grpc-status'', ascii ''0'')"
    "header_ok (ascii ''date'', ascii ''x'')"
    by (simp_all add: header_ok_def ascii_def valid_utf8_ascii)
  then show ?thesis
    using hpack_round_trip [of "[(ascii '':status'', ascii ''200''), (ascii ''grpc-status'', ascii ''0''), (ascii ''date'', ascii ''x'')]"]
    by simp
qed

subsection \<open>The dynamic table stays within its size\<close>

definition table_ok :: "Decoder \<Rightarrow> bool" where
  "table_ok d \<longleftrightarrow>
     dynamic_size d = sum_list (map entry_size (dynamic d)) \<and> dynamic_size d \<le> max_dynamic_size d"

lemma evict_fits:
  "dynamic_size d = sum_list (map entry_size (dynamic d)) \<Longrightarrow>
   (let e = evict k d in
    dynamic_size e = sum_list (map entry_size (dynamic e)) \<and> max_dynamic_size e = max_dynamic_size d \<and>
    (dynamic e = [] \<or> dynamic_size e + k \<le> max_dynamic_size e))"
proof (induction k d rule: evict.induct)
  case (1 k d)
  show ?case
  proof (cases "max_dynamic_size d < dynamic_size d + k \<and> dynamic d \<noteq> []")
    case True
    let ?d = "d\<lparr>dynamic := butlast (dynamic d), dynamic_size := dynamic_size d - entry_size (last (dynamic d))\<rparr>"
    obtain xs x where xs: "dynamic d = xs @ [x]" using True by (cases "dynamic d" rule: rev_exhaust) auto
    with "1.prems" have "dynamic_size ?d = sum_list (map entry_size (dynamic ?d))" by (simp add: xs)
    note ih = "1.IH" [OF True this]
    have eq: "evict k d = evict k ?d" using True by (subst evict.simps) simp
    have m: "max_dynamic_size ?d = max_dynamic_size d" by simp
    show ?thesis using ih unfolding eq m .
  next
    case False
    then show ?thesis using "1.prems" by (subst evict.simps) (auto simp: Let_def)
  qed
qed

lemma insert_dynamic_ok: "table_ok d \<Longrightarrow> table_ok (insert_dynamic h d)"
  using evict_fits [of d "entry_size h"] by (auto simp: insert_dynamic_def table_ok_def Let_def)

lemma set_max_size_ok: "table_ok d \<Longrightarrow> table_ok (set_max_size m d)"
  using evict_fits [of "d\<lparr>max_dynamic_size := m\<rparr>" 0] by (auto simp: set_max_size_def table_ok_def Let_def)

lemma decode_field_ok: "decode_field d first block = Ok (hs, d', rest) \<Longrightarrow> table_ok d \<Longrightarrow> table_ok d'"
  by (auto simp: decode_field_def and_then_Ok_iff insert_dynamic_ok set_max_size_ok split: if_splits)

lemma hpack_decode_ok: "table_ok d \<Longrightarrow> table_ok (snd (hpack_decode d block hs))"
proof (induction d block hs rule: hpack_decode.induct)
  case (2 d first block hs)
  show ?case
  proof (cases "decode_field d first block")
    case (Inr r)
    then obtain hs' d' rest where r: "r = (hs', d', rest)" by (cases r) auto
    from Inr r "2.prems" have "table_ok d'" by (auto dest: decode_field_ok)
    from "2.IH" [OF Inr [unfolded r] refl refl this] show ?thesis by (simp add: Inr r)
  qed (simp add: "2.prems")
qed simp

text \<open>
  C27: The dynamic table accounts for its entries exactly and never exceeds its
  maximum size, whatever bytes a peer sends and also when a block is rejected half
  way.
\<close>

theorem dynamic_table_bounded:
  assumes "table_ok d"
  shows "table_ok (snd (Decoder_decode d block))"
  unfolding Decoder_decode_def by (rule hpack_decode_ok [OF assms])

theorem dynamic_table_bounded_witness:
  "table_ok Decoder_new \<and> table_ok (snd (Decoder_decode Decoder_new [0x40, 0x01, 0x61, 0x01, 0x62, 0x80]))"
proof -
  have "table_ok Decoder_new" by (simp add: table_ok_def Decoder_new_def)
  with dynamic_table_bounded [OF this] show ?thesis by simp
qed

text \<open>
  A dynamic table size update is obeyed without a limit: any size below
  2^63 that the peer announces becomes the maximum, although the connection only
  offered 4096 octets.
\<close>

theorem size_update_unlimited:
  assumes "n < 2 ^ 63" and "dynamic d = []"
  shows "Decoder_decode d (encode_integer n 5 0x20) = (Ok [], d\<lparr>max_dynamic_size := n\<rparr>)"
proof -
  have "bit (0x20 :: int) i \<longleftrightarrow> i = 5" for i
  proof -
    have "(0x20 :: int) = push_bit 5 1" by simp
    then show ?thesis by (simp only: bit_push_bit_iff bit_1_iff) auto
  qed
  note bit32 = this
  obtain first tl where f: "encode_integer n 5 0x20 = first # tl"
    "\<And>rest. decode_integer first 5 (tl @ rest) = Ok (n, rest)" "\<And>i. 5 \<le> i \<Longrightarrow> bit first i = bit (0x20 :: u8) i"
    using integer_round_trip [where n = 5 and pb = "0x20" and v = n] assms(1) by (auto simp: take_bit_eq_mod)
  have "first AND 0x80 = 0" "first AND 0x40 = 0" "first AND 0x20 \<noteq> 0"
    using f(3) [of 7] f(3) [of 6] f(3) [of 5] flag_bits [of first] by (auto simp: bit_simps bit32)
  moreover have "evict 0 (d\<lparr>max_dynamic_size := n\<rparr>) = d\<lparr>max_dynamic_size := n\<rparr>"
    using assms(2) by (subst evict.simps) simp
  ultimately show ?thesis
    using f(2) [of "[]"] by (simp add: Decoder_decode_def f(1) decode_field_def set_max_size_def)
qed

theorem size_update_unlimited_witness:
  "Decoder_decode Decoder_new (encode_integer 1000000000000 5 0x20)
     = (Ok [], Decoder_new\<lparr>max_dynamic_size := 1000000000000\<rparr>)"
  by (rule size_update_unlimited) (simp_all add: Decoder_new_def)
end
