(* ===== verification/Proto.thy ===== *)
theory Proto
  imports Compress Utf8
begin

unbundle bit_operations_syntax

text \<open>
  The protocol-buffer codec of the Flux gRPC endpoint
  (\<open>wire/grpc/proto.rs\<close>): variable-length integers, tags, length-delimited
  fields, the field cursor and the request and response messages.  Requests are
  decoded and responses encoded by the server.  Strings are their UTF-8 bytes.
\<close>

datatype WireType = Varint | Len | Fixed64 | Fixed32 | StartGroup | EndGroup

datatype proto_error =
    TruncatedVarint | VarintTooLong | LengthExceedsBuffer | UnsupportedWireType u64
  | TruncatedFixed64 | TruncatedFixed32 | GroupsNotSupported | SlicePanic

definition WireType_from_u64 :: "u64 \<Rightarrow> (proto_error, WireType) result" where
  "WireType_from_u64 v =
     (if v = 0 then Ok Varint
      else if v = 1 then Ok Fixed64
      else if v = 2 then Ok Len
      else if v = 3 then Ok StartGroup
      else if v = 4 then Ok EndGroup
      else if v = 5 then Ok Fixed32
      else Err (UnsupportedWireType v))"

subsection \<open>Writing\<close>

function proto_write_varint :: "u64 \<Rightarrow> bytes" where
  "proto_write_varint v =
     (let byte = ucast (v AND 0x7f); v = shr_u64 v 7;
          byte = (if v \<noteq> 0 then byte OR 0x80 else byte) in
      byte # (if v = 0 then [] else proto_write_varint v))"
  by pat_completeness auto
termination
  by (relation "measure unat") (auto simp: shr_7_less)

declare proto_write_varint.simps [simp del]

definition write_tag :: "u32 \<Rightarrow> u64 \<Rightarrow> bytes" where
  "write_tag field wire = proto_write_varint (shl_u64 (ucast field) 3 OR wire)"

definition write_varint_field :: "u32 \<Rightarrow> u64 \<Rightarrow> bytes" where
  "write_varint_field field v = (if v = 0 then [] else write_tag field 0 @ proto_write_varint v)"

definition write_len_field :: "u32 \<Rightarrow> bytes \<Rightarrow> bytes" where
  "write_len_field field bs =
     (if bs = [] then []
      else write_tag field 2 @ proto_write_varint (word_of_nat (length bs)) @ bs)"

subsection \<open>The field cursor\<close>

text \<open>
  A reader is the buffer with the position; a successful read returns the value
  and the new position.
\<close>

function proto_read_varint_loop ::
  "bytes \<Rightarrow> nat \<Rightarrow> u64 \<Rightarrow> nat \<Rightarrow> (proto_error, u64 \<times> nat) result" where
  "proto_read_varint_loop buf pos acc shift =
     (if length buf \<le> pos then Err TruncatedVarint
      else
        let byte = buf ! pos; pos = pos + 1 in
        if 64 \<le> shift then Err VarintTooLong
        else
          let acc = acc OR shl_u64 (ucast (byte AND 0x7f)) shift in
          if byte AND 0x80 = 0 then Ok (acc, pos)
          else proto_read_varint_loop buf pos acc (shift + 7))"
  by pat_completeness auto
termination
  by (relation "measure (\<lambda>(buf, pos, _). length buf - pos)") auto

declare proto_read_varint_loop.simps [simp del]

definition proto_read_varint :: "bytes \<Rightarrow> nat \<Rightarrow> (proto_error, u64 \<times> nat) result" where
  "proto_read_varint buf pos = proto_read_varint_loop buf pos 0 0"

text \<open>
  The bound check adds the position and the length as machine words.  When the
  sum wraps, the check passes and the slice \<open>buf[pos..pos + len]\<close> panics.
\<close>

definition read_len_slice :: "bytes \<Rightarrow> nat \<Rightarrow> (proto_error, bytes \<times> nat) result" where
  "read_len_slice buf pos =
     and_then (proto_read_varint buf pos) (\<lambda>(len, pos).
       let end = (pos + unat len) mod 2 ^ 64 in
       if length buf < end then Err LengthExceedsBuffer
       else if end < pos then Err SlicePanic
       else Ok (slice buf pos end, end))"

definition next_tag :: "bytes \<Rightarrow> nat \<Rightarrow> (proto_error, ((u32 \<times> WireType) \<times> nat) option) result" where
  "next_tag buf pos =
     (if length buf \<le> pos then Ok None
      else
        and_then (proto_read_varint buf pos) (\<lambda>(key, pos).
        and_then (WireType_from_u64 (key AND 7)) (\<lambda>wire.
          Ok (Some ((ucast (shr_u64 key 3), wire), pos)))))"

definition proto_skip :: "WireType \<Rightarrow> bytes \<Rightarrow> nat \<Rightarrow> (proto_error, nat) result" where
  "proto_skip wire buf pos =
     (case wire of
        Varint \<Rightarrow> and_then (proto_read_varint buf pos) (\<lambda>(_, pos). Ok pos)
      | Len \<Rightarrow> and_then (read_len_slice buf pos) (\<lambda>(_, pos). Ok pos)
      | Fixed64 \<Rightarrow> if length buf < pos + 8 then Err TruncatedFixed64 else Ok (pos + 8)
      | Fixed32 \<Rightarrow> if length buf < pos + 4 then Err TruncatedFixed32 else Ok (pos + 4)
      | StartGroup \<Rightarrow> Err GroupsNotSupported
      | EndGroup \<Rightarrow> Err GroupsNotSupported)"

text \<open>
  Every \<open>decode\<close> has the same loop over the fields around its own match; an arm
  of the match stores a length-delimited value, stores an integer, or skips.
\<close>

datatype 'm arm = TakeLen "bytes \<Rightarrow> 'm \<Rightarrow> 'm" | TakeVarint "u64 \<Rightarrow> 'm \<Rightarrow> 'm" | SkipField

definition run_arm :: "'m arm \<Rightarrow> WireType \<Rightarrow> 'm \<Rightarrow> bytes \<Rightarrow> nat \<Rightarrow> (proto_error, 'm \<times> nat) result" where
  "run_arm a wire m buf pos =
     (case a of
        TakeLen f \<Rightarrow> and_then (read_len_slice buf pos) (\<lambda>(bs, pos). Ok (f bs m, pos))
      | TakeVarint f \<Rightarrow> and_then (proto_read_varint buf pos) (\<lambda>(v, pos). Ok (f v m, pos))
      | SkipField \<Rightarrow> and_then (proto_skip wire buf pos) (\<lambda>pos. Ok (m, pos)))"

lemma proto_read_varint_loop_bounds:
  "proto_read_varint_loop buf pos acc shift = Ok (v, next) \<Longrightarrow> pos < next \<and> next \<le> length buf"
proof (induction buf pos acc shift rule: proto_read_varint_loop.induct)
  case (1 buf pos acc shift)
  from "1.prems" show ?case
    by (subst (asm) proto_read_varint_loop.simps)
      (auto simp: Let_def split: if_splits dest!: "1.IH" [rotated -1])
qed

lemma proto_read_varint_bounds:
  "proto_read_varint buf pos = Ok (v, next) \<Longrightarrow> pos < next \<and> next \<le> length buf"
  unfolding proto_read_varint_def by (rule proto_read_varint_loop_bounds)

lemma read_len_slice_bounds:
  "read_len_slice buf pos = Ok (bs, next) \<Longrightarrow> pos < next \<and> next \<le> length buf"
  by (auto simp: read_len_slice_def and_then_Ok_iff Let_def split: if_splits
      dest!: proto_read_varint_bounds)

lemma next_tag_bounds:
  "next_tag buf pos = Ok (Some (tag, next)) \<Longrightarrow> pos < length buf \<and> pos < next \<and> next \<le> length buf"
  by (auto simp: next_tag_def and_then_Ok_iff split: if_splits dest!: proto_read_varint_bounds)

lemma run_arm_bounds: "run_arm a wire m buf pos = Ok (m', next) \<Longrightarrow> pos \<le> next"
  by (cases a; cases wire)
    (auto simp: run_arm_def proto_skip_def and_then_Ok_iff split: if_splits
      dest!: proto_read_varint_bounds read_len_slice_bounds)

function decode_fields ::
  "(u32 \<Rightarrow> WireType \<Rightarrow> 'm arm) \<Rightarrow> bytes \<Rightarrow> nat \<Rightarrow> 'm \<Rightarrow> (proto_error, 'm) result" where
  "decode_fields arm buf pos m =
     and_then (next_tag buf pos) (\<lambda>tag.
       case tag of
         None \<Rightarrow> Ok m
       | Some ((field, wire), pos) \<Rightarrow>
           and_then (run_arm (arm field wire) wire m buf pos) (\<lambda>(m, pos). decode_fields arm buf pos m))"
  by pat_completeness auto
termination
  by (relation "measure (\<lambda>(arm, buf, pos, m). length buf - pos)")
    (auto dest!: next_tag_bounds run_arm_bounds)

declare decode_fields.simps [simp del]

subsection \<open>Messages\<close>

record SubscribeRequest =
  sub_topic :: bytes

definition SubscribeRequest_arm :: "u32 \<Rightarrow> WireType \<Rightarrow> SubscribeRequest arm" where
  "SubscribeRequest_arm field wire =
     (if field = 1 \<and> wire = Len then TakeLen (\<lambda>bs. sub_topic_update (\<lambda>_. from_utf8_lossy bs))
      else SkipField)"

definition SubscribeRequest_decode :: "bytes \<Rightarrow> (proto_error, SubscribeRequest) result" where
  "SubscribeRequest_decode buf = decode_fields SubscribeRequest_arm buf 0 \<lparr>sub_topic = []\<rparr>"

record Record =
  rec_offset :: u64
  rec_key :: bytes
  rec_value :: bytes
  timestamp_ms :: i64
  rec_topic :: bytes

definition Record_encode :: "Record \<Rightarrow> bytes" where
  "Record_encode r =
     write_varint_field 1 (rec_offset r) @ write_len_field 2 (rec_key r) @
     write_len_field 3 (rec_value r) @ write_varint_field 4 (timestamp_ms r) @
     write_len_field 5 (rec_topic r)"

record PublishRequest =
  pub_topic :: bytes
  pub_key :: bytes
  pub_value :: bytes
  has_partition :: bool
  pub_partition :: u32

definition PublishRequest_arm :: "u32 \<Rightarrow> WireType \<Rightarrow> PublishRequest arm" where
  "PublishRequest_arm field wire =
     (if field = 1 \<and> wire = Len then TakeLen (\<lambda>bs. pub_topic_update (\<lambda>_. from_utf8_lossy bs))
      else if field = 2 \<and> wire = Len then TakeLen (\<lambda>bs. pub_key_update (\<lambda>_. bs))
      else if field = 3 \<and> wire = Len then TakeLen (\<lambda>bs. pub_value_update (\<lambda>_. bs))
      else if field = 4 \<and> wire = Varint then TakeVarint (\<lambda>v. has_partition_update (\<lambda>_. v \<noteq> 0))
      else if field = 5 \<and> wire = Varint then TakeVarint (\<lambda>v. pub_partition_update (\<lambda>_. ucast v))
      else SkipField)"

definition PublishRequest_default :: PublishRequest where
  "PublishRequest_default =
     \<lparr>pub_topic = [], pub_key = [], pub_value = [], has_partition = False, pub_partition = 0\<rparr>"

definition PublishRequest_decode :: "bytes \<Rightarrow> (proto_error, PublishRequest) result" where
  "PublishRequest_decode buf = decode_fields PublishRequest_arm buf 0 PublishRequest_default"

record PublishResponse =
  resp_partition :: u32
  resp_offset :: u64

definition PublishResponse_encode :: "PublishResponse \<Rightarrow> bytes" where
  "PublishResponse_encode r =
     write_varint_field 1 (ucast (resp_partition r)) @ write_varint_field 2 (resp_offset r)"

record PollRequest =
  poll_topic :: bytes
  poll_partition :: u32
  poll_group :: bytes
  poll_max :: u32

definition PollRequest_arm :: "u32 \<Rightarrow> WireType \<Rightarrow> PollRequest arm" where
  "PollRequest_arm field wire =
     (if field = 1 \<and> wire = Len then TakeLen (\<lambda>bs. poll_topic_update (\<lambda>_. from_utf8_lossy bs))
      else if field = 2 \<and> wire = Varint then TakeVarint (\<lambda>v. poll_partition_update (\<lambda>_. ucast v))
      else if field = 3 \<and> wire = Len then TakeLen (\<lambda>bs. poll_group_update (\<lambda>_. from_utf8_lossy bs))
      else if field = 4 \<and> wire = Varint then TakeVarint (\<lambda>v. poll_max_update (\<lambda>_. ucast v))
      else SkipField)"

definition PollRequest_decode :: "bytes \<Rightarrow> (proto_error, PollRequest) result" where
  "PollRequest_decode buf =
     decode_fields PollRequest_arm buf 0
       \<lparr>poll_topic = [], poll_partition = 0, poll_group = [], poll_max = 0\<rparr>"

definition PollResponse_encode :: "Record list \<Rightarrow> bytes" where
  "PollResponse_encode records = concat (map (\<lambda>r. write_len_field 1 (Record_encode r)) records)"

record CreateTopicRequest =
  create_name :: bytes

definition CreateTopicRequest_arm :: "u32 \<Rightarrow> WireType \<Rightarrow> CreateTopicRequest arm" where
  "CreateTopicRequest_arm field wire =
     (if field = 1 \<and> wire = Len then TakeLen (\<lambda>bs. create_name_update (\<lambda>_. from_utf8_lossy bs))
      else SkipField)"

definition CreateTopicRequest_decode :: "bytes \<Rightarrow> (proto_error, CreateTopicRequest) result" where
  "CreateTopicRequest_decode buf = decode_fields CreateTopicRequest_arm buf 0 \<lparr>create_name = []\<rparr>"

subsection \<open>What is written is read back\<close>

lemma proto_write_varint_eq: "proto_write_varint v = write_varint v"
proof (induction v rule: proto_write_varint.induct)
  case (1 v)
  then show ?case
    by (subst proto_write_varint.simps, subst write_varint.simps) (simp add: Let_def)
qed

lemma proto_read_varint_loop_write:
  "s < 64 \<Longrightarrow> unat v < 2 ^ (64 - s) \<Longrightarrow>
   proto_read_varint_loop (pre @ write_varint v @ rest) (length pre) acc s
     = Ok (acc OR shl_u64 v s, length pre + length (write_varint v))"
proof (induction v arbitrary: pre acc s rule: write_varint.induct)
  case (1 v)
  show ?case
  proof (cases "shr_u64 v 7 = 0")
    case True
    have "write_varint v = [ucast (v AND 0x7f)]"
      by (subst write_varint.simps) (simp add: Let_def True)
    then show ?thesis
      using group_flag [of v] group_low [of v] group_widen [of v] \<open>s < 64\<close>
      by (subst proto_read_varint_loop.simps) (simp add: Let_def nth_append shr_7_single [OF True])
  next
    case False
    note fits = shr_7_fits [OF \<open>unat v < 2 ^ (64 - s)\<close> False \<open>s < 64\<close>]
    let ?b = "ucast (v AND 0x7f) OR 0x80 :: u8"
    have w: "write_varint v = ?b # write_varint (shr_u64 v 7)"
      by (subst write_varint.simps) (simp add: Let_def False)
    have "proto_read_varint_loop (pre @ write_varint v @ rest) (length pre) acc s
        = proto_read_varint_loop ((pre @ [?b]) @ write_varint (shr_u64 v 7) @ rest) (length (pre @ [?b]))
            (acc OR shl_u64 (v AND 0x7f) s) (s + 7)"
      unfolding w using \<open>s < 64\<close>
      by (subst proto_read_varint_loop.simps) (simp add: Let_def nth_append group_simps)
    also have "\<dots> = Ok ((acc OR shl_u64 (v AND 0x7f) s) OR shl_u64 (shr_u64 v 7) (s + 7),
        length (pre @ [?b]) + length (write_varint (shr_u64 v 7)))"
      by (rule "1.IH" [OF refl refl False fits])
    finally show ?thesis
      by (simp add: w or.assoc shr_7_join [OF fits(1)])
  qed
qed

lemma proto_read_varint_write [codec]:
  "pos = length pre \<Longrightarrow> proto_read_varint (pre @ proto_write_varint v @ rest) pos
     = Ok (v, pos + length (proto_write_varint v))"
  unfolding proto_read_varint_def proto_write_varint_eq
  using unat_u64_less [of v] by (simp add: proto_read_varint_loop_write)

lemma proto_varint_nonempty [simp]: "proto_write_varint v \<noteq> []"
  by (subst proto_write_varint.simps) (simp add: Let_def)

text \<open>
  The fields of a message as they can be on the wire, and their encoding.  A
  client of the service sends requests as such a sequence.
\<close>

datatype wire_field =
    VarintField u32 u64 | LenField u32 bytes | Fixed64Field u32 bytes | Fixed32Field u32 bytes

fun encode_field :: "wire_field \<Rightarrow> bytes" where
  "encode_field (VarintField n v) = write_tag n 0 @ proto_write_varint v"
| "encode_field (LenField n bs) = write_tag n 2 @ proto_write_varint (word_of_nat (length bs)) @ bs"
| "encode_field (Fixed64Field n bs) = write_tag n 1 @ bs"
| "encode_field (Fixed32Field n bs) = write_tag n 5 @ bs"

fun wf_field :: "wire_field \<Rightarrow> bool" where
  "wf_field (VarintField n v) = True"
| "wf_field (LenField n bs) = True"
| "wf_field (Fixed64Field n bs) = (length bs = 8)"
| "wf_field (Fixed32Field n bs) = (length bs = 4)"

definition encode_fields :: "wire_field list \<Rightarrow> bytes" where
  "encode_fields fs = concat (map encode_field fs)"

fun apply_field :: "(u32 \<Rightarrow> WireType \<Rightarrow> 'm arm) \<Rightarrow> wire_field \<Rightarrow> 'm \<Rightarrow> 'm" where
  "apply_field arm (VarintField n v) m = (case arm n Varint of TakeVarint f \<Rightarrow> f v m | _ \<Rightarrow> m)"
| "apply_field arm (LenField n bs) m = (case arm n Len of TakeLen f \<Rightarrow> f bs m | _ \<Rightarrow> m)"
| "apply_field arm (Fixed64Field n bs) m = m"
| "apply_field arm (Fixed32Field n bs) m = m"

text \<open>An arm only takes a value of the wire type it matched.\<close>

definition arm_ok :: "(u32 \<Rightarrow> WireType \<Rightarrow> 'm arm) \<Rightarrow> bool" where
  "arm_ok arm \<longleftrightarrow>
     (\<forall>n w. case arm n w of TakeLen f \<Rightarrow> w = Len | TakeVarint f \<Rightarrow> w = Varint | SkipField \<Rightarrow> True)"

lemma tag_parts:
  assumes "take_bit 3 wire = wire"
  shows "ucast (shr_u64 (shl_u64 (ucast n) 3 OR wire) 3) = (n :: u32)"
    and "(shl_u64 (ucast n) 3 OR wire) AND 7 = wire"
proof -
  have w: "\<not> bit wire i" if "3 \<le> i" for i
    using bit_take_bit_iff [of 3 wire i] that by (simp add: assms)
  have seven: "(7 :: u64) = mask 3" by (simp add: mask_eq_exp_minus_1)
  show "ucast (shr_u64 (shl_u64 (ucast n) 3 OR wire) 3) = n"
  proof (rule bit_word_eqI)
    fix i
    assume "i < LENGTH(32)"
    moreover have "\<not> bit wire (3 + i)" using w [of "3 + i"] by simp
    ultimately show "bit (ucast (shr_u64 (shl_u64 (ucast n) 3 OR wire) 3) :: u32) i = bit n i"
      unfolding shl_u64_def shr_u64_def
      by (simp only: bit_unsigned_iff bit_drop_bit_eq comp_def bit_or_iff bit_push_bit_iff) auto
  qed
  show "(shl_u64 (ucast n) 3 OR wire) AND 7 = wire"
    unfolding seven shl_u64_def
  proof (rule bit_word_eqI)
    fix i
    show "bit ((push_bit (3 mod 64) (ucast n) OR wire) AND mask 3) i = bit wire i"
      using w [of i] by (cases "i < 3") (simp_all only: bit_and_iff bit_or_iff bit_push_bit_iff bit_mask_iff, auto)
  qed
qed

lemma next_tag_write:
  assumes "take_bit 3 wire = wire" "WireType_from_u64 wire = Ok w" "pos = length pre"
  shows "next_tag (pre @ write_tag n wire @ rest) pos = Ok (Some ((n, w), pos + length (write_tag n wire)))"
  using assms
  by (simp add: next_tag_def write_tag_def proto_read_varint_write tag_parts)

lemma read_len_slice_write:
  assumes "pos = length pre" "length pre + length (proto_write_varint (word_of_nat (length bs))) + length bs < 2 ^ 64"
  shows "read_len_slice (pre @ proto_write_varint (word_of_nat (length bs)) @ bs @ rest) pos
    = Ok (bs, pos + length (proto_write_varint (word_of_nat (length bs))) + length bs)"
proof -
  have "unat (word_of_nat (length bs) :: u64) = length bs" using assms(2) by (simp add: unat_of_nat)
  with assms show ?thesis
    using slice_chunk [of "length (pre @ proto_write_varint (word_of_nat (length bs)))"
        "pre @ proto_write_varint (word_of_nat (length bs))"
        "length (pre @ proto_write_varint (word_of_nat (length bs))) + length bs" bs rest]
    by (simp add: read_len_slice_def proto_read_varint_write Let_def)
qed

lemma wire_types [simp]:
  "WireType_from_u64 0 = Ok Varint" "WireType_from_u64 1 = Ok Fixed64"
  "WireType_from_u64 2 = Ok Len" "WireType_from_u64 5 = Ok Fixed32"
  by (simp_all add: WireType_from_u64_def)

lemma arm_ok_other: "arm_ok arm \<Longrightarrow> w \<notin> {Len, Varint} \<Longrightarrow> arm n w = SkipField"
  unfolding arm_ok_def by (cases "arm n w") (auto dest!: spec [of _ n] spec [of _ w])

lemma decode_one_field:
  assumes "arm_ok arm" "wf_field f" "pos = length pre" "length (pre @ encode_field f) < 2 ^ 64"
  shows "decode_fields arm (pre @ encode_field f @ rest) pos m
    = decode_fields arm (pre @ encode_field f @ rest) (length (pre @ encode_field f)) (apply_field arm f m)"
proof (cases f)
  case (VarintField n v)
  have "next_tag (pre @ write_tag n 0 @ proto_write_varint v @ rest) pos
      = Ok (Some ((n, Varint), length (pre @ write_tag n 0)))"
    using next_tag_write [of 0 Varint pos pre n] assms(3) by simp
  moreover have "run_arm (arm n Varint) Varint m (pre @ write_tag n 0 @ proto_write_varint v @ rest)
      (length (pre @ write_tag n 0)) = Ok (apply_field arm f m, length (pre @ encode_field f))"
    using assms(1) proto_read_varint_write [of _ "pre @ write_tag n 0" v rest]
    by (auto simp: VarintField arm_ok_def run_arm_def proto_skip_def split: arm.split
        dest!: spec [of _ n] spec [of _ Varint])
  ultimately show ?thesis
    by (subst decode_fields.simps) (simp add: VarintField)
next
  case (LenField n bs)
  let ?l = "proto_write_varint (word_of_nat (length bs))"
  have "next_tag (pre @ write_tag n 2 @ ?l @ bs @ rest) pos = Ok (Some ((n, Len), length (pre @ write_tag n 2)))"
    using next_tag_write [of 2 Len pos pre n] assms(3) by simp
  moreover have "run_arm (arm n Len) Len m (pre @ write_tag n 2 @ ?l @ bs @ rest)
      (length (pre @ write_tag n 2)) = Ok (apply_field arm f m, length (pre @ encode_field f))"
    using assms(1,4) read_len_slice_write [of _ "pre @ write_tag n 2" bs rest]
    by (auto simp: LenField arm_ok_def run_arm_def proto_skip_def split: arm.split
        dest!: spec [of _ n] spec [of _ Len])
  ultimately show ?thesis
    by (subst decode_fields.simps) (simp add: LenField)
next
  case (Fixed64Field n bs)
  have "next_tag (pre @ write_tag n 1 @ bs @ rest) pos = Ok (Some ((n, Fixed64), length (pre @ write_tag n 1)))"
    using next_tag_write [of 1 Fixed64 pos pre n] assms(3) by simp
  moreover have "arm n Fixed64 = SkipField" using arm_ok_other [OF assms(1), of Fixed64 n] by simp
  ultimately show ?thesis
    using assms(2) by (subst decode_fields.simps) (simp add: Fixed64Field run_arm_def proto_skip_def add.assoc)
next
  case (Fixed32Field n bs)
  have "next_tag (pre @ write_tag n 5 @ bs @ rest) pos = Ok (Some ((n, Fixed32), length (pre @ write_tag n 5)))"
    using next_tag_write [of 5 Fixed32 pos pre n] assms(3) by simp
  moreover have "arm n Fixed32 = SkipField" using arm_ok_other [OF assms(1), of Fixed32 n] by simp
  ultimately show ?thesis
    using assms(2) by (subst decode_fields.simps) (simp add: Fixed32Field run_arm_def proto_skip_def add.assoc)
qed

lemma decode_fields_end: "decode_fields arm buf (length buf) m = Ok m"
  by (subst decode_fields.simps) (simp add: next_tag_def)

lemma decode_fields_encode:
  "arm_ok arm \<Longrightarrow> list_all wf_field fs \<Longrightarrow> length (pre @ encode_fields fs) < 2 ^ 64 \<Longrightarrow>
   decode_fields arm (pre @ encode_fields fs) (length pre) m = Ok (fold (apply_field arm) fs m)"
proof (induction fs arbitrary: pre m)
  case Nil
  then show ?case using decode_fields_end [of arm pre m] by (simp add: encode_fields_def)
next
  case (Cons f fs)
  have e: "encode_fields (f # fs) = encode_field f @ encode_fields fs" by (simp add: encode_fields_def)
  have "decode_fields arm (pre @ encode_fields (f # fs)) (length pre) m
      = decode_fields arm ((pre @ encode_field f) @ encode_fields fs) (length (pre @ encode_field f)) (apply_field arm f m)"
    using decode_one_field [OF Cons.prems(1), of f "length pre" pre "encode_fields fs" m] Cons.prems(2,3)
    by (simp add: e)
  also have "\<dots> = Ok (fold (apply_field arm) fs (apply_field arm f m))"
    using Cons.prems by (intro Cons.IH) (auto simp: e)
  finally show ?case by simp
qed

lemma arms_ok:
  "arm_ok SubscribeRequest_arm" "arm_ok PublishRequest_arm" "arm_ok PollRequest_arm" "arm_ok CreateTopicRequest_arm"
  by (auto simp: arm_ok_def SubscribeRequest_arm_def PublishRequest_arm_def PollRequest_arm_def
      CreateTopicRequest_arm_def)

fun field_number :: "wire_field \<Rightarrow> u32" where
  "field_number (VarintField n v) = n"
| "field_number (LenField n bs) = n"
| "field_number (Fixed64Field n bs) = n"
| "field_number (Fixed32Field n bs) = n"

lemma publish_unknown_field:
  "field_number f \<notin> {1, 2, 3, 4, 5} \<Longrightarrow> apply_field PublishRequest_arm f m = m"
  by (cases f) (auto simp: PublishRequest_arm_def)

lemma fold_filter_id: "(\<And>x m. \<not> P x \<Longrightarrow> g x m = m) \<Longrightarrow> fold g (filter P xs) m = fold g xs m"
  by (induction xs arbitrary: m) auto

text \<open>
  A publish request decodes from any sequence of well-formed fields, in any
  order and with any field repeated: the last value of a known field wins and
  fields with unknown numbers, of every wire type, make no difference.
\<close>

theorem publish_request_decodes:
  assumes "list_all wf_field fs" and "length (encode_fields fs) < 2 ^ 64"
  shows "PublishRequest_decode (encode_fields fs)
           = Ok (fold (apply_field PublishRequest_arm) fs PublishRequest_default)
       \<and> PublishRequest_decode (encode_fields (filter (\<lambda>f. field_number f \<in> {1, 2, 3, 4, 5}) fs))
           = PublishRequest_decode (encode_fields fs)"
proof -
  let ?known = "filter (\<lambda>f. field_number f \<in> {1, 2, 3, 4, 5}) fs"
  have "length (encode_fields ?known) \<le> length (encode_fields fs)"
    by (induction fs) (auto simp: encode_fields_def)
  then have "length (encode_fields ?known) < 2 ^ 64" using assms(2) by (rule le_less_trans)
  moreover have "list_all wf_field ?known" using assms(1) by (auto simp: list_all_iff)
  moreover have "fold (apply_field PublishRequest_arm) ?known PublishRequest_default
      = fold (apply_field PublishRequest_arm) fs PublishRequest_default"
    by (rule fold_filter_id) (rule publish_unknown_field)
  ultimately show ?thesis
    using decode_fields_encode [OF arms_ok(2), of _ "[]"] assms
    by (simp add: PublishRequest_decode_def)
qed

definition example_publish :: "wire_field list" where
  "example_publish = [VarintField 9 7, LenField 1 [0x74], LenField 3 [1, 2], Fixed64Field 8 [1, 2, 3, 4, 5, 6, 7, 8],
     LenField 3 [9], VarintField 5 3]"

lemma length_write_varint: "length (proto_write_varint v) \<le> 65"
proof -
  have "length (write_varint v) \<le> 65 - s" if "unat v < 2 ^ (64 - s)" "s < 64" for s
    using that
  proof (induction v arbitrary: s rule: write_varint.induct)
    case (1 v)
    show ?case
    proof (cases "shr_u64 v 7 = 0")
      case True
      then show ?thesis using "1.prems"(2) by (subst write_varint.simps) (simp add: Let_def)
    next
      case False
      note fits = shr_7_fits [OF "1.prems"(1) False "1.prems"(2)]
      have "length (write_varint (shr_u64 v 7)) \<le> 65 - (s + 7)" by (rule "1.IH" [OF refl refl False fits(2,1)])
      then show ?thesis using fits(1) False by (subst write_varint.simps) (simp add: Let_def)
    qed
  qed
  from this [of 0] show ?thesis using unat_u64_less [of v] by (simp add: proto_write_varint_eq)
qed

lemma length_tag: "length (write_tag n w) \<le> 65"
  unfolding write_tag_def by (rule length_write_varint)

lemma length_encode_field_le:
  assumes "wf_field f"
  shows "length (encode_field f) \<le> 200 + (case f of LenField _ bs \<Rightarrow> length bs | _ \<Rightarrow> 0)"
proof (cases f)
  case (VarintField n v)
  then show ?thesis using length_tag [of n 0] length_write_varint [of v] by simp
next
  case (LenField n bs)
  then show ?thesis using length_tag [of n 2] length_write_varint [of "word_of_nat (length bs)"] by simp
next
  case (Fixed64Field n bs)
  then show ?thesis using assms length_tag [of n 1] by simp
next
  case (Fixed32Field n bs)
  then show ?thesis using assms length_tag [of n 5] by simp
qed

theorem publish_request_decodes_witness:
  "list_all wf_field example_publish \<and> length (encode_fields example_publish) < 2 ^ 64 \<and>
   PublishRequest_decode (encode_fields example_publish)
     = Ok \<lparr>pub_topic = [0x74], pub_key = [], pub_value = [9], has_partition = False, pub_partition = 3\<rparr>"
proof -
  have wf: "list_all wf_field example_publish" by (simp add: example_publish_def)
  have "length (encode_fields example_publish) \<le> 2000"
    using length_encode_field_le [of "VarintField 9 7"] length_encode_field_le [of "LenField 1 [0x74]"]
      length_encode_field_le [of "LenField 3 [1, 2]"] length_encode_field_le [of "LenField 3 [9]"]
      length_encode_field_le [of "VarintField 5 3"]
      length_encode_field_le [of "Fixed64Field 8 [1, 2, 3, 4, 5, 6, 7, 8]"]
    unfolding example_publish_def encode_fields_def
    by (simp del: encode_field.simps)
  then have len: "length (encode_fields example_publish) < 2 ^ 64" by simp
  have "from_utf8_lossy [0x74] = [0x74]" by (rule from_utf8_lossy_valid) (simp add: valid_utf8_ascii)
  then show ?thesis
    using publish_request_decodes [OF wf len] wf len
    by (simp add: example_publish_def PublishRequest_arm_def PublishRequest_default_def del: encode_field.simps)
qed

subsection \<open>Responses as a client reads them\<close>

text \<open>
  The other half of the service definition: how a client that follows the
  message schema reads a record and a poll response with the same field loop.
\<close>

definition Record_arm :: "u32 \<Rightarrow> WireType \<Rightarrow> Record arm" where
  "Record_arm field wire =
     (if field = 1 \<and> wire = Varint then TakeVarint (\<lambda>v. rec_offset_update (\<lambda>_. v))
      else if field = 2 \<and> wire = Len then TakeLen (\<lambda>bs. rec_key_update (\<lambda>_. bs))
      else if field = 3 \<and> wire = Len then TakeLen (\<lambda>bs. rec_value_update (\<lambda>_. bs))
      else if field = 4 \<and> wire = Varint then TakeVarint (\<lambda>v. timestamp_ms_update (\<lambda>_. v))
      else if field = 5 \<and> wire = Len then TakeLen (\<lambda>bs. rec_topic_update (\<lambda>_. bs))
      else SkipField)"

definition Record_default :: Record where
  "Record_default = \<lparr>rec_offset = 0, rec_key = [], rec_value = [], timestamp_ms = 0, rec_topic = []\<rparr>"

definition PollResponse_arm :: "u32 \<Rightarrow> WireType \<Rightarrow> bytes list arm" where
  "PollResponse_arm field wire = (if field = 1 \<and> wire = Len then TakeLen (\<lambda>bs ms. ms @ [bs]) else SkipField)"

definition varint_opt :: "u32 \<Rightarrow> u64 \<Rightarrow> wire_field list" where
  "varint_opt n v = (if v = 0 then [] else [VarintField n v])"

definition len_opt :: "u32 \<Rightarrow> bytes \<Rightarrow> wire_field list" where
  "len_opt n bs = (if bs = [] then [] else [LenField n bs])"

lemma encode_fields_append: "encode_fields (fs @ gs) = encode_fields fs @ encode_fields gs"
  by (simp add: encode_fields_def)

lemma write_fields_eq:
  "write_varint_field n v = encode_fields (varint_opt n v)" "write_len_field n bs = encode_fields (len_opt n bs)"
  by (simp_all add: write_varint_field_def write_len_field_def varint_opt_def len_opt_def encode_fields_def)

lemma opt_fields_wf [simp]: "list_all wf_field (varint_opt n v)" "list_all wf_field (len_opt n bs)"
  by (simp_all add: varint_opt_def len_opt_def)

definition record_fields :: "Record \<Rightarrow> wire_field list" where
  "record_fields r = varint_opt 1 (rec_offset r) @ len_opt 2 (rec_key r) @ len_opt 3 (rec_value r)
     @ varint_opt 4 (timestamp_ms r) @ len_opt 5 (rec_topic r)"

lemma Record_encode_fields: "Record_encode r = encode_fields (record_fields r)"
  by (simp add: Record_encode_def record_fields_def write_fields_eq encode_fields_append)

lemma record_fields_apply: "fold (apply_field Record_arm) (record_fields r) Record_default = r"
  by (auto simp: record_fields_def varint_opt_def len_opt_def Record_arm_def Record_default_def)

text \<open>
  A record that the server pushes reads back as the same record, whatever
  its offset, key, value, time stamp and topic.
\<close>

theorem record_round_trip:
  assumes "length (Record_encode r) < 2 ^ 64"
  shows "decode_fields Record_arm (Record_encode r) 0 Record_default = Ok r"
proof -
  have "arm_ok Record_arm" by (auto simp: arm_ok_def Record_arm_def)
  moreover have "list_all wf_field (record_fields r)" by (simp add: record_fields_def)
  ultimately show ?thesis
    using decode_fields_encode [of Record_arm "record_fields r" "[]"] assms
    by (simp add: Record_encode_fields record_fields_apply)
qed

theorem record_round_trip_witness:
  "length (Record_encode \<lparr>rec_offset = 7, rec_key = [], rec_value = [1, 2], timestamp_ms = - 1, rec_topic = [0x74]\<rparr>) < 2 ^ 64 \<and>
   decode_fields Record_arm
     (Record_encode \<lparr>rec_offset = 7, rec_key = [], rec_value = [1, 2], timestamp_ms = - 1, rec_topic = [0x74]\<rparr>)
     0 Record_default = Ok \<lparr>rec_offset = 7, rec_key = [], rec_value = [1, 2], timestamp_ms = - 1, rec_topic = [0x74]\<rparr>"
proof -
  let ?r = "\<lparr>rec_offset = 7, rec_key = [], rec_value = [1, 2], timestamp_ms = - 1, rec_topic = [0x74]\<rparr>"
  have "length (Record_encode ?r) \<le> 2000"
    using length_encode_field_le [of "VarintField 1 7"] length_encode_field_le [of "LenField 3 [1, 2]"]
      length_encode_field_le [of "VarintField 4 (- 1)"] length_encode_field_le [of "LenField 5 [0x74]"]
    by (simp add: Record_encode_fields record_fields_def varint_opt_def len_opt_def encode_fields_def
        del: encode_field.simps)
  then show ?thesis using record_round_trip [of ?r] by simp
qed

lemma record_fields_Nil: "encode_fields (record_fields r) = [] \<longleftrightarrow> r = Record_default"
  by (auto simp: record_fields_def encode_fields_def varint_opt_def len_opt_def Record_default_def write_tag_def)

lemma poll_fields:
  "PollResponse_encode rs = encode_fields (concat (map (\<lambda>r. len_opt 1 (Record_encode r)) rs))"
  by (induction rs) (simp_all add: PollResponse_encode_def write_fields_eq encode_fields_def)

lemma poll_fields_apply:
  "fold (apply_field PollResponse_arm) (concat (map (\<lambda>r. len_opt 1 (Record_encode r)) rs)) ms
     = ms @ map Record_encode (filter (\<lambda>r. r \<noteq> Record_default) rs)"
  by (induction rs arbitrary: ms)
    (auto simp: len_opt_def PollResponse_arm_def Record_encode_fields record_fields_Nil)

text \<open>
  A poll response carries its records in order, except that a record whose
  fields all have their default values is dropped: the length-delimited writer
  leaves out an empty value also where the value is an element of a repeated
  field.
\<close>

theorem poll_response_records:
  assumes "length (PollResponse_encode rs) < 2 ^ 64"
  shows "decode_fields PollResponse_arm (PollResponse_encode rs) 0 []
     = Ok (map Record_encode (filter (\<lambda>r. r \<noteq> Record_default) rs))"
proof -
  have "arm_ok PollResponse_arm" by (auto simp: arm_ok_def PollResponse_arm_def)
  moreover have "list_all wf_field (concat (map (\<lambda>r. len_opt 1 (Record_encode r)) rs))"
    by (induction rs) simp_all
  ultimately show ?thesis
    using decode_fields_encode [of PollResponse_arm _ "[]"] assms by (simp add: poll_fields poll_fields_apply)
qed

theorem poll_response_records_witness:
  "length (PollResponse_encode [Record_default, Record_default\<lparr>rec_topic := [0x74]\<rparr>]) < 2 ^ 64 \<and>
   decode_fields PollResponse_arm (PollResponse_encode [Record_default, Record_default\<lparr>rec_topic := [0x74]\<rparr>]) 0 []
     = Ok [Record_encode (Record_default\<lparr>rec_topic := [0x74]\<rparr>)]"
proof -
  let ?rs = "[Record_default, Record_default\<lparr>rec_topic := [0x74]\<rparr>]"
  let ?b = "Record_encode (Record_default\<lparr>rec_topic := [0x74]\<rparr>)"
  have b: "length ?b \<le> 201" using length_encode_field_le [of "LenField 5 [0x74]"]
    by (simp add: Record_encode_fields record_fields_def varint_opt_def len_opt_def encode_fields_def
        Record_default_def del: encode_field.simps)
  have "Record_encode Record_default = []"
    by (simp only: Record_encode_fields record_fields_Nil)
  moreover have "?b \<noteq> []"
    by (simp add: Record_encode_fields record_fields_Nil) (simp add: Record_default_def)
  ultimately have "PollResponse_encode ?rs = encode_field (LenField 1 ?b)"
    by (simp add: PollResponse_encode_def write_len_field_def)
  then have "length (PollResponse_encode ?rs) \<le> 401"
    using length_encode_field_le [of "LenField 1 ?b"] b by simp
  then have "length (PollResponse_encode ?rs) < 2 ^ 64" by simp
  with poll_response_records [OF this] show ?thesis by (simp add: Record_default_def)
qed

text \<open>
  A length prefix near 2^64 makes the server's decoder panic: the sum of the
  position and the length wraps around, the bound check passes, and the slice has
  its end before its start.
\<close>

theorem length_prefix_panics:
  "PublishRequest_decode (write_tag 1 2 @ proto_write_varint (- 1)) = Err SlicePanic"
proof -
  let ?buf = "write_tag 1 2 @ proto_write_varint (- 1)"
  let ?p = "length (write_tag 1 2)" and ?q = "length ?buf"
  have tag: "next_tag ?buf 0 = Ok (Some ((1, Len), ?p))"
    using next_tag_write [of 2 Len 0 "[]" 1 "proto_write_varint (- 1)"] by simp
  have v: "proto_read_varint ?buf ?p = Ok (- 1, ?q)"
    using proto_read_varint_write [of ?p "write_tag 1 2" "- 1" "[]"] by simp
  have q: "0 < ?q" "?q \<le> 130"
    using length_tag [of 1 2] length_write_varint [of "- 1"] by (simp_all del: length_greater_0_conv) (simp add: write_tag_def)
  then have "(?q + (2 ^ 64 - 1)) mod 2 ^ 64 = ?q - 1"
  proof -
    have "?q + (2 ^ 64 - 1) = (?q - 1) + 2 ^ 64" using q(1) by simp
    then have "(?q + (2 ^ 64 - 1)) mod 2 ^ 64 = (?q - 1) mod 2 ^ 64" by (simp only: mod_add_self2)
    also have "\<dots> = ?q - 1" using q(2) by (intro mod_less) simp
    finally show ?thesis .
  qed
  then have "read_len_slice ?buf ?p = Err SlicePanic"
    using q(1) by (simp only: read_len_slice_def v and_then.simps prod.case unat_max_u64 Let_def) simp
  then show ?thesis
    unfolding PublishRequest_decode_def
    by (subst decode_fields.simps) (simp add: tag PublishRequest_arm_def run_arm_def)
qed

end
