(* ===== verification/AccessTypes.thy ===== *)
theory AccessTypes
  imports Prelude
begin

text \<open>
  The privileges of wire/privileges.rs and the objects they are granted on, with
  the texts under which both are stored.
\<close>

datatype PrivilegeRepr = Select | Insert | Update | Delete | Create | Drop | Usage | All

fun as_str :: "PrivilegeRepr \<Rightarrow> bytes" where
  "as_str Select = ascii ''select''"
| "as_str Insert = ascii ''insert''"
| "as_str Update = ascii ''update''"
| "as_str Delete = ascii ''delete''"
| "as_str Create = ascii ''create''"
| "as_str Drop = ascii ''drop''"
| "as_str Usage = ascii ''usage''"
| "as_str All = ascii ''all''"

lemma as_str_inject [simp]: "as_str p = as_str q \<longleftrightarrow> p = q"
  by (cases p; cases q) (simp_all add: ascii_def)

record GrantObjectRepr =
  go_kind :: bytes
  go_name :: bytes

definition object_table :: "bytes \<Rightarrow> GrantObjectRepr" where
  "object_table name = \<lparr>go_kind = ascii ''TABLE'', go_name = name\<rparr>"

definition object_database :: GrantObjectRepr where
  "object_database = \<lparr>go_kind = ascii ''DATABASE'', go_name = []\<rparr>"

definition object_topic :: "bytes \<Rightarrow> GrantObjectRepr" where
  "object_topic name = \<lparr>go_kind = ascii ''TOPIC'', go_name = name\<rparr>"

definition object_label :: "GrantObjectRepr \<Rightarrow> bytes" where
  "object_label ob =
     (if go_kind ob = ascii ''DATABASE'' then ascii ''DATABASE''
      else if go_kind ob = ascii ''TOPIC'' then ascii ''TOPIC '' @ go_name ob
      else ascii ''TABLE '' @ go_name ob)"

end
