(* ===== verification/Grpc.thy ===== *)
theory Grpc
  imports Http2 Hpack Proto Flux AccessTypes
begin

unbundle bit_operations_syntax

text \<open>
  The Flux gRPC endpoint (\<open>wire/grpc/mod.rs\<close>): the state of a connection and of
  its streams, every frame handler, flow control, the gRPC message envelope and
  the dispatch of calls.  The database is an argument: the operations of
  \<open>storage::database\<close> that the endpoint calls are the fields of \<open>flux_ops\<close>.
  The bytes on the socket are the list of the frames written.  A handler returns
  the error that ends the session together with the state it leaves.
\<close>

definition DEFAULT_INITIAL_WINDOW :: u32 where "DEFAULT_INITIAL_WINDOW = 65535"

definition GRPC_OK :: u8 where "GRPC_OK = 0"
definition GRPC_PERMISSION_DENIED :: u8 where "GRPC_PERMISSION_DENIED = 7"
definition GRPC_UNIMPLEMENTED :: u8 where "GRPC_UNIMPLEMENTED = 12"
definition GRPC_INTERNAL :: u8 where "GRPC_INTERNAL = 13"
definition GRPC_UNAUTHENTICATED :: u8 where "GRPC_UNAUTHENTICATED = 16"

record ('d, 'a) flux_ops =
  authenticate_basic :: "'d \<Rightarrow> bytes option \<Rightarrow> (bytes, 'a) result"
  check_topic :: "'a \<Rightarrow> 'd \<Rightarrow> PrivilegeRepr \<Rightarrow> bytes \<Rightarrow> (bytes, unit) result"
  flux_publish :: "bytes \<Rightarrow> u32 option \<Rightarrow> bytes option \<Rightarrow> bytes \<Rightarrow> 'd \<Rightarrow> (bytes, u32 \<times> u64) result \<times> 'd"
  flux_poll :: "bytes \<Rightarrow> u32 \<Rightarrow> bytes \<Rightarrow> nat \<Rightarrow> 'd \<Rightarrow> (bytes, FluxRecord list) result \<times> 'd"
  flux_num_partitions :: "bytes \<Rightarrow> 'd \<Rightarrow> u32 option"
  create_topic :: "bytes \<Rightarrow> u32 \<Rightarrow> 'd \<Rightarrow> (bytes, unit) result \<times> 'd"

datatype grpc_error = Http2Error http2_error | HpackError hpack_error | Panicked

record Stream =
  path :: "bytes option"
  st_headers :: "Header list"
  body :: bytes
  req_ended :: bool
  send_window :: int
  outbound :: "bytes list"
  pending_trailers :: "(u8 \<times> bytes) option"
  subscribed_topic :: "bytes option"

definition Stream_new :: Stream where
  "Stream_new = \<lparr>path = None, st_headers = [], body = [], req_ended = False,
     send_window = int (unat DEFAULT_INITIAL_WINDOW), outbound = [], pending_trailers = None,
     subscribed_topic = None\<rparr>"

record 'd Conn =
  conn_db :: 'd
  written :: "Frame list"
  hpack :: Decoder
  peer_settings_acked :: bool
  pending_headers :: "bytes option"
  conn_send_window :: int
  peer_initial_window :: u32
  streams :: "u32 \<rightharpoonup> Stream"

definition Conn_new :: "'d \<Rightarrow> 'd Conn" where
  "Conn_new db = \<lparr>conn_db = db, written = [], hpack = Decoder_new, peer_settings_acked = False,
     pending_headers = None, conn_send_window = int (unat DEFAULT_INITIAL_WINDOW),
     peer_initial_window = DEFAULT_INITIAL_WINDOW, streams = (\<lambda>_. None)\<rparr>"

type_synonym 'd handler = "'d Conn \<Rightarrow> (grpc_error, unit) result \<times> 'd Conn"

fun and_next :: "(grpc_error, unit) result \<times> 'd Conn \<Rightarrow> 'd handler \<Rightarrow> (grpc_error, unit) result \<times> 'd Conn" where
  "and_next (Inl e, c) f = (Inl e, c)"
| "and_next (Inr _, c) f = f c"

lemma and_next_cong [fundef_cong]:
  assumes "p = q" and "\<And>u c. q = (Inr u, c) \<Longrightarrow> f c = g c"
  shows "and_next p f = and_next q g"
  using assms by (cases q; cases "fst q") auto

definition put_frame :: "u8 \<Rightarrow> u8 \<Rightarrow> u32 \<Rightarrow> bytes \<Rightarrow> 'd handler" where
  "put_frame ft fl sid bs c =
     (case write_frame ft fl sid bs of
        Inl e \<Rightarrow> (Err (Http2Error e), c)
      | Inr _ \<Rightarrow>
          (Ok (), c\<lparr>written := written c @
             [\<lparr>frame_type = ft, frame_flags = fl, stream_id = sid AND 0x7fffffff, payload = bs\<rparr>]\<rparr>))"

definition update_stream :: "u32 \<Rightarrow> (Stream \<Rightarrow> Stream) \<Rightarrow> 'd Conn \<Rightarrow> 'd Conn" where
  "update_stream sid f c =
     (case streams c sid of None \<Rightarrow> c | Some s \<Rightarrow> c\<lparr>streams := (streams c)(sid \<mapsto> f s)\<rparr>)"

definition remove_stream :: "u32 \<Rightarrow> 'd Conn \<Rightarrow> 'd Conn" where
  "remove_stream sid c = c\<lparr>streams := (streams c)(sid := None)\<rparr>"

subsection \<open>Message envelope\<close>

definition encode_grpc_message :: "bytes \<Rightarrow> bytes" where
  "encode_grpc_message bs = 0 # u32_to_be_bytes (len_u32 bs) @ bs"

definition decode_first_grpc_message :: "bytes \<Rightarrow> bytes option" where
  "decode_first_grpc_message bs =
     (if length bs < 5 then None
      else if bs ! 0 \<noteq> 0 then None
      else
        let len = unat (u32_from_be_bytes (slice bs 1 5)) in
        if length bs < 5 + len then None else Some (slice bs 5 (5 + len)))"

definition body_for :: "bytes \<Rightarrow> bytes" where
  "body_for bs = (case decode_first_grpc_message bs of Some m \<Rightarrow> m | None \<Rightarrow> [])"

subsection \<open>Sending\<close>

definition u8_to_string :: "u8 \<Rightarrow> bytes" where
  "u8_to_string w =
     (let n = unat w; digit = (\<lambda>d. word_of_nat (48 + d)) in
      if n < 10 then [digit n]
      else if n < 100 then [digit (n div 10), digit (n mod 10)]
      else [digit (n div 100), digit (n div 10 mod 10), digit (n mod 10)])"

definition put_window_update :: "u32 \<Rightarrow> u32 \<Rightarrow> 'd handler" where
  "put_window_update sid delta = put_frame FRAME_WINDOW_UPDATE 0 sid (u32_to_be_bytes delta)"

definition response_head :: "Header list" where
  "response_head = [(ascii '':status'', ascii ''200''), (ascii ''content-type'', ascii ''application/grpc'')]"

definition send_response_head :: "u32 \<Rightarrow> Header list \<Rightarrow> 'd handler" where
  "send_response_head sid extra =
     put_frame FRAME_HEADERS FLAG_END_HEADERS sid (hpack_encode (response_head @ extra))"

definition trailers :: "u8 \<Rightarrow> bytes \<Rightarrow> Header list" where
  "trailers status msg = [(ascii ''grpc-status'', u8_to_string status), (ascii ''grpc-message'', msg)]"

definition send_error :: "u32 \<Rightarrow> u8 \<Rightarrow> bytes \<Rightarrow> 'd handler" where
  "send_error sid status msg =
     put_frame FRAME_HEADERS (FLAG_END_HEADERS OR FLAG_END_STREAM) sid
       (hpack_encode (response_head @ trailers status msg))"

definition send_trailers :: "u32 \<Rightarrow> u8 \<Rightarrow> bytes \<Rightarrow> 'd handler" where
  "send_trailers sid status msg =
     put_frame FRAME_HEADERS (FLAG_END_HEADERS OR FLAG_END_STREAM) sid (hpack_encode (trailers status msg))"

text \<open>
  Send what is queued on a stream as long as a whole message fits both windows;
  when the queue is empty, send the trailers and forget a unary stream.
\<close>

function flush_stream :: "u32 \<Rightarrow> 'd handler" where
  "flush_stream sid c =
     (case streams c sid of
        None \<Rightarrow> (Ok (), c)
      | Some s \<Rightarrow>
          (case outbound s of
             msg # rest \<Rightarrow>
               if int (length msg) \<le> conn_send_window c \<and> int (length msg) \<le> send_window s then
                 and_next
                   (put_frame FRAME_DATA 0 sid msg
                     (c\<lparr>streams := (streams c)(sid \<mapsto> s\<lparr>outbound := rest, send_window := send_window s - int (length msg)\<rparr>),
                        conn_send_window := conn_send_window c - int (length msg)\<rparr>))
                   (flush_stream sid)
               else (Ok (), c)
           | [] \<Rightarrow>
               (case pending_trailers s of
                  None \<Rightarrow> (Ok (), c)
                | Some (status, msg) \<Rightarrow>
                    and_next
                      (send_trailers sid status msg (c\<lparr>streams := (streams c)(sid \<mapsto> s\<lparr>pending_trailers := None\<rparr>)\<rparr>))
                      (\<lambda>c. (Ok (), if subscribed_topic s = None then remove_stream sid c else c)))))"
  by pat_completeness auto

lemma put_frame_streams: "put_frame ft fl sid bs c = (r, c') \<Longrightarrow> streams c' = streams c"
  by (auto simp: put_frame_def split: sum.splits)

termination flush_stream
  by (relation "measure (\<lambda>(sid, c). case streams c sid of None \<Rightarrow> 0 | Some s \<Rightarrow> length (outbound s))")
    (auto dest!: put_frame_streams)

declare flush_stream.simps [simp del]

subsection \<open>Dispatch\<close>

definition proto_error_text :: "proto_error \<Rightarrow> bytes" where
  "proto_error_text e =
     (case e of
        TruncatedVarint \<Rightarrow> ascii ''protobuf: truncated varint''
      | VarintTooLong \<Rightarrow> ascii ''protobuf: varint too long''
      | LengthExceedsBuffer \<Rightarrow> ascii ''protobuf: length-delimited field exceeds buffer''
      | UnsupportedWireType v \<Rightarrow> ascii ''unsupported protobuf wire type '' @ u8_to_string (ucast v)
      | TruncatedFixed64 \<Rightarrow> ascii ''protobuf: truncated fixed64''
      | TruncatedFixed32 \<Rightarrow> ascii ''protobuf: truncated fixed32''
      | GroupsNotSupported \<Rightarrow> ascii ''protobuf: groups are not supported''
      | SlicePanic \<Rightarrow> [])"

datatype DispatchResult =
    Unary "Header list" "bytes option" "u8 \<times> bytes"
  | Subscribe bytes
  | DispatchError u8 bytes
  | DispatchPanic

text \<open>A request that does not decode ends the call with an error, or the task when the decoder panics.\<close>

definition with_request :: "(proto_error, 'm) result \<Rightarrow> 'd \<Rightarrow> ('m \<Rightarrow> DispatchResult \<times> 'd) \<Rightarrow> DispatchResult \<times> 'd" where
  "with_request r db f =
     (case r of
        Inl e \<Rightarrow> (if e = SlicePanic then DispatchPanic else DispatchError GRPC_INTERNAL (proto_error_text e), db)
      | Inr req \<Rightarrow> f req)"

definition with_permission ::
  "('d, 'a) flux_ops \<Rightarrow> 'a \<Rightarrow> PrivilegeRepr \<Rightarrow> bytes \<Rightarrow> 'd \<Rightarrow> (unit \<Rightarrow> DispatchResult \<times> 'd) \<Rightarrow> DispatchResult \<times> 'd" where
  "with_permission ops actor priv topic db f =
     (case check_topic ops actor db priv topic of
        Inl e \<Rightarrow> (DispatchError GRPC_PERMISSION_DENIED e, db)
      | Inr _ \<Rightarrow> f ())"

definition record_of :: "bytes \<Rightarrow> FluxRecord \<Rightarrow> Record" where
  "record_of topic r =
     \<lparr>rec_offset = flux_offset r, rec_key = (case flux_key r of Some k \<Rightarrow> k | None \<Rightarrow> []),
      rec_value = flux_value r, timestamp_ms = flux_timestamp_ms r, rec_topic = topic\<rparr>"

definition dispatch_publish :: "('d, 'a) flux_ops \<Rightarrow> 'a \<Rightarrow> bytes \<Rightarrow> 'd \<Rightarrow> DispatchResult \<times> 'd" where
  "dispatch_publish ops actor bs db =
     with_request (PublishRequest_decode (body_for bs)) db (\<lambda>req.
     with_permission ops actor Insert (pub_topic req) db (\<lambda>_.
       case flux_publish ops (pub_topic req) (if has_partition req then Some (pub_partition req) else None)
              (Some (pub_key req)) (pub_value req) db of
         (Inr (part, offset), db) \<Rightarrow>
           (Unary [] (Some (PublishResponse_encode \<lparr>resp_partition = part, resp_offset = offset\<rparr>)) (GRPC_OK, []), db)
       | (Inl e, db) \<Rightarrow> (DispatchError GRPC_INTERNAL e, db)))"

definition dispatch_poll :: "('d, 'a) flux_ops \<Rightarrow> 'a \<Rightarrow> bytes \<Rightarrow> 'd \<Rightarrow> DispatchResult \<times> 'd" where
  "dispatch_poll ops actor bs db =
     with_request (PollRequest_decode (body_for bs)) db (\<lambda>req.
     with_permission ops actor Select (poll_topic req) db (\<lambda>_.
       case flux_poll ops (poll_topic req) (poll_partition req) (poll_group req) (unat (poll_max req)) db of
         (Inr records, db) \<Rightarrow>
           (Unary [] (Some (PollResponse_encode (map (record_of (poll_topic req)) records))) (GRPC_OK, []), db)
       | (Inl e, db) \<Rightarrow> (DispatchError GRPC_INTERNAL e, db)))"

definition dispatch_subscribe :: "('d, 'a) flux_ops \<Rightarrow> 'a \<Rightarrow> bytes \<Rightarrow> 'd \<Rightarrow> DispatchResult \<times> 'd" where
  "dispatch_subscribe ops actor bs db =
     with_request (SubscribeRequest_decode (body_for bs)) db (\<lambda>req.
       if sub_topic req = [] then (DispatchError GRPC_INTERNAL (ascii ''subscribe topic must not be empty''), db)
       else with_permission ops actor Select (sub_topic req) db (\<lambda>_. (Subscribe (sub_topic req), db)))"

definition dispatch_create_topic :: "('d, 'a) flux_ops \<Rightarrow> 'a \<Rightarrow> bytes \<Rightarrow> 'd \<Rightarrow> DispatchResult \<times> 'd" where
  "dispatch_create_topic ops actor bs db =
     with_request (CreateTopicRequest_decode (body_for bs)) db (\<lambda>req.
       if create_name req = [] then (DispatchError GRPC_INTERNAL (ascii ''topic name must not be empty''), db)
       else with_permission ops actor Create (create_name req) db (\<lambda>_.
         if flux_num_partitions ops (create_name req) db = None then
           (case create_topic ops (create_name req) 1 db of
              (Inl e, db) \<Rightarrow> (DispatchError GRPC_INTERNAL e, db)
            | (Inr _, db) \<Rightarrow> (Unary [] (Some []) (GRPC_OK, []), db))
         else (Unary [] (Some []) (GRPC_OK, []), db)))"

definition dispatch :: "('d, 'a) flux_ops \<Rightarrow> bytes \<Rightarrow> bytes \<Rightarrow> 'a \<Rightarrow> 'd \<Rightarrow> DispatchResult \<times> 'd" where
  "dispatch ops p bs actor db =
     (if p = ascii ''/flux.Flux/Publish'' then dispatch_publish ops actor bs db
      else if p = ascii ''/flux.Flux/Poll'' then dispatch_poll ops actor bs db
      else if p = ascii ''/flux.Flux/Subscribe'' then dispatch_subscribe ops actor bs db
      else if p = ascii ''/flux.Flux/CreateTopic'' then dispatch_create_topic ops actor bs db
      else (DispatchError GRPC_UNIMPLEMENTED (ascii ''unknown method: '' @ p), db))"

subsection \<open>Frame handlers\<close>

definition apply_setting :: "u16 \<times> u32 \<Rightarrow> 'd Conn \<Rightarrow> 'd Conn" where
  "apply_setting setting c =
     (case setting of (sid, val) \<Rightarrow>
      if sid = SETTINGS_INITIAL_WINDOW_SIZE then
        let delta = int (unat val) - int (unat (peer_initial_window c)) in
        c\<lparr>streams := (\<lambda>i. map_option (\<lambda>st. st\<lparr>send_window := send_window st + delta\<rparr>) (streams c i)),
          peer_initial_window := val\<rparr>
      else c)"

definition on_settings :: "Frame \<Rightarrow> 'd handler" where
  "on_settings frame c =
     (if frame_flag frame FLAG_ACK then (Ok (), c\<lparr>peer_settings_acked := True\<rparr>)
      else
        (case parse_settings (payload frame) of
           Inl e \<Rightarrow> (Err (Http2Error e), c)
         | Inr settings \<Rightarrow> put_frame FRAME_SETTINGS FLAG_ACK 0 [] (fold apply_setting settings c)))"

definition on_ping :: "Frame \<Rightarrow> 'd handler" where
  "on_ping frame = put_frame FRAME_PING FLAG_ACK 0 (payload frame)"

definition window_delta :: "Frame \<Rightarrow> int" where
  "window_delta frame =
     (let n = length (payload frame) in
      if 4 \<le> n then int (unat (u32_from_be_bytes (drop (n - 4) (payload frame)))) else 0)"

definition on_window_update :: "Frame \<Rightarrow> 'd handler" where
  "on_window_update frame c =
     (let delta = window_delta frame;
          c = (if stream_id frame = 0 then c\<lparr>conn_send_window := conn_send_window c + delta\<rparr>
               else update_stream (stream_id frame) (\<lambda>st. st\<lparr>send_window := send_window st + delta\<rparr>) c) in
      if stream_id frame \<noteq> 0 then flush_stream (stream_id frame) c else (Ok (), c))"

definition on_rst_stream :: "Frame \<Rightarrow> 'd handler" where
  "on_rst_stream frame c = (Ok (), remove_stream (stream_id frame) c)"

definition finish_headers :: "u32 \<Rightarrow> bytes \<Rightarrow> 'd handler" where
  "finish_headers sid block c =
     (case Decoder_decode (hpack c) block of
        (Inl e, d) \<Rightarrow> (Err (HpackError e), c\<lparr>hpack := d\<rparr>)
      | (Inr headers, d) \<Rightarrow>
          let c = c\<lparr>hpack := d\<rparr>;
              st = (case streams c sid of Some st \<Rightarrow> st | None \<Rightarrow> Stream_new);
              st = st\<lparr>path := map_option snd (List.find (\<lambda>h. fst h = ascii '':path'') headers),
                      st_headers := headers, send_window := int (unat (peer_initial_window c))\<rparr> in
          (Ok (), c\<lparr>streams := (streams c)(sid \<mapsto> st)\<rparr>))"

definition pending_block :: "'d Conn \<Rightarrow> bytes" where
  "pending_block c = (case pending_headers c of Some p \<Rightarrow> p | None \<Rightarrow> [])"

definition on_headers :: "Frame \<Rightarrow> 'd handler" where
  "on_headers frame c =
     (case headers_block_fragment frame of
        Inl e \<Rightarrow> (Err (Http2Error e), c)
      | Inr frag \<Rightarrow>
          if frame_flag frame FLAG_END_HEADERS then
            finish_headers (stream_id frame) (pending_block c @ frag) (c\<lparr>pending_headers := None\<rparr>)
          else (Ok (), c\<lparr>pending_headers := Some (pending_block c @ frag)\<rparr>))"

definition on_continuation :: "Frame \<Rightarrow> 'd handler" where
  "on_continuation frame c =
     (case headers_block_fragment frame of
        Inl e \<Rightarrow> (Err (Http2Error e), c)
      | Inr frag \<Rightarrow>
          let pend = pending_block c @ frag in
          if frame_flag frame FLAG_END_HEADERS then
            finish_headers (stream_id frame) pend (c\<lparr>pending_headers := None\<rparr>)
          else (Ok (), c\<lparr>pending_headers := Some pend\<rparr>))"

definition to_lower_ascii :: "u8 \<Rightarrow> u8" where
  "to_lower_ascii b = (if 65 \<le> b \<and> b \<le> 90 then b + 32 else b)"

definition authorization_of :: "Header list \<Rightarrow> bytes option" where
  "authorization_of hs =
     map_option snd (List.find (\<lambda>h. map to_lower_ascii (fst h) = ascii ''authorization'') hs)"

text \<open>The answer to a call: the response head, the message and the trailers, or an error.\<close>

definition answer :: "u32 \<Rightarrow> DispatchResult \<Rightarrow> 'd handler" where
  "answer sid result c =
     (case result of
        Unary extra msg trail \<Rightarrow>
          and_next (send_response_head sid extra c) (\<lambda>c.
            let c = (case msg of
                       Some m \<Rightarrow> update_stream sid (\<lambda>s. s\<lparr>outbound := outbound s @ [encode_grpc_message m]\<rparr>) c
                     | None \<Rightarrow> c) in
            flush_stream sid (update_stream sid (\<lambda>s. s\<lparr>pending_trailers := Some trail\<rparr>) c))
      | Subscribe topic \<Rightarrow>
          and_next (send_response_head sid [] c) (\<lambda>c.
            (Ok (), update_stream sid (\<lambda>s. s\<lparr>subscribed_topic := Some topic\<rparr>) c))
      | DispatchError status msg \<Rightarrow>
          and_next (send_error sid status msg c) (\<lambda>c. (Ok (), remove_stream sid c))
      | DispatchPanic \<Rightarrow> (Err Panicked, c))"

definition run_request :: "('d, 'a) flux_ops \<Rightarrow> u32 \<Rightarrow> Stream \<Rightarrow> 'd handler" where
  "run_request ops sid st c =
     (let bs = body st;
          p = (case path st of Some p \<Rightarrow> p | None \<Rightarrow> []);
          c = c\<lparr>streams := (streams c)(sid \<mapsto> st\<lparr>body := [], req_ended := True\<rparr>)\<rparr> in
      case authenticate_basic ops (conn_db c) (authorization_of (st_headers st)) of
        Inl e \<Rightarrow> answer sid (DispatchError GRPC_UNAUTHENTICATED (ascii ''unauthorized: '' @ e)) c
      | Inr actor \<Rightarrow>
          (case dispatch ops p bs actor (conn_db c) of
             (result, db) \<Rightarrow> answer sid result (c\<lparr>conn_db := db\<rparr>)))"

definition on_data :: "('d, 'a) flux_ops \<Rightarrow> Frame \<Rightarrow> 'd handler" where
  "on_data ops frame c =
     (case data_payload frame of
        Inl e \<Rightarrow> (Err (Http2Error e), c)
      | Inr data \<Rightarrow>
          and_next (put_window_update (stream_id frame) (len_u32 data) c) (\<lambda>c.
            case streams c (stream_id frame) of
              None \<Rightarrow> (Ok (), c)
            | Some st \<Rightarrow>
                let st = st\<lparr>body := body st @ data\<rparr> in
                if frame_flag frame FLAG_END_STREAM then run_request ops (stream_id frame) st c
                else (Ok (), c\<lparr>streams := (streams c)(stream_id frame \<mapsto> st)\<rparr>)))"

definition on_frame :: "('d, 'a) flux_ops \<Rightarrow> Frame \<Rightarrow> 'd handler" where
  "on_frame ops frame c =
     (if frame_type frame = FRAME_SETTINGS then on_settings frame c
      else if frame_type frame = FRAME_PING then on_ping frame c
      else if frame_type frame = FRAME_WINDOW_UPDATE then on_window_update frame c
      else if frame_type frame = FRAME_HEADERS then on_headers frame c
      else if frame_type frame = FRAME_CONTINUATION then on_continuation frame c
      else if frame_type frame = FRAME_DATA then on_data ops frame c
      else if frame_type frame = FRAME_RST_STREAM then on_rst_stream frame c
      else (Ok (), c))"

subsection \<open>Live records\<close>

text \<open>
  A published record goes to every stream subscribed to its topic, in the order
  in which the hash map yields the streams, which is an argument.
\<close>

definition flux_messages :: "bytes \<Rightarrow> FluxRecord \<Rightarrow> u32 list \<Rightarrow> 'd Conn \<Rightarrow> (u32 \<times> bytes) list" where
  "flux_messages topic record order c =
     map (\<lambda>sid. (sid, encode_grpc_message (Record_encode (record_of topic record))))
       (filter (\<lambda>sid. case streams c sid of Some st \<Rightarrow> subscribed_topic st = Some topic | None \<Rightarrow> False) order)"

fun push_messages :: "(u32 \<times> bytes) list \<Rightarrow> 'd handler" where
  "push_messages [] c = (Ok (), c)"
| "push_messages ((sid, msg) # ms) c =
     and_next (flush_stream sid (update_stream sid (\<lambda>s. s\<lparr>outbound := outbound s @ [msg]\<rparr>) c)) (push_messages ms)"

definition on_flux_event :: "bytes \<Rightarrow> FluxRecord \<Rightarrow> u32 list \<Rightarrow> 'd handler" where
  "on_flux_event topic record order c = push_messages (flux_messages topic record order c) c"

subsection \<open>Sessions\<close>

datatype conn_event = FrameIn Frame | FluxIn bytes FluxRecord "u32 list"

definition on_event :: "('d, 'a) flux_ops \<Rightarrow> conn_event \<Rightarrow> 'd handler" where
  "on_event ops ev c =
     (case ev of FrameIn frame \<Rightarrow> on_frame ops frame c | FluxIn topic record order \<Rightarrow> on_flux_event topic record order c)"

fun serve :: "('d, 'a) flux_ops \<Rightarrow> conn_event list \<Rightarrow> 'd handler" where
  "serve ops [] c = (Ok (), c)"
| "serve ops (ev # evs) c = and_next (on_event ops ev c) (serve ops evs)"

definition handshake :: "bytes \<Rightarrow> 'd Conn \<Rightarrow> (grpc_error, bytes) result \<times> 'd Conn" where
  "handshake r c =
     (case read_preface r of
        Inl e \<Rightarrow> (Err (Http2Error e), c)
      | Inr r \<Rightarrow>
          (case put_frame FRAME_SETTINGS 0 0
                  (encode_settings [(SETTINGS_INITIAL_WINDOW_SIZE, DEFAULT_INITIAL_WINDOW)]) c of
             (Inl e, c) \<Rightarrow> (Err e, c)
           | (Inr _, c) \<Rightarrow> (Ok r, c)))"

end
