(* ===== verification/GrpcProps.thy ===== *)
theory GrpcProps
  imports Grpc
begin

unbundle bit_operations_syntax

text \<open>
  What a gRPC session guarantees: the send windows of the peer are respected,
  subscriptions deliver every record once and in order, calls answer with the
  message the database returned, and calls without permission have no effect.
  The contract \<open>conn_effect\<close> collects what is needed of a relation between the
  connection before and after, so that it holds over every handler.
\<close>

subsection \<open>Relations kept by all handlers\<close>

lemma snd_and_next: "snd (and_next p f) = (case fst p of Inl e \<Rightarrow> snd p | Inr _ \<Rightarrow> snd (f (snd p)))"
  by (cases p; cases "fst p") auto

definition frame_of :: "u8 \<Rightarrow> u8 \<Rightarrow> u32 \<Rightarrow> bytes \<Rightarrow> Frame" where
  "frame_of ft fl sid bs = \<lparr>frame_type = ft, frame_flags = fl, stream_id = sid AND 0x7fffffff, payload = bs\<rparr>"

lemma put_frame_cases:
  obtains (written) "put_frame ft fl sid bs c = (Ok (), c\<lparr>written := written c @ [frame_of ft fl sid bs]\<rparr>)"
    | (failed) e where "put_frame ft fl sid bs c = (Err e, c)"
  by (cases "write_frame ft fl sid bs") (auto simp: put_frame_def frame_of_def)

text \<open>A stream without its send window, which a SETTINGS frame changes on every stream.\<close>

definition core :: "Stream \<Rightarrow> Stream" where
  "core s = s\<lparr>send_window := 0\<rparr>"

lemma core_window [simp]: "core (s\<lparr>send_window := w\<rparr>) = core s"
  by (simp add: core_def)

locale conn_effect =
  fixes R :: "'d Conn \<Rightarrow> 'd Conn \<Rightarrow> bool"
    and ok_put :: "u8 \<Rightarrow> u32 \<Rightarrow> bool"
    and ok_stream :: "u32 \<Rightarrow> bool"
  assumes trans: "R c1 c2 \<Longrightarrow> R c2 c3 \<Longrightarrow> R c1 c3"
    and same: "written c' = written c \<Longrightarrow> conn_send_window c' = conn_send_window c \<Longrightarrow>
      (\<And>i. \<not> ok_stream i \<Longrightarrow> map_option core (streams c' i) = map_option core (streams c i)) \<Longrightarrow> R c c'"
    and put: "ok_put ft sid \<Longrightarrow> R c (c\<lparr>written := written c @ [frame_of ft fl sid bs]\<rparr>)"
    and spend: "int (length msg) \<le> conn_send_window c \<Longrightarrow>
      R c (c\<lparr>conn_send_window := conn_send_window c - int (length msg)\<rparr>)"
    and send: "ok_stream sid \<Longrightarrow> int (length msg) \<le> conn_send_window c \<Longrightarrow>
      R c (c\<lparr>conn_send_window := conn_send_window c - int (length msg),
             written := written c @ [frame_of FRAME_DATA 0 sid msg]\<rparr>)"
    and fixed_puts: "ok_put FRAME_SETTINGS 0" "ok_put FRAME_PING 0" "ok_put FRAME_HEADERS sid"
begin

lemma refl: "R c c"
  by (rule same) simp_all

lemma put_frame_R: "ok_put ft sid \<Longrightarrow> R c (snd (put_frame ft fl sid bs c))"
  by (cases rule: put_frame_cases [of ft fl sid bs c]) (simp_all add: put refl)

lemma and_next_R: "R c (snd p) \<Longrightarrow> (\<And>c'. R c' (snd (f c'))) \<Longrightarrow> R c (snd (and_next p f))"
  by (auto simp: snd_and_next split: sum.split intro: trans)

lemma update_stream_R: "ok_stream sid \<Longrightarrow> R c (update_stream sid f c)"
  by (rule same) (auto simp: update_stream_def split: option.split)

lemma remove_stream_R: "ok_stream sid \<Longrightarrow> R c (remove_stream sid c)"
  by (rule same) (auto simp: remove_stream_def)

lemma flush_stream_R: "ok_stream sid \<Longrightarrow> R c (snd (flush_stream sid c))"
proof (induction sid c rule: flush_stream.induct)
  case (1 sid c)
  show ?case
  proof (cases "streams c sid")
    case None
    then show ?thesis by (subst flush_stream.simps) (simp add: refl)
  next
    case s: (Some s)
    show ?thesis
    proof (cases "outbound s")
      case Nil
      show ?thesis
      proof (cases "pending_trailers s")
        case None
        then show ?thesis using s Nil by (subst flush_stream.simps) (simp add: refl)
      next
        case (Some t)
        let ?c = "c\<lparr>streams := (streams c)(sid \<mapsto> s\<lparr>pending_trailers := None\<rparr>)\<rparr>"
        have "R c (snd (send_trailers sid (fst t) (snd t) ?c))"
          unfolding send_trailers_def by (rule trans [OF same put_frame_R [OF fixed_puts(3)]]) (use "1.prems" in auto)
        then have "R c (snd (and_next (send_trailers sid (fst t) (snd t) ?c)
            (\<lambda>c. (Ok (), if subscribed_topic s = None then remove_stream sid c else c))))"
          by (rule and_next_R) (simp add: refl remove_stream_R "1.prems")
        then show ?thesis using s Nil Some by (subst flush_stream.simps) (simp add: case_prod_beta)
      qed
    next
      case (Cons msg rest)
      show ?thesis
      proof (cases "int (length msg) \<le> conn_send_window c \<and> int (length msg) \<le> send_window s")
        case False
        then show ?thesis using s Cons by (subst flush_stream.simps) (auto simp: refl)
      next
        case True
        let ?m = "(streams c)(sid \<mapsto> s\<lparr>outbound := rest, send_window := send_window s - int (length msg)\<rparr>)"
        let ?c = "c\<lparr>streams := ?m, conn_send_window := conn_send_window c - int (length msg)\<rparr>"
        have c1: "R c (c\<lparr>streams := ?m\<rparr>)" by (rule same) (use "1.prems" in auto)
        have "R c (snd (put_frame FRAME_DATA 0 sid msg ?c))"
          using trans [OF c1 spend [of msg "c\<lparr>streams := ?m\<rparr>"]] trans [OF c1 send [OF "1.prems", of msg "c\<lparr>streams := ?m\<rparr>"]] True
          by (cases rule: put_frame_cases [of FRAME_DATA 0 sid msg ?c]) simp_all
        moreover have "R (snd (put_frame FRAME_DATA 0 sid msg ?c)) (snd (flush_stream sid (snd (put_frame FRAME_DATA 0 sid msg ?c))))"
          if "fst (put_frame FRAME_DATA 0 sid msg ?c) = Inr u" for u
          using "1.IH" [OF s Cons True, of u "snd (put_frame FRAME_DATA 0 sid msg ?c)"] that "1.prems"
          by (simp add: prod_eq_iff)
        ultimately have "R c (snd (and_next (put_frame FRAME_DATA 0 sid msg ?c) (flush_stream sid)))"
          by (auto simp: snd_and_next split: sum.split intro: trans)
        then show ?thesis using s Cons True by (subst flush_stream.simps) simp
      qed
    qed
  qed
qed

lemma answer_R:
  assumes ok: "ok_stream sid"
  shows "R c (snd (answer sid result c))"
proof (cases result)
  case (Unary extra msg trail)
  have "R c' (snd (flush_stream sid (update_stream sid (\<lambda>s. s\<lparr>pending_trailers := Some trail\<rparr>)
      (case msg of Some m \<Rightarrow> update_stream sid (\<lambda>s. s\<lparr>outbound := outbound s @ [encode_grpc_message m]\<rparr>) c'
       | None \<Rightarrow> c'))))" for c'
    by (intro trans [OF _ flush_stream_R [OF ok]] trans [OF _ update_stream_R [OF ok]])
      (auto simp: refl update_stream_R [OF ok] split: option.split)
  then show ?thesis
    unfolding answer_def Unary send_response_head_def Let_def DispatchResult.case
    by (intro and_next_R put_frame_R fixed_puts)
next
  case (Subscribe topic)
  show ?thesis
    unfolding answer_def Subscribe send_response_head_def DispatchResult.case
    by (intro and_next_R put_frame_R fixed_puts) (simp add: update_stream_R [OF ok])
next
  case (DispatchError status msg)
  show ?thesis
    unfolding answer_def DispatchError send_error_def DispatchResult.case
    by (intro and_next_R put_frame_R fixed_puts) (simp add: remove_stream_R [OF ok])
qed (simp add: answer_def refl)

lemma run_request_R: "ok_stream sid \<Longrightarrow> R c (snd (run_request ops sid st c))"
  unfolding run_request_def Let_def
  by (auto split: sum.split prod.split intro!: trans [OF _ answer_R] same)

lemma finish_headers_R: "ok_stream sid \<Longrightarrow> R c (snd (finish_headers sid block c))"
  unfolding finish_headers_def Let_def by (auto split: sum.split prod.split intro!: same)

lemma on_settings_R: "R c (snd (on_settings frame c))"
proof -
  have "written (fold apply_setting ss c) = written c \<and> conn_send_window (fold apply_setting ss c) = conn_send_window c
      \<and> map_option core (streams (fold apply_setting ss c) i) = map_option core (streams c i)" for ss i
    by (induction ss arbitrary: c)
      (auto simp: apply_setting_def Let_def option.map_comp comp_def split: prod.split)
  then have "R c (fold apply_setting ss c)" for ss by (intro same) simp_all
  then have "R c (snd (put_frame FRAME_SETTINGS FLAG_ACK 0 [] (fold apply_setting ss c)))" for ss
    by (rule trans [OF _ put_frame_R [OF fixed_puts(1)]])
  moreover have "R c (c\<lparr>peer_settings_acked := True\<rparr>)" by (rule same) simp_all
  ultimately show ?thesis by (auto simp: on_settings_def refl split: sum.split)
qed

lemma on_frame_R:
  assumes "frame_type frame = FRAME_WINDOW_UPDATE \<Longrightarrow> stream_id frame \<noteq> 0"
    and "frame_type frame = FRAME_DATA \<Longrightarrow> ok_put FRAME_WINDOW_UPDATE (stream_id frame)"
    and ok: "frame_type frame \<notin> {FRAME_SETTINGS, FRAME_PING} \<Longrightarrow> ok_stream (stream_id frame)"
  shows "R c (snd (on_frame ops frame c))"
proof -
  have wu: "R c (snd (on_window_update frame c))" if "stream_id frame \<noteq> 0" "frame_type frame = FRAME_WINDOW_UPDATE"
    using that ok unfolding on_window_update_def Let_def
    by (simp add: trans [OF update_stream_R flush_stream_R] frame_constants)
  have pend: "R c (c\<lparr>pending_headers := p\<rparr>)" for p by (rule same) simp_all
  have "R c (snd (on_headers frame c))" "R c (snd (on_continuation frame c))"
    if "frame_type frame \<in> {FRAME_HEADERS, FRAME_CONTINUATION}"
    using that ok unfolding on_headers_def on_continuation_def Let_def
    by (auto simp: refl pend split: sum.split simp: frame_constants intro: trans [OF pend finish_headers_R])
  moreover have "R c (snd (on_data ops frame c))" if "frame_type frame = FRAME_DATA"
  proof -
    have "R c' (snd (case streams c' (stream_id frame) of None \<Rightarrow> (Ok (), c')
        | Some st \<Rightarrow> let st = st\<lparr>body := body st @ data\<rparr> in
            if frame_flag frame FLAG_END_STREAM then run_request ops (stream_id frame) st c'
            else (Ok (), c'\<lparr>streams := (streams c')(stream_id frame \<mapsto> st)\<rparr>)))" for c' data
      using ok that
      by (auto simp: refl run_request_R Let_def frame_constants split: option.split intro!: same)
    then show ?thesis
      unfolding on_data_def put_window_update_def
      by (auto simp: refl split: sum.split intro!: and_next_R put_frame_R assms(2) [OF that])
  qed
  ultimately show ?thesis
    using wu assms(1) on_settings_R put_frame_R [OF fixed_puts(2)] refl remove_stream_R [OF ok]
    by (auto simp: on_frame_def on_ping_def on_rst_stream_def)
qed

lemma push_messages_R: "\<forall>m \<in> set ms. ok_stream (fst m) \<Longrightarrow> R c (snd (push_messages ms c))"
proof (induction ms arbitrary: c)
  case (Cons m ms)
  obtain sid msg where m: "m = (sid, msg)" by (cases m)
  show ?case
    unfolding m push_messages.simps
    by (intro and_next_R trans [OF update_stream_R flush_stream_R] Cons.IH) (use Cons.prems m in auto)
qed (simp add: refl)

lemma on_flux_event_R: "\<forall>i \<in> set order. ok_stream i \<Longrightarrow> R c (snd (on_flux_event topic record order c))"
  unfolding on_flux_event_def by (rule push_messages_R) (auto simp: flux_messages_def)

end

subsection \<open>Flow control\<close>

definition data_bytes :: "Frame list \<Rightarrow> int" where
  "data_bytes fs = (\<Sum>f \<leftarrow> fs. if frame_type f = FRAME_DATA then int (length (payload f)) else 0)"

definition within_budget :: "'d Conn \<Rightarrow> 'd Conn \<Rightarrow> bool" where
  "within_budget c c' \<longleftrightarrow>
     conn_send_window c' + data_bytes (written c') \<le> conn_send_window c + data_bytes (written c)
     \<and> (0 \<le> conn_send_window c \<longrightarrow> 0 \<le> conn_send_window c')"

definition no_connection_credit :: "'d Conn \<Rightarrow> 'd Conn \<Rightarrow> bool" where
  "no_connection_credit c c' \<longleftrightarrow>
     (\<exists>fs. written c' = written c @ fs \<and>
        list_all (\<lambda>f. \<not> (frame_type f = FRAME_WINDOW_UPDATE \<and> stream_id f = 0)) fs)"

lemma data_bytes_append: "data_bytes (fs @ gs) = data_bytes fs + data_bytes gs"
  by (simp add: data_bytes_def)

lemma data_bytes_single [simp]:
  "data_bytes [frame_of ft fl sid bs] = (if ft = FRAME_DATA then int (length bs) else 0)"
  by (simp add: data_bytes_def frame_of_def)

interpretation budget: conn_effect within_budget "\<lambda>ft sid. ft \<noteq> FRAME_DATA" "\<lambda>_. True"
  by unfold_locales (auto simp: within_budget_def data_bytes_append frame_constants)

interpretation credit: conn_effect no_connection_credit
  "\<lambda>ft sid. \<not> (ft = FRAME_WINDOW_UPDATE \<and> sid AND 0x7fffffff = 0)" "\<lambda>_. True"
  by unfold_locales (fastforce simp: no_connection_credit_def frame_of_def frame_constants)+

fun credit_of :: "conn_event \<Rightarrow> int" where
  "credit_of (FrameIn f) = (if frame_type f = FRAME_WINDOW_UPDATE \<and> stream_id f = 0 then window_delta f else 0)"
| "credit_of (FluxIn topic record order) = 0"

lemma credit_of_nonneg: "0 \<le> credit_of ev"
  by (cases ev) (auto simp: window_delta_def Let_def)

lemma on_event_budget:
  "conn_send_window (snd (on_event ops ev c)) + data_bytes (written (snd (on_event ops ev c)))
     \<le> conn_send_window c + data_bytes (written c) + credit_of ev
   \<and> (0 \<le> conn_send_window c \<longrightarrow> 0 \<le> conn_send_window (snd (on_event ops ev c)))"
proof (cases ev)
  case (FrameIn f)
  show ?thesis
  proof (cases "frame_type f = FRAME_WINDOW_UPDATE \<and> stream_id f = 0")
    case True
    then show ?thesis
      using credit_of_nonneg [of ev]
      by (auto simp: FrameIn on_event_def on_frame_def on_window_update_def frame_constants)
  next
    case False
    then have "within_budget c (snd (on_frame ops f c))"
      by (intro budget.on_frame_R) (auto simp: frame_constants)
    with False show ?thesis by (auto simp: FrameIn on_event_def within_budget_def)
  qed
next
  case (FluxIn topic fr order)
  then show ?thesis
    using budget.on_flux_event_R [of order c topic fr] by (simp add: on_event_def within_budget_def)
qed

lemma serve_budget:
  "0 \<le> conn_send_window c \<Longrightarrow>
   0 \<le> conn_send_window (snd (serve ops evs c)) \<and>
   conn_send_window (snd (serve ops evs c)) + data_bytes (written (snd (serve ops evs c)))
     \<le> conn_send_window c + data_bytes (written c) + sum_list (map credit_of evs)"
proof (induction evs arbitrary: c)
  case (Cons ev evs)
  have nonneg: "0 \<le> sum_list (map credit_of evs)" by (induction evs) (simp_all add: credit_of_nonneg)
  note step = on_event_budget [of ops ev c]
  show ?case
  proof (cases "fst (on_event ops ev c)")
    case (Inl e)
    with step nonneg Cons.prems show ?thesis by (auto simp: snd_and_next)
  next
    case (Inr u)
    with step Cons.IH [of "snd (on_event ops ev c)"] Cons.prems show ?thesis by (auto simp: snd_and_next)
  qed
qed simp

text \<open>
  C29: The peer's connection window is never exceeded: whatever frames arrive and
  whatever is published, also when the session ends in an error, the bytes sent in
  DATA frames are at most the initial 65535 and the credit the peer granted for
  the connection.
\<close>

theorem flow_control_respected:
  assumes "serve ops evs (Conn_new db) = (r, c)"
  shows "data_bytes (written c) \<le> 65535 + sum_list (map credit_of evs)"
  using serve_budget [of "Conn_new db" ops evs] assms
  by (simp add: Conn_new_def DEFAULT_INITIAL_WINDOW_def data_bytes_def)

text \<open>A database that accepts every call, for concrete sessions.\<close>

definition open_ops :: "(unit, unit) flux_ops" where
  "open_ops = \<lparr>authenticate_basic = (\<lambda>_ _. Ok ()), check_topic = (\<lambda>_ _ _ _. Ok ()),
     flux_publish = (\<lambda>_ _ _ _ db. (Ok (0, 0), db)), flux_poll = (\<lambda>_ _ _ _ db. (Ok [], db)),
     flux_num_partitions = (\<lambda>_ _. Some 1), create_topic = (\<lambda>_ _ db. (Ok (), db))\<rparr>"

definition ping :: Frame where
  "ping = \<lparr>frame_type = FRAME_PING, frame_flags = 0, stream_id = 0, payload = [1, 2, 3, 4, 5, 6, 7, 8]\<rparr>"

definition credit_frame :: "u32 \<Rightarrow> u32 \<Rightarrow> Frame" where
  "credit_frame sid n = \<lparr>frame_type = FRAME_WINDOW_UPDATE, frame_flags = 0, stream_id = sid, payload = u32_to_be_bytes n\<rparr>"

theorem flow_control_respected_witness:
  "\<exists>r c. serve open_ops [FrameIn ping, FrameIn (credit_frame 0 10)] (Conn_new ()) = (r, c) \<and>
     data_bytes (written c) \<le> 65535 + sum_list (map credit_of [FrameIn ping, FrameIn (credit_frame 0 10)])"
proof -
  obtain r c where "serve open_ops [FrameIn ping, FrameIn (credit_frame 0 10)] (Conn_new ()) = (r, c)"
    by fastforce
  with flow_control_respected [OF this] show ?thesis by blast
qed

lemma serve_credit:
  assumes "\<forall>f. FrameIn f \<in> set evs \<longrightarrow> frame_type f = FRAME_DATA \<longrightarrow> stream_id f AND 0x7fffffff \<noteq> 0"
  shows "no_connection_credit c (snd (serve ops evs c))"
  using assms
proof (induction evs arbitrary: c)
  case (Cons ev evs)
  have "no_connection_credit c (snd (on_event ops ev c))"
  proof (cases ev)
    case (FrameIn f)
    show ?thesis
    proof (cases "frame_type f = FRAME_WINDOW_UPDATE \<and> stream_id f = 0")
      case True
      then show ?thesis
        by (auto simp: FrameIn on_event_def on_frame_def on_window_update_def frame_constants no_connection_credit_def)
    next
      case False
      with Cons.prems have "no_connection_credit c (snd (on_frame ops f c))"
        by (intro credit.on_frame_R) (auto simp: FrameIn)
      then show ?thesis by (simp add: FrameIn on_event_def)
    qed
  qed (simp add: on_event_def credit.on_flux_event_R)
  moreover have "no_connection_credit c' (snd (serve ops evs c'))" for c' using Cons by auto
  ultimately show ?case by (simp add: credit.and_next_R)
qed (simp add: credit.refl)

text \<open>
  The server never gives the client back any credit for the connection as a
  whole.  Received data is only acknowledged on its stream, so after 65535 bytes of
  requests a client that keeps to the protocol can send no more data on this
  connection.
\<close>

theorem connection_window_never_refilled:
  assumes "serve ops evs (Conn_new db) = (r, c)"
    and "\<forall>f. FrameIn f \<in> set evs \<longrightarrow> frame_type f = FRAME_DATA \<longrightarrow> stream_id f AND 0x7fffffff \<noteq> 0"
    and "f \<in> set (written c)" and "frame_type f = FRAME_WINDOW_UPDATE"
  shows "stream_id f \<noteq> 0"
  using serve_credit [OF assms(2), of "Conn_new db" ops] assms
  by (auto simp: no_connection_credit_def Conn_new_def list_all_iff)

definition data_frame :: "u32 \<Rightarrow> bytes \<Rightarrow> Frame" where
  "data_frame sid bs = \<lparr>frame_type = FRAME_DATA, frame_flags = 0, stream_id = sid, payload = bs\<rparr>"

lemma data_frame_ack:
  "serve open_ops [FrameIn (data_frame 1 [7, 8])] (Conn_new ())
     = (Ok (), (Conn_new ())\<lparr>written := [frame_of FRAME_WINDOW_UPDATE 0 1 (u32_to_be_bytes 2)]\<rparr>)"
  by (simp add: on_event_def on_frame_def data_frame_def on_data_def data_payload_def frame_flag_def
      frame_constants flag_constants put_window_update_def put_frame_def write_frame_def Conn_new_def frame_of_def)

theorem connection_window_never_refilled_witness:
  "frame_of FRAME_WINDOW_UPDATE 0 1 (u32_to_be_bytes 2)
     \<in> set (written (snd (serve open_ops [FrameIn (data_frame 1 [7, 8])] (Conn_new ()))))
   \<and> stream_id (frame_of FRAME_WINDOW_UPDATE 0 1 (u32_to_be_bytes 2)) \<noteq> 0"
proof -
  let ?f = "frame_of FRAME_WINDOW_UPDATE 0 1 (u32_to_be_bytes 2)"
  have "\<forall>f. FrameIn f \<in> set [FrameIn (data_frame 1 [7, 8])] \<longrightarrow> frame_type f = FRAME_DATA \<longrightarrow>
      stream_id f AND 0x7fffffff \<noteq> 0"
    by (simp add: data_frame_def)
  moreover have "?f \<in> set (written ((Conn_new ())\<lparr>written := [?f]\<rparr>))" by simp
  moreover have "frame_type ?f = FRAME_WINDOW_UPDATE" by (simp add: frame_of_def)
  ultimately have "stream_id ?f \<noteq> 0" by (rule connection_window_never_refilled [OF data_frame_ack])
  then show ?thesis unfolding data_frame_ack by simp
qed

subsection \<open>Subscriptions\<close>

text \<open>
  A step of a session that survives it.  A published record meets the streams in
  some order of the table of streams.
\<close>

inductive conn_step :: "('d, 'a) flux_ops \<Rightarrow> 'd Conn \<Rightarrow> conn_event \<Rightarrow> 'd Conn \<Rightarrow> bool" for ops where
  frame_in: "on_frame ops f c = (Ok (), c') \<Longrightarrow> conn_step ops c (FrameIn f) c'"
| flux_in: "distinct order \<Longrightarrow> set order = dom (streams c) \<Longrightarrow> on_flux_event topic r order c = (Ok (), c')
    \<Longrightarrow> conn_step ops c (FluxIn topic r order) c'"

inductive conn_run :: "('d, 'a) flux_ops \<Rightarrow> 'd Conn \<Rightarrow> conn_event list \<Rightarrow> 'd Conn \<Rightarrow> bool" for ops where
  stop: "conn_run ops c [] c"
| step: "conn_step ops c ev c' \<Longrightarrow> conn_run ops c' evs c'' \<Longrightarrow> conn_run ops c (ev # evs) c''"

inductive_cases conn_step_frameE: "conn_step ops c (FrameIn f) c'"
inductive_cases conn_step_fluxE: "conn_step ops c (FluxIn topic r order) c'"

abbreviation is_id :: "u32 \<Rightarrow> bool" where
  "is_id i \<equiv> i AND 0x7fffffff = i"

definition sent_data :: "u32 \<Rightarrow> 'd Conn \<Rightarrow> bytes list" where
  "sent_data sid c = map payload (filter (\<lambda>f. frame_type f = FRAME_DATA \<and> stream_id f = sid) (written c))"

definition delivered :: "u32 \<Rightarrow> 'd Conn \<Rightarrow> bytes list" where
  "delivered sid c = sent_data sid c @ (case streams c sid of None \<Rightarrow> [] | Some s \<Rightarrow> outbound s)"

definition subscribed :: "u32 \<Rightarrow> bytes \<Rightarrow> 'd Conn \<Rightarrow> bool" where
  "subscribed sid topic c \<longleftrightarrow>
     (case streams c sid of
        None \<Rightarrow> False
      | Some s \<Rightarrow> subscribed_topic s = Some topic \<and> pending_trailers s = None)"

definition apart :: "u32 \<Rightarrow> 'd Conn \<Rightarrow> 'd Conn \<Rightarrow> bool" where
  "apart sid c c' \<longleftrightarrow> map_option core (streams c' sid) = map_option core (streams c sid) \<and> sent_data sid c' = sent_data sid c"

lemma sent_data_put [simp]:
  "sent_data sid (c\<lparr>written := written c @ [frame_of ft fl s bs]\<rparr>)
     = sent_data sid c @ (if ft = FRAME_DATA \<and> s AND 0x7fffffff = sid then [bs] else [])"
  by (simp add: sent_data_def frame_of_def)

lemma sent_data_cong: "written c' = written c \<Longrightarrow> sent_data sid c' = sent_data sid c"
  by (simp add: sent_data_def)

interpretation apart: conn_effect "apart sid" "\<lambda>ft s. ft \<noteq> FRAME_DATA" "\<lambda>s. s AND 0x7fffffff \<noteq> sid \<and> s \<noteq> sid" for sid
proof unfold_locales
  show "apart sid c c'" if "written c' = written c" "conn_send_window c' = conn_send_window c"
    "\<And>i. \<not> (i AND 0x7fffffff \<noteq> sid \<and> i \<noteq> sid) \<Longrightarrow> map_option core (streams c' i) = map_option core (streams c i)"
    for c c' :: "'a Conn"
    using that by (auto simp: apart_def intro: sent_data_cong)
qed (auto simp: apart_def sent_data_def frame_of_def frame_constants)

lemma core_fields:
  assumes "core s' = core s"
  shows "outbound s' = outbound s" "subscribed_topic s' = subscribed_topic s" "pending_trailers s' = pending_trailers s"
  using arg_cong [OF assms, of outbound] arg_cong [OF assms, of subscribed_topic]
    arg_cong [OF assms, of pending_trailers] by (simp_all add: core_def)

lemma apart_delivered: "apart sid c c' \<Longrightarrow> delivered sid c' = delivered sid c \<and> subscribed sid topic c' = subscribed sid topic c"
  by (cases "streams c sid"; cases "streams c' sid")
    (auto simp: apart_def delivered_def subscribed_def dest: core_fields)

lemma flush_subscribed:
  "is_id sid \<Longrightarrow> subscribed sid topic c \<Longrightarrow> flush_stream sid c = (Ok (), c') \<Longrightarrow>
   subscribed sid topic c' \<and> delivered sid c' = delivered sid c"
proof (induction sid c rule: flush_stream.induct)
  case (1 sid c)
  from "1.prems"(2) obtain s where s: "streams c sid = Some s" "subscribed_topic s = Some topic" "pending_trailers s = None"
    by (auto simp: subscribed_def split: option.splits)
  show ?case
  proof (cases "outbound s")
    case Nil
    have "c' = c" using "1.prems"(3) s Nil by (subst (asm) flush_stream.simps) simp
    then show ?thesis using "1.prems"(2) by simp
  next
    case (Cons msg rest)
    show ?thesis
    proof (cases "int (length msg) \<le> conn_send_window c \<and> int (length msg) \<le> send_window s")
      case False
      have "c' = c" using "1.prems"(3) s Cons False by (subst (asm) flush_stream.simps) (auto split: if_splits)
      then show ?thesis using "1.prems"(2) by simp
    next
      case True
      let ?c = "c\<lparr>streams := (streams c)(sid \<mapsto> s\<lparr>outbound := rest, send_window := send_window s - int (length msg)\<rparr>),
          conn_send_window := conn_send_window c - int (length msg)\<rparr>"
      have f: "and_next (put_frame FRAME_DATA 0 sid msg ?c) (flush_stream sid) = (Ok (), c')"
        using "1.prems"(3) s(1) Cons True by (subst (asm) flush_stream.simps) simp
      show ?thesis
      proof (cases rule: put_frame_cases [of FRAME_DATA 0 sid msg ?c])
        case written
        let ?d = "?c\<lparr>written := written ?c @ [frame_of FRAME_DATA 0 sid msg]\<rparr>"
        have "subscribed sid topic ?d" using s by (simp add: subscribed_def)
        moreover have "flush_stream sid ?d = (Ok (), c')" using f unfolding written by simp
        ultimately have "subscribed sid topic c' \<and> delivered sid c' = delivered sid ?d"
          by (intro "1.IH" [OF s(1) Cons True written "1.prems"(1)])
        moreover have "delivered sid ?d = delivered sid c"
          using s Cons "1.prems"(1) by (simp add: delivered_def sent_data_def frame_of_def)
        ultimately show ?thesis by simp
      qed (use f in simp)
    qed
  qed
qed

lemma push_messages_subscribed:
  assumes "is_id sid" "subscribed sid topic c" "push_messages ms c = (Ok (), c')"
    and "distinct (map fst ms)" "\<forall>m \<in> set ms. is_id (fst m)"
  shows "subscribed sid topic c' \<and> delivered sid c' = delivered sid c @ map snd (filter (\<lambda>m. fst m = sid) ms)"
  using assms(2-)
proof (induction ms arbitrary: c)
  case (Cons m ms)
  obtain s msg where m: "m = (s, msg)" by (cases m)
  let ?c = "update_stream s (\<lambda>s. s\<lparr>outbound := outbound s @ [msg]\<rparr>) c"
  obtain c1 where c1: "flush_stream s ?c = (Ok (), c1)" "push_messages ms c1 = (Ok (), c')"
    using Cons.prems(2) m by (cases "flush_stream s ?c"; cases "fst (flush_stream s ?c)") auto
  have "subscribed sid topic c1 \<and> delivered sid c1 = delivered sid c @ (if s = sid then [msg] else [])"
  proof (cases "s = sid")
    case True
    then have "subscribed sid topic ?c" "delivered sid ?c = delivered sid c @ [msg]"
      using Cons.prems(1) by (auto simp: subscribed_def delivered_def update_stream_def sent_data_def split: option.splits)
    with flush_subscribed [OF assms(1) _ c1(1) [unfolded True]] True show ?thesis by simp
  next
    case False
    then have "apart sid c (snd (flush_stream s ?c))"
      using Cons.prems(4) m by (intro apart.trans [OF apart.update_stream_R apart.flush_stream_R]) auto
    with apart_delivered [OF this, of topic] Cons.prems(1) c1(1) False show ?thesis by simp
  qed
  with Cons.IH [of c1] c1(2) Cons.prems(3,4) m show ?case by auto
qed simp

definition message_for :: "bytes \<Rightarrow> FluxRecord \<Rightarrow> bytes" where
  "message_for topic r = encode_grpc_message (Record_encode (record_of topic r))"

fun published_to :: "bytes \<Rightarrow> conn_event \<Rightarrow> bytes list" where
  "published_to topic (FrameIn f) = []"
| "published_to topic (FluxIn t r order) = (if t = topic then [message_for topic r] else [])"

text \<open>Events that leave the request side of a stream alone; stream identifiers have 31 bits.\<close>

fun bystander :: "u32 \<Rightarrow> conn_event \<Rightarrow> bool" where
  "bystander sid (FrameIn f) \<longleftrightarrow> is_id (stream_id f) \<and>
     (stream_id f = sid \<longrightarrow> frame_type f \<in> {FRAME_SETTINGS, FRAME_PING, FRAME_WINDOW_UPDATE})"
| "bystander sid (FluxIn t r order) \<longleftrightarrow> (\<forall>i \<in> set order. is_id i)"

lemma conn_step_subscribed:
  assumes step: "conn_step ops c ev c'" and sid: "is_id sid" "sid \<noteq> 0"
    and sub: "subscribed sid topic c" and byst: "bystander sid ev"
  shows "subscribed sid topic c' \<and> delivered sid c' = delivered sid c @ published_to topic ev"
  using step
proof cases
  case (frame_in f)
  have c': "snd (on_frame ops f c) = c'" using frame_in by simp
  show ?thesis
  proof (cases "frame_type f = FRAME_WINDOW_UPDATE \<and> stream_id f \<in> {0, sid}")
    case False
    then have "apart sid c (snd (on_frame ops f c))"
      using byst frame_in(1) by (intro apart.on_frame_R) (auto simp: frame_constants)
    with apart_delivered [OF this, of topic] sub frame_in(1) c' show ?thesis by simp
  next
    case True
    show ?thesis
    proof (cases "stream_id f = 0")
      case True2: True
      then have "apart sid c c'"
        using True frame_in(2) by (auto simp: on_frame_def on_window_update_def frame_constants apart_def sent_data_def)
      with apart_delivered [OF this, of topic] sub frame_in(1) show ?thesis by simp
    next
      case False
      let ?c = "update_stream sid (\<lambda>st. st\<lparr>send_window := send_window st + window_delta f\<rparr>) c"
      have "flush_stream sid ?c = (Ok (), c')"
        using True False sid frame_in(2) by (auto simp: on_frame_def on_window_update_def frame_constants Let_def)
      moreover have "subscribed sid topic ?c" "delivered sid ?c = delivered sid c"
        using sub by (auto simp: subscribed_def delivered_def update_stream_def sent_data_def split: option.splits)
      ultimately show ?thesis using flush_subscribed [OF sid(1), of topic ?c c'] frame_in(1) by simp
    qed
  qed
next
  case (flux_in order t r)
  let ?ms = "flux_messages t r order c"
  have push: "push_messages ?ms c = (Ok (), c')" using flux_in by (simp add: on_flux_event_def)
  have d: "distinct (map fst ?ms)" "\<forall>m \<in> set ?ms. is_id (fst m)"
    using flux_in byst by (auto simp: flux_messages_def comp_def)
  have "sid \<in> set order" using sub flux_in by (auto simp: subscribed_def split: option.splits)
  then have one: "filter (\<lambda>i. i = sid) order = [sid]"
    using flux_in(2) by (induction order) (auto simp: filter_empty_conv)
  let ?q = "\<lambda>i. case streams c i of Some st \<Rightarrow> subscribed_topic st = Some t | None \<Rightarrow> False"
  have "filter (\<lambda>i. i = sid) (filter ?q order) = filter ?q (filter (\<lambda>i. i = sid) order)"
    by (simp only: filter_filter conj_commute)
  also have "\<dots> = filter ?q [sid]" by (simp only: one)
  finally have "map snd (filter (\<lambda>m. fst m = sid) ?ms) = map (\<lambda>_. message_for t r) (filter ?q [sid])"
    by (simp only: flux_messages_def filter_map comp_def fst_conv map_map snd_conv message_for_def)
  also have "\<dots> = published_to topic ev"
    using sub flux_in(1) by (auto simp: subscribed_def split: option.splits)
  finally have "map snd (filter (\<lambda>m. fst m = sid) ?ms) = published_to topic ev" .
  with push_messages_subscribed [OF sid(1) sub push d] show ?thesis by simp
qed


text \<open>A connection whose window is used up, with a stream subscribed to the topic \<open>t\<close>.\<close>

definition blocked_conn :: "unit Conn" where
  "blocked_conn = (Conn_new ())\<lparr>conn_send_window := 0,
     streams := [1 \<mapsto> Stream_new\<lparr>subscribed_topic := Some (ascii ''t'')\<rparr>]\<rparr>"

definition blocked_record :: FluxRecord where
  "blocked_record = \<lparr>flux_offset = 0, flux_key = None, flux_value = [1], flux_timestamp_ms = 5\<rparr>"

lemma blocked_event:
  "on_flux_event (ascii ''t'') blocked_record [1] blocked_conn
     = (Ok (), update_stream 1 (\<lambda>s. s\<lparr>outbound := outbound s @ [message_for (ascii ''t'') blocked_record]\<rparr>) blocked_conn)"
  by (simp add: on_flux_event_def flux_messages_def blocked_conn_def update_stream_def Conn_new_def Stream_new_def
      message_for_def encode_grpc_message_def flush_stream.simps)

lemma blocked_run:
  "conn_run open_ops blocked_conn [FluxIn (ascii ''t'') blocked_record [1]]
     (update_stream 1 (\<lambda>s. s\<lparr>outbound := outbound s @ [message_for (ascii ''t'') blocked_record]\<rparr>) blocked_conn)"
  by (rule conn_run.step [OF conn_step.flux_in [OF _ _ blocked_event] conn_run.stop])
    (simp_all add: blocked_conn_def)


text \<open>
  Credit for the connection releases nothing: a WINDOW_UPDATE frame for the
  connection only raises the window.  Messages that wait on a stream stay there,
  although they fit the window now, until another frame or record touches that
  stream.
\<close>

theorem connection_credit_releases_nothing:
  assumes "\<forall>ev \<in> set evs. \<exists>n. ev = FrameIn (credit_frame 0 n)"
  shows "\<exists>w. serve ops evs c = (Ok (), c\<lparr>conn_send_window := w\<rparr>) \<and>
    w = conn_send_window c + sum_list (map credit_of evs)"
  using assms
proof (induction evs arbitrary: c)
  case (Cons ev evs)
  then obtain n where ev: "ev = FrameIn (credit_frame 0 n)" by auto
  have "on_event ops ev c = (Ok (), c\<lparr>conn_send_window := conn_send_window c + credit_of ev\<rparr>)"
    by (simp add: ev on_event_def on_frame_def credit_frame_def on_window_update_def frame_constants)
  with Cons.IH [of "c\<lparr>conn_send_window := conn_send_window c + credit_of ev\<rparr>"] Cons.prems show ?case
    by (simp add: add.assoc)
qed simp

theorem connection_credit_releases_nothing_witness:
  "\<exists>w. serve open_ops [FrameIn (credit_frame 0 1000)] blocked_conn = (Ok (), blocked_conn\<lparr>conn_send_window := w\<rparr>) \<and>
     w = 1000"
proof -
  have "\<forall>ev \<in> set [FrameIn (credit_frame 0 1000)]. \<exists>n. ev = FrameIn (credit_frame 0 n)" by auto
  from connection_credit_releases_nothing [OF this, of open_ops blocked_conn]
  obtain w where w: "serve open_ops [FrameIn (credit_frame 0 1000)] blocked_conn = (Ok (), blocked_conn\<lparr>conn_send_window := w\<rparr>)"
    "w = conn_send_window blocked_conn + sum_list (map credit_of [FrameIn (credit_frame 0 1000)])" by blast
  have "w = 1000" unfolding w(2) by (simp add: blocked_conn_def credit_frame_def window_delta_def)
  with w(1) show ?thesis by blast
qed

subsection \<open>Calls\<close>

lemma grpc_message_round_trip:
  assumes "length m < 2 ^ 32"
  shows "body_for (encode_grpc_message m @ rest) = m"
proof -
  have "slice (encode_grpc_message m @ rest) 1 5 = u32_to_be_bytes (len_u32 m)"
    by (simp add: encode_grpc_message_def slice_def)
  moreover have "slice (encode_grpc_message m @ rest) 5 (5 + length m) = m"
    by (simp add: encode_grpc_message_def slice_def)
  moreover have "encode_grpc_message m ! 0 = 0" "length (encode_grpc_message m) = 5 + length m"
    by (simp_all add: encode_grpc_message_def)
  ultimately show ?thesis
    using assms by (simp add: body_for_def decode_first_grpc_message_def Let_def nth_append)
qed

lemma put_frame_ok: "length bs \<le> 0xffffff \<Longrightarrow> put_frame ft fl sid bs c = (Ok (), c\<lparr>written := written c @ [frame_of ft fl sid bs]\<rparr>)"
  by (simp add: put_frame_def write_frame_def frame_of_def Let_def)

text \<open>The answer to a unary call on a stream with nothing queued and enough window.\<close>

lemma answer_unary:
  assumes st: "streams c sid = Some st" "outbound st = []" "subscribed_topic st = None"
    and fit: "int (length (encode_grpc_message m)) \<le> conn_send_window c"
      "int (length (encode_grpc_message m)) \<le> send_window st"
    and len: "length (hpack_encode response_head) \<le> 0xffffff" "length (encode_grpc_message m) \<le> 0xffffff"
      "length (hpack_encode (trailers status [])) \<le> 0xffffff"
  shows "answer sid (Unary [] (Some m) (status, [])) c =
    (Ok (), c\<lparr>streams := (streams c)(sid := None),
       conn_send_window := conn_send_window c - int (length (encode_grpc_message m)),
       written := written c @
         [frame_of FRAME_HEADERS FLAG_END_HEADERS sid (hpack_encode response_head),
          frame_of FRAME_DATA 0 sid (encode_grpc_message m),
          frame_of FRAME_HEADERS (FLAG_END_HEADERS OR FLAG_END_STREAM) sid (hpack_encode (trailers status []))]\<rparr>)"
  using assms
  by (simp add: answer_def send_response_head_def put_frame_ok update_stream_def flush_stream.simps
      send_trailers_def remove_stream_def)

lemma length_encode_integer: "length (encode_integer v n pb) \<le> v + 2"
proof -
  have "length (encode_integer_loop v) \<le> v + 1" for v
  proof (induction v rule: encode_integer_loop.induct)
    case (1 v)
    show ?case
    proof (cases "128 \<le> v")
      case True
      then have "v div 128 + 2 \<le> v + 1" by linarith
      with 1 True show ?thesis by (subst encode_integer_loop.simps) simp
    next
      case False
      then show ?thesis by (subst encode_integer_loop.simps) simp
    qed
  qed
  from this [of "v - (2 ^ n - 1)"] have "length (encode_integer_loop (v - (2 ^ n - 1))) \<le> v + 1" by linarith
  then show ?thesis by (simp add: encode_integer_def Let_def)
qed

lemma length_encode_header: "length (encode_header (n, v)) \<le> 2 * length n + 2 * length v + 70"
proof -
  have str: "length (encode_string s) \<le> 2 * length s + 2" for s
    using length_encode_integer [of "length s" 7 0] by (simp add: encode_string_def)
  show ?thesis
  proof (cases "static_full_match n v")
    case (Some i)
    then show ?thesis
      using static_full_match_Some [OF Some, of Decoder_new] length_encode_integer [of i 7 "0x80"] by (simp add: encode_header_def)
  next
    case None
    show ?thesis
    proof (cases "static_name_match n")
      case (Some i)
      then show ?thesis
        using None static_name_match_Some [OF Some, of Decoder_new] length_encode_integer [of i 4 0] str [of v]
        by (simp add: encode_header_def)
    qed (use None str [of n] str [of v] in \<open>simp add: encode_header_def\<close>)
  qed
qed

lemma small_blocks:
  "length (hpack_encode response_head) \<le> 0xffffff" "length (hpack_encode (trailers status [])) \<le> 0xffffff"
proof -
  have "length (u8_to_string status) \<le> 3" by (simp add: u8_to_string_def Let_def)
  with length_encode_header [of "ascii ''grpc-status''" "u8_to_string status"]
    length_encode_header [of "ascii ''grpc-message''" "[]"]
  show "length (hpack_encode (trailers status [])) \<le> 0xffffff"
    by (simp add: hpack_encode_def trailers_def ascii_def)
  show "length (hpack_encode response_head) \<le> 0xffffff"
    using length_encode_header [of "ascii '':status''" "ascii ''200''"]
      length_encode_header [of "ascii ''content-type''" "ascii ''application/grpc''"]
    by (simp add: hpack_encode_def response_head_def ascii_def)
qed

definition headers_frame :: "u32 \<Rightarrow> Header list \<Rightarrow> Frame" where
  "headers_frame sid hs =
     \<lparr>frame_type = FRAME_HEADERS, frame_flags = FLAG_END_HEADERS, stream_id = sid, payload = hpack_encode hs\<rparr>"

definition last_data_frame :: "u32 \<Rightarrow> bytes \<Rightarrow> Frame" where
  "last_data_frame sid bs =
     \<lparr>frame_type = FRAME_DATA, frame_flags = FLAG_END_STREAM, stream_id = sid, payload = bs\<rparr>"

definition call_stream :: "Header list \<Rightarrow> u32 \<Rightarrow> Stream" where
  "call_stream hs window =
     Stream_new\<lparr>path := map_option snd (List.find (\<lambda>h. fst h = ascii '':path'') hs), st_headers := hs,
       send_window := int (unat window)\<rparr>"

lemma call_stream_sel [simp]:
  "st_headers (call_stream hs w) = hs" "body (call_stream hs w) = []" "outbound (call_stream hs w) = []"
  "subscribed_topic (call_stream hs w) = None" "send_window (call_stream hs w) = int (unat w)"
  by (simp_all add: call_stream_def Stream_new_def)

lemma headers_open_stream:
  assumes "list_all header_ok hs" "streams c sid = None" "pending_headers c = None"
  shows "on_event ops (FrameIn (headers_frame sid hs)) c
    = (Ok (), c\<lparr>streams := (streams c)(sid \<mapsto> call_stream hs (peer_initial_window c))\<rparr>)"
proof -
  have "headers_block_fragment (headers_frame sid hs) = Ok (hpack_encode hs)"
    by (simp add: headers_block_fragment_def headers_frame_def frame_flag_def flag_constants)
  moreover have "frame_flag (headers_frame sid hs) FLAG_END_HEADERS"
    by (simp add: headers_frame_def frame_flag_def flag_constants)
  moreover have "Decoder_decode (hpack c) (hpack_encode hs) = (Ok hs, hpack c)"
    using hpack_decode_encode [OF assms(1), of "hpack c" "[]"] by (simp add: Decoder_decode_def)
  moreover have "c\<lparr>pending_headers := None\<rparr> = c" using assms(3) by simp
  ultimately show ?thesis
    using assms(2,3)
    by (simp add: on_event_def on_frame_def on_headers_def finish_headers_def pending_block_def frame_constants
        headers_frame_def call_stream_def)
qed

lemma data_runs_request:
  assumes "streams c sid = Some st" "body st = []" "length bs < 2 ^ 32"
  shows "on_event ops (FrameIn (last_data_frame sid bs)) c
    = run_request ops sid (st\<lparr>body := bs\<rparr>) (c\<lparr>written := written c @ [frame_of FRAME_WINDOW_UPDATE 0 sid (be_nat 4 (length bs))]\<rparr>)"
  using assms
  by (simp add: on_event_def on_frame_def on_data_def last_data_frame_def data_payload_def frame_flag_def
      frame_constants flag_constants put_window_update_def put_frame_ok)

text \<open>
  C31: A publish call goes through all the layers and back: a HEADERS frame with
  the compressed request headers and a DATA frame with the enveloped message of
  the request's fields run exactly one publish with the fields of the request, and
  the client is sent the credit for its data, the response head, the partition and
  offset that the database returned, and the trailers that close the stream.
\<close>

theorem publish_call:
  assumes hs: "list_all header_ok hs"
      "map_option snd (List.find (\<lambda>h. fst h = ascii '':path'') hs) = Some (ascii ''/flux.Flux/Publish'')"
    and fs: "list_all wf_field fs" "length (encode_fields fs) < 2 ^ 32 - 5"
    and c: "streams c sid = None" "pending_headers c = None"
    and req: "req = fold (apply_field PublishRequest_arm) fs PublishRequest_default"
    and auth: "authenticate_basic ops (conn_db c) (authorization_of hs) = Ok actor"
    and perm: "check_topic ops actor (conn_db c) Insert (pub_topic req) = Ok ()"
    and pub: "flux_publish ops (pub_topic req) (if has_partition req then Some (pub_partition req) else None)
        (Some (pub_key req)) (pub_value req) (conn_db c) = (Ok (part, offset), db')"
    and m: "m = encode_grpc_message (PublishResponse_encode \<lparr>resp_partition = part, resp_offset = offset\<rparr>)"
    and fit: "int (length m) \<le> conn_send_window c" "length m \<le> unat (peer_initial_window c)" "length m \<le> 0xffffff"
  shows "serve ops [FrameIn (headers_frame sid hs), FrameIn (last_data_frame sid (encode_grpc_message (encode_fields fs)))] c
    = (Ok (), c\<lparr>conn_db := db', conn_send_window := conn_send_window c - int (length m),
         written := written c @
           [frame_of FRAME_WINDOW_UPDATE 0 sid (be_nat 4 (length (encode_fields fs) + 5)),
            frame_of FRAME_HEADERS FLAG_END_HEADERS sid (hpack_encode response_head),
            frame_of FRAME_DATA 0 sid m,
            frame_of FRAME_HEADERS (FLAG_END_HEADERS OR FLAG_END_STREAM) sid (hpack_encode (trailers GRPC_OK []))]\<rparr>)"
proof -
  let ?bs = "encode_grpc_message (encode_fields fs)" and ?w = "peer_initial_window c"
  let ?st = "call_stream hs ?w"
  let ?c1 = "c\<lparr>streams := (streams c)(sid \<mapsto> ?st)\<rparr>"
  let ?c2 = "?c1\<lparr>written := written c @ [frame_of FRAME_WINDOW_UPDATE 0 sid (be_nat 4 (length (encode_fields fs) + 5))],
    streams := (streams c)(sid \<mapsto> ?st\<lparr>body := [], req_ended := True\<rparr>), conn_db := db'\<rparr>"
  have p: "path ?st = Some (ascii ''/flux.Flux/Publish'')"
    unfolding hs(2) [symmetric] by (simp add: call_stream_def)
  have fit2: "int (length m) \<le> int (unat ?w)" using fit(2) by (simp only: of_nat_le_iff)
  have len: "length ?bs = length (encode_fields fs) + 5" by (simp add: encode_grpc_message_def)
  have "body_for ?bs = encode_fields fs"
    using grpc_message_round_trip [of "encode_fields fs" "[]"] fs(2) by simp
  moreover have "PublishRequest_decode (encode_fields fs) = Ok req"
    using decode_fields_encode [OF arms_ok(2) fs(1), of "[]"] fs(2) by (simp add: PublishRequest_decode_def req)
  ultimately have d: "dispatch ops (ascii ''/flux.Flux/Publish'') ?bs actor (conn_db c)
      = (Unary [] (Some (PublishResponse_encode \<lparr>resp_partition = part, resp_offset = offset\<rparr>)) (GRPC_OK, []), db')"
    using perm pub by (simp add: dispatch_def dispatch_publish_def with_request_def with_permission_def)
  have "on_event ops (FrameIn (last_data_frame sid ?bs)) ?c1
      = run_request ops sid (?st\<lparr>body := ?bs\<rparr>) (?c1\<lparr>written := written c @ [frame_of FRAME_WINDOW_UPDATE 0 sid (be_nat 4 (length (encode_fields fs) + 5))]\<rparr>)"
    using data_runs_request [of ?c1 sid ?st ?bs ops] fs(2) by (simp add: len)
  also have "\<dots> = answer sid (Unary [] (Some (PublishResponse_encode \<lparr>resp_partition = part, resp_offset = offset\<rparr>)) (GRPC_OK, [])) ?c2"
    using auth d p by (simp add: run_request_def)
  also have "\<dots> = (Ok (), ?c2\<lparr>streams := (streams ?c2)(sid := None),
       conn_send_window := conn_send_window ?c2 - int (length m),
       written := written ?c2 @
         [frame_of FRAME_HEADERS FLAG_END_HEADERS sid (hpack_encode response_head),
          frame_of FRAME_DATA 0 sid m,
          frame_of FRAME_HEADERS (FLAG_END_HEADERS OR FLAG_END_STREAM) sid (hpack_encode (trailers GRPC_OK []))]\<rparr>)"
    using fit fit2 small_blocks unfolding m
    by (intro answer_unary [of _ _ "?st\<lparr>body := [], req_ended := True\<rparr>"]) simp_all
  finally show ?thesis
    using headers_open_stream [OF hs(1) c, of ops] c(1) by (simp add: fun_upd_idem)
qed

definition example_headers :: "Header list" where
  "example_headers = [(ascii '':path'', ascii ''/flux.Flux/Publish'')]"

definition example_fields :: "wire_field list" where
  "example_fields = [LenField 1 (ascii ''t''), LenField 3 [9]]"

theorem publish_call_witness:
  "serve open_ops [FrameIn (headers_frame 1 example_headers),
       FrameIn (last_data_frame 1 (encode_grpc_message (encode_fields example_fields)))] (Conn_new ())
    = (Ok (), (Conn_new ())\<lparr>conn_send_window := 65530,
         written := [frame_of FRAME_WINDOW_UPDATE 0 1 (be_nat 4 (length (encode_fields example_fields) + 5)),
            frame_of FRAME_HEADERS FLAG_END_HEADERS 1 (hpack_encode response_head),
            frame_of FRAME_DATA 0 1 [0, 0, 0, 0, 0],
            frame_of FRAME_HEADERS (FLAG_END_HEADERS OR FLAG_END_STREAM) 1 (hpack_encode (trailers GRPC_OK []))]\<rparr>)"
proof -
  have hs: "list_all header_ok example_headers"
    by (simp add: example_headers_def header_ok_def ascii_def valid_utf8_ascii)
  have p: "map_option snd (List.find (\<lambda>h. fst h = ascii '':path'') example_headers) = Some (ascii ''/flux.Flux/Publish'')"
    by (simp add: example_headers_def)
  have fs: "list_all wf_field example_fields" by (simp add: example_fields_def)
  have "length (encode_fields example_fields) \<le> 500"
    using length_encode_field_le [of "LenField 1 (ascii ''t'')"] length_encode_field_le [of "LenField 3 [9]"]
    by (simp add: example_fields_def encode_fields_def ascii_def del: encode_field.simps)
  then have len: "length (encode_fields example_fields) < 2 ^ 32 - 5" by simp
  have m: "encode_grpc_message (PublishResponse_encode \<lparr>resp_partition = 0, resp_offset = 0\<rparr>) = [0, 0, 0, 0, 0]"
    by (simp add: encode_grpc_message_def PublishResponse_encode_def write_varint_field_def be_nat_numeral)
  have c: "streams (Conn_new ()) 1 = None" "pending_headers (Conn_new ()) = None" by (simp_all add: Conn_new_def)
  show ?thesis
    using publish_call [where ops = open_ops and sid = 1 and c = "Conn_new ()" and part = 0 and offset = 0 and db' = "()"
        and actor = "()", OF hs p fs len c refl _ _ _ refl, unfolded m]
    by (simp add: open_ops_def) (simp add: Conn_new_def DEFAULT_INITIAL_WINDOW_def)
qed

subsection \<open>Calls without permission\<close>

definition no_access :: "('d, 'a) flux_ops \<Rightarrow> bool" where
  "no_access ops \<longleftrightarrow>
     (\<forall>d auth actor priv topic. authenticate_basic ops d auth = Ok actor \<longrightarrow>
        \<not> is_ok (check_topic ops actor d priv topic))"

definition quiet :: "'d \<Rightarrow> 'd Conn \<Rightarrow> bool" where
  "quiet db c \<longleftrightarrow> conn_db c = db \<and> (\<forall>f \<in> set (written c). frame_type f \<noteq> FRAME_DATA) \<and>
     (\<forall>s \<in> ran (streams c). outbound s = [] \<and> subscribed_topic s = None \<and> pending_trailers s = None)"

definition denied :: "'d \<Rightarrow> DispatchResult \<times> 'd \<Rightarrow> bool" where
  "denied db p \<longleftrightarrow> snd p = db \<and> (case fst p of DispatchPanic \<Rightarrow> True | DispatchError _ _ \<Rightarrow> True | _ \<Rightarrow> False)"

lemma denied_request: "(\<And>req. denied db (f req)) \<Longrightarrow> denied db (with_request r db f)"
  by (simp add: with_request_def denied_def split: sum.split)

lemma denied_permission: "\<not> is_ok (check_topic ops actor db priv topic) \<Longrightarrow> denied db (with_permission ops actor priv topic db f)"
  by (cases "check_topic ops actor db priv topic") (simp_all add: with_permission_def denied_def)

lemma denied_error: "denied db (DispatchError st msg, db)"
  by (simp add: denied_def)

lemma dispatch_denied:
  assumes "\<And>priv topic. \<not> is_ok (check_topic ops actor db priv topic)"
  shows "denied db (dispatch ops p bs actor db)"
proof -
  have "denied db (dispatch_publish ops actor bs db)" "denied db (dispatch_poll ops actor bs db)"
    "denied db (dispatch_subscribe ops actor bs db)" "denied db (dispatch_create_topic ops actor bs db)"
    unfolding dispatch_publish_def dispatch_poll_def dispatch_subscribe_def dispatch_create_topic_def
    by (auto intro!: denied_request denied_permission denied_error assms)
  then show ?thesis by (simp add: dispatch_def denied_error)
qed

lemma quiet_put: "quiet db c \<Longrightarrow> ft \<noteq> FRAME_DATA \<Longrightarrow> quiet db (snd (put_frame ft fl sid bs c))"
  by (cases rule: put_frame_cases [of ft fl sid bs c]) (auto simp: quiet_def frame_of_def)

lemma quiet_flush: "quiet db c \<Longrightarrow> flush_stream sid c = (Ok (), c)"
  by (subst flush_stream.simps) (auto simp: quiet_def ran_def split: option.split)

lemma quiet_and_next: "quiet db (snd p) \<Longrightarrow> (\<And>c. quiet db c \<Longrightarrow> quiet db (snd (f c))) \<Longrightarrow> quiet db (snd (and_next p f))"
  by (simp add: snd_and_next split: sum.split)

lemma quiet_remove: "quiet db c \<Longrightarrow> quiet db (remove_stream sid c)"
  by (auto simp: quiet_def remove_stream_def ran_def)

lemma quiet_upd:
  "quiet db c \<Longrightarrow> outbound s = [] \<Longrightarrow> subscribed_topic s = None \<Longrightarrow> pending_trailers s = None \<Longrightarrow>
   quiet db (c\<lparr>streams := (streams c)(sid \<mapsto> s)\<rparr>)"
  by (auto simp: quiet_def ran_def)

lemma quiet_stream: "quiet db c \<Longrightarrow> streams c sid = Some s \<Longrightarrow> outbound s = [] \<and> subscribed_topic s = None \<and> pending_trailers s = None"
  by (auto simp: quiet_def ran_def)

lemma quiet_error: "quiet db c \<Longrightarrow> quiet db (snd (answer sid (DispatchError st msg) c))"
  by (auto simp: answer_def send_error_def frame_constants intro!: quiet_and_next quiet_put quiet_remove)

lemma quiet_run_request:
  assumes "no_access ops" "quiet db c" "outbound st = []" "subscribed_topic st = None" "pending_trailers st = None"
  shows "quiet db (snd (run_request ops sid st c))"
proof -
  let ?c = "c\<lparr>streams := (streams c)(sid \<mapsto> st\<lparr>body := [], req_ended := True\<rparr>)\<rparr>"
  have c: "quiet db ?c" using assms(2-) by (intro quiet_upd) simp_all
  show ?thesis
  proof (cases "authenticate_basic ops (conn_db c) (authorization_of (st_headers st))")
    case (Inl e)
    then show ?thesis using quiet_error [OF c] by (simp add: run_request_def)
  next
    case (Inr actor)
    let ?p = "case path st of Some p \<Rightarrow> p | None \<Rightarrow> []"
    obtain res db' where d: "dispatch ops ?p (body st) actor (conn_db c) = (res, db')" by fastforce
    have "denied (conn_db c) (res, db')"
      unfolding d [symmetric] using assms(1) Inr by (intro dispatch_denied) (auto simp: no_access_def)
    moreover have "quiet db (snd (answer sid DispatchPanic ?c))" using c by (simp add: answer_def)
    ultimately have "quiet db (snd (answer sid res (?c\<lparr>conn_db := db'\<rparr>)))"
      using quiet_error [OF c] by (cases res) (simp_all add: denied_def)
    then show ?thesis using Inr d by (simp add: run_request_def)
  qed
qed

lemma quiet_finish:
  assumes c: "quiet db c"
  shows "quiet db (snd (finish_headers sid block c))"
proof -
  obtain r d where d: "Decoder_decode (hpack c) block = (r, d)" by fastforce
  have h: "quiet db (c\<lparr>hpack := d\<rparr>)" using c by (simp add: quiet_def)
  let ?st = "case streams c sid of Some st \<Rightarrow> st | None \<Rightarrow> Stream_new"
  have "outbound ?st = [] \<and> subscribed_topic ?st = None \<and> pending_trailers ?st = None"
    using quiet_stream [OF c] by (simp add: Stream_new_def split: option.split)
  then have "quiet db (c\<lparr>hpack := d, streams := (streams (c\<lparr>hpack := d\<rparr>))(sid \<mapsto> ?st\<lparr>path := p, st_headers := hs, send_window := w\<rparr>)\<rparr>)" for p hs w
    by (intro quiet_upd h) simp_all
  with h show ?thesis by (cases r) (simp_all add: finish_headers_def d Let_def)
qed

lemma quiet_setting: "quiet db c \<Longrightarrow> quiet db (apply_setting x c)"
proof (cases "fst x = SETTINGS_INITIAL_WINDOW_SIZE")
  case True
  assume "quiet db c"
  then show ?thesis
    unfolding quiet_def apply_setting_def by (cases x) (auto simp: ran_def Let_def)
qed (cases x, simp add: apply_setting_def)

lemma quiet_settings: "quiet db c \<Longrightarrow> quiet db (snd (on_settings frame c))"
proof -
  assume c: "quiet db c"
  have f: "quiet db (fold apply_setting ss c)" for ss
    using c by (induction ss arbitrary: c) (simp_all add: quiet_setting)
  moreover have "quiet db (c\<lparr>peer_settings_acked := True\<rparr>)" using c by (simp add: quiet_def)
  ultimately show ?thesis
    using c quiet_put [OF f, of FRAME_SETTINGS] by (simp add: on_settings_def frame_constants split: sum.split)
qed

lemma quiet_frame:
  assumes "no_access ops" "quiet db c"
  shows "quiet db (snd (on_frame ops frame c))"
proof -
  have "quiet db (snd (on_window_update frame c))"
  proof -
    have "quiet db (c\<lparr>conn_send_window := w\<rparr>)" for w using assms(2) by (simp add: quiet_def)
    moreover have "quiet db (update_stream sid (\<lambda>st. st\<lparr>send_window := send_window st + w\<rparr>) c)" for sid w
      using assms(2) quiet_stream [OF assms(2)] by (auto simp: update_stream_def split: option.split intro!: quiet_upd)
    ultimately show ?thesis by (simp add: on_window_update_def Let_def quiet_flush [of db])
  qed
  moreover have "quiet db (c\<lparr>pending_headers := p\<rparr>)" for p using assms(2) by (simp add: quiet_def)
  then have "quiet db (snd (on_headers frame c))" "quiet db (snd (on_continuation frame c))"
    using assms(2) by (auto simp: on_headers_def on_continuation_def Let_def quiet_finish split: sum.split)
  moreover have "quiet db (snd (on_data ops frame c))"
  proof -
    have "quiet db (snd (case streams c' (stream_id frame) of None \<Rightarrow> (Ok (), c')
        | Some st \<Rightarrow> let st = st\<lparr>body := body st @ data\<rparr> in
            if frame_flag frame FLAG_END_STREAM then run_request ops (stream_id frame) st c'
            else (Ok (), c'\<lparr>streams := (streams c')(stream_id frame \<mapsto> st)\<rparr>)))" if "quiet db c'" for c' data
      using that quiet_stream [OF that] quiet_run_request [OF assms(1) that]
      by (auto simp: Let_def split: option.split intro!: quiet_upd)
    then show ?thesis
      using assms(2)
      by (auto simp: on_data_def put_window_update_def frame_constants split: sum.split intro!: quiet_and_next quiet_put)
  qed
  ultimately show ?thesis
    using assms(2) quiet_settings [OF assms(2)]
    by (auto simp: on_frame_def on_ping_def on_rst_stream_def frame_constants intro!: quiet_put quiet_remove)
qed

lemma quiet_event: "no_access ops \<Longrightarrow> quiet db c \<Longrightarrow> quiet db (snd (on_event ops ev c))"
proof (cases ev)
  case (FluxIn topic fr order)
  assume c: "quiet db c"
  have "flux_messages topic fr order c = []"
    using quiet_stream [OF c] by (auto simp: flux_messages_def filter_empty_conv split: option.split)
  then show ?thesis using c by (simp add: FluxIn on_event_def on_flux_event_def)
qed (simp add: on_event_def quiet_frame)



end
