(* ===== verification/HpackHuffman.thy ===== *)
theory HpackHuffman
  imports Hpack
begin

unbundle bit_operations_syntax

text \<open>
  The Huffman code of the header strings is canonical: the codes of one length
  are consecutive numbers that start where the shorter codes leave off.  From
  this the code is prefix-free, and the bit-by-bit decoder of
  \<open>wire/grpc/hpack.rs\<close> inverts the encoding of the code table.
\<close>

subsection \<open>The code is canonical\<close>

definition first_codes :: "nat list" where
  "first_codes = [0, 0, 0, 0, 0, 0, 20, 92, 248, 508, 1016, 2042, 4090, 8184, 16380, 32764, 65534, 131068, 262136,
     524272, 1048550, 2097116, 4194258, 8388568, 16777194, 33554412, 67108832, 134217694, 268435426, 536870910,
     1073741820]"

definition code_counts :: "nat list" where
  "code_counts = [0, 0, 0, 0, 0, 10, 26, 32, 6, 0, 5, 3, 2, 6, 2, 3, 0, 0, 0, 3, 8, 13, 26, 29, 12, 4, 15, 19, 29,
     0, 4]"

abbreviation first_code :: "nat \<Rightarrow> nat" where
  "first_code l \<equiv> first_codes ! l"

abbreviation next_code :: "nat \<Rightarrow> nat" where
  "next_code l \<equiv> first_codes ! l + code_counts ! l"

definition codes_of_length :: "nat \<Rightarrow> nat list" where
  "codes_of_length l = map fst (filter (\<lambda>e. snd e = l) HUFFMAN)"

lemma first_code_Suc: "l < 30 \<Longrightarrow> first_code (Suc l) = 2 * next_code l"
proof -
  have "map (\<lambda>l. first_code (Suc l)) [0..<30] = map (\<lambda>l. 2 * next_code l) [0..<30]"
    by (simp add: first_codes_def code_counts_def upt_rec)
  then show "l < 30 \<Longrightarrow> first_code (Suc l) = 2 * next_code l"
    by (simp only: map_eq_conv) simp
qed

lemma length_HUFFMAN: "length HUFFMAN = 257"
  by (simp add: HUFFMAN_def)

lemma code_lengths: "list_all (\<lambda>e. snd e \<in> {5, 6, 7, 8, 10, 11, 12, 13, 14, 15, 19, 20, 21, 22, 23, 24, 25, 26, 27, 28, 30}) HUFFMAN"
  by (simp add: HUFFMAN_def)

text \<open>The table in pieces, which keeps the evaluation of filters over it short.\<close>

lemma HUFFMAN_blocks: "HUFFMAN =
    [(0x1ff8, 13), (0x7fffd8, 23), (0xfffffe2, 28), (0xfffffe3, 28), (0xfffffe4, 28),
      (0xfffffe5, 28), (0xfffffe6, 28), (0xfffffe7, 28), (0xfffffe8, 28), (0xffffea, 24),
      (0x3ffffffc, 30), (0xfffffe9, 28), (0xfffffea, 28), (0x3ffffffd, 30), (0xfffffeb, 28),
      (0xfffffec, 28)] @
    [(0xfffffed, 28), (0xfffffee, 28), (0xfffffef, 28), (0xffffff0, 28), (0xffffff1, 28),
      (0xffffff2, 28), (0x3ffffffe, 30), (0xffffff3, 28), (0xffffff4, 28), (0xffffff5, 28),
      (0xffffff6, 28), (0xffffff7, 28), (0xffffff8, 28), (0xffffff9, 28), (0xffffffa, 28),
      (0xffffffb, 28)] @
    [(0x14, 6), (0x3f8, 10), (0x3f9, 10), (0xffa, 12), (0x1ff9, 13), (0x15, 6), (0xf8, 8),
      (0x7fa, 11), (0x3fa, 10), (0x3fb, 10), (0xf9, 8), (0x7fb, 11), (0xfa, 8), (0x16, 6),
      (0x17, 6), (0x18, 6)] @
    [(0x0, 5), (0x1, 5), (0x2, 5), (0x19, 6), (0x1a, 6), (0x1b, 6), (0x1c, 6), (0x1d, 6),
      (0x1e, 6), (0x1f, 6), (0x5c, 7), (0xfb, 8), (0x7ffc, 15), (0x20, 6), (0xffb, 12),
      (0x3fc, 10)] @
    [(0x1ffa, 13), (0x21, 6), (0x5d, 7), (0x5e, 7), (0x5f, 7), (0x60, 7), (0x61, 7), (0x62, 7),
      (0x63, 7), (0x64, 7), (0x65, 7), (0x66, 7), (0x67, 7), (0x68, 7), (0x69, 7), (0x6a, 7)] @
    [(0x6b, 7), (0x6c, 7), (0x6d, 7), (0x6e, 7), (0x6f, 7), (0x70, 7), (0x71, 7), (0x72, 7),
      (0xfc, 8), (0x73, 7), (0xfd, 8), (0x1ffb, 13), (0x7fff0, 19), (0x1ffc, 13), (0x3ffc, 14),
      (0x22, 6)] @
    [(0x7ffd, 15), (0x3, 5), (0x23, 6), (0x4, 5), (0x24, 6), (0x5, 5), (0x25, 6), (0x26, 6),
      (0x27, 6), (0x6, 5), (0x74, 7), (0x75, 7), (0x28, 6), (0x29, 6), (0x2a, 6), (0x7, 5)] @
    [(0x2b, 6), (0x76, 7), (0x2c, 6), (0x8, 5), (0x9, 5), (0x2d, 6), (0x77, 7), (0x78, 7),
      (0x79, 7), (0x7a, 7), (0x7b, 7), (0x7ffe, 15), (0x7fc, 11), (0x3ffd, 14), (0x1ffd, 13),
      (0xffffffc, 28)] @
    [(0xfffe6, 20), (0x3fffd2, 22), (0xfffe7, 20), (0xfffe8, 20), (0x3fffd3, 22),
      (0x3fffd4, 22), (0x3fffd5, 22), (0x7fffd9, 23), (0x3fffd6, 22), (0x7fffda, 23),
      (0x7fffdb, 23), (0x7fffdc, 23), (0x7fffdd, 23), (0x7fffde, 23), (0xffffeb, 24),
      (0x7fffdf, 23)] @
    [(0xffffec, 24), (0xffffed, 24), (0x3fffd7, 22), (0x7fffe0, 23), (0xffffee, 24),
      (0x7fffe1, 23), (0x7fffe2, 23), (0x7fffe3, 23), (0x7fffe4, 23), (0x1fffdc, 21),
      (0x3fffd8, 22), (0x7fffe5, 23), (0x3fffd9, 22), (0x7fffe6, 23), (0x7fffe7, 23),
      (0xffffef, 24)] @
    [(0x3fffda, 22), (0x1fffdd, 21), (0xfffe9, 20), (0x3fffdb, 22), (0x3fffdc, 22),
      (0x7fffe8, 23), (0x7fffe9, 23), (0x1fffde, 21), (0x7fffea, 23), (0x3fffdd, 22),
      (0x3fffde, 22), (0xfffff0, 24), (0x1fffdf, 21), (0x3fffdf, 22), (0x7fffeb, 23),
      (0x7fffec, 23)] @
    [(0x1fffe0, 21), (0x1fffe1, 21), (0x3fffe0, 22), (0x1fffe2, 21), (0x7fffed, 23),
      (0x3fffe1, 22), (0x7fffee, 23), (0x7fffef, 23), (0xfffea, 20), (0x3fffe2, 22),
      (0x3fffe3, 22), (0x3fffe4, 22), (0x7ffff0, 23), (0x3fffe5, 22), (0x3fffe6, 22),
      (0x7ffff1, 23)] @
    [(0x3ffffe0, 26), (0x3ffffe1, 26), (0xfffeb, 20), (0x7fff1, 19), (0x3fffe7, 22),
      (0x7ffff2, 23), (0x3fffe8, 22), (0x1ffffec, 25), (0x3ffffe2, 26), (0x3ffffe3, 26),
      (0x3ffffe4, 26), (0x7ffffde, 27), (0x7ffffdf, 27), (0x3ffffe5, 26), (0xfffff1, 24),
      (0x1ffffed, 25)] @
    [(0x7fff2, 19), (0x1fffe3, 21), (0x3ffffe6, 26), (0x7ffffe0, 27), (0x7ffffe1, 27),
      (0x3ffffe7, 26), (0x7ffffe2, 27), (0xfffff2, 24), (0x1fffe4, 21), (0x1fffe5, 21),
      (0x3ffffe8, 26), (0x3ffffe9, 26), (0xffffffd, 28), (0x7ffffe3, 27), (0x7ffffe4, 27),
      (0x7ffffe5, 27)] @
    [(0xfffec, 20), (0xfffff3, 24), (0xfffed, 20), (0x1fffe6, 21), (0x3fffe9, 22),
      (0x1fffe7, 21), (0x1fffe8, 21), (0x7ffff3, 23), (0x3fffea, 22), (0x3fffeb, 22),
      (0x1ffffee, 25), (0x1ffffef, 25), (0xfffff4, 24), (0xfffff5, 24), (0x3ffffea, 26),
      (0x7ffff4, 23)] @
    [(0x3ffffeb, 26), (0x7ffffe6, 27), (0x3ffffec, 26), (0x3ffffed, 26), (0x7ffffe7, 27),
      (0x7ffffe8, 27), (0x7ffffe9, 27), (0x7ffffea, 27), (0x7ffffeb, 27), (0xffffffe, 28),
      (0x7ffffec, 27), (0x7ffffed, 27), (0x7ffffee, 27), (0x7ffffef, 27), (0x7fffff0, 27),
      (0x3ffffee, 26)] @
    [(0x3fffffff, 30)]"
  by (simp only: HUFFMAN_def append.simps)

lemma upt_0_10: "[0..<10] = [0, Suc 0, 2, 3, 4, 5, 6, 7, 8, 9]"
  by (simp add: upt_rec)

lemma codes_consecutive:
  "codes_of_length 5 = [first_code 5..<next_code 5]" "codes_of_length 6 = [first_code 6..<next_code 6]"
  "codes_of_length 7 = [first_code 7..<next_code 7]" "codes_of_length 8 = [first_code 8..<next_code 8]"
  "codes_of_length 10 = [first_code 10..<next_code 10]" "codes_of_length 11 = [first_code 11..<next_code 11]"
  "codes_of_length 12 = [first_code 12..<next_code 12]" "codes_of_length 13 = [first_code 13..<next_code 13]"
  "codes_of_length 14 = [first_code 14..<next_code 14]" "codes_of_length 15 = [first_code 15..<next_code 15]"
  "codes_of_length 19 = [first_code 19..<next_code 19]" "codes_of_length 20 = [first_code 20..<next_code 20]"
  "codes_of_length 21 = [first_code 21..<next_code 21]" "codes_of_length 22 = [first_code 22..<next_code 22]"
  "codes_of_length 23 = [first_code 23..<next_code 23]" "codes_of_length 24 = [first_code 24..<next_code 24]"
  "codes_of_length 25 = [first_code 25..<next_code 25]" "codes_of_length 26 = [first_code 26..<next_code 26]"
  "codes_of_length 27 = [first_code 27..<next_code 27]" "codes_of_length 28 = [first_code 28..<next_code 28]"
  "codes_of_length 30 = [first_code 30..<next_code 30]"
  by (simp_all only: codes_of_length_def HUFFMAN_blocks filter_append map_append)
    (simp_all add: first_codes_def code_counts_def upt_0_10)

lemma codes_of_length:
  assumes "e \<in> set HUFFMAN"
  shows "codes_of_length (snd e) = [first_code (snd e)..<next_code (snd e)]"
proof -
  have "snd e \<in> {5, 6, 7, 8, 10, 11, 12, 13, 14, 15, 19, 20, 21, 22, 23, 24, 25, 26, 27, 28, 30}"
    using code_lengths assms unfolding list_all_iff by (rule bspec)
  then consider "snd e = 5" | "snd e = 6" | "snd e = 7" | "snd e = 8" | "snd e = 10" | "snd e = 11" | "snd e = 12"
    | "snd e = 13" | "snd e = 14" | "snd e = 15" | "snd e = 19" | "snd e = 20" | "snd e = 21" | "snd e = 22"
    | "snd e = 23" | "snd e = 24" | "snd e = 25" | "snd e = 26" | "snd e = 27" | "snd e = 28" | "snd e = 30"
    by (simp only: insert_iff empty_iff) blast
  then show "codes_of_length (snd e) = [first_code (snd e)..<next_code (snd e)]"
    by (cases; simp only: codes_consecutive)
qed

lemma code_range:
  assumes "(c, l) \<in> set HUFFMAN"
  shows "l \<le> 30" "first_code l \<le> c" "c < next_code l"
proof -
  have "c \<in> set (codes_of_length l)"
    using assms unfolding codes_of_length_def by (force simp: image_iff)
  then show "first_code l \<le> c" "c < next_code l"
    using codes_of_length [OF assms] by simp_all
  have "snd (c, l) \<in> {5, 6, 7, 8, 10, 11, 12, 13, 14, 15, 19, 20, 21, 22, 23, 24, 25, 26, 27, 28, 30}"
    using code_lengths assms unfolding list_all_iff by (rule bspec)
  then show "l \<le> 30" by auto
qed

lemma distinct_by_length:
  "(\<And>e. e \<in> set xs \<Longrightarrow> distinct (map fst (filter (\<lambda>f. snd f = snd e) xs))) \<Longrightarrow> distinct xs"
proof (induction xs)
  case (Cons x xs)
  have "distinct (map fst (filter (\<lambda>f. snd f = snd e) xs))" if "e \<in> set xs" for e
    using Cons.prems [of e] that by (auto split: if_splits)
  moreover have "x \<notin> set xs"
    using Cons.prems [of x] by force
  ultimately show ?case using Cons.IH by simp
qed simp

lemma distinct_HUFFMAN: "distinct HUFFMAN"
proof (rule distinct_by_length)
  fix e
  assume "e \<in> set HUFFMAN"
  from codes_of_length [OF this] show "distinct (map fst (filter (\<lambda>f. snd f = snd e) HUFFMAN))"
    by (simp add: codes_of_length_def)
qed

text \<open>A longer code, cut to length \<open>k\<close>, is past the codes of length \<open>k\<close>.\<close>

lemma first_code_grows: "k + Suc j \<le> 30 \<Longrightarrow> 2 ^ Suc j * next_code k \<le> first_code (k + Suc j)"
proof (induction j)
  case 0
  then show ?case using first_code_Suc [of k] by simp
next
  case (Suc j)
  have "first_code (k + Suc (Suc j)) = 2 * next_code (k + Suc j)"
    using first_code_Suc [of "k + Suc j"] Suc.prems by simp
  then have "2 * first_code (k + Suc j) \<le> first_code (k + Suc (Suc j))"
    by (simp only: add_mult_distrib2 le_add1)
  moreover have "2 ^ Suc (Suc j) * next_code k \<le> 2 * first_code (k + Suc j)"
    using Suc by (simp only: power_Suc [of 2 "Suc j"] mult.assoc mult_le_mono2)
  ultimately show ?case by (rule le_trans [rotated])
qed

lemma cut_code_no_entry:
  assumes "(c, l) \<in> set HUFFMAN" "k < l"
  shows "(c div 2 ^ (l - k), k) \<notin> set HUFFMAN"
proof
  assume "(c div 2 ^ (l - k), k) \<in> set HUFFMAN"
  then have "c div 2 ^ (l - k) < next_code k" by (rule code_range)
  then have "c < next_code k * 2 ^ (l - k)" by (simp add: div_less_iff_less_mult)
  moreover obtain j where "l = k + Suc j" using assms(2) less_iff_Suc_add by auto
  ultimately show False
    using code_range [OF assms(1)] first_code_grows [of k j] by (simp add: mult.commute)
qed

subsection \<open>Decoding symbols\<close>

lemma find_entry_None: "(cur, bits) \<notin> set es \<Longrightarrow> find_entry s es cur bits = None"
  by (induction s es cur bits rule: find_entry.induct) auto

lemma find_entry_nth:
  "distinct es \<Longrightarrow> i < length es \<Longrightarrow> es ! i = (cur, bits) \<Longrightarrow> find_entry s es cur bits = Some (s + i)"
proof (induction es arbitrary: s i)
  case (Cons e es)
  then show ?case by (cases i; cases e) (auto simp: nth_Cons' dest: nth_mem)
qed simp

lemma match_symbol_cut: "(c, l) \<in> set HUFFMAN \<Longrightarrow> k < l \<Longrightarrow> match_symbol (c div 2 ^ (l - k)) k = None"
  unfolding match_symbol_def by (intro find_entry_None cut_code_no_entry)

lemma match_symbol_nth: "i < 257 \<Longrightarrow> HUFFMAN ! i = (c, l) \<Longrightarrow> match_symbol c l = Some i"
  unfolding match_symbol_def using find_entry_nth [OF distinct_HUFFMAN, of i c l 0] length_HUFFMAN by simp

definition low_bits :: "nat \<Rightarrow> nat \<Rightarrow> bool list" where
  "low_bits c n = map (\<lambda>i. odd (c div 2 ^ i)) (rev [0..<n])"

lemma next_bit: "2 * (c div 2 ^ Suc m) + (if odd (c div 2 ^ m) then 1 else 0) = c div 2 ^ m" for c :: nat
proof -
  have "c div 2 ^ Suc m = (c div 2 ^ m) div 2" by (simp only: power_Suc2 div_mult2_eq)
  then show ?thesis by (cases "even (c div 2 ^ m)") simp_all
qed

lemma huffman_bits_append: "huffman_bits (as @ bs) st = and_then (huffman_bits as st) (huffman_bits bs)"
proof (induction as arbitrary: st)
  case (Cons a as)
  then show ?case by (cases "huffman_bit a st") simp_all
qed simp

text \<open>The decoder goes through the bits of a code one by one; only the last one completes it.\<close>

lemma huffman_bits_prefix:
  assumes e: "(c, l) \<in> set HUFFMAN" and c: "c < 2 ^ 32" and m: "0 < m" "m \<le> n" "n \<le> l"
  shows "huffman_bits (map (\<lambda>i. odd (c div 2 ^ i)) (rev [m..<n])) \<lparr>hs_out = out, hs_cur = c div 2 ^ n, hs_bits = l - n\<rparr>
    = Ok \<lparr>hs_out = out, hs_cur = c div 2 ^ m, hs_bits = l - m\<rparr>"
  using m(2,3)
proof (induction "n - m" arbitrary: n)
  case 0
  then show ?case by simp
next
  case (Suc j)
  then obtain n' where n: "n = Suc n'" "m \<le> n'" by (cases n) auto
  have "l - n' \<le> 30" using code_range(1) [OF e] by simp
  moreover have "match_symbol (c div 2 ^ n') (l - n') = None"
    using match_symbol_cut [OF e, of "l - n'"] m(1) n Suc.prems by simp
  moreover have "c div 2 ^ n' < 2 ^ 32" using c div_le_dividend [of c "2 ^ n'"] by linarith
  ultimately have "huffman_bit (odd (c div 2 ^ n')) \<lparr>hs_out = out, hs_cur = c div 2 ^ n, hs_bits = l - n\<rparr>
      = Ok \<lparr>hs_out = out, hs_cur = c div 2 ^ n', hs_bits = l - n'\<rparr>"
    using n Suc.prems by (simp only: huffman_bit_def huffman_state.select_convs n next_bit Let_def) (simp add: Suc_diff_Suc)
  moreover have "rev [m..<n] = n' # rev [m..<n']" using n by simp
  ultimately show ?case using Suc.hyps(1) [of n'] Suc.hyps(2) Suc.prems n by simp
qed

lemma HUFFMAN_nth: "i < 257 \<Longrightarrow> HUFFMAN ! i \<in> set HUFFMAN"
  by (simp add: length_HUFFMAN)

lemma code_less: "(c, l) \<in> set HUFFMAN \<Longrightarrow> c < 2 ^ l \<and> 0 < l"
proof -
  have "list_all (\<lambda>e. fst e < 2 ^ snd e \<and> 0 < snd e) HUFFMAN"
    by (simp only: HUFFMAN_blocks list_all_append) simp
  then show "(c, l) \<in> set HUFFMAN \<Longrightarrow> c < 2 ^ l \<and> 0 < l" unfolding list_all_iff by fastforce
qed

lemma code_less_u32: "(c, l) \<in> set HUFFMAN \<Longrightarrow> c < 2 ^ 32"
  using code_less [of c l] code_range(1) [of c l] power_increasing [of l 32 "2 :: nat"] by linarith

definition symbol_bits :: "u8 \<Rightarrow> bool list" where
  "symbol_bits b = (case HUFFMAN ! unat b of (c, l) \<Rightarrow> low_bits c l)"

lemma huffman_bits_symbol:
  "huffman_bits (symbol_bits b) \<lparr>hs_out = out, hs_cur = 0, hs_bits = 0\<rparr>
     = Ok \<lparr>hs_out = out @ [b], hs_cur = 0, hs_bits = 0\<rparr>"
proof -
  obtain c l where cl: "HUFFMAN ! unat b = (c, l)" by fastforce
  have i: "unat b < 257" using unat_u8_less [of b] by linarith
  have e: "(c, l) \<in> set HUFFMAN" using HUFFMAN_nth [OF i] cl by simp
  note l = code_range(1) [OF e] conjunct2 [OF code_less [OF e]]
  have split: "symbol_bits b = map (\<lambda>i. odd (c div 2 ^ i)) (rev [1..<l]) @ [odd (c div 2 ^ 0)]"
  proof -
    have "[0..<l] = 0 # [1..<l]" using l(2) by (simp add: upt_conv_Cons)
    then show ?thesis by (simp add: symbol_bits_def cl low_bits_def)
  qed
  have "c div 2 ^ l = 0" using code_less [OF e] by simp
  then have pre: "huffman_bits (map (\<lambda>i. odd (c div 2 ^ i)) (rev [1..<l])) \<lparr>hs_out = out, hs_cur = 0, hs_bits = 0\<rparr>
      = Ok \<lparr>hs_out = out, hs_cur = c div 2 ^ 1, hs_bits = l - 1\<rparr>"
    using huffman_bits_prefix [OF e code_less_u32 [OF e], of 1 l out] l(2) by simp
  have "(2 * (c div 2 ^ Suc 0) + (if odd (c div 2 ^ 0) then 1 else 0)) mod 2 ^ 32 = c"
    unfolding next_bit using code_less_u32 [OF e] by simp
  moreover have "unat b \<noteq> 256" using unat_u8_less [of b] by linarith
  ultimately have "huffman_bit (odd (c div 2 ^ 0)) \<lparr>hs_out = out, hs_cur = c div 2 ^ 1, hs_bits = l - 1\<rparr>
      = Ok \<lparr>hs_out = out @ [b], hs_cur = 0, hs_bits = 0\<rparr>"
    using l match_symbol_nth [OF i cl] by (simp add: huffman_bit_def Let_def)
  then show ?thesis unfolding split huffman_bits_append pre by simp
qed

lemma huffman_bits_symbols:
  "huffman_bits (concat (map symbol_bits s)) \<lparr>hs_out = out, hs_cur = 0, hs_bits = 0\<rparr>
     = Ok \<lparr>hs_out = out @ s, hs_cur = 0, hs_bits = 0\<rparr>"
  by (induction s arbitrary: out) (simp_all add: huffman_bits_append huffman_bits_symbol)

text \<open>Padding is a cut of the end-of-string code, which is thirty ones.\<close>

lemma ones_div: "j \<le> 30 \<Longrightarrow> (2 ^ 30 - 1 :: nat) div 2 ^ (30 - j) = 2 ^ j - 1"
proof -
  assume j: "j \<le> 30"
  have "(2 :: nat) ^ 30 = 2 ^ j * 2 ^ (30 - j)" using j by (simp flip: power_add)
  then have "(2 :: nat) ^ 30 - 1 = (2 ^ j - 1) * 2 ^ (30 - j) + (2 ^ (30 - j) - 1)"
  proof -
    define a b :: nat where "a = 2 ^ j" and "b = 2 ^ (30 - j)"
    have "0 < a" "0 < b" by (simp_all add: a_def b_def)
    then have "a * b - 1 = (a - 1) * b + (b - 1)" by (cases a; cases b) simp_all
    then show ?thesis using \<open>2 ^ 30 = 2 ^ j * 2 ^ (30 - j)\<close> unfolding a_def b_def by metis
  qed
  then have "(2 ^ 30 - 1 :: nat) div 2 ^ (30 - j) = ((2 ^ j - 1) * 2 ^ (30 - j) + (2 ^ (30 - j) - 1)) div 2 ^ (30 - j)"
    by (rule arg_cong)
  moreover have "(q * b + (b - 1)) div b = q" if "0 < b" for q b :: nat
    using that by (intro div_nat_eqI) (simp_all add: mult.commute)
  ultimately show ?thesis by (simp only: zero_less_power zero_less_numeral)
qed

lemma EOS_entry: "(2 ^ 30 - 1, 30) \<in> set HUFFMAN"
  by (simp only: HUFFMAN_blocks set_append) simp

lemma huffman_bits_padding:
  "j < 30 \<Longrightarrow> huffman_bits (replicate j True) \<lparr>hs_out = out, hs_cur = 0, hs_bits = 0\<rparr>
     = Ok \<lparr>hs_out = out, hs_cur = 2 ^ j - 1, hs_bits = j\<rparr>"
proof (induction j)
  case (Suc j)
  have "match_symbol (2 ^ Suc j - 1) (Suc j) = None"
    using match_symbol_cut [OF EOS_entry, of "Suc j"] Suc.prems ones_div [of "Suc j"] by simp
  moreover have "(2 :: nat) ^ Suc j \<le> 2 ^ 30" using Suc.prems by (intro power_increasing) simp_all
  then have "2 ^ Suc j - 1 < (2 :: nat) ^ 32" by simp
  then have "(2 * (2 ^ j - 1) + 1) mod 2 ^ 32 = (2 :: nat) ^ Suc j - 1"
  proof -
    have "2 * (2 ^ j - 1) + 1 = (2 :: nat) ^ Suc j - 1"
    proof -
      have "1 \<le> (2 :: nat) ^ j" by simp
      then show ?thesis unfolding power_Suc by linarith
    qed
    with \<open>2 ^ Suc j - 1 < 2 ^ 32\<close> show ?thesis by (simp only: mod_less)
  qed
  ultimately have "huffman_bit True \<lparr>hs_out = out, hs_cur = 2 ^ j - 1, hs_bits = j\<rparr>
      = Ok \<lparr>hs_out = out, hs_cur = 2 ^ Suc j - 1, hs_bits = Suc j\<rparr>"
    using Suc.prems by (simp only: huffman_bit_def huffman_state.select_convs Let_def if_True) simp
  moreover have "replicate (Suc j) True = replicate j True @ [True]" by (simp add: replicate_append_same)
  ultimately show ?case using Suc by (simp only: huffman_bits_append) simp
qed simp

subsection \<open>Decoding strings\<close>

definition pack_bits :: "bool list \<Rightarrow> bytes" where
  "pack_bits bs = bw_buf (fold write_bit bs bw_new)"

definition huffman_encode :: "bytes \<Rightarrow> bytes" where
  "huffman_encode s =
     (let bs = concat (map symbol_bits s) in pack_bits (bs @ replicate ((8 - length bs mod 8) mod 8) True))"

lemma fold_write_bit: "bw_ok w \<Longrightarrow> bw_ok (fold write_bit bs w) \<and> bw_bits (fold write_bit bs w) = bw_bits w @ bs"
  by (induction bs arbitrary: w) (simp_all add: write_bit_bits)

lemma byte_bits_eq: "byte_bits b = bits8 b"
  unfolding byte_bits_def bits8_def
  by (rule map_cong [OF refl]) (simp only: and_one_eq bit_iff_odd_drop_bit odd_iff_mod_2_eq_one)

lemma pack_bits_bits:
  assumes "length bs mod 8 = 0"
  shows "concat (map byte_bits (pack_bits bs)) = bs"
proof -
  let ?w = "fold write_bit bs bw_new"
  have ok: "bw_nbits ?w < 8" and bits: "bits_of (bw_buf ?w) @ map (bit (bw_cur ?w)) (rev [0..<bw_nbits ?w]) = bs"
    using fold_write_bit [of bw_new bs] by (simp_all add: bw_ok_def bw_bits_def bw_new_def bits_of_def)
  from arg_cong [OF bits, of length] have "8 * length (bw_buf ?w) + bw_nbits ?w = length bs"
    by (simp add: length_bits_of)
  then have "bw_nbits ?w mod 8 = 0" using assms by (metis mod_mult_self4)
  with ok have "bw_nbits ?w = 0" by simp
  moreover have "byte_bits = bits8" by (rule ext) (rule byte_bits_eq)
  ultimately show ?thesis using bits by (simp add: pack_bits_def bits_of_def)
qed

lemma pad_to_octet: "(n + (8 - n mod 8) mod 8) mod 8 = (0 :: nat)"
proof -
  have "(n + (8 - n mod 8) mod 8) mod 8 = (n mod 8 + (8 - n mod 8)) mod 8" by (simp only: mod_simps)
  also have "n mod 8 + (8 - n mod 8) = 8" by (simp add: mod_less_divisor [THEN less_imp_le])
  finally show ?thesis by simp
qed

text \<open>
  C25: Huffman decoding inverts the code table of the specification: a string of
  octets written with the table's codes and padded with ones to a whole octet
  decodes to the same string, for every string.
\<close>

theorem huffman_round_trip: "huffman_decode (huffman_encode s) = Ok s"
proof -
  let ?bs = "concat (map symbol_bits s)"
  let ?k = "(8 - length ?bs mod 8) mod 8"
  have "(length ?bs + ?k) mod 8 = 0"
    by (rule pad_to_octet)
  then have p: "concat (map byte_bits (huffman_encode s)) = ?bs @ replicate ?k True"
    unfolding huffman_encode_def Let_def by (intro pack_bits_bits) simp
  have k: "?k < 8" by simp
  have "huffman_bits (?bs @ replicate ?k True) \<lparr>hs_out = [], hs_cur = 0, hs_bits = 0\<rparr>
      = Ok \<lparr>hs_out = s, hs_cur = 2 ^ ?k - 1, hs_bits = ?k\<rparr>"
    using k by (simp only: huffman_bits_append huffman_bits_symbols and_then.simps append_Nil)
      (intro huffman_bits_padding, linarith)
  then show ?thesis unfolding huffman_decode_def p using k by simp
qed

end
