(* ===== verification/Jsonb.thy ===== *)
theory Jsonb
  imports Compress OrdMap Utf8
begin

unbundle bit_operations_syntax

text \<open>
  The binary JSON format of storage/jsonb.rs.  \<open>json\<close> is \<open>serde_json::Value\<close>: a
  number is a non-negative integer, a negative one or the bits of a finite double,
  and an object is a map in key order.  The conversion of an integer to a double
  and the parser and printer of JSON texts are arguments, and so is the number of
  elements above which \<open>with_capacity\<close> panics.
\<close>

datatype json_number = PosInt u64 | NegInt i64 | JFloat u64

datatype json =
    JNull
  | JBool bool
  | JNumber json_number
  | JString bytes
  | JArray "json list"
  | JObject "(bytes \<times> json) list"

datatype jsonb_error = JsonbTruncated | UnknownTag u8 | JsonbPanic | OutOfFuel

definition TAG_NULL :: u8 where "TAG_NULL = 0"
definition TAG_FALSE :: u8 where "TAG_FALSE = 1"
definition TAG_TRUE :: u8 where "TAG_TRUE = 2"
definition TAG_INT :: u8 where "TAG_INT = 3"
definition TAG_FLOAT :: u8 where "TAG_FLOAT = 4"
definition TAG_STRING :: u8 where "TAG_STRING = 5"
definition TAG_ARRAY :: u8 where "TAG_ARRAY = 6"
definition TAG_OBJECT :: u8 where "TAG_OBJECT = 7"

lemmas jsonb_tags = TAG_NULL_def TAG_FALSE_def TAG_TRUE_def TAG_INT_def TAG_FLOAT_def TAG_STRING_def
  TAG_ARRAY_def TAG_OBJECT_def

subsection \<open>Numbers\<close>

fun as_i64 :: "json_number \<Rightarrow> i64 option" where
  "as_i64 (PosInt n) = (if 0 \<le> sint n then Some n else None)"
| "as_i64 (NegInt i) = Some i"
| "as_i64 (JFloat b) = None"

fun as_f64 :: "(u64 \<Rightarrow> u64) \<Rightarrow> json_number \<Rightarrow> u64" where
  "as_f64 to_f64 (PosInt n) = to_f64 n"
| "as_f64 to_f64 (NegInt i) = to_f64 i"
| "as_f64 to_f64 (JFloat b) = b"

definition number_from_i64 :: "i64 \<Rightarrow> json_number" where
  "number_from_i64 i = (if sint i < 0 then NegInt i else PosInt i)"

definition f64_finite :: "u64 \<Rightarrow> bool" where
  "f64_finite b \<longleftrightarrow> drop_bit 52 b AND 0x7ff \<noteq> 0x7ff"

subsection \<open>Encoding\<close>

fun jsonb_encode :: "(u64 \<Rightarrow> u64) \<Rightarrow> json \<Rightarrow> bytes" where
  "jsonb_encode f JNull = [TAG_NULL]"
| "jsonb_encode f (JBool b) = [if b then TAG_TRUE else TAG_FALSE]"
| "jsonb_encode f (JNumber n) =
     (case as_i64 n of
        Some i \<Rightarrow> TAG_INT # u64_to_be_bytes i
      | None \<Rightarrow> TAG_FLOAT # u64_to_be_bytes (as_f64 f n))"
| "jsonb_encode f (JString s) = TAG_STRING # write_varint (word_of_nat (length s)) @ s"
| "jsonb_encode f (JArray items) =
     TAG_ARRAY # write_varint (word_of_nat (length items)) @ concat (map (jsonb_encode f) items)"
| "jsonb_encode f (JObject m) =
     (let entries = sort_key fst m in
      TAG_OBJECT # write_varint (word_of_nat (length entries))
      @ concat (map (\<lambda>(k, v). write_varint (word_of_nat (length k)) @ k @ jsonb_encode f v) entries))"

subsection \<open>Decoding\<close>

fun jsonb_read_varint :: "u64 \<Rightarrow> nat \<Rightarrow> bytes \<Rightarrow> (jsonb_error, u64 \<times> bytes) result" where
  "jsonb_read_varint acc shift [] = Err JsonbTruncated"
| "jsonb_read_varint acc shift (byte # buf) =
     (let acc = acc OR shl_u64 (ucast (byte AND 0x7f)) shift in
      if byte AND 0x80 = 0 then Ok (acc, buf) else jsonb_read_varint acc (shift + 7) buf)"

definition read_len :: "bytes \<Rightarrow> (jsonb_error, nat \<times> bytes) result" where
  "read_len buf = and_then (jsonb_read_varint 0 0 buf) (\<lambda>(n, buf). Ok (unat n, buf))"

text \<open>\<open>buf.get(pos..pos + n)\<close>, with the bytes after it.\<close>

definition get_bytes :: "nat \<Rightarrow> bytes \<Rightarrow> (jsonb_error, bytes \<times> bytes) result" where
  "get_bytes n buf = (if length buf < n then Err JsonbTruncated else Ok (take n buf, drop n buf))"

text \<open>The arms of \<open>decode_at\<close> that decode no further value, the one for an unknown tag included.\<close>

definition decode_scalar :: "u8 \<Rightarrow> bytes \<Rightarrow> (jsonb_error, json \<times> bytes) result" where
  "decode_scalar tag buf =
     (if tag = TAG_NULL then Ok (JNull, buf)
      else if tag = TAG_FALSE then Ok (JBool False, buf)
      else if tag = TAG_TRUE then Ok (JBool True, buf)
      else if tag = TAG_INT then
        and_then (get_bytes 8 buf) (\<lambda>(bs, buf). Ok (JNumber (number_from_i64 (u64_from_be_bytes bs)), buf))
      else if tag = TAG_FLOAT then
        and_then (get_bytes 8 buf) (\<lambda>(bs, buf).
          let b = u64_from_be_bytes bs in Ok (if f64_finite b then JNumber (JFloat b) else JNull, buf))
      else if tag = TAG_STRING then
        and_then (read_len buf) (\<lambda>(len, buf).
        and_then (get_bytes len buf) (\<lambda>(bs, buf). Ok (JString (from_utf8_lossy bs), buf)))
      else Err (UnknownTag tag))"

text \<open>
  \<open>decode_at\<close> and its two loops.  Each call consumes fuel; \<open>jsonb_decode\<close> starts
  with more than the calls that the length of the buffer allows.
\<close>

fun decode_at :: "nat \<Rightarrow> nat \<Rightarrow> bytes \<Rightarrow> (jsonb_error, json \<times> bytes) result"
and decode_items :: "nat \<Rightarrow> nat \<Rightarrow> nat \<Rightarrow> bytes \<Rightarrow> (jsonb_error, json list \<times> bytes) result"
and decode_entries :: "nat \<Rightarrow> nat \<Rightarrow> nat \<Rightarrow> (bytes \<times> json) list \<Rightarrow> bytes \<Rightarrow> (jsonb_error, (bytes \<times> json) list \<times> bytes) result"
where
  "decode_at cap 0 buf = Err OutOfFuel"
| "decode_at cap (Suc fuel) [] = Err JsonbTruncated"
| "decode_at cap (Suc fuel) (tag # buf) =
     (if tag = TAG_ARRAY then
        and_then (read_len buf) (\<lambda>(len, buf).
          if cap < len then Err JsonbPanic
          else and_then (decode_items cap fuel len buf) (\<lambda>(items, buf). Ok (JArray items, buf)))
      else if tag = TAG_OBJECT then
        and_then (read_len buf) (\<lambda>(len, buf).
          and_then (decode_entries cap fuel len [] buf) (\<lambda>(m, buf). Ok (JObject m, buf)))
      else decode_scalar tag buf)"
| "decode_items cap fuel 0 buf = Ok ([], buf)"
| "decode_items cap 0 (Suc n) buf = Err OutOfFuel"
| "decode_items cap (Suc fuel) (Suc n) buf =
     and_then (decode_at cap fuel buf) (\<lambda>(v, buf).
     and_then (decode_items cap fuel n buf) (\<lambda>(items, buf). Ok (v # items, buf)))"
| "decode_entries cap fuel 0 m buf = Ok (m, buf)"
| "decode_entries cap 0 (Suc n) m buf = Err OutOfFuel"
| "decode_entries cap (Suc fuel) (Suc n) m buf =
     and_then (read_len buf) (\<lambda>(klen, buf).
     and_then (get_bytes klen buf) (\<lambda>(kbytes, buf).
     and_then (decode_at cap fuel buf) (\<lambda>(v, buf).
       decode_entries cap fuel n (om_insert (from_utf8_lossy kbytes) v m) buf)))"

definition jsonb_decode :: "nat \<Rightarrow> bytes \<Rightarrow> (jsonb_error, json) result" where
  "jsonb_decode cap buf = and_then (decode_at cap (2 * length buf + 1) buf) (\<lambda>(v, _). Ok v)"

subsection \<open>Stored cells\<close>

definition CELL_MARKER :: bytes where
  "CELL_MARKER = [0x00, 0x01]"

definition jsonb_encode_cell :: "(bytes \<Rightarrow> json option) \<Rightarrow> (u64 \<Rightarrow> u64) \<Rightarrow> bytes \<Rightarrow> bytes" where
  "jsonb_encode_cell parse f json_text =
     (case parse json_text of Some v \<Rightarrow> CELL_MARKER @ jsonb_encode f v | None \<Rightarrow> json_text)"

definition is_binary_cell :: "bytes \<Rightarrow> bool" where
  "is_binary_cell bs \<longleftrightarrow> 2 \<le> length bs \<and> bs ! 0 = CELL_MARKER ! 0 \<and> bs ! 1 = CELL_MARKER ! 1"

definition jsonb_decode_cell :: "(json \<Rightarrow> bytes option) \<Rightarrow> nat \<Rightarrow> bytes \<Rightarrow> bytes option" where
  "jsonb_decode_cell print cap bs =
     (if \<not> is_binary_cell bs then None
      else case jsonb_decode cap (drop (length CELL_MARKER) bs) of Inl e \<Rightarrow> None | Inr v \<Rightarrow> print v)"

subsection \<open>The decoder always stops\<close>

lemma jsonb_read_varint_shorter: "jsonb_read_varint acc s buf = Ok (n, rest) \<Longrightarrow> length rest < length buf"
  by (induction acc s buf rule: jsonb_read_varint.induct) (fastforce simp: Let_def split: if_splits)+

lemma jsonb_read_varint_fuel: "jsonb_read_varint acc s buf \<noteq> Err OutOfFuel"
  by (induction acc s buf rule: jsonb_read_varint.induct) (auto simp: Let_def)

lemma read_len_shorter: "read_len buf = Ok (n, rest) \<Longrightarrow> length rest < length buf"
  by (auto simp: read_len_def and_then_Ok_iff dest: jsonb_read_varint_shorter)

lemma get_bytes_Ok: "get_bytes n buf = Ok (bs, rest) \<longleftrightarrow> n \<le> length buf \<and> bs = take n buf \<and> rest = drop n buf"
  by (auto simp: get_bytes_def)

lemma readers_fuel: "read_len buf \<noteq> Err OutOfFuel" "get_bytes n buf \<noteq> Err OutOfFuel"
  by (auto simp: read_len_def get_bytes_def and_then_Err_iff jsonb_read_varint_fuel)

lemma decode_scalar_shorter: "decode_scalar tag buf = Ok (v, rest) \<Longrightarrow> length rest \<le> length buf"
  by (auto simp: decode_scalar_def and_then_Ok_iff get_bytes_Ok Let_def split: if_splits dest: read_len_shorter)

lemma decode_scalar_fuel: "decode_scalar tag buf \<noteq> Err OutOfFuel"
  by (auto simp: decode_scalar_def and_then_Err_iff readers_fuel Let_def)

lemma decode_shorter_all:
  "(\<forall>buf v rest. decode_at cap fuel buf = Ok (v, rest) \<longrightarrow> length rest < length buf) \<and>
   (\<forall>n buf vs rest. decode_items cap fuel n buf = Ok (vs, rest) \<longrightarrow> length rest \<le> length buf) \<and>
   (\<forall>n m buf m' rest. decode_entries cap fuel n m buf = Ok (m', rest) \<longrightarrow> length rest \<le> length buf)"
proof (induction fuel)
  case 0
  have "decode_items cap 0 n buf = Ok (vs, rest) \<Longrightarrow> rest = buf" for n buf vs rest by (cases n) auto
  moreover have "decode_entries cap 0 n m buf = Ok (m', rest) \<Longrightarrow> rest = buf" for n m buf m' rest by (cases n) auto
  ultimately show ?case by fastforce
next
  case (Suc fuel)
  note at = Suc [THEN conjunct1, rule_format] and items = Suc [THEN conjunct2, THEN conjunct1, rule_format]
    and entries = Suc [THEN conjunct2, THEN conjunct2, rule_format]
  have "length rest < length buf" if d: "decode_at cap (Suc fuel) buf = Ok (v, rest)" for buf v rest
  proof (cases buf)
    case (Cons tag buf0)
    show ?thesis
    proof (cases "tag = TAG_ARRAY \<or> tag = TAG_OBJECT")
      case True
      then obtain len buf1 where r: "read_len buf0 = Ok (len, buf1)"
        using d by (auto simp: Cons and_then_Ok_iff split: if_splits)
      then have "length rest \<le> length buf1"
        using d True by (auto simp: Cons and_then_Ok_iff split: if_splits dest: items entries)
      then show ?thesis using read_len_shorter [OF r] Cons by simp
    next
      case False
      then show ?thesis using d decode_scalar_shorter [of tag buf0 v rest] by (simp add: Cons)
    qed
  qed (use d in simp)
  moreover have "length rest \<le> length buf" if d: "decode_items cap (Suc fuel) n buf = Ok (vs, rest)" for n buf vs rest
  proof (cases n)
    case (Suc k)
    obtain v buf1 vs1 where "decode_at cap fuel buf = Ok (v, buf1)" "decode_items cap fuel k buf1 = Ok (vs1, rest)"
      using d by (auto simp: Suc and_then_Ok_iff)
    then show ?thesis using at items by fastforce
  qed (use d in simp)
  moreover have "length rest \<le> length buf" if d: "decode_entries cap (Suc fuel) n m buf = Ok (m', rest)" for n m buf m' rest
  proof (cases n)
    case (Suc k)
    obtain klen buf1 v buf2 m1 where r: "read_len buf = Ok (klen, buf1)"
      "decode_at cap fuel (drop klen buf1) = Ok (v, buf2)" "decode_entries cap fuel k m1 buf2 = Ok (m', rest)"
      using d by (auto simp: Suc and_then_Ok_iff get_bytes_Ok)
    then show ?thesis using at [OF r(2)] entries [OF r(3)] read_len_shorter [OF r(1)] by simp
  qed (use d in simp)
  ultimately show ?case by blast
qed

lemmas decode_shorter =
  decode_shorter_all [THEN conjunct1, rule_format]
  decode_shorter_all [THEN conjunct2, THEN conjunct1, rule_format]
  decode_shorter_all [THEN conjunct2, THEN conjunct2, rule_format]

lemma decode_fuel:
  "(\<forall>buf. 2 * length buf < fuel \<longrightarrow> decode_at cap fuel buf \<noteq> Err OutOfFuel) \<and>
   (\<forall>n buf. 2 * length buf + 1 < fuel \<longrightarrow> decode_items cap fuel n buf \<noteq> Err OutOfFuel) \<and>
   (\<forall>n m buf. 2 * length buf + 1 < fuel \<longrightarrow> decode_entries cap fuel n m buf \<noteq> Err OutOfFuel)"
proof (induction fuel)
  case (Suc fuel)
  note at = Suc [THEN conjunct1, rule_format] and items = Suc [THEN conjunct2, THEN conjunct1, rule_format]
    and entries = Suc [THEN conjunct2, THEN conjunct2, rule_format]
  have "decode_at cap (Suc fuel) buf \<noteq> Err OutOfFuel" if f: "2 * length buf < Suc fuel" for buf
  proof (cases buf)
    case (Cons tag buf0)
    have "2 * length buf1 + 1 < fuel" if "read_len buf0 = Ok (len, buf1)" for len buf1
      using read_len_shorter [OF that] f Cons by simp
    then show ?thesis
      using items entries by (auto simp: Cons and_then_Err_iff readers_fuel decode_scalar_fuel)
  qed simp
  moreover have "decode_items cap (Suc fuel) n buf \<noteq> Err OutOfFuel" if f: "2 * length buf + 1 < Suc fuel" for n buf
  proof (cases n)
    case (Suc k)
    have "2 * length buf1 + 1 < fuel" if "decode_at cap fuel buf = Ok (v, buf1)" for v buf1
      using decode_shorter(1) [OF that] f by simp
    then show ?thesis using at [of buf] items f by (auto simp: Suc and_then_Err_iff)
  qed simp
  moreover have "decode_entries cap (Suc fuel) n m buf \<noteq> Err OutOfFuel" if f: "2 * length buf + 1 < Suc fuel" for n m buf
  proof (cases n)
    case (Suc k)
    have 1: "2 * length (drop klen buf1) < fuel" if "read_len buf = Ok (klen, buf1)" for klen buf1
      using read_len_shorter [OF that] f by simp
    have 2: "2 * length buf2 + 1 < fuel"
      if "read_len buf = Ok (klen, buf1)" "decode_at cap fuel (drop klen buf1) = Ok (v, buf2)" for klen buf1 v buf2
      using read_len_shorter [OF that(1)] decode_shorter(1) [OF that(2)] f by simp
    show ?thesis
      using at [OF 1] entries [OF 2] by (auto simp: Suc and_then_Err_iff readers_fuel get_bytes_Ok)
  qed simp
  ultimately show ?case by blast
qed simp

text \<open>
  C35: The decoder of stored JSON stops on every input: for any bytes the fuel that
  \<open>jsonb_decode\<close> starts with is enough, so the recursion ends with a value, with an
  error, or with the panic of a too large array, and never runs dry.
\<close>

theorem jsonb_decode_total: "jsonb_decode cap buf \<noteq> Err OutOfFuel"
  using decode_fuel [of "2 * length buf + 1" cap, THEN conjunct1, rule_format, of buf]
  by (auto simp: jsonb_decode_def and_then_Err_iff)

subsection \<open>What is encoded is decoded\<close>

lemma jsonb_read_varint_write:
  "s < 64 \<Longrightarrow> unat v < 2 ^ (64 - s) \<Longrightarrow>
   jsonb_read_varint acc s (write_varint v @ rest) = Ok (acc OR shl_u64 v s, rest)"
proof (induction v arbitrary: acc s rule: write_varint.induct)
  case (1 v)
  show ?case
  proof (cases "shr_u64 v 7 = 0")
    case True
    have "write_varint v = [ucast (v AND 0x7f)]"
      by (subst write_varint.simps) (simp add: Let_def True)
    then show ?thesis
      using group_flag [of v] group_low [of v] group_widen [of v]
      by (simp add: Let_def shr_7_single [OF True])
  next
    case False
    note fits = shr_7_fits [OF \<open>unat v < 2 ^ (64 - s)\<close> False \<open>s < 64\<close>]
    let ?b = "ucast (v AND 0x7f) OR 0x80 :: u8"
    have w: "write_varint v = ?b # write_varint (shr_u64 v 7)"
      by (subst write_varint.simps) (simp add: Let_def False)
    have "jsonb_read_varint acc s (write_varint v @ rest)
        = jsonb_read_varint (acc OR shl_u64 (v AND 0x7f) s) (s + 7) (write_varint (shr_u64 v 7) @ rest)"
      unfolding w by (simp add: Let_def group_simps)
    also have "\<dots> = Ok ((acc OR shl_u64 (v AND 0x7f) s) OR shl_u64 (shr_u64 v 7) (s + 7), rest)"
      by (rule "1.IH" [OF refl refl False fits])
    finally show ?thesis by (simp add: or.assoc shr_7_join [OF fits(1)])
  qed
qed

lemma read_len_write [codec]:
  "n < 2 ^ 64 \<Longrightarrow> read_len (write_varint (word_of_nat n) @ rest) = Ok (n, rest)"
  using unat_u64_less [of "word_of_nat n"] by (simp add: read_len_def jsonb_read_varint_write unat_of_nat)

lemma get_bytes_append [codec]: "n = length bs \<Longrightarrow> get_bytes n (bs @ rest) = Ok (bs, rest)"
  by (simp add: get_bytes_def)

fun number_ok :: "json_number \<Rightarrow> bool" where
  "number_ok (PosInt n) \<longleftrightarrow> 0 \<le> sint n"
| "number_ok (NegInt i) \<longleftrightarrow> sint i < 0"
| "number_ok (JFloat b) \<longleftrightarrow> f64_finite b"

text \<open>The values of the round trip: integers that are an \<open>i64\<close>, finite floats, strings
  and maps as \<open>serde_json\<close> keeps them, arrays that \<open>with_capacity\<close> accepts.\<close>

fun json_ok :: "nat \<Rightarrow> json \<Rightarrow> bool" where
  "json_ok cap JNull \<longleftrightarrow> True"
| "json_ok cap (JBool b) \<longleftrightarrow> True"
| "json_ok cap (JNumber n) \<longleftrightarrow> number_ok n"
| "json_ok cap (JString s) \<longleftrightarrow> valid_utf8 s \<and> length s < 2 ^ 64"
| "json_ok cap (JArray items) \<longleftrightarrow> list_all (json_ok cap) items \<and> length items \<le> cap \<and> length items < 2 ^ 64"
| "json_ok cap (JObject m) \<longleftrightarrow>
     list_all (\<lambda>(k, v). valid_utf8 k \<and> length k < 2 ^ 64 \<and> json_ok cap v) m \<and> om_sorted m \<and> length m < 2 ^ 64"

definition decodes :: "nat \<Rightarrow> (u64 \<Rightarrow> u64) \<Rightarrow> json \<Rightarrow> bool" where
  "decodes cap f v \<longleftrightarrow>
     (\<forall>fuel rest. 2 * length (jsonb_encode f v) < fuel \<longrightarrow> decode_at cap fuel (jsonb_encode f v @ rest) = Ok (v, rest))"

lemma jsonb_encode_nonempty: "1 \<le> length (jsonb_encode f v)"
  by (cases v) (simp_all add: Let_def split: option.split)

lemma fuel_split:
  "2 * (a + b) + 1 < Suc k \<Longrightarrow> 1 \<le> a \<Longrightarrow> 2 * b + 1 < k" "2 * (a + b) + 1 < Suc k \<Longrightarrow> 2 * a < (k :: nat)"
  by arith+

lemma decode_items_encode:
  "\<forall>v \<in> set vs. decodes cap f v \<Longrightarrow> 2 * length (concat (map (jsonb_encode f) vs)) + 1 < fuel \<Longrightarrow>
   decode_items cap fuel (length vs) (concat (map (jsonb_encode f) vs) @ rest) = Ok (vs, rest)"
proof (induction vs arbitrary: fuel)
  case (Cons v vs)
  obtain k where k: "fuel = Suc k" using Cons.prems(2) by (cases fuel) auto
  have "2 * length (concat (map (jsonb_encode f) vs)) + 1 < k"
    using Cons.prems(2) jsonb_encode_nonempty [of f v] unfolding k list.map concat.simps length_append by (rule fuel_split)
  moreover have "2 * length (jsonb_encode f v) < k"
    using Cons.prems(2) unfolding k list.map concat.simps length_append by (rule fuel_split)
  ultimately show ?case using Cons by (simp add: k decodes_def)
qed simp

lemma om_insert_last: "om_sorted m \<Longrightarrow> \<forall>e \<in> set m. fst e < k \<Longrightarrow> om_insert k v m = m @ [(k, v)]"
  by (induction m) fastforce+

definition encode_entry :: "(u64 \<Rightarrow> u64) \<Rightarrow> bytes \<times> json \<Rightarrow> bytes" where
  "encode_entry f e = write_varint (word_of_nat (length (fst e))) @ fst e @ jsonb_encode f (snd e)"

lemma decode_entries_encode:
  assumes "\<forall>e \<in> set es. decodes cap f (snd e) \<and> valid_utf8 (fst e) \<and> length (fst e) < 2 ^ 64"
    and "om_sorted (m @ es)" and "2 * length (concat (map (encode_entry f) es)) + 1 < fuel"
  shows "decode_entries cap fuel (length es) m (concat (map (encode_entry f) es) @ rest) = Ok (m @ es, rest)"
  using assms
proof (induction es arbitrary: fuel m)
  case (Cons e es)
  obtain k where k: "fuel = Suc k" using Cons.prems(3) by (cases fuel) auto
  have "1 \<le> length (encode_entry f e)" "length (jsonb_encode f (snd e)) \<le> length (encode_entry f e)"
    using jsonb_encode_nonempty [of f "snd e"] by (simp_all add: encode_entry_def)
  then have f: "2 * length (concat (map (encode_entry f) es)) + 1 < k" "2 * length (jsonb_encode f (snd e)) < k"
    using fuel_split [of "length (encode_entry f e)" "length (concat (map (encode_entry f) es))" k] Cons.prems(3)
    unfolding k list.map concat.simps length_append by auto
  have "om_insert (fst e) (snd e) m = m @ [e]"
    using Cons.prems(2) by (subst om_insert_last) (auto simp: sorted_wrt_append)
  moreover have "decode_entries cap k (length es) (m @ [e]) (concat (map (encode_entry f) es) @ rest) = Ok ((m @ [e]) @ es, rest)"
    using Cons.prems by (intro Cons.IH f) auto
  ultimately show ?case
    using Cons.prems(1) f(2) by (simp add: k encode_entry_def [of f e] read_len_write get_bytes_append decodes_def)
qed simp

lemma sort_key_om_sorted: "om_sorted m \<Longrightarrow> sort_key fst m = m"
  by (simp add: sort_key_id_if_sorted strict_sorted_imp_sorted)

lemma decodes_scalar:
  assumes "jsonb_encode f v = tag # bs" and "tag \<noteq> TAG_ARRAY" and "tag \<noteq> TAG_OBJECT"
    and "\<And>rest. decode_scalar tag (bs @ rest) = Ok (v, rest)"
  shows "decodes cap f v"
proof -
  have "0 < fuel \<Longrightarrow> decode_at cap fuel (tag # bs @ rest) = Ok (v, rest)" for fuel rest
    using assms(2-4) by (cases fuel) auto
  then show ?thesis using assms(1) by (simp add: decodes_def)
qed

lemma decodes_ok: "json_ok cap v \<Longrightarrow> decodes cap f v"
proof (induction v)
  case JNull
  show ?case by (rule decodes_scalar [where tag = TAG_NULL and bs = "[]"]) (simp_all add: jsonb_tags decode_scalar_def)
next
  case (JBool b)
  show ?case
    by (rule decodes_scalar [where tag = "if b then TAG_TRUE else TAG_FALSE" and bs = "[]"])
      (simp_all add: jsonb_tags decode_scalar_def)
next
  case (JNumber n)
  then show ?case
    by (cases n; intro decodes_scalar [where tag = "case n of JFloat _ \<Rightarrow> TAG_FLOAT | _ \<Rightarrow> TAG_INT"
          and bs = "u64_to_be_bytes (case n of PosInt w \<Rightarrow> w | NegInt w \<Rightarrow> w | JFloat w \<Rightarrow> w)"])
      (simp_all add: jsonb_tags decode_scalar_def get_bytes_append number_from_i64_def)
next
  case (JString t)
  then show ?case
    by (intro decodes_scalar [where tag = TAG_STRING and bs = "write_varint (word_of_nat (length t)) @ t"])
      (simp_all add: jsonb_tags decode_scalar_def read_len_write get_bytes_append)
next
  case (JArray items)
  then have items: "\<forall>v \<in> set items. decodes cap f v" by (auto simp: list_all_iff)
  have "decode_at cap fuel (jsonb_encode f (JArray items) @ rest) = Ok (JArray items, rest)"
    if fu: "2 * length (jsonb_encode f (JArray items)) < fuel" for fuel rest
  proof -
    obtain k where k: "fuel = Suc k" using fu gr0_conv_Suc [of fuel] by (metis less_zeroE not_gr_zero)
    have "2 * length (concat (map (jsonb_encode f) items)) + 1 < k" using fu unfolding k by simp
    then show ?thesis
      using JArray.prems decode_items_encode [OF items] by (simp add: k jsonb_tags read_len_write)
  qed
  then show ?case by (simp add: decodes_def)
next
  case (JObject m)
  then have entries: "\<forall>e \<in> set m. decodes cap f (snd e) \<and> valid_utf8 (fst e) \<and> length (fst e) < 2 ^ 64"
    by (fastforce simp: list_all_iff)
  have "decode_at cap fuel (jsonb_encode f (JObject m) @ rest) = Ok (JObject m, rest)"
    if fu: "2 * length (jsonb_encode f (JObject m)) < fuel" for fuel rest
  proof -
    obtain k where k: "fuel = Suc k" using fu gr0_conv_Suc [of fuel] by (metis less_zeroE not_gr_zero)
    have enc: "jsonb_encode f (JObject m) = TAG_OBJECT # write_varint (word_of_nat (length m)) @ concat (map (encode_entry f) m)"
      using JObject.prems by (simp add: sort_key_om_sorted encode_entry_def [abs_def] case_prod_unfold)
    have "2 * length (concat (map (encode_entry f) m)) + 1 < k" using fu unfolding k enc by simp
    then show ?thesis
      using JObject.prems decode_entries_encode [OF entries, of "[]"] unfolding enc by (simp add: k jsonb_tags read_len_write)
  qed
  then show ?case by (simp add: decodes_def)
qed



end
