(* ===== verification/Catalog.thy ===== *)
theory Catalog
  imports Database Jsonb
begin

text \<open>
  Tables, columns and sequences, storage/database/catalog.rs.  Schemas, sequences
  and functions are kept in memory and written to the shared object store; their
  bincode encodings are an argument.  A row is rewritten cell by cell.
\<close>

record catalog_codec =
  ser_schema :: "TableSchema \<Rightarrow> bytes option"
  de_schema :: "bytes \<Rightarrow> TableSchema option"
  ser_sequence :: "Sequence \<Rightarrow> bytes option"
  de_sequence :: "bytes \<Rightarrow> Sequence option"
  ser_function :: "UserFunction \<Rightarrow> bytes option"
  de_function :: "bytes \<Rightarrow> UserFunction option"

definition str_of :: "bytes \<Rightarrow> string" where
  "str_of bs = map (\<lambda>b. char_of (unat b)) bs"

definition schema_key :: "bytes \<Rightarrow> string" where
  "schema_key name = ''schemas/'' @ str_of name @ ''.bin''"

definition sequence_key :: "bytes \<Rightarrow> string" where
  "sequence_key name = ''sequences/'' @ str_of name @ ''.bin''"

definition function_key :: "bytes \<Rightarrow> string" where
  "function_key name = ''functions/'' @ str_of name @ ''.bin''"

text \<open>\<open>self.store.put(key, &x.encode()?)?\<close>: the caller's continuation runs when both succeed.\<close>

definition put_encoded ::
  "('b, 's) lsm_env \<Rightarrow> string \<Rightarrow> bytes option \<Rightarrow> ('b, 's, 'i) Database
     \<Rightarrow> (('b, 's, 'i) Database \<Rightarrow> (db_error, 'r) result \<times> ('b, 's, 'i) Database)
     \<Rightarrow> (db_error, 'r) result \<times> ('b, 's, 'i) Database" where
  "put_encoded env key encoded db k =
     (case encoded of
        None \<Rightarrow> (Err CatalogEncode, db)
      | Some bs \<Rightarrow>
          (case os_put (env_store env) key bs (db_store db) of
             (Inl e, st) \<Rightarrow> (Err StoreFailed, db\<lparr>db_store := st\<rparr>)
           | (Inr _, st) \<Rightarrow> k (db\<lparr>db_store := st\<rparr>)))"

definition when_writable ::
  "('b, 's, 'i) Database \<Rightarrow> (db_error, 'r) result \<times> ('b, 's, 'i) Database \<Rightarrow> (db_error, 'r) result \<times> ('b, 's, 'i) Database" where
  "when_writable db r = (case check_writable db of Inl e \<Rightarrow> (Err e, db) | Inr _ \<Rightarrow> r)"

subsection \<open>Tables\<close>

definition get_table :: "bytes \<Rightarrow> ('b, 's, 'i) Database \<Rightarrow> TableSchema option" where
  "get_table name db = om_get (db_schemas db) name"

definition list_tables :: "('b, 's, 'i) Database \<Rightarrow> bytes list" where
  "list_tables db = map fst (db_schemas db)"

definition list_user_tables :: "('b, 's, 'i) Database \<Rightarrow> bytes list" where
  "list_user_tables db = filter (\<lambda>t. \<not> is_internal_table t) (list_tables db)"

definition pk_positions :: "ColumnDef list \<Rightarrow> nat list" where
  "pk_positions columns = map fst (filter (\<lambda>(i, c). cd_is_pk c) (enumerate 0 columns))"

definition create_table_with_constraints ::
  "('b, 's) lsm_env \<Rightarrow> catalog_codec \<Rightarrow> bytes \<Rightarrow> ColumnDef list \<Rightarrow> nat list list \<Rightarrow> ForeignKey list
     \<Rightarrow> ('b, 's, 'i) Database \<Rightarrow> (db_error, unit) result \<times> ('b, 's, 'i) Database" where
  "create_table_with_constraints env cc name columns unique_groups foreign_keys db =
     when_writable db
       (if om_get (db_schemas db) name \<noteq> None then (Err (TableExists name), db)
        else let schema = \<lparr>sch_name = name, sch_columns = columns, sch_pk_columns = pk_positions columns,
               sch_unique_groups = unique_groups, sch_foreign_keys = foreign_keys, sch_json_schemas = []\<rparr> in
          put_encoded env (schema_key name) (ser_schema cc schema) db
            (\<lambda>db. (Ok (), db\<lparr>db_schemas := om_insert name schema (db_schemas db)\<rparr>)))"

definition update_table_schema ::
  "('b, 's) lsm_env \<Rightarrow> catalog_codec \<Rightarrow> TableSchema \<Rightarrow> ('b, 's, 'i) Database
     \<Rightarrow> (db_error, unit) result \<times> ('b, 's, 'i) Database" where
  "update_table_schema env cc schema db =
     when_writable db
       (put_encoded env (schema_key (sch_name schema)) (ser_schema cc schema) db
          (\<lambda>db. (Ok (), db\<lparr>db_schemas := om_insert (sch_name schema) schema (db_schemas db)\<rparr>)))"

definition set_json_schema ::
  "('b, 's) lsm_env \<Rightarrow> catalog_codec \<Rightarrow> bytes \<Rightarrow> JsonSchemaRule \<Rightarrow> ('b, 's, 'i) Database
     \<Rightarrow> (db_error, unit) result \<times> ('b, 's, 'i) Database" where
  "set_json_schema env cc table rule db =
     when_writable db
       (case om_get (db_schemas db) table of
          None \<Rightarrow> (Err (NoTable table), db)
        | Some schema \<Rightarrow>
            update_table_schema env cc
              (schema\<lparr>sch_json_schemas := filter (\<lambda>r. jr_column r \<noteq> jr_column rule) (sch_json_schemas schema) @ [rule]\<rparr>) db)"

subsection \<open>Rows of a table whose columns change\<close>

text \<open>\<open>encode_row_cells\<close> is \<open>encode_cells\<close>; \<open>unjson\<close> is \<open>jsonb::decode_cell\<close>.\<close>

function decode_row_cells :: "(bytes \<Rightarrow> bytes option) \<Rightarrow> bytes \<Rightarrow> cell list" where
  "decode_row_cells unjson val =
     (if length val < 4 then []
      else let len = cell_len val; rest = drop 4 val in
        if len < 0 then None # decode_row_cells unjson rest
        else if length rest < nat len then [None]
        else let c = take (nat len) rest in
          Some (case unjson c of Some t \<Rightarrow> t | None \<Rightarrow> c) # decode_row_cells unjson (drop (nat len) rest))"
  by pat_completeness auto
termination
  by (relation "measure (\<lambda>(unjson, val). length val)") auto

declare decode_row_cells.simps [simp del]

text \<open>The loop over the rows of a table: \<open>change\<close> is the batch of one row, a panic when it has none.\<close>

fun rewrite_rows ::
  "('b, 's) lsm_env \<Rightarrow> LeaseHandle \<Rightarrow> (bytes \<times> bytes \<Rightarrow> bytes option option) \<Rightarrow> bytes \<Rightarrow> (bytes \<times> bytes) list
     \<Rightarrow> ('b, 's, 'i) Database \<Rightarrow> (db_error, unit) result \<times> ('b, 's, 'i) Database" where
  "rewrite_rows env lease change table [] db = (Ok (), db)"
| "rewrite_rows env lease change table (row # rows) db =
     (case change row of
        None \<Rightarrow> (Err DbPanic, db)
      | Some w \<Rightarrow>
          (case (case w of Some val \<Rightarrow> lsm_write env lease None table (fst row) val (db_lsm db)
                         | None \<Rightarrow> lsm_delete env lease None table (fst row) (db_lsm db)) of
             (Inl e, eng) \<Rightarrow> (Err (LsmFailed e), db\<lparr>db_lsm := eng\<rparr>)
           | (Inr pending, eng) \<Rightarrow>
               (case finish_pending env lease pending eng (db_store db) of
                  (Inl e, eng, st) \<Rightarrow> (Err (LsmFailed e), db\<lparr>db_lsm := eng, db_store := st\<rparr>)
                | (Inr _, eng, st) \<Rightarrow> rewrite_rows env lease change table rows (db\<lparr>db_lsm := eng, db_store := st\<rparr>))))"

definition rewrite_table ::
  "('b, 's) lsm_env \<Rightarrow> LeaseHandle \<Rightarrow> (bytes \<times> bytes \<Rightarrow> bytes option option) \<Rightarrow> bytes
     \<Rightarrow> ('b, 's, 'i) Database \<Rightarrow> (db_error, unit) result \<times> ('b, 's, 'i) Database" where
  "rewrite_table env lease change table db =
     (case lsm_scan (db_lsm db) of
        Inl e \<Rightarrow> (Err (ReadFailed e), db)
      | Inr rows \<Rightarrow> rewrite_rows env lease change table (filter (\<lambda>(k, v). prefix (make_prefix table) k) rows) db)"

definition and_db ::
  "(db_error, unit) result \<times> ('b, 's, 'i) Database
     \<Rightarrow> (('b, 's, 'i) Database \<Rightarrow> (db_error, 'r) result \<times> ('b, 's, 'i) Database)
     \<Rightarrow> (db_error, 'r) result \<times> ('b, 's, 'i) Database" where
  "and_db r k = (case r of (Inl e, db) \<Rightarrow> (Err e, db) | (Inr _, db) \<Rightarrow> k db)"

definition alter_table_add_column ::
  "('b, 's) lsm_env \<Rightarrow> catalog_codec \<Rightarrow> (bytes \<Rightarrow> bytes option) \<Rightarrow> LeaseHandle \<Rightarrow> bytes \<Rightarrow> ColumnDef \<Rightarrow> cell
     \<Rightarrow> ('b, 's, 'i) Database \<Rightarrow> (db_error, unit) result \<times> ('b, 's, 'i) Database" where
  "alter_table_add_column env cc unjson lease table new_col default_cell db =
     when_writable db
       (case get_table table db of
          None \<Rightarrow> (Err (NoTable table), db)
        | Some schema \<Rightarrow>
            if list_ex (\<lambda>c. cd_name c = cd_name new_col) (sch_columns schema)
            then (Err (ColumnExists (cd_name new_col)), db)
            else and_db
              (rewrite_table env lease
                 (\<lambda>(k, v). Some (Some (encode_cells (decode_row_cells unjson v @ [default_cell])))) table db)
              (update_table_schema env cc (schema\<lparr>sch_columns := sch_columns schema @ [new_col]\<rparr>)))"

definition remove_at :: "nat \<Rightarrow> 'a list \<Rightarrow> 'a list" where
  "remove_at i xs = take i xs @ drop (Suc i) xs"

text \<open>What a position list keeps when the column \<open>idx\<close> goes.\<close>

definition shift_positions :: "nat \<Rightarrow> nat list \<Rightarrow> nat list" where
  "shift_positions idx ps = map (\<lambda>c. if idx < c then c - 1 else c) (filter (\<lambda>c. c \<noteq> idx) ps)"

definition shift_foreign_keys :: "nat \<Rightarrow> ForeignKey list \<Rightarrow> ForeignKey list" where
  "shift_foreign_keys idx fks =
     map (\<lambda>fk. if idx < fk_column fk then fk\<lparr>fk_column := fk_column fk - 1\<rparr> else fk)
       (filter (\<lambda>fk. fk_column fk \<noteq> idx) fks)"

definition schema_without :: "nat \<Rightarrow> TableSchema \<Rightarrow> TableSchema" where
  "schema_without idx schema =
     schema\<lparr>sch_columns := remove_at idx (sch_columns schema),
            sch_pk_columns := shift_positions idx (sch_pk_columns schema),
            sch_unique_groups := map (shift_positions idx) (sch_unique_groups schema),
            sch_foreign_keys := shift_foreign_keys idx (sch_foreign_keys schema)\<rparr>"

definition alter_table_drop_column ::
  "('b, 's) lsm_env \<Rightarrow> catalog_codec \<Rightarrow> (bytes \<Rightarrow> bytes option) \<Rightarrow> (bytes \<Rightarrow> bytes \<Rightarrow> 'i \<Rightarrow> bool) \<Rightarrow> LeaseHandle
     \<Rightarrow> bytes \<Rightarrow> bytes \<Rightarrow> ('b, 's, 'i) Database \<Rightarrow> (db_error, unit) result \<times> ('b, 's, 'i) Database" where
  "alter_table_drop_column env cc unjson indexed lease table column db =
     when_writable db
       (case get_table table db of
          None \<Rightarrow> (Err (NoTable table), db)
        | Some schema \<Rightarrow>
            (case position (\<lambda>c. cd_name c = column) (sch_columns schema) of
               None \<Rightarrow> (Err (NoColumn column), db)
             | Some idx \<Rightarrow>
                 if idx \<in> set (sch_pk_columns schema)
                    \<or> list_ex (\<lambda>g. idx \<in> set g) (sch_unique_groups schema)
                    \<or> list_ex (\<lambda>fk. fk_column fk = idx) (sch_foreign_keys schema)
                    \<or> indexed table column (db_indexes db)
                 then (Err (ColumnInUse column), db)
                 else and_db
                   (rewrite_table env lease
                      (\<lambda>(k, v). let cells = decode_row_cells unjson v in
                         if idx < length cells then Some (Some (encode_cells (remove_at idx cells))) else None) table db)
                   (update_table_schema env cc (schema_without idx schema))))"

subsection \<open>Dropping a table\<close>

text \<open>\<open>file_stem\<close>: the name up to its last dot, when something stands before it.\<close>

definition file_stem :: "bytes \<Rightarrow> bytes" where
  "file_stem name =
     (case position (\<lambda>b. b = 46) (rev name) of
        None \<Rightarrow> name
      | Some i \<Rightarrow> let stem = take (length name - Suc i) name in if stem = [] then name else stem)"

text \<open>The part of \<open>split_once('_')\<close> before the separator.\<close>

definition stem_table :: "bytes \<Rightarrow> bytes option" where
  "stem_table stem = map_option (\<lambda>i. take i stem) (position (\<lambda>b. b = 95) stem)"

definition drop_table ::
  "('b, 's) lsm_env \<Rightarrow> (bytes \<Rightarrow> 'i \<Rightarrow> 'i) \<Rightarrow> LeaseHandle \<Rightarrow> bytes \<Rightarrow> bool
     \<Rightarrow> ('b, 's, 'i) Database \<Rightarrow> (db_error, unit) result \<times> ('b, 's, 'i) Database" where
  "drop_table env forget lease name if_exists db =
     when_writable db
       (if om_get (db_schemas db) name = None then (if if_exists then Ok () else Err (NoTable name), db)
        else and_db (rewrite_table env lease (\<lambda>_. Some None) name db) (\<lambda>db.
          case os_delete (env_store env) (schema_key name) (db_store db) of
            (Inl e, st) \<Rightarrow> (Err StoreFailed, db\<lparr>db_store := st\<rparr>)
          | (Inr _, st) \<Rightarrow>
              (Ok (), db\<lparr>db_store := st, db_schemas := om_remove name (db_schemas db),
                 db_indexes := forget name (db_indexes db),
                 db_index_files := filter (\<lambda>f. stem_table (file_stem f) \<noteq> Some name) (db_index_files db),
                 db_topics := om_remove (ascii ''__cdc_'' @ name) (db_topics db)\<rparr>)))"

subsection \<open>Sequences and functions\<close>

definition create_sequence ::
  "('b, 's) lsm_env \<Rightarrow> catalog_codec \<Rightarrow> bytes \<Rightarrow> i64 \<Rightarrow> i64 \<Rightarrow> ('b, 's, 'i) Database
     \<Rightarrow> (db_error, unit) result \<times> ('b, 's, 'i) Database" where
  "create_sequence env cc name start increment db =
     when_writable db
       (if om_get (db_sequences db) name \<noteq> None then (Err (SequenceExists name), db)
        else let sq = \<lparr>seq_name = name, seq_value = start - increment, seq_increment = increment\<rparr> in
          put_encoded env (sequence_key name) (ser_sequence cc sq) db
            (\<lambda>db. (Ok (), db\<lparr>db_sequences := om_insert name sq (db_sequences db)\<rparr>)))"

text \<open>A sequence is changed in place before it is written to the store.\<close>

definition put_sequence ::
  "('b, 's) lsm_env \<Rightarrow> catalog_codec \<Rightarrow> bytes \<Rightarrow> Sequence \<Rightarrow> i64 \<Rightarrow> ('b, 's, 'i) Database
     \<Rightarrow> (db_error, i64) result \<times> ('b, 's, 'i) Database" where
  "put_sequence env cc name sq result db =
     put_encoded env (sequence_key name) (ser_sequence cc sq) (db\<lparr>db_sequences := om_insert name sq (db_sequences db)\<rparr>)
       (\<lambda>db. (Ok result, db))"

definition nextval ::
  "('b, 's) lsm_env \<Rightarrow> catalog_codec \<Rightarrow> bytes \<Rightarrow> ('b, 's, 'i) Database \<Rightarrow> (db_error, i64) result \<times> ('b, 's, 'i) Database" where
  "nextval env cc name db =
     when_writable db
       (case om_get (db_sequences db) name of
          None \<Rightarrow> (Err (NoSequence name), db)
        | Some sq \<Rightarrow>
            let v = seq_value sq + seq_increment sq in put_sequence env cc name (sq\<lparr>seq_value := v\<rparr>) v db)"

definition currval :: "bytes \<Rightarrow> ('b, 's, 'i) Database \<Rightarrow> (db_error, i64) result" where
  "currval name db =
     (case om_get (db_sequences db) name of None \<Rightarrow> Err (NoSequence name) | Some sq \<Rightarrow> Ok (seq_value sq))"

definition setval ::
  "('b, 's) lsm_env \<Rightarrow> catalog_codec \<Rightarrow> bytes \<Rightarrow> i64 \<Rightarrow> bool \<Rightarrow> ('b, 's, 'i) Database
     \<Rightarrow> (db_error, i64) result \<times> ('b, 's, 'i) Database" where
  "setval env cc name val is_called db =
     when_writable db
       (case om_get (db_sequences db) name of
          None \<Rightarrow> (Err (NoSequence name), db)
        | Some sq \<Rightarrow>
            put_sequence env cc name (sq\<lparr>seq_value := (if is_called then val else val - seq_increment sq)\<rparr>) val db)"

definition create_function ::
  "('b, 's) lsm_env \<Rightarrow> catalog_codec \<Rightarrow> UserFunction \<Rightarrow> ('b, 's, 'i) Database
     \<Rightarrow> (db_error, unit) result \<times> ('b, 's, 'i) Database" where
  "create_function env cc uf db =
     when_writable db
       (if om_get (db_functions db) (uf_name uf) \<noteq> None then (Err (FunctionExists (uf_name uf)), db)
        else put_encoded env (function_key (uf_name uf)) (ser_function cc uf) db
          (\<lambda>db. (Ok (), db\<lparr>db_functions := om_insert (uf_name uf) uf (db_functions db)\<rparr>)))"

definition get_function :: "bytes \<Rightarrow> ('b, 's, 'i) Database \<Rightarrow> UserFunction option" where
  "get_function name db = om_get (db_functions db) name"

definition rows_by_keys :: "('b, 's) lsm_env \<Rightarrow> bytes \<Rightarrow> bytes list \<Rightarrow> ('b, 's, 'i) Database \<Rightarrow> KeyValue list" where
  "rows_by_keys env table keys db =
     List.map_filter (\<lambda>k.
       case db_read env table k db of
         Inr (Some v) \<Rightarrow> Some \<lparr>kv_key = k, kv_value = v\<rparr>
       | _ \<Rightarrow> None) keys"

end
