(* ===== verification/DatabaseFlux.thy ===== *)
theory DatabaseFlux
  imports Catalog
begin

text \<open>
  Topics of the database, storage/database/flux.rs, and the two modules that keep
  queues and histories in them: task delegation of synapse/coordination.rs and the
  session traces of mirror/trace.rs and mirror/replay.rs.  The clock is read twice
  by a publish, once for the stored record and once for the copy that goes to the
  live subscribers.
\<close>

record flux_env =
  fe_codec :: flux_codec
  fe_hash :: "bytes \<Rightarrow> u64"

subsection \<open>Topics\<close>

text \<open>Creating a topic that the caller has found absent.\<close>

definition add_topic ::
  "flux_env \<Rightarrow> io_fault \<Rightarrow> bytes \<Rightarrow> u32 \<Rightarrow> RetentionPolicy \<Rightarrow> ('b, 's, 'i) Database
     \<Rightarrow> (db_error, unit) result \<times> ('b, 's, 'i) Database" where
  "add_topic fe io name partitions ret db =
     (case FluxLog_create (fe_codec fe) io partitions ret (db_topic_dirs db name) of
        (Inl e, dir) \<Rightarrow> (Err (FluxFailed e), db\<lparr>db_topic_dirs := (db_topic_dirs db)(name := dir)\<rparr>)
      | (Inr log, dir) \<Rightarrow>
          (Ok (), db\<lparr>db_topic_dirs := (db_topic_dirs db)(name := dir),
                     db_topics := om_insert name log (db_topics db)\<rparr>))"

definition db_create_topic ::
  "flux_env \<Rightarrow> io_fault \<Rightarrow> bytes \<Rightarrow> u32 \<Rightarrow> i64 option \<Rightarrow> u64 option \<Rightarrow> ('b, 's, 'i) Database
     \<Rightarrow> (db_error, unit) result \<times> ('b, 's, 'i) Database" where
  "db_create_topic fe io name partitions ret_ms ret_bytes db =
     when_writable db
       (if om_get (db_topics db) name \<noteq> None then (Err (TopicExists name), db)
        else add_topic fe io name partitions \<lparr>retention_ms = ret_ms, retention_bytes = ret_bytes\<rparr> db)"

definition ensure_cdc_topic ::
  "flux_env \<Rightarrow> io_fault \<Rightarrow> bytes \<Rightarrow> ('b, 's, 'i) Database \<Rightarrow> (db_error, unit) result \<times> ('b, 's, 'i) Database" where
  "ensure_cdc_topic fe io table db =
     (let topic = ascii ''__cdc_'' @ table in
      if om_get (db_topics db) topic = None then add_topic fe io topic 1 no_retention db else (Ok (), db))"

definition db_flux_publish ::
  "flux_env \<Rightarrow> i64 \<times> i64 \<Rightarrow> io_fault \<Rightarrow> bytes \<Rightarrow> u32 option \<Rightarrow> bytes option \<Rightarrow> bytes \<Rightarrow> ('b, 's, 'i) Database
     \<Rightarrow> (db_error, u32 \<times> u64) result \<times> ('b, 's, 'i) Database" where
  "db_flux_publish fe now io topic part key val db =
     when_writable db
       (case om_get (db_topics db) topic of
          None \<Rightarrow> (Err (NoTopic topic), db)
        | Some log \<Rightarrow>
            (case FluxLog_publish (fe_codec fe) (fe_hash fe) (fst now) io part key val log (db_topic_dirs db topic) of
               (r, log, dir) \<Rightarrow>
                 let db = db\<lparr>db_topics := om_insert topic log (db_topics db),
                             db_topic_dirs := (db_topic_dirs db)(topic := dir)\<rparr> in
                 (case r of
                    Inl e \<Rightarrow> (Err (FluxFailed e), db)
                  | Inr (p, offset) \<Rightarrow>
                      (Ok (p, offset),
                       db\<lparr>db_flux_bus := db_flux_bus db @
                         [(topic, \<lparr>flux_offset = offset, flux_key = key, flux_value = val, flux_timestamp_ms = snd now\<rparr>)]\<rparr>))))"

text \<open>\<open>event\<close> is the serialized JSON of the change, \<open>None\<close> when that fails.\<close>

definition db_flux_publish_cdc ::
  "flux_env \<Rightarrow> i64 \<times> i64 \<Rightarrow> io_fault \<Rightarrow> bytes \<Rightarrow> bytes option \<Rightarrow> ('b, 's, 'i) Database
     \<Rightarrow> (db_error, unit) result \<times> ('b, 's, 'i) Database" where
  "db_flux_publish_cdc fe now io table event db =
     and_db (ensure_cdc_topic fe io table db) (\<lambda>db.
       case event of
         None \<Rightarrow> (Err CatalogEncode, db)
       | Some bs \<Rightarrow>
           (case db_flux_publish fe now io (ascii ''__cdc_'' @ table) None None bs db of
              (r, db) \<Rightarrow> (and_then r (\<lambda>_. Ok ()), db)))"

definition db_flux_poll :: "bytes \<Rightarrow> u32 \<Rightarrow> bytes \<Rightarrow> nat \<Rightarrow> ('b, 's, 'i) Database \<Rightarrow> (db_error, FluxRecord list) result" where
  "db_flux_poll topic part grp max_n db =
     (case om_get (db_topics db) topic of
        None \<Rightarrow> Err (NoTopic topic)
      | Some log \<Rightarrow> (case FluxLog_poll grp part max_n log of Inl e \<Rightarrow> Err (FluxFailed e) | Inr rs \<Rightarrow> Ok rs))"

definition db_flux_commit ::
  "flux_env \<Rightarrow> io_fault \<Rightarrow> bytes \<Rightarrow> u32 \<Rightarrow> bytes \<Rightarrow> u64 \<Rightarrow> ('b, 's, 'i) Database
     \<Rightarrow> (db_error, unit) result \<times> ('b, 's, 'i) Database" where
  "db_flux_commit fe io topic part grp offset db =
     (case om_get (db_topics db) topic of
        None \<Rightarrow> (Err (NoTopic topic), db)
      | Some log \<Rightarrow>
          (case FluxLog_commit (fe_codec fe) io grp part offset log (db_topic_dirs db topic) of
             (r, log, dir) \<Rightarrow>
               (case r of Inl e \<Rightarrow> Err (FluxFailed e) | Inr u \<Rightarrow> Ok u,
                db\<lparr>db_topics := om_insert topic log (db_topics db),
                   db_topic_dirs := (db_topic_dirs db)(topic := dir)\<rparr>)))"

definition db_flux_all :: "bytes \<Rightarrow> u32 \<Rightarrow> ('b, 's, 'i) Database \<Rightarrow> FluxRecord list option" where
  "db_flux_all topic part db = Option.bind (om_get (db_topics db) topic) (all_records part)"

definition db_flux_num_partitions :: "bytes \<Rightarrow> ('b, 's, 'i) Database \<Rightarrow> u32 option" where
  "db_flux_num_partitions topic db = map_option num_partitions (om_get (db_topics db) topic)"

definition list_topics :: "('b, 's, 'i) Database \<Rightarrow> (bytes \<times> u32) list" where
  "list_topics db = map (\<lambda>(name, log). (name, num_partitions log)) (db_topics db)"

text \<open>The topics that \<open>Database::open\<close> finds in the flux directory, whose entries are
  \<open>names\<close>: one whose files do not open is left out.\<close>

definition open_topics :: "flux_codec \<Rightarrow> (bytes \<Rightarrow> TopicDir) \<Rightarrow> bytes list \<Rightarrow> (bytes \<times> FluxLog) list" where
  "open_topics cod dirs names =
     fold (\<lambda>name topics. case FluxLog_open cod (dirs name) of Inl e \<Rightarrow> topics | Inr log \<Rightarrow> om_insert name log topics) names []"

subsection \<open>Task queues\<close>

definition workflow_topic :: "bytes \<Rightarrow> bytes" where
  "workflow_topic workflow = ascii ''__synapse_tasks_'' @ workflow"

definition ensure_topic ::
  "flux_env \<Rightarrow> io_fault \<Rightarrow> bytes \<Rightarrow> ('b, 's, 'i) Database \<Rightarrow> (db_error, unit) result \<times> ('b, 's, 'i) Database" where
  "ensure_topic fe io topic db =
     (if db_flux_num_partitions topic db = None then db_create_topic fe io topic 1 None None db else (Ok (), db))"

definition delegate_task ::
  "flux_env \<Rightarrow> i64 \<times> i64 \<Rightarrow> io_fault \<Rightarrow> bytes \<Rightarrow> bytes \<Rightarrow> ('b, 's, 'i) Database
     \<Rightarrow> (db_error, u64) result \<times> ('b, 's, 'i) Database" where
  "delegate_task fe now io workflow task db =
     and_db (ensure_topic fe io (workflow_topic workflow) db) (\<lambda>db.
       case db_flux_publish fe now io (workflow_topic workflow) (Some 0) None task db of
         (r, db) \<Rightarrow> (and_then r (\<lambda>(_, offset). Ok offset), db))"

definition claim_task ::
  "flux_env \<Rightarrow> io_fault \<Rightarrow> bytes \<Rightarrow> bytes \<Rightarrow> ('b, 's, 'i) Database
     \<Rightarrow> (db_error, (u64 \<times> bytes) option) result \<times> ('b, 's, 'i) Database" where
  "claim_task fe io workflow grp db =
     and_db (ensure_topic fe io (workflow_topic workflow) db) (\<lambda>db.
       (and_then (db_flux_poll (workflow_topic workflow) 0 grp 1 db)
          (\<lambda>records. Ok (case records of [] \<Rightarrow> None | r # _ \<Rightarrow> Some (flux_offset r, from_utf8_lossy (flux_value r)))), db))"

definition complete_task ::
  "flux_env \<Rightarrow> io_fault \<Rightarrow> bytes \<Rightarrow> bytes \<Rightarrow> u64 \<Rightarrow> ('b, 's, 'i) Database
     \<Rightarrow> (db_error, unit) result \<times> ('b, 's, 'i) Database" where
  "complete_task fe io workflow grp offset db =
     and_db (ensure_topic fe io (workflow_topic workflow) db) (\<lambda>db.
       db_flux_commit fe io (workflow_topic workflow) 0 grp (offset + 1) db)"

subsection \<open>Session traces\<close>

record TraceEvent =
  te_offset :: u64
  te_ts :: i64
  te_agent_id :: bytes
  te_session_id :: bytes
  te_kind :: bytes
  te_detail :: bytes
  te_tool_name :: "bytes option"
  te_input :: "bytes option"
  te_output :: "bytes option"
  te_error :: "bytes option"

definition trace_topic :: "bytes \<Rightarrow> bytes" where
  "trace_topic session_id = ascii ''__mirror_trace_'' @ session_id"

text \<open>\<open>print\<close> and \<open>parse\<close> are the JSON texts of an event; the text has no offset.\<close>

definition trace_record ::
  "flux_env \<Rightarrow> (TraceEvent \<Rightarrow> bytes option) \<Rightarrow> i64 \<times> i64 \<Rightarrow> io_fault \<Rightarrow> TraceEvent \<Rightarrow> ('b, 's, 'i) Database
     \<Rightarrow> (db_error, u64) result \<times> ('b, 's, 'i) Database" where
  "trace_record fe print now io event db =
     and_db (ensure_topic fe io (trace_topic (te_session_id event)) db) (\<lambda>db.
       case print event of
         None \<Rightarrow> (Err CatalogEncode, db)
       | Some bs \<Rightarrow>
           (case db_flux_publish fe now io (trace_topic (te_session_id event)) (Some 0) None bs db of
              (r, db) \<Rightarrow> (and_then r (\<lambda>(_, offset). Ok offset), db)))"

definition trace_event :: "i64 \<Rightarrow> bytes \<Rightarrow> bytes \<Rightarrow> string \<Rightarrow> bytes \<Rightarrow> TraceEvent" where
  "trace_event ts agent_id session_id kind detail =
     \<lparr>te_offset = 0, te_ts = ts, te_agent_id = agent_id, te_session_id = session_id, te_kind = ascii kind,
      te_detail = detail, te_tool_name = None, te_input = None, te_output = None, te_error = None\<rparr>"

definition decision_event :: "i64 \<Rightarrow> bytes \<Rightarrow> bytes \<Rightarrow> bytes \<Rightarrow> TraceEvent" where
  "decision_event ts agent_id session_id detail = trace_event ts agent_id session_id ''decision'' detail"

definition tool_call_event :: "i64 \<Rightarrow> bytes \<Rightarrow> bytes \<Rightarrow> bytes \<Rightarrow> bytes \<Rightarrow> bytes \<Rightarrow> TraceEvent" where
  "tool_call_event ts agent_id session_id tool_name input output =
     (trace_event ts agent_id session_id ''tool_call'' (ascii ''called '' @ tool_name))
       \<lparr>te_tool_name := Some tool_name, te_input := Some input, te_output := Some output\<rparr>"

definition error_event :: "i64 \<Rightarrow> bytes \<Rightarrow> bytes \<Rightarrow> bytes option \<Rightarrow> bytes \<Rightarrow> TraceEvent" where
  "error_event ts agent_id session_id tool_name error =
     (trace_event ts agent_id session_id ''error'' error)\<lparr>te_tool_name := tool_name, te_error := Some error\<rparr>"

definition outcome_event :: "i64 \<Rightarrow> bytes \<Rightarrow> bytes \<Rightarrow> bytes \<Rightarrow> TraceEvent" where
  "outcome_event ts agent_id session_id detail = trace_event ts agent_id session_id ''outcome'' detail"

definition decode_event :: "(bytes \<Rightarrow> TraceEvent option) \<Rightarrow> FluxRecord \<Rightarrow> TraceEvent option" where
  "decode_event parse r =
     map_option (\<lambda>e. e\<lparr>te_offset := flux_offset r, te_ts := flux_timestamp_ms r\<rparr>) (parse (flux_value r))"

definition replay_session :: "(bytes \<Rightarrow> TraceEvent option) \<Rightarrow> bytes \<Rightarrow> ('b, 's, 'i) Database \<Rightarrow> TraceEvent list" where
  "replay_session parse session_id db =
     (case db_flux_all (trace_topic session_id) 0 db of
        None \<Rightarrow> []
      | Some records \<Rightarrow> sort_key te_offset (List.map_filter (decode_event parse) records))"

definition replay_up_to :: "(bytes \<Rightarrow> TraceEvent option) \<Rightarrow> bytes \<Rightarrow> u64 \<Rightarrow> ('b, 's, 'i) Database \<Rightarrow> TraceEvent list" where
  "replay_up_to parse session_id offset db =
     filter (\<lambda>e. te_offset e \<le> offset) (replay_session parse session_id db)"

definition find_first_error :: "(bytes \<Rightarrow> TraceEvent option) \<Rightarrow> bytes \<Rightarrow> ('b, 's, 'i) Database \<Rightarrow> TraceEvent option" where
  "find_first_error parse session_id db =
     List.find (\<lambda>e. te_kind e = ascii ''error'' \<or> te_error e \<noteq> None) (replay_session parse session_id db)"

record SessionCursor =
  sc_events :: "TraceEvent list"
  sc_pos :: nat

definition cursor_current :: "SessionCursor \<Rightarrow> TraceEvent option" where
  "cursor_current c = (if sc_pos c < length (sc_events c) then Some (sc_events c ! sc_pos c) else None)"

definition cursor_step :: "SessionCursor \<Rightarrow> TraceEvent option \<times> SessionCursor" where
  "cursor_step c =
     (let c = (if sc_pos c + 1 < length (sc_events c) then c\<lparr>sc_pos := sc_pos c + 1\<rparr> else c) in (cursor_current c, c))"

definition cursor_back :: "SessionCursor \<Rightarrow> TraceEvent option \<times> SessionCursor" where
  "cursor_back c = (let c = c\<lparr>sc_pos := sc_pos c - 1\<rparr> in (cursor_current c, c))"

definition cursor_seek :: "u64 \<Rightarrow> SessionCursor \<Rightarrow> TraceEvent option \<times> SessionCursor" where
  "cursor_seek offset c =
     (case position (\<lambda>e. te_offset e = offset) (sc_events c) of
        None \<Rightarrow> (None, c)
      | Some idx \<Rightarrow> let c = c\<lparr>sc_pos := idx\<rparr> in (cursor_current c, c))"

end
