(* ===== verification/FluxRuns.thy ===== *)
theory FluxRuns
  imports Flux
begin

text \<open>
  Runs of a topic: every publish and commit is one step, and a run is a list of
  them.  The specification of a partition is a function of its whole history, the
  list of every record ever published to it: the records that retention keeps are
  the ones after the later of two cuts, by age and by size.
\<close>

subsection \<open>Operations as steps\<close>

datatype topic_op =
    Publish "u32 option" "bytes option" bytes i64 io_fault
  | Commit bytes u32 u64 io_fault

fun topic_exec :: "flux_codec \<Rightarrow> (bytes \<Rightarrow> u64) \<Rightarrow> topic_op \<Rightarrow> FluxLog \<times> TopicDir \<Rightarrow> FluxLog \<times> TopicDir" where
  "topic_exec cod hash (Publish part key val now_ms io) (log, dir) =
     snd (FluxLog_publish cod hash now_ms io part key val log dir)"
| "topic_exec cod hash (Commit grp part offset io) (log, dir) =
     snd (FluxLog_commit cod io grp part offset log dir)"

abbreviation topic_run :: "flux_codec \<Rightarrow> (bytes \<Rightarrow> u64) \<Rightarrow> topic_op list \<Rightarrow> FluxLog \<times> TopicDir \<Rightarrow> FluxLog \<times> TopicDir" where
  "topic_run cod hash ops s \<equiv> fold (topic_exec cod hash) ops s"

subsection \<open>What retention keeps of a history\<close>

definition value_bytes :: "FluxRecord list \<Rightarrow> nat" where
  "value_bytes rs = (\<Sum>r\<leftarrow>rs. length (flux_value r))"

lemma value_bytes_simps [simp]:
  "value_bytes [] = 0" "value_bytes (r # rs) = length (flux_value r) + value_bytes rs" "value_bytes (rs @ rs') = value_bytes rs + value_bytes rs'"
  by (simp_all add: value_bytes_def)

lemma value_bytes_drop: "value_bytes (drop k rs) \<le> value_bytes rs"
  by (metis append_take_drop_id le_add2 value_bytes_simps(3))

definition newest_ts :: "FluxRecord list \<Rightarrow> i64" where
  "newest_ts rs = fold (\<lambda>r m. i64_max_of m (flux_timestamp_ms r)) rs i64_min"

lemma newest_ts_simps [simp]: "newest_ts [] = i64_min" "newest_ts (rs @ [r]) = i64_max_of (newest_ts rs) (flux_timestamp_ms r)"
  by (simp_all add: newest_ts_def)

definition older :: "i64 \<Rightarrow> FluxRecord \<Rightarrow> bool" where
  "older cutoff r \<longleftrightarrow> sint (flux_timestamp_ms r) < sint cutoff"

definition age_cut :: "RetentionPolicy \<Rightarrow> FluxRecord list \<Rightarrow> nat" where
  "age_cut ret rs = (case retention_ms ret of
     None \<Rightarrow> 0 | Some ms \<Rightarrow> length (takeWhile (older (newest_ts rs - ms)) rs))"

fun excess :: "u64 \<Rightarrow> FluxRecord list \<Rightarrow> nat" where
  "excess max_bytes [] = 0"
| "excess max_bytes (r # rs) = (if unat max_bytes < value_bytes (r # rs) then Suc (excess max_bytes rs) else 0)"

definition size_cut :: "RetentionPolicy \<Rightarrow> FluxRecord list \<Rightarrow> nat" where
  "size_cut ret rs = (case retention_bytes ret of None \<Rightarrow> 0 | Some max_bytes \<Rightarrow> excess max_bytes rs)"

definition retained :: "RetentionPolicy \<Rightarrow> FluxRecord list \<Rightarrow> FluxRecord list" where
  "retained ret rs = drop (max (age_cut ret rs) (size_cut ret rs)) rs"

text \<open>A partition whose records are \<open>rs\<close>, after a history \<open>hist\<close>.\<close>

definition loaded :: "FluxRecord list \<Rightarrow> FluxRecord list \<Rightarrow> Partition" where
  "loaded hist rs =
     \<lparr>pt_records = rs, pt_next_offset = word_of_nat (length hist), pt_total_bytes = word_of_nat (value_bytes rs),
      pt_newest_ts = newest_ts hist\<rparr>"

subsection \<open>Retention as a cut\<close>

lemma evict_older_drop:
  "evict_older c rs (word_of_nat (value_bytes rs)) = (dropWhile (older c) rs, word_of_nat (value_bytes (dropWhile (older c) rs)))"
  by (induction rs) (simp_all add: older_def)

lemma evict_excess_drop:
  "value_bytes rs < 2 ^ 64 \<Longrightarrow>
   evict_excess m rs (word_of_nat (value_bytes rs)) = (drop (excess m rs) rs, word_of_nat (value_bytes (drop (excess m rs) rs)))"
proof (induction rs)
  case (Cons r rs)
  have "m < len_u64 (flux_value r) + word_of_nat (value_bytes rs) \<longleftrightarrow> unat m < value_bytes (r # rs)"
    using Cons.prems unfolding of_nat_add [symmetric] by (simp add: word_less_nat_alt unat_of_nat del: of_nat_add)
  with Cons show ?case by simp
qed simp

lemma excess_le: "excess m rs \<le> length rs"
  by (induction rs) auto

lemma excess_snoc: "excess m rs \<le> excess m (rs @ [r])"
  by (induction rs) auto

lemma excess_zero: "value_bytes rs \<le> unat m \<Longrightarrow> excess m rs = 0"
  by (cases rs) auto

lemma drop_excess: "drop (excess m (drop k rs)) (drop k rs) = drop (max k (excess m rs)) rs"
proof (induction rs arbitrary: k)
  case (Cons r rs)
  show ?case
  proof (cases k)
    case (Suc j)
    have "value_bytes (drop j rs) \<le> value_bytes (r # rs)" using value_bytes_drop [of j rs] by simp
    then show ?thesis
      using Cons [of j] Suc excess_zero [of "drop j rs" m] by auto
  qed simp
qed simp

lemma dropWhile_takeWhile: "dropWhile P xs = drop (length (takeWhile P xs)) xs"
  by (induction xs) auto

lemma takeWhile_append_le: "length (takeWhile P xs) \<le> length (takeWhile P (xs @ ys))"
  by (induction xs) auto

lemma takeWhile_mono: "(\<And>x. x \<in> set xs \<Longrightarrow> P x \<Longrightarrow> Q x) \<Longrightarrow> length (takeWhile P xs) \<le> length (takeWhile Q xs)"
  by (induction xs) auto

text \<open>On a history in the order of its timestamps the age cut does not depend on
  how many of the oldest records are already gone.\<close>

lemma dropWhile_drop:
  assumes "sorted (map (\<lambda>r. sint (flux_timestamp_ms r)) rs)"
  shows "dropWhile (older c) (drop k rs) = drop (max k (length (takeWhile (older c) rs))) rs"
  using assms
proof (induction rs arbitrary: k)
  case (Cons r rs)
  show ?case
  proof (cases k)
    case 0
    then show ?thesis by (simp add: dropWhile_takeWhile [symmetric])
  next
    case (Suc j)
    show ?thesis
    proof (cases "older c r")
      case False
      then have "\<forall>x \<in> set (drop j rs). \<not> older c x"
        using Cons.prems by (force simp: older_def dest: in_set_dropD)
      then have "dropWhile (older c) (drop j rs) = drop j rs"
        by (cases "drop j rs") auto
      then show ?thesis using Suc False by simp
    qed (use Cons Suc in simp)
  qed
qed simp

lemma apply_retention_loaded:
  assumes "rs = drop k hist" and "value_bytes hist < 2 ^ 64"
    and "k = 0 \<or> sorted (map (\<lambda>r. sint (flux_timestamp_ms r)) hist)"
  shows "apply_retention ret (loaded hist rs) = loaded hist (drop (max k (max (age_cut ret hist) (size_cut ret hist))) hist)"
proof -
  let ?a = "max k (age_cut ret hist)"
  have age: "(case retention_ms ret of None \<Rightarrow> (rs, word_of_nat (value_bytes rs))
      | Some ms \<Rightarrow> evict_older (newest_ts hist - ms) rs (word_of_nat (value_bytes rs)))
      = (drop ?a hist, word_of_nat (value_bytes (drop ?a hist)) :: u64)"
    using assms(3)
  proof
    assume "k = 0"
    then show ?thesis by (simp add: assms(1) age_cut_def evict_older_drop dropWhile_takeWhile split: option.split)
  next
    assume "sorted (map (\<lambda>r. sint (flux_timestamp_ms r)) hist)"
    then show ?thesis by (simp add: assms(1) age_cut_def evict_older_drop dropWhile_drop split: option.split)
  qed
  have "value_bytes (drop ?a hist) < 2 ^ 64" using value_bytes_drop [of ?a hist] assms(2) by linarith
  then have "(case retention_bytes ret of None \<Rightarrow> (drop ?a hist, word_of_nat (value_bytes (drop ?a hist)))
      | Some m \<Rightarrow> evict_excess m (drop ?a hist) (word_of_nat (value_bytes (drop ?a hist))))
      = (drop (max ?a (size_cut ret hist)) hist, word_of_nat (value_bytes (drop (max ?a (size_cut ret hist)) hist)) :: u64)"
    by (simp add: size_cut_def evict_excess_drop drop_excess del: drop_drop split: option.split)
  then show ?thesis
    by (simp add: apply_retention_def loaded_def age max.assoc cong: option.case_cong)
qed

lemma retained_loaded:
  "value_bytes hist < 2 ^ 64 \<Longrightarrow> apply_retention ret (loaded hist hist) = loaded hist (retained ret hist)"
  using apply_retention_loaded [of hist 0 hist] by (simp add: retained_def)

lemma sint_diff_nonneg:
  assumes "0 \<le> sint (a :: i64)" and "0 \<le> sint b"
  shows "sint (a - b) = sint a - sint b"
proof -
  have "sint a < 2 ^ 63" "sint b < 2 ^ 63" using sint_lt [of a] sint_lt [of b] by simp_all
  with assms show ?thesis
    by (simp add: sint_word_ariths signed_take_bit_int_eq_self)
qed

lemma sint_max_of: "sint (i64_max_of a b) = max (sint a) (sint b)"
  by (simp add: i64_max_of_def)

lemma newest_nonneg: "r \<in> set rs \<Longrightarrow> 0 \<le> sint (flux_timestamp_ms r) \<Longrightarrow> 0 \<le> sint (newest_ts rs)"
  by (induction rs rule: rev_induct) (auto simp: sint_max_of)

definition policy_ok :: "RetentionPolicy \<Rightarrow> bool" where
  "policy_ok ret \<longleftrightarrow>
     (case retention_ms ret of None \<Rightarrow> True | Some ms \<Rightarrow> 0 \<le> sint ms) \<and>
     (case retention_bytes ret of None \<Rightarrow> True | Some b \<Rightarrow> 0 \<le> sint b)"

lemma age_cut_snoc:
  assumes "policy_ok ret" and "0 \<le> sint (flux_timestamp_ms r)" "\<forall>r \<in> set rs. 0 \<le> sint (flux_timestamp_ms r)"
  shows "age_cut ret rs \<le> age_cut ret (rs @ [r])"
proof (cases "rs = [] \<or> retention_ms ret = None")
  case False
  then obtain ms where ms: "retention_ms ret = Some ms" "0 \<le> sint ms"
    using assms(1) by (auto simp: policy_ok_def)
  have "0 \<le> sint (newest_ts rs)"
    using False assms(3) newest_nonneg [of "hd rs" rs] by simp
  then have "sint (newest_ts rs - ms) \<le> sint (newest_ts (rs @ [r]) - ms)"
    using assms(2) ms(2) by (simp add: sint_diff_nonneg sint_max_of)
  then have "length (takeWhile (older (newest_ts rs - ms)) rs) \<le> length (takeWhile (older (newest_ts (rs @ [r]) - ms)) rs)"
    by (intro takeWhile_mono) (simp add: older_def)
  also have "\<dots> \<le> length (takeWhile (older (newest_ts (rs @ [r]) - ms)) (rs @ [r]))"
    by (rule takeWhile_append_le)
  finally show ?thesis using ms(1) by (simp add: age_cut_def)
qed (auto simp: age_cut_def split: option.split)

lemma size_cut_snoc: "size_cut ret rs \<le> size_cut ret (rs @ [r])"
  by (simp add: size_cut_def excess_snoc split: option.split)

lemma cuts_le: "age_cut ret rs \<le> length rs" "size_cut ret rs \<le> length rs"
  by (simp_all add: age_cut_def size_cut_def length_takeWhile_le excess_le split: option.split)

lemma retained_snoc:
  assumes "policy_ok ret" and "\<forall>x \<in> set (hist @ [r]). 0 \<le> sint (flux_timestamp_ms x)"
    and "sorted (map (\<lambda>x. sint (flux_timestamp_ms x)) (hist @ [r]))" and "value_bytes (hist @ [r]) < 2 ^ 64"
  shows "apply_retention ret (loaded (hist @ [r]) (retained ret hist @ [r])) = loaded (hist @ [r]) (retained ret (hist @ [r]))"
proof -
  let ?k = "max (age_cut ret hist) (size_cut ret hist)"
  have "retained ret hist @ [r] = drop ?k (hist @ [r])"
    using cuts_le [of ret hist] by (simp add: retained_def)
  moreover have "?k \<le> max (age_cut ret (hist @ [r])) (size_cut ret (hist @ [r]))"
    using age_cut_snoc [of ret r hist] size_cut_snoc [of ret hist r] assms(1,2) by auto
  ultimately show ?thesis
    using apply_retention_loaded [of _ ?k "hist @ [r]" ret] assms(3,4) by (simp add: retained_def max.absorb2)
qed

end
