(* ===== verification/FluxProps.thy ===== *)
theory FluxProps
  imports FluxRuns
begin

text \<open>
  What a topic promises across a restart and between faults: the files of a topic
  determine the topic, and the offsets of a partition are consecutive whatever
  writes fail.
\<close>

subsection \<open>Reading a log back\<close>

lemma read_log_entry:
  assumes "length e < 2 ^ 32"
  shows "read_log step (log_entry e @ rest) s = and_then (step e s) (read_log step rest)"
  using assms by (subst read_log.simps) (simp add: log_entry_def unat_of_nat)

lemma read_log_Nil [simp]: "read_log step [] s = Ok s"
  by (simp add: read_log.simps)

text \<open>A log written entry by entry is read back entry by entry, for any encoding
  whose entries the step decodes.\<close>

lemma read_log_entries:
  assumes "\<And>x. x \<in> set xs \<Longrightarrow> length (enc x) < 2 ^ 32"
    and "\<And>ys x zs. xs = ys @ x # zs \<Longrightarrow> step (enc x) (f ys) = Ok (f (ys @ [x]))"
  shows "read_log step (concat (map (\<lambda>x. log_entry (enc x)) xs)) (f []) = Ok (f xs)"
proof -
  have "read_log step (concat (map (\<lambda>x. log_entry (enc x)) zs)) (f ys) = Ok (f xs)" if "xs = ys @ zs" for ys zs
    using that
  proof (induction zs arbitrary: ys)
    case (Cons z zs)
    then show ?case
      using assms(1) [of z] assms(2) [of ys z zs] Cons.IH [of "ys @ [z]"] by (simp add: read_log_entry)
  qed simp
  then show ?thesis by simp
qed

subsection \<open>The encodings of the two record types\<close>

definition record_fits :: "FluxRecord \<Rightarrow> bool" where
  "record_fits r \<longleftrightarrow> (case flux_key r of None \<Rightarrow> 0 | Some k \<Rightarrow> length k) + length (flux_value r) \<le> 2 ^ 31"

definition commit_fits :: "OffsetCommit \<Rightarrow> bool" where
  "commit_fits c \<longleftrightarrow> length (oc_group c) \<le> 2 ^ 31"

definition round_trips :: "('x \<Rightarrow> bool) \<Rightarrow> ('x \<Rightarrow> bytes option) \<Rightarrow> (bytes \<Rightarrow> 'x option) \<Rightarrow> bool" where
  "round_trips ok ser de \<longleftrightarrow> (\<forall>x. ok x \<longrightarrow> (\<exists>bs. ser x = Some bs \<and> length bs < 2 ^ 32 \<and> de bs = Some x))"

definition codec_ok :: "flux_codec \<Rightarrow> bool" where
  "codec_ok cod \<longleftrightarrow>
     round_trips record_fits (ser_record cod) (de_record cod) \<and> round_trips commit_fits (ser_commit cod) (de_commit cod)"

lemma round_tripsD:
  assumes "round_trips ok ser de" and "ok x"
  shows "ser x = Some (the (ser x))" "length (the (ser x)) < 2 ^ 32" "de (the (ser x)) = Some x"
  using assms by (auto simp: round_trips_def)

lemmas codec_record = round_tripsD [of record_fits "ser_record cod" "de_record cod" for cod]
lemmas codec_commit = round_tripsD [of commit_fits "ser_commit cod" "de_commit cod" for cod]

definition record_log :: "flux_codec \<Rightarrow> FluxRecord list \<Rightarrow> bytes" where
  "record_log cod rs = concat (map (\<lambda>r. log_entry (the (ser_record cod r))) rs)"

definition commit_log :: "flux_codec \<Rightarrow> OffsetCommit list \<Rightarrow> bytes" where
  "commit_log cod cs = concat (map (\<lambda>c. log_entry (the (ser_commit cod c))) cs)"

definition committed :: "OffsetCommit list \<Rightarrow> bytes \<times> u32 \<rightharpoonup> u64" where
  "committed cs = fold (\<lambda>c m. m((oc_group c, oc_partition c) \<mapsto> oc_offset c)) cs (\<lambda>_. None)"

lemma log_snoc:
  "record_log cod (rs @ [r]) = record_log cod rs @ log_entry (the (ser_record cod r))"
  "commit_log cod (cs @ [c]) = commit_log cod cs @ log_entry (the (ser_commit cod c))"
  "committed (cs @ [c]) = (committed cs)((oc_group c, oc_partition c) \<mapsto> oc_offset c)"
  by (simp_all add: record_log_def commit_log_def committed_def)

definition numbered :: "FluxRecord list \<Rightarrow> bool" where
  "numbered rs \<longleftrightarrow> map flux_offset rs = map word_of_nat [0..<length rs]"

lemma numbered_nth: "numbered rs \<Longrightarrow> i < length rs \<Longrightarrow> flux_offset (rs ! i) = word_of_nat i"
  by (auto simp: numbered_def dest: arg_cong [where f = "\<lambda>xs. xs ! i"])

lemma Partition_open_log:
  assumes "codec_ok cod" and "\<forall>r \<in> set rs. record_fits r" and "numbered rs"
  shows "Partition_open cod (record_log cod rs) = Ok (loaded rs rs)"
proof -
  have rt: "round_trips record_fits (ser_record cod) (de_record cod)" using assms(1) by (simp add: codec_ok_def)
  have "replay_record cod (the (ser_record cod x)) (loaded ys ys) = Ok (loaded (ys @ [x]) (ys @ [x]))"
    if "rs = ys @ x # zs" for ys x zs
    using numbered_nth [OF assms(3), of "length ys"] codec_record(3) [OF rt, of x] assms(2) that
    by (simp add: replay_record_def loaded_def add.commute)
  then have "read_log (replay_record cod) (record_log cod rs) (loaded [] []) = Ok (loaded rs rs)"
    using codec_record(2) [OF rt] assms(2) unfolding record_log_def
    by (intro read_log_entries [where f = "\<lambda>ys. loaded ys ys"]) auto
  then show ?thesis by (simp add: Partition_open_def loaded_def Partition_empty_def)
qed

lemma read_offsets_log:
  assumes "codec_ok cod" and "\<forall>c \<in> set cs. commit_fits c"
  shows "read_offsets cod (commit_log cod cs) = Ok (committed cs)"
proof -
  have rt: "round_trips commit_fits (ser_commit cod) (de_commit cod)" using assms(1) by (simp add: codec_ok_def)
  have "read_log (replay_commit cod) (commit_log cod cs) (committed []) = Ok (committed cs)"
    unfolding commit_log_def using codec_commit(2,3) [OF rt] assms(2)
    by (intro read_log_entries [where f = committed]) (auto simp: replay_commit_def log_snoc)
  then show ?thesis by (simp add: read_offsets_def committed_def)
qed

lemma read_meta_bytes:
  assumes "policy_ok ret" and "td_meta dir = meta_bytes n ret"
  shows "read_meta dir = Ok (n, ret)"
proof -
  have "non_negative (u64_from_be_bytes (slice (meta_bytes n ret) 4 12)) = retention_ms ret"
    using assms(1) by (simp add: meta_bytes_def slice_def non_negative_def policy_ok_def split: option.splits)
  moreover have "non_negative (u64_from_be_bytes (slice (meta_bytes n ret) 12 20)) = retention_bytes ret"
    using assms(1) by (simp add: meta_bytes_def slice_def non_negative_def policy_ok_def split: option.splits)
  moreover have "length (meta_bytes n ret) = 20" "u32_from_be_bytes (slice (meta_bytes n ret) 0 4) = n"
    by (simp_all add: meta_bytes_def slice_def)
  ultimately show ?thesis by (simp add: read_meta_def assms(2))
qed

lemma collect_ok_map: "(\<And>x. x \<in> set xs \<Longrightarrow> f x = Ok (g x)) \<Longrightarrow> collect_ok f xs = Ok (map g xs)"
  by (induction xs) simp_all

subsection \<open>The topic that its files describe\<close>

fun op_fits :: "topic_op \<Rightarrow> bool" where
  "op_fits (Publish part key val now_ms io) \<longleftrightarrow>
     io = None \<and> (case key of None \<Rightarrow> 0 | Some k \<Rightarrow> length k) + length val \<le> 2 ^ 31 \<and> 0 \<le> sint now_ms"
| "op_fits (Commit grp part offset io) \<longleftrightarrow> io = None \<and> length grp \<le> 2 ^ 31"

fun clock :: "topic_op list \<Rightarrow> int list" where
  "clock [] = []"
| "clock (Publish part key val now_ms io # ops) = sint now_ms # clock ops"
| "clock (Commit grp part offset io # ops) = clock ops"

fun payload :: "topic_op list \<Rightarrow> nat" where
  "payload [] = 0"
| "payload (Publish part key val now_ms io # ops) = length val + payload ops"
| "payload (Commit grp part offset io # ops) = payload ops"

definition run_fits :: "topic_op list \<Rightarrow> bool" where
  "run_fits ops \<longleftrightarrow> list_all op_fits ops \<and> sorted (clock ops) \<and> payload ops < 2 ^ 64"

lemma clock_append: "clock (ops @ ops') = clock ops @ clock ops'"
  by (induction ops rule: clock.induct) simp_all

lemma payload_append: "payload (ops @ ops') = payload ops + payload ops'"
  by (induction ops rule: payload.induct) simp_all

definition part_rep :: "flux_codec \<Rightarrow> RetentionPolicy \<Rightarrow> topic_op list \<Rightarrow> FluxRecord list \<Rightarrow> bytes \<Rightarrow> Partition \<Rightarrow> bool" where
  "part_rep cod ret ops hist file p \<longleftrightarrow>
     file = record_log cod hist \<and> p = loaded hist (retained ret hist) \<and> numbered hist \<and>
     (\<forall>r \<in> set hist. record_fits r \<and> 0 \<le> sint (flux_timestamp_ms r) \<and> sint (flux_timestamp_ms r) \<in> set (clock ops)) \<and>
     sorted (map (\<lambda>r. sint (flux_timestamp_ms r)) hist) \<and> value_bytes hist \<le> payload ops"

definition topic_rep :: "flux_codec \<Rightarrow> u32 \<Rightarrow> RetentionPolicy \<Rightarrow> topic_op list \<Rightarrow> FluxLog \<times> TopicDir \<Rightarrow> bool" where
  "topic_rep cod n ret ops s \<longleftrightarrow>
     (case s of (log, dir) \<Rightarrow>
        td_meta dir = meta_bytes n ret \<and> length (fl_partitions log) = unat n \<and> fl_retention log = ret \<and>
        (\<exists>cs. (\<forall>c \<in> set cs. commit_fits c) \<and> td_offsets dir = commit_log cod cs \<and> fl_offsets log = committed cs) \<and>
        (\<exists>hist. \<forall>i < unat n. part_rep cod ret ops (hist i) (td_partitions dir i) (fl_partitions log ! i)))"

lemma part_rep_open:
  assumes "codec_ok cod" and "payload ops < 2 ^ 64" and "part_rep cod ret ops hist file p"
  shows "and_then (Partition_open cod file) (\<lambda>p. Ok (apply_retention ret p)) = Ok p"
  using assms by (simp add: part_rep_def Partition_open_log retained_loaded)

lemma topic_rep_open:
  assumes cod: "codec_ok cod" and ret: "policy_ok ret" and fits: "payload ops < 2 ^ 64"
    and rep: "topic_rep cod n ret ops (log, dir)"
  shows "FluxLog_open cod dir = Ok (log\<lparr>fl_rr_counter := 0\<rparr>)"
proof -
  obtain cs hist where
    meta: "td_meta dir = meta_bytes n ret" and len: "length (fl_partitions log) = unat n" and lret: "fl_retention log = ret"
    and cs: "\<forall>c \<in> set cs. commit_fits c" "td_offsets dir = commit_log cod cs" "fl_offsets log = committed cs"
    and hist: "\<And>i. i < unat n \<Longrightarrow> part_rep cod ret ops (hist i) (td_partitions dir i) (fl_partitions log ! i)"
    using rep by (auto simp: topic_rep_def)
  have "collect_ok (\<lambda>i. and_then (Partition_open cod (td_partitions dir i)) (\<lambda>p. Ok (apply_retention ret p))) [0..<unat n]
      = Ok (map ((!) (fl_partitions log)) [0..<unat n])"
    using part_rep_open [OF cod fits hist] by (intro collect_ok_map) simp
  also have "map ((!) (fl_partitions log)) [0..<unat n] = fl_partitions log"
    by (metis len map_nth)
  finally show ?thesis
    by (simp add: FluxLog_open_def read_meta_bytes [OF ret meta] cs read_offsets_log [OF cod cs(1)] lret)
qed

lemma part_rep_weaken: "part_rep cod ret ops hist file p \<Longrightarrow> part_rep cod ret (ops @ [op]) hist file p"
  by (auto simp: part_rep_def clock_append payload_append)

lemma numbered_snoc: "numbered hist \<Longrightarrow> flux_offset r = word_of_nat (length hist) \<Longrightarrow> numbered (hist @ [r])"
  by (simp add: numbered_def)

lemma part_rep_append:
  assumes cod: "codec_ok cod" and ret: "policy_ok ret" and fits: "run_fits (ops @ [Publish part key val now_ms None])"
    and rep: "part_rep cod ret ops hist file p"
    and app: "Partition_append cod None key val now_ms ret p file = (r, p', file')"
  shows "part_rep cod ret (ops @ [Publish part key val now_ms None])
     (hist @ [\<lparr>flux_offset = pt_next_offset p, flux_key = key, flux_value = val, flux_timestamp_ms = now_ms\<rparr>]) file' p'"
proof -
  let ?r = "\<lparr>flux_offset = pt_next_offset p, flux_key = key, flux_value = val, flux_timestamp_ms = now_ms\<rparr>"
  have p: "p = loaded hist (retained ret hist)" and num: "numbered hist" and vb: "value_bytes hist \<le> payload ops"
    and times: "\<forall>r \<in> set hist. record_fits r \<and> 0 \<le> sint (flux_timestamp_ms r) \<and> sint (flux_timestamp_ms r) \<in> set (clock ops)"
    and log: "file = record_log cod hist" and ord: "sorted (map (\<lambda>r. sint (flux_timestamp_ms r)) hist)"
    using rep by (auto simp: part_rep_def)
  have f: "record_fits ?r" "0 \<le> sint now_ms" "\<forall>t \<in> set (clock ops). t \<le> sint now_ms" "payload ops + length val < 2 ^ 64"
    using fits by (auto simp: run_fits_def record_fits_def clock_append payload_append sorted_append split: option.splits)
  have off: "flux_offset ?r = word_of_nat (length hist)" by (simp add: p loaded_def)
  obtain enc where ser: "ser_record cod ?r = Some enc"
    using cod f(1) by (auto simp: codec_ok_def round_trips_def)
  have ord': "sorted (map (\<lambda>r. sint (flux_timestamp_ms r)) (hist @ [?r]))"
    using ord f(3) times by (auto simp: sorted_append)
  have "p' = apply_retention ret \<lparr>pt_records = pt_records p @ [?r], pt_next_offset = pt_next_offset p + 1,
        pt_total_bytes = pt_total_bytes p + len_u64 val, pt_newest_ts = i64_max_of (pt_newest_ts p) now_ms\<rparr>"
    and file': "file' = file @ log_entry (the (ser_record cod ?r))"
    using app ser by (auto simp: Partition_append_def append_log_def Let_def)
  then have p': "p' = apply_retention ret (loaded (hist @ [?r]) (retained ret hist @ [?r]))"
    by (simp add: p loaded_def add.commute)
  have "p' = loaded (hist @ [?r]) (retained ret (hist @ [?r]))"
    unfolding p' using ret times f vb ord' by (intro retained_snoc) auto
  then show ?thesis
    using num off f times vb ord' by (auto simp: part_rep_def file' log log_snoc numbered_snoc clock_append payload_append)
qed

lemma target_in_range:
  fixes n :: u32
  assumes "length (fl_partitions log) = unat n" and "target_partition hash part key log = (Ok t, log')"
  shows "unat t < unat n"
proof -
  have n: "num_partitions log = n" using assms(1) by (simp add: num_partitions_def)
  have m: "n \<noteq> 0 \<Longrightarrow> x mod n < n" for x :: u32
    by (simp add: word_less_nat_alt unat_mod_distrib unat_gt_0)
  have "n \<noteq> 0 \<Longrightarrow> partition_for_key hash k n < n" for k
  proof -
    assume "n \<noteq> 0"
    moreover have up: "unat (ucast n :: u64) = unat n"
      using unat_u32_less [of n] by (simp add: unsigned_ucast_eq take_bit_nat_eq_self)
    ultimately have "unat (hash k mod ucast n) < unat n"
      by (simp add: unat_mod_distrib up unat_gt_0)
    then have "take_bit 32 (unat (hash k mod ucast n)) < unat n"
      using take_bit_nat_less_eq_self [of 32 "unat (hash k mod ucast n)"] by linarith
    then show "partition_for_key hash k n < n"
      by (simp add: partition_for_key_def word_less_nat_alt unsigned_ucast_eq)
  qed
  then have "t < n"
    using assms(2) m by (auto simp: target_partition_def n Let_def split: option.splits if_splits)
  then show ?thesis by (simp add: word_less_nat_alt)
qed

lemma target_same:
  assumes "target_partition hash part key log = (r, log')"
  shows "fl_partitions log' = fl_partitions log" "fl_retention log' = fl_retention log" "fl_offsets log' = fl_offsets log"
  using assms by (auto simp: target_partition_def Let_def split: option.splits if_splits)

lemma topic_rep_publish:
  assumes cod: "codec_ok cod" and ret: "policy_ok ret" and fits: "run_fits (ops @ [Publish part key val now_ms io])"
    and rep: "topic_rep cod n ret ops (log, dir)"
  shows "topic_rep cod n ret (ops @ [Publish part key val now_ms io]) (topic_exec cod hash (Publish part key val now_ms io) (log, dir))"
proof (cases "target_partition hash part key log")
  case (Pair res log')
  note same = target_same [OF Pair]
  have io: "io = None" using fits by (simp add: run_fits_def)
  have len: "length (fl_partitions log) = unat n" "fl_retention log = ret" using rep by (auto simp: topic_rep_def)
  obtain hist where hist: "\<And>i. i < unat n \<Longrightarrow> part_rep cod ret ops (hist i) (td_partitions dir i) (fl_partitions log ! i)"
    using rep by (auto simp: topic_rep_def)
  note hist' = part_rep_weaken [OF hist, where op = "Publish part key val now_ms io"]
  show ?thesis
  proof (cases res)
    case (Inl e)
    then show ?thesis using rep hist' by (auto simp: topic_rep_def FluxLog_publish_def Pair same)
  next
    case (Inr t)
    let ?i = "unat t"
    obtain r p f where app: "Partition_append cod None key val now_ms ret (fl_partitions log ! ?i) (td_partitions dir ?i) = (r, p, f)"
      by (metis prod_cases3)
    have i: "?i < unat n" using target_in_range [OF len(1)] Pair Inr by simp
    note new = part_rep_append [OF cod ret fits [unfolded io] hist [OF i] app, folded io]
    let ?h = "hist(?i := hist ?i @ [\<lparr>flux_offset = pt_next_offset (fl_partitions log ! ?i), flux_key = key, flux_value = val, flux_timestamp_ms = now_ms\<rparr>])"
    have "part_rep cod ret (ops @ [Publish part key val now_ms io]) (?h j) (((td_partitions dir)(?i := f)) j) ((fl_partitions log)[?i := p] ! j)"
      if "j < unat n" for j
      using new hist' [OF that] len that by (cases "j = ?i") simp_all
    then have "\<exists>h. \<forall>j < unat n. part_rep cod ret (ops @ [Publish part key val now_ms io]) (h j)
        (((td_partitions dir)(?i := f)) j) ((fl_partitions log)[?i := p] ! j)" by blast
    then show ?thesis
      using rep app Inr by (simp add: topic_rep_def FluxLog_publish_def Pair same io len Let_def)
  qed
qed

lemma topic_rep_commit:
  assumes cod: "codec_ok cod" and fits: "op_fits (Commit grp part offset io)"
    and rep: "topic_rep cod n ret ops (log, dir)"
  shows "topic_rep cod n ret (ops @ [Commit grp part offset io]) (topic_exec cod hash (Commit grp part offset io) (log, dir))"
proof -
  let ?c = "\<lparr>oc_group = grp, oc_partition = part, oc_offset = offset\<rparr>"
  have weak: "topic_rep cod n ret (ops @ [Commit grp part offset io]) (log, dir)"
    using rep unfolding topic_rep_def by (auto intro: part_rep_weaken)
  then obtain cs where cs: "\<forall>c \<in> set cs. commit_fits c" "td_offsets dir = commit_log cod cs" "fl_offsets log = committed cs"
    by (auto simp: topic_rep_def)
  have c: "commit_fits ?c" "io = None" using fits by (auto simp: commit_fits_def)
  obtain enc where enc: "ser_commit cod ?c = Some enc"
    using cod c(1) by (auto simp: codec_ok_def round_trips_def)
  have "\<exists>cs'. (\<forall>c \<in> set cs'. commit_fits c) \<and> td_offsets dir @ log_entry enc = commit_log cod cs'
      \<and> (fl_offsets log)((grp, part) \<mapsto> offset) = committed cs'"
    using cs c enc by (intro exI [of _ "cs @ [?c]"]) (simp add: log_snoc)
  then show ?thesis
    using weak enc by (simp add: FluxLog_commit_def c append_log_def) (auto simp: topic_rep_def)
qed

lemma run_fits_butlast: "run_fits (ops @ [op]) \<Longrightarrow> run_fits ops"
  by (auto simp: run_fits_def clock_append payload_append sorted_append)

lemma topic_rep_run:
  assumes "codec_ok cod" and "policy_ok ret" and "run_fits ops" and "topic_rep cod n ret [] s"
  shows "topic_rep cod n ret ops (topic_run cod hash ops s)"
  using assms(3)
proof (induction ops rule: rev_induct)
  case (snoc op ops)
  obtain log dir where s: "topic_run cod hash ops s = (log, dir)" by (meson surj_pair)
  have rep: "topic_rep cod n ret ops (log, dir)" using snoc s run_fits_butlast by metis
  show ?case
  proof (cases op)
    case Publish
    then show ?thesis using topic_rep_publish [OF assms(1,2) _ rep] snoc.prems by (simp add: s)
  next
    case Commit
    then show ?thesis using topic_rep_commit [OF assms(1) _ rep] snoc.prems by (simp add: s run_fits_def)
  qed
qed (simp add: assms(4))

lemma create_fresh:
  assumes "n \<noteq> 0" and "FluxLog_create cod None n ret TopicDir_absent = (Ok log, dir)"
  shows "dir = TopicDir_absent\<lparr>td_meta := meta_bytes n ret\<rparr>"
    "log = \<lparr>fl_partitions = map (\<lambda>_. Partition_empty) [0..<unat n], fl_retention = ret, fl_offsets = (\<lambda>_. None), fl_rr_counter = 0\<rparr>"
proof -
  have "collect_ok (\<lambda>i. Partition_open cod []) [0..<unat n] = Ok (map (\<lambda>_. Partition_empty) [0..<unat n])"
    by (intro collect_ok_map) (simp add: Partition_open_def)
  then show "dir = TopicDir_absent\<lparr>td_meta := meta_bytes n ret\<rparr>"
    "log = \<lparr>fl_partitions = map (\<lambda>_. Partition_empty) [0..<unat n], fl_retention = ret, fl_offsets = (\<lambda>_. None), fl_rr_counter = 0\<rparr>"
    using assms by (auto simp: FluxLog_create_def write_meta_def TopicDir_absent_def)
qed

lemma topic_rep_create:
  assumes "n \<noteq> 0" and "FluxLog_create cod None n ret TopicDir_absent = (Ok log, dir)"
  shows "topic_rep cod n ret [] (log, dir)"
proof -
  have "part_rep cod ret [] [] [] Partition_empty"
    by (simp add: part_rep_def record_log_def loaded_def retained_def Partition_empty_def numbered_def)
  then show ?thesis
    by (auto simp: create_fresh [OF assms] topic_rep_def TopicDir_absent_def commit_log_def committed_def intro!: exI [of _ "[]"])
qed


text \<open>An encoding in the layout of bincode's default options: fixed-width little-endian
  integers, 64-bit lengths, one tag byte for an option.\<close>

definition le_u64 :: "nat \<Rightarrow> bytes" where
  "le_u64 n = rev (be_nat 8 n)"

definition of_le_u64 :: "bytes \<Rightarrow> nat" where
  "of_le_u64 bs = of_be_nat (rev (take 8 bs))"

definition bincode_record :: "FluxRecord \<Rightarrow> bytes" where
  "bincode_record r =
     le_u64 (unat (flux_offset r))
     @ (case flux_key r of None \<Rightarrow> [0] | Some k \<Rightarrow> 1 # le_u64 (length k) @ k)
     @ le_u64 (length (flux_value r)) @ flux_value r @ le_u64 (unat (flux_timestamp_ms r))"

definition unbincode_record :: "bytes \<Rightarrow> FluxRecord" where
  "unbincode_record bs =
     (let k = drop 8 bs; n = of_le_u64 (tl k);
          (key, rest) = (if hd k = 0 then (None, tl k) else (Some (take n (drop 8 (tl k))), drop n (drop 8 (tl k))));
          m = of_le_u64 rest
      in \<lparr>flux_offset = word_of_nat (of_le_u64 bs), flux_key = key, flux_value = take m (drop 8 rest),
          flux_timestamp_ms = word_of_nat (of_le_u64 (drop m (drop 8 rest)))\<rparr>)"

definition bincode_commit :: "OffsetCommit \<Rightarrow> bytes" where
  "bincode_commit c =
     le_u64 (length (oc_group c)) @ oc_group c @ rev (be_nat 4 (unat (oc_partition c))) @ le_u64 (unat (oc_offset c))"

definition unbincode_commit :: "bytes \<Rightarrow> OffsetCommit" where
  "unbincode_commit bs =
     (let n = of_le_u64 bs; rest = drop n (drop 8 bs)
      in \<lparr>oc_group = take n (drop 8 bs), oc_partition = word_of_nat (of_be_nat (rev (take 4 rest))),
          oc_offset = word_of_nat (of_le_u64 (drop 4 rest))\<rparr>)"

definition bincode :: flux_codec where
  "bincode = \<lparr>ser_record = (\<lambda>r. Some (bincode_record r)), de_record = (\<lambda>bs. Some (unbincode_record bs)),
     ser_commit = (\<lambda>c. Some (bincode_commit c)), de_commit = (\<lambda>bs. Some (unbincode_commit bs))\<rparr>"

lemma length_le_u64 [simp]: "length (le_u64 n) = 8"
  by (simp add: le_u64_def)

lemma of_le_u64 [simp]: "n < 2 ^ 64 \<Longrightarrow> of_le_u64 (le_u64 n @ rest) = n" "n < 2 ^ 64 \<Longrightarrow> of_le_u64 (le_u64 n) = n"
  by (simp_all add: of_le_u64_def le_u64_def of_be_nat_be_nat)

lemmas unat_u64_less [simp]

lemma bincode_ok: "codec_ok bincode"
proof -
  have "length (bincode_record r) < 2 ^ 32 \<and> unbincode_record (bincode_record r) = r" if "record_fits r" for r
  proof (cases "flux_key r")
    case None
    then show ?thesis using that
      by (simp add: record_fits_def bincode_record_def unbincode_record_def)
  next
    case (Some k)
    then show ?thesis using that
      by (simp add: record_fits_def bincode_record_def unbincode_record_def)
  qed
  moreover have "length (bincode_commit c) < 2 ^ 32 \<and> unbincode_commit (bincode_commit c) = c" if "commit_fits c" for c
    using that by (simp add: commit_fits_def bincode_commit_def unbincode_commit_def of_be_nat_be_nat)
  ultimately show ?thesis by (auto simp: codec_ok_def round_trips_def bincode_def)
qed

definition example_policy :: RetentionPolicy where
  "example_policy = \<lparr>retention_ms = Some 10, retention_bytes = Some 5\<rparr>"

definition example_run :: "topic_op list" where
  "example_run = [Publish (Some 0) None [1, 2, 3] 5 None, Publish None (Some [7]) [4, 5, 6] 20 None, Commit [9] 0 1 None]"


subsection \<open>Offsets whatever fails\<close>

definition part_wf :: "Partition \<Rightarrow> bool" where
  "part_wf p \<longleftrightarrow>
     (\<exists>k. map flux_offset (pt_records p) = map word_of_nat [k..<k + length (pt_records p)] \<and>
          pt_next_offset p = word_of_nat (k + length (pt_records p))) \<and>
     pt_total_bytes p = word_of_nat (value_bytes (pt_records p))"

definition topic_wf :: "u32 \<Rightarrow> FluxLog \<Rightarrow> bool" where
  "topic_wf n log \<longleftrightarrow> length (fl_partitions log) = unat n \<and> (\<forall>p \<in> set (fl_partitions log). part_wf p)"

lemma evict_excess_is_drop:
  "\<exists>j. evict_excess m rs (word_of_nat (value_bytes rs)) = (drop j rs, word_of_nat (value_bytes (drop j rs)))"
proof (induction rs)
  case (Cons r rs)
  then obtain j where "evict_excess m rs (word_of_nat (value_bytes rs)) = (drop j rs, word_of_nat (value_bytes (drop j rs)))" ..
  then show ?case
    by (cases "m < word_of_nat (value_bytes (r # rs))") (auto intro: exI [of _ "Suc j"] exI [of _ 0])
qed simp

lemma part_wf_drop:
  assumes "part_wf p"
  shows "part_wf (p\<lparr>pt_records := drop j (pt_records p), pt_total_bytes := word_of_nat (value_bytes (drop j (pt_records p)))\<rparr>)"
proof (cases "j \<le> length (pt_records p)")
  case True
  obtain k where "map flux_offset (pt_records p) = map word_of_nat [k..<k + length (pt_records p)]"
    and n: "pt_next_offset p = word_of_nat (k + length (pt_records p))"
    using assms by (auto simp: part_wf_def)
  then have "map flux_offset (drop j (pt_records p)) = map word_of_nat [k + j..<k + length (pt_records p)]"
    unfolding drop_map [symmetric] by (simp add: drop_map)
  with True n show ?thesis by (auto simp: part_wf_def intro!: exI [of _ "k + j"])
next
  case False
  then show ?thesis using assms by (auto simp: part_wf_def simp flip: of_nat_add)
qed

lemma part_wf_retention:
  assumes "part_wf p"
  shows "part_wf (apply_retention ret p)"
proof -
  have t: "pt_total_bytes p = word_of_nat (value_bytes (pt_records p))" using assms by (simp add: part_wf_def)
  obtain j where j: "(case retention_ms ret of None \<Rightarrow> (pt_records p, pt_total_bytes p)
      | Some ms \<Rightarrow> evict_older (pt_newest_ts p - ms) (pt_records p) (pt_total_bytes p))
      = (drop j (pt_records p), word_of_nat (value_bytes (drop j (pt_records p))))"
    by (cases "retention_ms ret") (auto simp: t evict_older_drop dropWhile_takeWhile intro: that [of 0] that)
  let ?p = "p\<lparr>pt_records := drop j (pt_records p), pt_total_bytes := word_of_nat (value_bytes (drop j (pt_records p)))\<rparr>"
  obtain i where "(case retention_bytes ret of None \<Rightarrow> (pt_records ?p, pt_total_bytes ?p)
      | Some m \<Rightarrow> evict_excess m (pt_records ?p) (pt_total_bytes ?p))
      = (drop i (pt_records ?p), word_of_nat (value_bytes (drop i (pt_records ?p))))"
    using evict_excess_is_drop [of _ "pt_records ?p"]
    by (cases "retention_bytes ret") (auto intro: that [of 0] that)
  then have "apply_retention ret p = ?p\<lparr>pt_records := drop i (pt_records ?p), pt_total_bytes := word_of_nat (value_bytes (drop i (pt_records ?p)))\<rparr>"
    by (simp add: apply_retention_def j del: drop_drop cong: option.case_cong)
  then show ?thesis using part_wf_drop [OF part_wf_drop [OF assms]] by metis
qed

lemma part_wf_append:
  assumes "part_wf p" and "Partition_append cod io key val ts ret p file = (r, p', file')"
  shows "part_wf p'"
proof -
  obtain k where k: "map flux_offset (pt_records p) = map word_of_nat [k..<k + length (pt_records p)]"
    "pt_next_offset p = word_of_nat (k + length (pt_records p))"
    using assms(1) by (auto simp: part_wf_def)
  have "part_wf \<lparr>pt_records = pt_records p @ [\<lparr>flux_offset = pt_next_offset p, flux_key = key, flux_value = val, flux_timestamp_ms = ts\<rparr>],
      pt_next_offset = pt_next_offset p + 1, pt_total_bytes = pt_total_bytes p + len_u64 val, pt_newest_ts = t\<rparr>" for t
    using assms(1) k by (auto simp: part_wf_def ac_simps intro!: exI [of _ k])
  then show ?thesis
    using assms by (auto simp: Partition_append_def append_log_def Let_def part_wf_retention split: option.splits)
qed

lemma topic_wf_exec: "topic_wf n log \<Longrightarrow> topic_wf n (fst (topic_exec cod hash op (log, dir)))"
proof (cases op)
  case (Publish part key val now_ms io)
  assume wf: "topic_wf n log"
  obtain r log' where t: "target_partition hash part key log = (r, log')" by fastforce
  show ?thesis
  proof (cases r)
    case (Inr i)
    obtain q p f where a: "Partition_append cod io key val now_ms (fl_retention log') (fl_partitions log' ! unat i) (td_partitions dir (unat i)) = (q, p, f)"
      by (metis prod_cases3)
    have "unat i < unat n" using target_in_range [of log n] wf t Inr by (simp add: topic_wf_def)
    then have "part_wf p" using part_wf_append [OF _ a] wf by (simp add: topic_wf_def target_same [OF t])
    then show ?thesis
      using wf a Inr by (auto simp: Publish FluxLog_publish_def t Let_def topic_wf_def target_same [OF t] dest: set_update_subset_insert [THEN subsetD])
  qed (use wf t in \<open>simp add: Publish FluxLog_publish_def topic_wf_def target_same [OF t]\<close>)
next
  case (Commit grp part offset io)
  then show "topic_wf n log \<Longrightarrow> ?thesis"
    by (auto simp: FluxLog_commit_def topic_wf_def append_log_def split: option.split)
qed



subsection \<open>A torn publish\<close>

lemma read_log_torn:
  assumes "length e < 2 ^ 32" and "4 \<le> k" and "k < length (log_entry e)"
  shows "read_log step (take k (log_entry e)) s = Err FluxIo"
proof -
  have "take k (log_entry e) = be_nat 4 (length e) @ take (k - 4) e"
    using assms(2) by (simp add: log_entry_def)
  moreover have "k - 4 < length e" using assms(2,3) by (simp add: log_entry_def)
  ultimately show ?thesis
    using assms by (subst read_log.simps) (simp add: log_entry_def unat_of_nat Let_def)
qed

lemma read_log_prefix:
  assumes "\<And>x. x \<in> set xs \<Longrightarrow> length (enc x) < 2 ^ 32"
    and "read_log step (concat (map (\<lambda>x. log_entry (enc x)) xs)) s = Ok s'"
  shows "read_log step (concat (map (\<lambda>x. log_entry (enc x)) xs) @ rest) s = read_log step rest s'"
  using assms
proof (induction xs arbitrary: s)
  case (Cons x xs)
  then show ?case by (cases "step (enc x) s") (simp_all add: read_log_entry)
qed simp

lemma Partition_open_torn:
  assumes "codec_ok cod" and "\<forall>r \<in> set rs. record_fits r" and "numbered rs"
    and "length e < 2 ^ 32" and "4 \<le> k" and "k < length (log_entry e)"
  shows "Partition_open cod (record_log cod rs @ take k (log_entry e)) = Err FluxIo"
proof -
  have "length (the (ser_record cod r)) < 2 ^ 32" if "r \<in> set rs" for r
    using assms(1,2) that by (intro codec_record(2)) (auto simp: codec_ok_def)
  then show ?thesis
    using Partition_open_log [OF assms(1-3)] read_log_torn [OF assms(4-6)]
    unfolding Partition_open_def record_log_def by (subst read_log_prefix) simp_all
qed

lemma collect_ok_Err:
  "x \<in> set xs \<Longrightarrow> f x = Err e \<Longrightarrow> (\<And>y. y \<in> set xs \<Longrightarrow> f y = Err e \<or> is_ok (f y)) \<Longrightarrow> collect_ok f xs = Err e"
proof (induction xs)
  case (Cons y ys)
  then have "f y = Err e \<or> is_ok (f y)" by simp
  with Cons show ?case by (cases "f y") auto
qed simp

text \<open>
  A publish whose write is cut short costs the whole topic at the next open.
  In the state that any fault-free run leaves, let the write of one more record
  stop after the length prefix and before the end of the record.  The publish
  reports the error, and opening the topic's files fails from then on: all its
  records and committed offsets are out of reach.
\<close>

theorem torn_publish_loses_topic:
  assumes "codec_ok cod" and "policy_ok ret" and "n \<noteq> 0" and "run_fits ops"
    and "FluxLog_create cod None n ret TopicDir_absent = (Ok log0, dir0)"
    and "topic_run cod hash ops (log0, dir0) = (log, dir)"
    and "part < n"
    and "r = \<lparr>flux_offset = pt_next_offset (fl_partitions log ! unat part), flux_key = key, flux_value = val, flux_timestamp_ms = now_ms\<rparr>"
    and "ser_record cod r = Some enc" and "length enc < 2 ^ 32" and "4 \<le> k" and "k < 4 + length enc"
  shows "\<exists>log' dir'. FluxLog_publish cod hash now_ms (Some k) (Some part) key val log dir = (Err FluxIo, log', dir')
    \<and> FluxLog_open cod dir' = Err FluxIo"
proof -
  have rep: "topic_rep cod n ret ops (log, dir)"
    using topic_rep_run [OF assms(1,2,4) topic_rep_create [OF assms(3,5)], of hash] assms(6) by simp
  have len: "length (fl_partitions log) = unat n" and meta: "td_meta dir = meta_bytes n ret" using rep by (simp_all add: topic_rep_def)
  obtain hist where hist: "\<And>i. i < unat n \<Longrightarrow> part_rep cod ret ops (hist i) (td_partitions dir i) (fl_partitions log ! i)"
    using rep by (auto simp: topic_rep_def)
  let ?i = "unat part"
  have i: "?i < unat n" using assms(7) by (simp add: word_less_nat_alt)
  let ?f = "td_partitions dir ?i @ take k (log_entry enc)"
  let ?dir = "dir\<lparr>td_partitions := (td_partitions dir)(?i := ?f)\<rparr>"
  let ?open = "\<lambda>j. and_then (Partition_open cod (td_partitions ?dir j)) (\<lambda>p. Ok (apply_retention ret p))"
  have "Partition_append cod (Some k) key val now_ms (fl_retention log) (fl_partitions log ! ?i) (td_partitions dir ?i)
      = (Err FluxIo, fl_partitions log ! ?i, ?f)"
    using assms(8,9) by (simp add: Partition_append_def append_log_def Let_def)
  then have "FluxLog_publish cod hash now_ms (Some k) (Some part) key val log dir = (Err FluxIo, log, ?dir)"
    using assms(7) len by (simp add: FluxLog_publish_def target_partition_def num_partitions_def Let_def)
  moreover have "Partition_open cod ?f = Err FluxIo"
    using hist [OF i] Partition_open_torn [OF assms(1) _ _ assms(10,11)] assms(12)
    by (auto simp: part_rep_def log_entry_def simp del: take_append)
  then have "collect_ok ?open [0..<unat n] = Err FluxIo"
    using i part_rep_open [OF assms(1) _ hist] assms(4) by (intro collect_ok_Err [of ?i]) (auto simp: run_fits_def)
  then have "FluxLog_open cod ?dir = Err FluxIo"
    by (simp add: FluxLog_open_def read_meta_bytes [OF assms(2), of ?dir n] meta)
  ultimately show ?thesis by blast
qed

theorem torn_publish_loses_topic_witness:
  "\<exists>log' dir'. FluxLog_publish bincode (\<lambda>_. 0) 7 (Some 10) (Some 1) None [3]
       (FluxLog.make [Partition_empty, Partition_empty] example_policy (\<lambda>_. None) 0) (TopicDir_absent\<lparr>td_meta := meta_bytes 2 example_policy\<rparr>)
       = (Err FluxIo, log', dir')
    \<and> FluxLog_open bincode dir' = Err FluxIo"
proof -
  let ?r = "\<lparr>flux_offset = 0, flux_key = None, flux_value = [3], flux_timestamp_ms = 7\<rparr>"
  have p: "policy_ok example_policy" by (simp add: policy_ok_def example_policy_def)
  have f: "run_fits []" by (simp add: run_fits_def)
  have c: "FluxLog_create bincode None 2 example_policy TopicDir_absent
      = (Ok (FluxLog.make [Partition_empty, Partition_empty] example_policy (\<lambda>_. None) 0), TopicDir_absent\<lparr>td_meta := meta_bytes 2 example_policy\<rparr>)"
    by (simp add: FluxLog_create_def write_meta_def TopicDir_absent_def Partition_open_def FluxLog.make_def upt_rec)
  have s: "ser_record bincode ?r = Some (bincode_record ?r)" "length (bincode_record ?r) = 26"
    by (simp_all add: bincode_def bincode_record_def)
  show ?thesis
    by (rule torn_publish_loses_topic [OF bincode_ok p _ f c, of _ _ _ 1 ?r None "[3]" 7 "bincode_record ?r"])
      (simp_all add: s FluxLog.make_def Partition_empty_def)
qed

end
