(* ===== verification/FluxQueue.thy ===== *)
theory FluxQueue
  imports DatabaseFlux FluxProps TxnProps
begin

text \<open>
  The task queues of synapse/coordination.rs against their specification, a list of
  tasks and the number of tasks that each group of workers has finished.
\<close>

subsection \<open>The specification\<close>

datatype queue_op = Delegate bytes "i64 \<times> i64" | Claim bytes | Complete bytes u64

datatype queue_out =
    Delegated "(db_error, u64) result"
  | Claimed "(db_error, (u64 \<times> bytes) option) result"
  | Completed "(db_error, unit) result"

type_synonym queue = "bytes list \<times> (bytes \<Rightarrow> nat)"

fun queue_spec :: "queue_op \<Rightarrow> queue \<Rightarrow> queue_out \<times> queue" where
  "queue_spec (Delegate task now) (tasks, done) = (Delegated (Ok (len_u64 tasks)), (tasks @ [task], done))"
| "queue_spec (Claim grp) (tasks, done) =
     (Claimed (Ok (if done grp < length tasks then Some (word_of_nat (done grp), tasks ! done grp) else None)), (tasks, done))"
| "queue_spec (Complete grp offset) (tasks, done) = (Completed (Ok ()), (tasks, done(grp := unat (offset + 1))))"

fun queue_exec :: "flux_env \<Rightarrow> bytes \<Rightarrow> queue_op \<Rightarrow> ('b, 's, 'i) Database \<Rightarrow> queue_out \<times> ('b, 's, 'i) Database" where
  "queue_exec fe workflow (Delegate task now) db = map_prod Delegated id (delegate_task fe now None workflow task db)"
| "queue_exec fe workflow (Claim grp) db = map_prod Claimed id (claim_task fe None workflow grp db)"
| "queue_exec fe workflow (Complete grp offset) db = map_prod Completed id (complete_task fe None workflow grp offset db)"

subsection \<open>The refinement\<close>

definition log_holds :: "FluxLog \<Rightarrow> queue \<Rightarrow> bool" where
  "log_holds log q \<longleftrightarrow>
     (\<exists>hist. fl_partitions log = [loaded hist hist] \<and> numbered hist \<and> map flux_value hist = fst q) \<and>
     fl_retention log = no_retention \<and>
     (\<forall>grp. (case fl_offsets log (grp, 0) of None \<Rightarrow> 0 | Some offset \<Rightarrow> unat offset) = snd q grp)"

definition queue_rel :: "bytes \<Rightarrow> ('b, 's, 'i) Database \<Rightarrow> queue \<Rightarrow> bool" where
  "queue_rel workflow db q \<longleftrightarrow> db_role db = Writer \<and>
     (case om_get (db_topics db) (workflow_topic workflow) of
        None \<Rightarrow> db_topic_dirs db (workflow_topic workflow) = TopicDir_absent \<and> q = ([], \<lambda>_. 0)
      | Some log \<Rightarrow> log_holds log q)"

fun queue_op_fits :: "queue_op \<Rightarrow> bool" where
  "queue_op_fits (Delegate task now) \<longleftrightarrow> valid_utf8 task \<and> length task \<le> 2 ^ 31"
| "queue_op_fits (Claim grp) \<longleftrightarrow> True"
| "queue_op_fits (Complete grp offset) \<longleftrightarrow> length grp \<le> 2 ^ 31"

lemma apply_no_retention [simp]: "apply_retention no_retention p = p"
  by (simp add: apply_retention_def no_retention_def)

lemma ensure_topic_ok:
  assumes "queue_rel workflow db q"
  shows "\<exists>db' log. ensure_topic fe None (workflow_topic workflow) db = (Ok (), db')
    \<and> db_role db' = Writer \<and> om_get (db_topics db') (workflow_topic workflow) = Some log \<and> log_holds log q"
proof (cases "om_get (db_topics db) (workflow_topic workflow)")
  case None
  then have "db_topic_dirs db (workflow_topic workflow) = TopicDir_absent" and q: "q = ([], \<lambda>_. 0)" and w: "db_role db = Writer"
    using assms by (simp_all add: queue_rel_def)
  moreover obtain dir where "FluxLog_create (fe_codec fe) None 1 no_retention TopicDir_absent
      = (Ok \<lparr>fl_partitions = [Partition_empty], fl_retention = no_retention, fl_offsets = (\<lambda>_. None), fl_rr_counter = 0\<rparr>, dir)"
    by (simp add: FluxLog_create_def write_meta_def TopicDir_absent_def Partition_open_def)
  ultimately show ?thesis
    using None by (auto simp: ensure_topic_def db_flux_num_partitions_def db_create_topic_def when_writable_def check_writable_def
        add_topic_def no_retention_def log_holds_def numbered_def loaded_def Partition_empty_def)
next
  case (Some log)
  then show ?thesis using assms by (auto simp: ensure_topic_def db_flux_num_partitions_def queue_rel_def)
qed

lemma filter_numbered:
  assumes "numbered hist" and "length hist < 2 ^ 64"
  shows "filter (\<lambda>r. from_offset \<le> flux_offset r) hist = drop (unat from_offset) hist"
proof -
  have "(from_offset \<le> flux_offset (hist ! i)) \<longleftrightarrow> unat from_offset \<le> i" if "i < length hist" for i
    using numbered_nth [OF assms(1) that] assms(2) that by (simp add: word_le_nat_alt unat_of_nat)
  then have "filter (\<lambda>r. from_offset \<le> flux_offset r) (map ((!) hist) [0..<length hist])
      = map ((!) hist) (filter (\<lambda>i. unat from_offset \<le> i) [0..<length hist])"
    by (auto simp: filter_map comp_def intro!: arg_cong [where f = "map ((!) hist)"] filter_cong)
  also have "filter (\<lambda>i. k \<le> i) [0..<n] = [k..<n]" for k n
    by (induction n) auto
  also have "map ((!) hist) [unat from_offset..<length hist] = drop (unat from_offset) hist"
    by (metis drop_map drop_upt add_0 map_nth)
  finally show ?thesis by (simp add: map_nth)
qed

lemma poll_holds:
  assumes "log_holds log (tasks, done)" and "length tasks < 2 ^ 64"
  shows "\<exists>rs. FluxLog_poll grp 0 1 log = Ok rs \<and>
    (if done grp < length tasks then \<exists>r. rs = [r] \<and> flux_offset r = word_of_nat (done grp) \<and> flux_value r = tasks ! done grp else rs = [])"
proof -
  obtain hist where h: "fl_partitions log = [loaded hist hist]" "numbered hist" "map flux_value hist = tasks"
    using assms(1) by (auto simp: log_holds_def)
  have len: "length hist = length tasks" using h(3) by auto
  let ?from = "case fl_offsets log (grp, 0) of Some o' \<Rightarrow> o' | None \<Rightarrow> 0"
  have d: "unat ?from = done grp" using assms(1) by (cases "fl_offsets log (grp, 0)") (auto simp: log_holds_def dest: spec [of _ grp])
  have "FluxLog_poll grp 0 1 log = Ok (take 1 (drop (done grp) hist))"
    using filter_numbered [OF h(2)] assms(2) len by (simp add: FluxLog_poll_def h(1) loaded_def Partition_poll_def d)
  moreover have "take 1 (drop (done grp) hist) = (if done grp < length tasks then [hist ! done grp] else [])"
    using len by (simp add: take_Suc_conv_app_nth flip: Cons_nth_drop_Suc)
  moreover have "tasks ! done grp = flux_value (hist ! done grp)" if "done grp < length tasks"
    using that h(3) len by (metis nth_map)
  ultimately show ?thesis
    using numbered_nth [OF h(2), of "done grp"] len by (cases "done grp < length tasks") simp_all
qed

lemma publish_holds:
  assumes cod: "codec_ok cod" and log: "log_holds log (tasks, done)" and fits: "length task \<le> 2 ^ 31"
  shows "\<exists>log' dir'. FluxLog_publish cod hash now_ms None (Some 0) None task log dir = (Ok (0, len_u64 tasks), log', dir')
    \<and> log_holds log' (tasks @ [task], done)"
proof -
  obtain hist where h: "fl_partitions log = [loaded hist hist]" "numbered hist" "map flux_value hist = tasks"
    and ret: "fl_retention log = no_retention"
    using log by (auto simp: log_holds_def)
  let ?r = "\<lparr>flux_offset = len_u64 hist, flux_key = None, flux_value = task, flux_timestamp_ms = now_ms\<rparr>"
  have "record_fits ?r" using fits by (simp add: record_fits_def)
  then obtain enc where enc: "ser_record cod ?r = Some enc" using cod by (auto simp: codec_ok_def round_trips_def)
  have "Partition_append cod None None task now_ms no_retention (loaded hist hist) f
      = (Ok (len_u64 hist), loaded (hist @ [?r]) (hist @ [?r]), f @ log_entry enc)" for f
    using enc by (simp add: Partition_append_def append_log_def loaded_def Let_def add.commute)
  then have "FluxLog_publish cod hash now_ms None (Some 0) None task log dir
      = (Ok (0, len_u64 tasks), log\<lparr>fl_partitions := [loaded (hist @ [?r]) (hist @ [?r])]\<rparr>,
         dir\<lparr>td_partitions := (td_partitions dir)(0 := td_partitions dir 0 @ log_entry enc)\<rparr>)"
    using h(3) by (auto simp: FluxLog_publish_def target_partition_def num_partitions_def h(1) ret Let_def)
  moreover have "log_holds (log\<lparr>fl_partitions := [loaded (hist @ [?r]) (hist @ [?r])]\<rparr>) (tasks @ [task], done)"
    using log h numbered_snoc [OF h(2), of ?r] by (auto simp: log_holds_def)
  ultimately show ?thesis by blast
qed

lemma commit_holds:
  assumes cod: "codec_ok cod" and log: "log_holds log (tasks, done)" and fits: "length grp \<le> 2 ^ 31"
  shows "\<exists>log' dir'. FluxLog_commit cod None grp 0 offset log dir = (Ok (), log', dir')
    \<and> log_holds log' (tasks, done(grp := unat offset))"
proof -
  have "commit_fits \<lparr>oc_group = grp, oc_partition = 0, oc_offset = offset\<rparr>" using fits by (simp add: commit_fits_def)
  then obtain enc where "ser_commit cod \<lparr>oc_group = grp, oc_partition = 0, oc_offset = offset\<rparr> = Some enc"
    using cod by (auto simp: codec_ok_def round_trips_def)
  then show ?thesis using log by (auto simp: FluxLog_commit_def append_log_def log_holds_def)
qed

lemma queue_step:
  assumes cod: "codec_ok (fe_codec fe)" and rel: "queue_rel workflow db (tasks, done)"
    and fits: "queue_op_fits op" "length tasks < 2 ^ 64" "list_all valid_utf8 tasks"
  shows "\<exists>out db' q'. queue_exec fe workflow op db = (out, db') \<and> queue_spec op (tasks, done) = (out, q')
    \<and> queue_rel workflow db' q'"
proof -
  obtain db1 log where e: "ensure_topic fe None (workflow_topic workflow) db = (Ok (), db1)" "db_role db1 = Writer"
    "om_get (db_topics db1) (workflow_topic workflow) = Some log" and log: "log_holds log (tasks, done)"
    using ensure_topic_ok [OF rel] by blast
  show ?thesis
  proof (cases op)
    case (Delegate task now)
    then obtain log' dir' where "FluxLog_publish (fe_codec fe) (fe_hash fe) (fst now) None (Some 0) None task log
        (db_topic_dirs db1 (workflow_topic workflow)) = (Ok (0, len_u64 tasks), log', dir')" "log_holds log' (tasks @ [task], done)"
      using publish_holds [OF cod log] fits(1) by fastforce
    then show ?thesis
      by (simp add: Delegate delegate_task_def e and_db_def db_flux_publish_def when_writable_def check_writable_def queue_rel_def Let_def)
  next
    case (Claim grp)
    obtain rs where rs: "FluxLog_poll grp 0 1 log = Ok rs"
      "if done grp < length tasks then \<exists>r. rs = [r] \<and> flux_offset r = word_of_nat (done grp) \<and> flux_value r = tasks ! done grp else rs = []"
      using poll_holds [OF log fits(2)] by blast
    have "valid_utf8 (tasks ! done grp)" if "done grp < length tasks" using fits(3) that by (simp add: list_all_length)
    with rs log show ?thesis
      by (auto simp: Claim claim_task_def e and_db_def db_flux_poll_def queue_rel_def split: if_splits)
  next
    case (Complete grp offset)
    then obtain log' dir' where "FluxLog_commit (fe_codec fe) None grp 0 (offset + 1) log
        (db_topic_dirs db1 (workflow_topic workflow)) = (Ok (), log', dir')" "log_holds log' (tasks, done(grp := unat (offset + 1)))"
      using commit_holds [OF cod log] fits(1) by fastforce
    then show ?thesis
      by (simp add: Complete complete_task_def e and_db_def db_flux_commit_def queue_rel_def)
  qed
qed

lemma queue_run:
  assumes "codec_ok (fe_codec fe)"
  shows "queue_rel workflow db (tasks, done) \<Longrightarrow> list_all queue_op_fits ops \<Longrightarrow> length tasks + length ops < 2 ^ 64 \<Longrightarrow>
    list_all valid_utf8 tasks \<Longrightarrow>
    fst (run_ops (queue_exec fe workflow) ops db) = fst (run_ops queue_spec ops (tasks, done))"
proof (induction ops arbitrary: db tasks "done")
  case (Cons op ops)
  then obtain out db' tasks' done' where s: "queue_exec fe workflow op db = (out, db')"
    "queue_spec op (tasks, done) = (out, (tasks', done'))" "queue_rel workflow db' (tasks', done')"
    using queue_step [OF assms, of workflow db tasks "done" op] by auto
  moreover have "length tasks' + length ops < 2 ^ 64" "list_all valid_utf8 tasks'"
    using s(2) Cons.prems by (cases op; auto)+
  ultimately show ?case using Cons by simp
qed simp

text \<open>
  C6: A workflow's task queue is a queue.  For every interleaving of delegations,
  claims and completions, by any number of worker groups and from a node that has
  no such topic yet, every answer of the coordinator is the answer of a plain list
  of tasks with one counter per group: tasks are handed out in the order they were
  delegated, a claim shows the same task again until it is completed, and groups do
  not see each other's progress.
\<close>

theorem task_queue_refines_list:
  assumes "codec_ok (fe_codec fe)" and "db_role db = Writer"
    and "om_get (db_topics db) (workflow_topic workflow) = None"
    and "db_topic_dirs db (workflow_topic workflow) = TopicDir_absent"
    and "list_all queue_op_fits ops" and "length ops < 2 ^ 64"
  shows "fst (run_ops (queue_exec fe workflow) ops db) = fst (run_ops queue_spec ops ([], \<lambda>_. 0))"
  using queue_run [OF assms(1), of workflow db "[]" "\<lambda>_. 0" ops] assms by (simp add: queue_rel_def)

theorem task_queue_refines_list_witness:
  "fst (run_ops (queue_exec \<lparr>fe_codec = bincode, fe_hash = \<lambda>_. 0\<rparr> [119])
      [Delegate [97] (1, 1), Delegate [98] (2, 2), Claim [103], Complete [103] 0, Claim [103], Claim [104]]
      fresh_db)
   = [Delegated (Ok 0), Delegated (Ok 1), Claimed (Ok (Some (0, [97]))), Completed (Ok ()), Claimed (Ok (Some (1, [98]))),
      Claimed (Ok (Some (0, [97])))]"
  by (subst task_queue_refines_list) (simp_all add: bincode_ok valid_utf8_ascii fresh_db_def)

end
