(* ===== verification/Engine.thy ===== *)
theory Engine
  imports Catalog
begin

text \<open>
  The interface \<open>StorageEngine\<close> of storage/mod.rs, as the access-control catalogs use
  it: a record of operations on a database state, and its implementation by the
  database.
\<close>

record 'd engine_ops =
  e_write :: "bytes \<Rightarrow> bytes \<Rightarrow> bytes \<Rightarrow> 'd \<Rightarrow> (db_error, unit) result \<times> 'd"
  e_read :: "bytes \<Rightarrow> bytes \<Rightarrow> 'd \<Rightarrow> (db_error, bytes option) result"
  e_delete :: "bytes \<Rightarrow> bytes \<Rightarrow> 'd \<Rightarrow> (db_error, unit) result \<times> 'd"
  e_scan :: "bytes \<Rightarrow> 'd \<Rightarrow> (db_error, KeyValue list) result"
  e_get_table :: "bytes \<Rightarrow> 'd \<Rightarrow> TableSchema option"
  e_create_table :: "bytes \<Rightarrow> ColumnDef list \<Rightarrow> nat list list \<Rightarrow> ForeignKey list \<Rightarrow> 'd \<Rightarrow> (db_error, unit) result \<times> 'd"

definition db_engine ::
  "('b, 's) lsm_env \<Rightarrow> catalog_codec \<Rightarrow> 'i maintainer \<Rightarrow> LeaseHandle \<Rightarrow> ('b, 's, 'i) Database engine_ops" where
  "db_engine env cc maintain lease =
     \<lparr>e_write = db_write env maintain lease None, e_read = db_read env, e_delete = db_delete env lease None,
      e_scan = db_scan, e_get_table = get_table, e_create_table = create_table_with_constraints env cc\<rparr>"

subsection \<open>Catalog tables\<close>

datatype access_error =
    StorageError db_error
  | BadCell nat
  | SelfMember bytes
  | MemberCycle bytes bytes
  | RoleExists bytes
  | NoRole bytes
  | BadNumber
  | BadBase64
  | CorruptKey bytes
  | BadAuthHeader
  | NoLogin bytes
  | PasswordFailed bytes
  | NoSuperuser
  | NoTokenGate

definition lift_db :: "(db_error, 'a) result \<Rightarrow> (access_error, 'a) result" where
  "lift_db r = (case r of Inl e \<Rightarrow> Err (StorageError e) | Inr x \<Rightarrow> Ok x)"

definition lift_step :: "(db_error, 'a) result \<times> 'd \<Rightarrow> (access_error, 'a) result \<times> 'd" where
  "lift_step p = (lift_db (fst p), snd p)"

text \<open>The \<open>?\<close> operator on an operation that changes the database.\<close>

definition and_step :: "('e, 'a) result \<times> 'd \<Rightarrow> ('a \<Rightarrow> 'd \<Rightarrow> ('e, 'b) result \<times> 'd) \<Rightarrow> ('e, 'b) result \<times> 'd" where
  "and_step p f = (case p of (Inl e, d) \<Rightarrow> (Err e, d) | (Inr x, d) \<Rightarrow> f x d)"

lemma and_step_simps [simp]: "and_step (Inl e, d) f = (Err e, d)" "and_step (Inr x, d) f = f x d"
  by (simp_all add: and_step_def)

lemma lift_db_simps [simp]: "lift_db (Inl e) = Err (StorageError e)" "lift_db (Inr x) = Ok x"
  by (simp_all add: lift_db_def)

definition column :: "string \<Rightarrow> ColumnType \<Rightarrow> bool \<Rightarrow> bool \<Rightarrow> ColumnDef" where
  "column name ty nullable is_pk =
     \<lparr>cd_name = ascii name, cd_col_type = ty, cd_nullable = nullable, cd_default = None, cd_is_pk = is_pk\<rparr>"

text \<open>\<open>ensure_schema\<close> of the catalogs: create the table when it is missing.\<close>

definition ensure_table :: "'d engine_ops \<Rightarrow> bytes \<Rightarrow> ColumnDef list \<Rightarrow> 'd \<Rightarrow> (access_error, unit) result \<times> 'd" where
  "ensure_table eo table columns d =
     (if e_get_table eo table d \<noteq> None then (Ok (), d) else lift_step (e_create_table eo table columns [] [] d))"

definition cell_str :: "bytes \<Rightarrow> nat \<Rightarrow> (access_error, bytes) result" where
  "cell_str val idx = (case cell_text (decode_cell val idx) of Some s \<Rightarrow> Ok s | None \<Rightarrow> Err (BadCell idx))"

text \<open>The loop that deletes a list of keys.\<close>

fun delete_keys :: "'d engine_ops \<Rightarrow> bytes \<Rightarrow> bytes list \<Rightarrow> 'd \<Rightarrow> (access_error, unit) result \<times> 'd" where
  "delete_keys eo table [] d = (Ok (), d)"
| "delete_keys eo table (k # ks) d = and_step (lift_step (e_delete eo table k d)) (\<lambda>_. delete_keys eo table ks)"

end
