(* ===== verification/RowStore.thy ===== *)
theory RowStore
  imports TxnProps Engine
begin

text \<open>
  What the catalogs built on tables rely on: the contract \<open>row_store\<close> between a
  \<open>StorageEngine\<close> and its clients, and the database as one.
\<close>

subsection \<open>The contract\<close>

text \<open>
  \<open>rep n d rows\<close>: the state \<open>d\<close> holds the rows \<open>rows\<close> and has room for \<open>n\<close> more
  writes; \<open>small\<close> says which writes that room is for.
\<close>

locale row_store =
  fixes eo :: "'d engine_ops"
    and rep :: "nat \<Rightarrow> 'd \<Rightarrow> rows \<Rightarrow> bool"
    and small :: "bytes \<Rightarrow> bytes \<Rightarrow> bytes option \<Rightarrow> bool"
  assumes rep_less: "rep (Suc n) d rows \<Longrightarrow> rep n d rows"
    and read_rows: "rep n d rows \<Longrightarrow> table_name t \<Longrightarrow> e_read eo t k d = Ok (rows (t, k))"
    and scan_rows: "rep n d rows \<Longrightarrow> table_name t \<Longrightarrow> \<exists>kvs. e_scan eo t d = Ok kvs \<and> lists_table rows t kvs"
    and write_rows: "rep (Suc n) d rows \<Longrightarrow> table_name t \<Longrightarrow> small t k (Some v) \<Longrightarrow>
      \<exists>d'. e_write eo t k v d = (Ok (), d') \<and> rep n d' (rows((t, k) := Some v))
        \<and> (\<forall>t'. e_get_table eo t' d' = e_get_table eo t' d)"
    and delete_rows: "rep (Suc n) d rows \<Longrightarrow> table_name t \<Longrightarrow> small t k None \<Longrightarrow>
      \<exists>d'. e_delete eo t k d = (Ok (), d') \<and> rep n d' (rows((t, k) := None))
        \<and> (\<forall>t'. e_get_table eo t' d' = e_get_table eo t' d)"
begin

lemma rep_mono: "rep m d rows \<Longrightarrow> n \<le> m \<Longrightarrow> rep n d rows"
  by (induction m) (auto simp: le_Suc_eq dest: rep_less)

lemma delete_keys_rows:
  "rep (length ks + n) d rows \<Longrightarrow> table_name t \<Longrightarrow> list_all (\<lambda>k. small t k None) ks \<Longrightarrow>
   \<exists>d'. delete_keys eo t ks d = (Ok (), d') \<and>
     rep n d' (\<lambda>(t', k). if t' = t \<and> k \<in> set ks then None else rows (t', k)) \<and>
     (\<forall>t'. e_get_table eo t' d' = e_get_table eo t' d)"
proof (induction ks arbitrary: d rows)
  case (Cons k ks)
  then obtain d1 where d1: "e_delete eo t k d = (Ok (), d1)" "rep (length ks + n) d1 (rows((t, k) := None))"
    "\<forall>t'. e_get_table eo t' d1 = e_get_table eo t' d"
    using delete_rows [of "length ks + n" d rows t k] by auto
  have "(\<lambda>(t', k'). if t' = t \<and> k' \<in> set ks then None else (rows((t, k) := None)) (t', k'))
      = (\<lambda>(t', k'). if t' = t \<and> k' \<in> set (k # ks) then None else rows (t', k'))"
    by (auto simp: fun_eq_iff)
  then show ?case using Cons.IH [OF d1(2)] Cons.prems d1(1,3) by (auto simp: lift_step_def)
qed (simp add: case_prod_eta)

end

subsection \<open>The database\<close>

definition small_write :: "nat \<Rightarrow> bytes \<Rightarrow> bytes \<Rightarrow> bytes option \<Rightarrow> bool" where
  "small_write bound t k w \<longleftrightarrow> length t + length k + (case w of None \<Rightarrow> 0 | Some v \<Rightarrow> length v) \<le> bound"

definition put_row ::
  "('b, 's) lsm_env \<Rightarrow> 'i maintainer \<Rightarrow> LeaseHandle \<Rightarrow> bytes \<Rightarrow> bytes \<Rightarrow> bytes option
     \<Rightarrow> ('b, 's, 'i) Database \<Rightarrow> (db_error, unit) result \<times> ('b, 's, 'i) Database" where
  "put_row env maintain lease t k w db =
     (case w of Some v \<Rightarrow> db_write env maintain lease None t k v db | None \<Rightarrow> db_delete env lease None t k db)"

text \<open>The engine takes \<open>n\<close> more writes of at most \<open>bound\<close> bytes, one after the other.\<close>

fun roomy :: "('b, 's) lsm_env \<Rightarrow> 'i maintainer \<Rightarrow> LeaseHandle \<Rightarrow> nat \<Rightarrow> nat \<Rightarrow> ('b, 's, 'i) Database \<Rightarrow> bool" where
  "roomy env maintain lease bound 0 db \<longleftrightarrow> True"
| "roomy env maintain lease bound (Suc n) db \<longleftrightarrow>
     (\<forall>t k w. table_name t \<longrightarrow> small_write bound t k w \<longrightarrow>
        write_fits env lease None [(t, make_key t k, w)] (db_lsm db) (db_store db) \<and>
        (\<exists>db'. put_row env maintain lease t k w db = (Ok (), db') \<and> roomy env maintain lease bound n db'))"

definition db_rep ::
  "('b, 's) lsm_env \<Rightarrow> 'i maintainer \<Rightarrow> LeaseHandle \<Rightarrow> nat \<Rightarrow> nat \<Rightarrow> ('b, 's, 'i) Database \<Rightarrow> rows \<Rightarrow> bool" where
  "db_rep env maintain lease bound n db rows \<longleftrightarrow>
     bloom_ok (env_bloom env) \<and> roomy env maintain lease bound n db \<and>
     (\<exists>ess txns stx. sim_at env (db_lsm db) ess txns (rows, stx))"

lemma roomy_less: "roomy env maintain lease bound (Suc n) db \<Longrightarrow> roomy env maintain lease bound n db"
proof (induction n arbitrary: db)
  case (Suc n)
  then show ?case by (metis roomy.simps(2))
qed simp

lemma db_scan_lists:
  assumes ok: "eng_ok (env_bloom env) (db_lsm db) ess" and rows: "rows_ok (db_lsm db) ess rows" and t: "table_name t"
  shows "\<exists>kvs. db_scan t db = Ok kvs \<and> lists_table rows t kvs"
proof -
  let ?P = "\<lambda>k. prefix (make_prefix t) k"
  obtain xs where xs: "lsm_scan (db_lsm db) = Ok xs" "om_sorted xs" "\<forall>k. om_get xs k = sees (db_lsm db) ess k (current_seq (db_lsm db))"
    using eng_ok_scan [OF ok] by (auto simp: lsm_scan_def)
  define m where "m = map (\<lambda>(k, v). (k, Some v)) (filter (\<lambda>(k, v). ?P k) xs)"
  have "map_of (map (\<lambda>(k, v). (k, Some v)) zs) k = map_option Some (map_of zs k)" for k and zs :: "(bytes \<times> bytes) list"
    by (induction zs) auto
  then have get: "om_get m k = (if ?P k then map_option Some (om_get xs k) else None)" for k
    by (simp add: m_def om_get_filter_keys)
  have "om_sorted (filter (\<lambda>(k, v). ?P k) xs)"
    using xs(2) by (simp add: sorted_wrt_map sorted_wrt_filter)
  then have m: "om_sorted m" "\<forall>k \<in> fst ` set m. ?P k"
    by (auto simp: m_def comp_def case_prod_unfold)
  have "strip_table (make_prefix t) xs = listing (make_prefix t) m"
    by (simp add: strip_table_def m_def) (induction xs; auto simp: listing_simps)
  then have "db_scan t db = Ok (listing (make_prefix t) m)" using xs(1) by (simp add: db_scan_def)
  moreover have "lists_table rows t (listing (make_prefix t) m)"
    using listing_lists [OF m] rows t xs(3) newest_eq [OF ok]
    by (auto simp: lists_table_def get rows_ok_def prefix_make_key)
  ultimately show ?thesis by blast
qed

lemma db_read_row:
  assumes "eng_ok (env_bloom env) (db_lsm db) ess" and "rows_ok (db_lsm db) ess rows" and "table_name t"
  shows "db_read env t k db = Ok (rows (t, k))"
  using assms newest_eq [OF assms(1), of "current_seq (db_lsm db)"]
  by (simp add: db_read_def lsm_read_def eng_ok_read [OF assms(1)] rows_ok_def)

lemma put_row_same:
  assumes "put_row env maintain lease t k w db = (r, db')"
  shows "db_schemas db' = db_schemas db"
  using assms
  by (auto simp: put_row_def db_write_def db_delete_def Let_def split: option.splits sum.splits prod.splits)

lemma put_row_rep:
  assumes rep: "db_rep env maintain lease bound (Suc n) db rows" and t: "table_name t" and small: "small_write bound t k w"
    and put: "put_row env maintain lease t k w db = (Ok (), db')"
  shows "db_rep env maintain lease bound n db' (rows((t, k) := w))"
proof -
  obtain ess txns stx where bl: "bloom_ok (env_bloom env)" and sim: "sim_at env (db_lsm db) ess txns (rows, stx)"
    using rep by (auto simp: db_rep_def)
  have fits: "write_fits env lease None [(t, make_key t k, w)] (db_lsm db) (db_store db)"
    and room: "roomy env maintain lease bound n db'"
    using rep t small put unfolding db_rep_def roomy.simps by fastforce+
  have ok: "eng_ok (env_bloom env) (db_lsm db) ess" using sim by (simp add: sim_at_def)
  have "db_role db \<noteq> Reader" using put by (auto simp: put_row_def db_write_def db_delete_def check_writable_def split: option.splits)
  then have "\<exists>ess'. batch_done env [(t, make_key t k, w)] (db_lsm db) ess (is_ok (Ok () :: (db_error, unit) result)) (db_lsm db') ess'"
    using put db_write_done [OF ok bl, of lease None t k _ maintain "Ok ()" db'] db_delete_done [OF ok bl, of lease None t k "Ok ()" db'] fits
    by (cases w) (simp_all add: put_row_def)
  then obtain ess' where "batch_done env [(t, make_key t k, w)] (db_lsm db) ess True (db_lsm db') ess'" by auto
  then have "simulated env (rows, stx) (Wrote None t k w True) (db', txns)"
    using simulated_write [OF sim t fits] by blast
  then obtain sp' where "spec_step (rows, stx) (Wrote None t k w True) sp'" "sim env (db', txns) sp'"
    by (auto simp: simulated_def)
  moreover from this(1) have "sp' = (rows((t, k) := w), stx)"
    by (cases rule: spec_step.cases) auto
  ultimately show ?thesis using bl room by (auto simp: db_rep_def sim_def)
qed

lemma put_row_taken:
  assumes "db_rep env maintain lease bound (Suc n) db rows" and "table_name t" and "small_write bound t k w"
  shows "\<exists>db'. put_row env maintain lease t k w db = (Ok (), db') \<and>
    db_rep env maintain lease bound n db' (rows((t, k) := w)) \<and> db_schemas db' = db_schemas db"
proof -
  obtain db' where "put_row env maintain lease t k w db = (Ok (), db')"
    using assms unfolding db_rep_def roomy.simps by blast
  then show ?thesis using put_row_rep [OF assms] put_row_same by blast
qed

text \<open>
  As long as the memtable does not fill up, every write is taken: this is the case
  for \<open>n\<close> writes when \<open>n\<close> times the largest entry fits below the limit.
\<close>

definition spare :: "nat \<Rightarrow> nat \<Rightarrow> ('b, 's, 'i) Database \<Rightarrow> bool" where
  "spare bound n db \<longleftrightarrow> db_role db = Writer
     \<and> unat (mt_size_bytes (ev_memtable (eng_view (db_lsm db)))) + n * (bound + 10)
         < unat (mt_max_size (ev_memtable (eng_view (db_lsm db))))
     \<and> unat (next_seq (db_lsm db)) + n < 2 ^ 64 - 1"

lemma insert_entry_size:
  assumes "small_write bound t k w" and "unat (mt_size_bytes mt) + (bound + 10) < 2 ^ 64"
  shows "unat (mt_size_bytes (insert_entry s (t, make_key t k, w) mt)) \<le> unat (mt_size_bytes mt) + (bound + 10)"
    and "mt_max_size (insert_entry s (t, make_key t k, w) mt) = mt_max_size mt"
  using assms
  by (auto simp: insert_entry_def memtable_insert_def small_write_def make_key_def Let_def unat_word_ariths unat_of_nat
      split: option.splits)

lemma spare_write:
  assumes spare: "spare bound (Suc n) db" and small: "small_write bound t k w"
    and maintain: "\<And>key v ix. \<exists>ix'. maintain t key v ix = (Ok (), ix')"
  shows "write_fits env lease None [(t, make_key t k, w)] (db_lsm db) (db_store db)
    \<and> (\<exists>db'. put_row env maintain lease t k w db = (Ok (), db') \<and> spare bound n db')"
proof -
  let ?eng = "db_lsm db" and ?es = "[(t, make_key t k, w)]"
  let ?mt = "ev_memtable (eng_view ?eng)"
  let ?mt' = "insert_entry (next_seq ?eng) (t, make_key t k, w) ?mt"
  have size: "unat (mt_size_bytes ?mt) + (bound + 10) + n * (bound + 10) < unat (mt_max_size ?mt)"
    and seq: "unat (next_seq ?eng) + Suc n < 2 ^ 64 - 1" and role: "db_role db = Writer"
    using spare by (simp_all add: spare_def algebra_simps)
  have max: "unat (mt_max_size ?mt) < 2 ^ 64" using unsigned_less [of "mt_max_size ?mt"] by simp
  have "unat (mt_size_bytes ?mt) + (bound + 10) < 2 ^ 64" using size max by linarith
  note mt' = insert_entry_size [OF small this, where s = "next_seq ?eng"]
  have "unat (mt_size_bytes ?mt') + n * (bound + 10) < unat (mt_max_size ?mt')" using mt'(1) size unfolding mt'(2) by linarith
  then have room: "\<not> is_full (fold (insert_entry (next_seq ?eng)) ?es ?mt)"
    by (simp add: is_full_def word_le_nat_alt)
  obtain wal where w: "write_batch env lease None ?es ?eng = (Ok (next_seq ?eng, None), with_batch ?es wal ?eng)"
    using write_example [OF room] by blast
  have n: "next_seq ?eng \<noteq> - 1" using seq by (auto simp: unsigned_minus_1_eq_mask mask_eq_exp_minus_1)
  have s1: "unat (next_seq ?eng + 1) = Suc (unat (next_seq ?eng))"
    using seq by (simp add: unat_word_ariths)
  have sp: "spare bound n (db\<lparr>db_lsm := with_batch ?es wal ?eng\<rparr>)"
    "spare bound n (db\<lparr>db_lsm := with_batch ?es wal ?eng, db_indexes := ix\<rparr>)" for ix
    using \<open>unat (mt_size_bytes ?mt') + n * (bound + 10) < unat (mt_max_size ?mt')\<close> role seq s1
    by (simp_all add: spare_def with_batch_def next_seq_def)
  note defs = put_row_def db_write_def db_delete_def lsm_write_def lsm_delete_def check_writable_def finish_pending_def
  have "\<exists>db'. put_row env maintain lease t k w db = (Ok (), db') \<and> spare bound n db'"
  proof (cases w)
    case None
    then show ?thesis using \<open>write_batch env lease None ?es ?eng = _\<close> role sp(1) by (simp add: defs)
  next
    case (Some v)
    obtain ix where "maintain t (make_key t k) v (db_indexes db) = (Ok (), ix)" using maintain by blast
    then show ?thesis using \<open>write_batch env lease None ?es ?eng = _\<close> role sp(2) Some by (simp add: defs Let_def)
  qed
  moreover have "write_fits env lease None ?es ?eng (db_store db)"
    using n room w by (simp add: write_fits_def flush_fits_def)
  ultimately show ?thesis by blast
qed

lemma spare_roomy:
  assumes "\<And>t key v ix. \<exists>ix'. maintain t key v ix = (Ok (), ix')"
  shows "spare bound n db \<Longrightarrow> roomy env maintain lease bound n db"
proof (induction n arbitrary: db)
  case (Suc n)
  then show ?case using spare_write [OF Suc.prems] assms unfolding roomy.simps by meson
qed simp

interpretation db_rows: row_store "db_engine env cc maintain lease" "db_rep env maintain lease bound" "small_write bound"
  for env :: "('b, 's) lsm_env" and cc and maintain :: "'i maintainer" and lease and bound
proof unfold_locales
  fix n and d :: "('b, 's, 'i) Database" and rows and t k v :: bytes
  show "db_rep env maintain lease bound n d rows" if "db_rep env maintain lease bound (Suc n) d rows"
    using that roomy_less unfolding db_rep_def by blast
  assume t: "table_name t"
  show "e_read (db_engine env cc maintain lease) t k d = Ok (rows (t, k))" if "db_rep env maintain lease bound n d rows"
    using that t db_read_row by (auto simp: db_rep_def db_engine_def sim_at_def)
  show "\<exists>kvs. e_scan (db_engine env cc maintain lease) t d = Ok kvs \<and> lists_table rows t kvs"
    if "db_rep env maintain lease bound n d rows"
    using that t db_scan_lists by (auto simp: db_rep_def db_engine_def sim_at_def)
  assume rep: "db_rep env maintain lease bound (Suc n) d rows"
  show "\<exists>d'. e_write (db_engine env cc maintain lease) t k v d = (Ok (), d') \<and>
      db_rep env maintain lease bound n d' (rows((t, k) := Some v)) \<and>
      (\<forall>t'. e_get_table (db_engine env cc maintain lease) t' d' = e_get_table (db_engine env cc maintain lease) t' d)"
    if "small_write bound t k (Some v)"
    using put_row_taken [OF rep t that] by (auto simp: put_row_def db_engine_def get_table_def)
  show "\<exists>d'. e_delete (db_engine env cc maintain lease) t k d = (Ok (), d') \<and>
      db_rep env maintain lease bound n d' (rows((t, k) := None)) \<and>
      (\<forall>t'. e_get_table (db_engine env cc maintain lease) t' d' = e_get_table (db_engine env cc maintain lease) t' d)"
    if "small_write bound t k None"
    using put_row_taken [OF rep t that] by (auto simp: put_row_def db_engine_def get_table_def)
qed

end
