(* ===== verification/RoleMembers.thy ===== *)
theory RoleMembers
  imports Engine
begin

text \<open>
  The role-membership catalog, wire/role_members.rs: a row for each direct
  membership, and the walk that collects the groups of a role.
\<close>

definition MEMBERS :: bytes where
  "MEMBERS = ascii ''_tpt_role_members''"

definition member_key :: "bytes \<Rightarrow> bytes \<Rightarrow> bytes" where
  "member_key member grp = member @ [0] @ grp"

definition members_ensure :: "'d engine_ops \<Rightarrow> 'd \<Rightarrow> (access_error, unit) result \<times> 'd" where
  "members_ensure eo = ensure_table eo MEMBERS
     [column ''id'' Text False True, column ''member'' Text False False, column ''group_role'' Text False False]"

definition member_row :: "bytes \<Rightarrow> bytes \<Rightarrow> bytes" where
  "member_row member grp =
     encode_cells [text_cell (from_utf8_lossy (member_key member grp)), text_cell member, text_cell grp]"

subsection \<open>Reading\<close>

fun direct_groups :: "bytes \<Rightarrow> KeyValue list \<Rightarrow> (access_error, bytes list) result" where
  "direct_groups role [] = Ok []"
| "direct_groups role (kv # kvs) =
     and_then (cell_str (kv_value kv) 1) (\<lambda>member.
       if member = role then
         and_then (cell_str (kv_value kv) 2) (\<lambda>grp. and_then (direct_groups role kvs) (\<lambda>out. Ok (grp # out)))
       else direct_groups role kvs)"

definition direct_memberships :: "'d engine_ops \<Rightarrow> bytes \<Rightarrow> 'd \<Rightarrow> (access_error, bytes list) result" where
  "direct_memberships eo role d = and_then (lift_db (e_scan eo MEMBERS d)) (direct_groups role)"

text \<open>
  One round of the walk: the groups not seen before are pushed, last on top.  The
  set \<open>seen\<close> of the source holds the elements of \<open>result\<close>.
\<close>

fun visit :: "bytes list \<Rightarrow> bytes list \<times> bytes list \<Rightarrow> bytes list \<times> bytes list" where
  "visit [] s = s"
| "visit (g # gs) (frontier, result) =
     (if g \<in> set result then visit gs (frontier, result) else visit gs (g # frontier, result @ [g]))"

text \<open>The groups that occur in the rows: where the walk can go.\<close>

definition row_groups :: "KeyValue list \<Rightarrow> bytes set" where
  "row_groups kvs = {g. \<exists>kv \<in> set kvs. cell_str (kv_value kv) 2 = Ok g}"

lemma direct_groups_subset: "direct_groups role kvs = Ok gs \<Longrightarrow> set gs \<subseteq> row_groups kvs"
  by (induction role kvs arbitrary: gs rule: direct_groups.induct)
    (fastforce simp: row_groups_def and_then_Ok_iff split: if_splits)+

lemma finite_row_groups [simp]: "finite (row_groups kvs)"
proof -
  have "row_groups kvs \<subseteq> (\<lambda>kv. projr (cell_str (kv_value kv) 2)) ` set kvs"
    by (force simp: row_groups_def image_iff)
  then show ?thesis by (rule finite_subset) simp
qed

lemma visit_subset: "set gs \<subseteq> U \<Longrightarrow> set r \<subseteq> U \<Longrightarrow> visit gs (f, r) = (f', r') \<Longrightarrow> set r' \<subseteq> U"
  by (induction gs "(f, r)" arbitrary: f r rule: visit.induct) (auto split: if_splits)

lemma visit_grows:
  "visit gs (f, r) = (f', r') \<Longrightarrow> (f' = f \<and> r' = r) \<or> (set r \<subset> set r' \<and> (\<exists>g \<in> set gs. g \<in> set r' - set r))"
proof (induction gs "(f, r)" arbitrary: f r rule: visit.induct)
  case (2 g gs f r)
  show ?case
  proof (cases "g \<in> set r")
    case False
    then have "visit gs (g # f, r @ [g]) = (f', r')" using "2.prems" by simp
    then have "set (r @ [g]) \<subseteq> set r'" using "2.hyps"(2) [OF False] by auto
    with False show ?thesis by auto
  qed (use 2 in auto)
qed simp

text \<open>
  The walk of \<open>all_memberships\<close> over the rows of one scan: each round of the source
  scans the same table.  It stops because a round either pops the frontier only or
  adds a group of the rows to the result.
\<close>

function walk :: "KeyValue list \<Rightarrow> bytes list \<Rightarrow> bytes list \<Rightarrow> (access_error, bytes list) result" where
  "walk kvs [] result = Ok result"
| "walk kvs (current # frontier) result =
     (case direct_groups current kvs of
        Inl e \<Rightarrow> Err e
      | Inr gs \<Rightarrow> (case visit gs (frontier, result) of (f, r) \<Rightarrow> walk kvs f r))"
  by pat_completeness auto
termination
proof (relation "(\<lambda>(kvs, frontier, result). card (row_groups kvs - set result)) <*mlex*> measure (\<lambda>(kvs, frontier, result). length frontier)")
  fix kvs current frontier result gs f r
  assume d: "direct_groups current kvs = Inr gs" and v: "(f, r) = visit gs (frontier, result)"
  from visit_grows [OF v [symmetric]] consider "f = frontier" "r = result" | g where "set result \<subset> set r" "g \<in> set gs" "g \<in> set r" "g \<notin> set result"
    by blast
  then show "((kvs, f, r), (kvs, current # frontier, result))
      \<in> (\<lambda>(kvs, frontier, result). card (row_groups kvs - set result)) <*mlex*> measure (\<lambda>(kvs, frontier, result). length frontier)"
  proof cases
    case 2
    then have "row_groups kvs - set r \<subset> row_groups kvs - set result"
      using direct_groups_subset [OF d] by auto
    then have "card (row_groups kvs - set r) < card (row_groups kvs - set result)"
      by (intro psubset_card_mono) auto
    then show ?thesis by (intro mlex_less) simp
  qed (auto intro!: mlex_leq)
qed (auto intro: wf_mlex)

definition all_memberships :: "'d engine_ops \<Rightarrow> bytes \<Rightarrow> 'd \<Rightarrow> (access_error, bytes list) result" where
  "all_memberships eo role d = and_then (lift_db (e_scan eo MEMBERS d)) (\<lambda>kvs. walk kvs [role] [])"

subsection \<open>Changing\<close>

definition grant_membership ::
  "'d engine_ops \<Rightarrow> bytes \<Rightarrow> bytes \<Rightarrow> 'd \<Rightarrow> (access_error, unit) result \<times> 'd" where
  "grant_membership eo member grp d =
     (if member = grp then (Err (SelfMember member), d)
      else case and_then (all_memberships eo member d) (\<lambda>gs.
             if grp \<in> set gs then Ok True
             else and_then (all_memberships eo grp d) (\<lambda>ms. Ok (member \<in> set ms))) of
        Inl e \<Rightarrow> (Err e, d)
      | Inr cycle \<Rightarrow>
          if cycle then (Err (MemberCycle member grp), d)
          else lift_step (e_write eo MEMBERS (member_key member grp) (member_row member grp) d))"

definition revoke_membership ::
  "'d engine_ops \<Rightarrow> bytes \<Rightarrow> bytes \<Rightarrow> 'd \<Rightarrow> (access_error, unit) result \<times> 'd" where
  "revoke_membership eo member grp d = lift_step (e_delete eo MEMBERS (member_key member grp) d)"

fun touching :: "bytes \<Rightarrow> KeyValue list \<Rightarrow> (access_error, bytes list) result" where
  "touching role [] = Ok []"
| "touching role (kv # kvs) =
     and_then (cell_str (kv_value kv) 1) (\<lambda>member.
     and_then (cell_str (kv_value kv) 2) (\<lambda>grp.
     and_then (touching role kvs) (\<lambda>out. Ok (if member = role \<or> grp = role then kv_key kv # out else out))))"

definition revoke_all :: "'d engine_ops \<Rightarrow> bytes \<Rightarrow> 'd \<Rightarrow> (access_error, unit) result \<times> 'd" where
  "revoke_all eo role d =
     (case and_then (lift_db (e_scan eo MEMBERS d)) (touching role) of
        Inl e \<Rightarrow> (Err e, d)
      | Inr to_delete \<Rightarrow> delete_keys eo MEMBERS to_delete d)"

end
