(* ===== verification/Privileges.thy ===== *)
theory Privileges
  imports RoleMembers AccessTypes
begin

text \<open>
  The grant catalog, wire/privileges.rs: a row for each privilege that a role holds
  on an object.
\<close>

definition PRIVILEGES :: bytes where
  "PRIVILEGES = ascii ''_tpt_privileges''"

definition grant_key :: "bytes \<Rightarrow> bytes \<Rightarrow> bytes \<Rightarrow> bytes \<Rightarrow> bytes" where
  "grant_key grantee priv obj_type obj_name = grantee @ [0] @ priv @ [0] @ obj_type @ [0] @ obj_name"

definition privileges_ensure :: "'d engine_ops \<Rightarrow> 'd \<Rightarrow> (access_error, unit) result \<times> 'd" where
  "privileges_ensure eo = ensure_table eo PRIVILEGES
     [column ''id'' Text False True, column ''grantee'' Text False False, column ''privilege'' Text False False,
      column ''object_type'' Text False False, column ''object_name'' Text False False]"

definition grant_row :: "bytes \<Rightarrow> PrivilegeRepr \<Rightarrow> GrantObjectRepr \<Rightarrow> bytes" where
  "grant_row grantee priv ob =
     encode_cells [text_cell (from_utf8_lossy (grant_key grantee (as_str priv) (go_kind ob) (go_name ob))),
       text_cell grantee, text_cell (as_str priv), text_cell (go_kind ob), text_cell (go_name ob)]"

definition grant_privilege ::
  "'d engine_ops \<Rightarrow> bytes \<Rightarrow> PrivilegeRepr \<Rightarrow> GrantObjectRepr \<Rightarrow> 'd \<Rightarrow> (access_error, unit) result \<times> 'd" where
  "grant_privilege eo grantee priv ob d =
     lift_step (e_write eo PRIVILEGES (grant_key grantee (as_str priv) (go_kind ob) (go_name ob)) (grant_row grantee priv ob) d)"

text \<open>The rows that \<open>REVOKE ALL\<close> collects; the cells after the first that differs are not read.\<close>

fun held_on :: "bytes \<Rightarrow> GrantObjectRepr \<Rightarrow> KeyValue list \<Rightarrow> (access_error, bytes list) result" where
  "held_on grantee ob [] = Ok []"
| "held_on grantee ob (kv # kvs) =
     and_then
       (and_then (cell_str (kv_value kv) 1) (\<lambda>g. if g \<noteq> grantee then Ok False else
        and_then (cell_str (kv_value kv) 3) (\<lambda>t. if t \<noteq> go_kind ob then Ok False else
        and_then (cell_str (kv_value kv) 4) (\<lambda>n. Ok (n = go_name ob)))))
       (\<lambda>hit. and_then (held_on grantee ob kvs) (\<lambda>out. Ok (if hit then kv_key kv # out else out)))"

definition revoke_privilege ::
  "'d engine_ops \<Rightarrow> bytes \<Rightarrow> PrivilegeRepr \<Rightarrow> GrantObjectRepr \<Rightarrow> 'd \<Rightarrow> (access_error, unit) result \<times> 'd" where
  "revoke_privilege eo grantee priv ob d =
     (if priv = All then
        (case and_then (lift_db (e_scan eo PRIVILEGES d)) (held_on grantee ob) of
           Inl e \<Rightarrow> (Err e, d)
         | Inr to_delete \<Rightarrow> delete_keys eo PRIVILEGES to_delete d)
      else lift_step (e_delete eo PRIVILEGES (grant_key grantee (as_str priv) (go_kind ob) (go_name ob)) d))"

subsection \<open>The decision\<close>

fun holds_directly :: "bytes \<Rightarrow> PrivilegeRepr \<Rightarrow> GrantObjectRepr \<Rightarrow> KeyValue list \<Rightarrow> (access_error, bool) result" where
  "holds_directly cand priv ob [] = Ok False"
| "holds_directly cand priv ob (kv # kvs) =
     and_then (cell_str (kv_value kv) 1) (\<lambda>g. if g \<noteq> cand then holds_directly cand priv ob kvs else
     and_then (cell_str (kv_value kv) 3) (\<lambda>t. if t \<noteq> go_kind ob then holds_directly cand priv ob kvs else
     and_then (cell_str (kv_value kv) 4) (\<lambda>n. if n \<noteq> go_name ob then holds_directly cand priv ob kvs else
     and_then (cell_str (kv_value kv) 2) (\<lambda>stored.
       if stored = as_str All \<or> stored = as_str priv then Ok True else holds_directly cand priv ob kvs))))"

fun any_holds :: "'d engine_ops \<Rightarrow> PrivilegeRepr \<Rightarrow> GrantObjectRepr \<Rightarrow> 'd \<Rightarrow> bytes list \<Rightarrow> (access_error, bool) result" where
  "any_holds eo priv ob d [] = Ok False"
| "any_holds eo priv ob d (cand # cands) =
     and_then (and_then (lift_db (e_scan eo PRIVILEGES d)) (holds_directly cand priv ob))
       (\<lambda>hit. if hit then Ok True else any_holds eo priv ob d cands)"

definition has_privilege ::
  "'d engine_ops \<Rightarrow> bytes \<Rightarrow> PrivilegeRepr \<Rightarrow> GrantObjectRepr \<Rightarrow> 'd \<Rightarrow> (access_error, bool) result \<times> 'd" where
  "has_privilege eo role priv ob d =
     and_step (members_ensure eo d) (\<lambda>_ d.
       (and_then (all_memberships eo role d) (\<lambda>groups. any_holds eo priv ob d (role # groups)), d))"

end
