(* ===== verification/Scram.thy ===== *)
theory Scram
  imports Cells
begin

unbundle bit_operations_syntax

text \<open>
  The server half of SCRAM-SHA-256, wire/scram.rs.  The hash functions, the key
  derivation and base64 are arguments; the random salt and nonce are arguments of
  the operations that draw them.
\<close>

record crypto_ops =
  hmac_sha256 :: "bytes \<Rightarrow> bytes \<Rightarrow> bytes"
  sha256 :: "bytes \<Rightarrow> bytes"
  pbkdf2 :: "bytes \<Rightarrow> bytes \<Rightarrow> u32 \<Rightarrow> bytes"
  b64_encode :: "bytes \<Rightarrow> bytes"
  b64_decode :: "bytes \<Rightarrow> bytes option"

record ScramCredential =
  sc_salt :: bytes
  sc_iterations :: u32
  sc_stored_key :: bytes
  sc_server_key :: bytes

datatype scram_error =
    NotUtf8 | UnsupportedHeader | MissingNonce | MissingBinding | NonceMismatch | MissingProof
  | BadProofEncoding | MalformedProof | ProofFailed

definition derive_credential :: "crypto_ops \<Rightarrow> bytes \<Rightarrow> bytes \<Rightarrow> u32 \<Rightarrow> ScramCredential" where
  "derive_credential co password salt iterations =
     (let salted_password = pbkdf2 co password salt iterations;
          client_key = hmac_sha256 co salted_password (ascii ''Client Key'')
      in \<lparr>sc_salt = salt, sc_iterations = iterations, sc_stored_key = sha256 co client_key,
          sc_server_key = hmac_sha256 co salted_password (ascii ''Server Key'')\<rparr>)"

record ServerFirst =
  client_first_bare :: bytes
  server_first_message :: bytes
  combined_nonce :: bytes

text \<open>\<open>s.split(',')\<close>.\<close>

fun split_on :: "u8 \<Rightarrow> bytes \<Rightarrow> bytes list" where
  "split_on sep [] = [[]]"
| "split_on sep (b # bs) =
     (if b = sep then [] # split_on sep bs
      else case split_on sep bs of [] \<Rightarrow> [[b]] | part # parts \<Rightarrow> (b # part) # parts)"

definition field :: "bytes \<Rightarrow> u8 \<Rightarrow> bytes option" where
  "field s key = map_option (drop 2) (List.find (\<lambda>part. take 2 part = [key, 61]) (split_on 44 s))"

definition strip_prefix :: "bytes \<Rightarrow> bytes \<Rightarrow> bytes option" where
  "strip_prefix pre s = (if prefix pre s then Some (drop (length pre) s) else None)"

definition server_first :: "crypto_ops \<Rightarrow> bytes \<Rightarrow> bytes \<Rightarrow> ScramCredential \<Rightarrow> (scram_error, ServerFirst) result" where
  "server_first co server_nonce_bytes client_first cred =
     (if \<not> valid_utf8 client_first then Err NotUtf8
      else case (case strip_prefix (ascii ''n,,'') client_first of
                   Some b \<Rightarrow> Some b | None \<Rightarrow> strip_prefix (ascii ''y,,'') client_first) of
        None \<Rightarrow> Err UnsupportedHeader
      | Some bare \<Rightarrow>
          (case field bare 114 of
             None \<Rightarrow> Err MissingNonce
           | Some client_nonce \<Rightarrow>
               let nonce = client_nonce @ b64_encode co server_nonce_bytes in
               Ok \<lparr>client_first_bare = bare,
                   server_first_message = ascii ''r='' @ nonce @ ascii '',s='' @ b64_encode co (sc_salt cred) @ ascii '',i=''
                     @ int_to_string (uint (sc_iterations cred)),
                   combined_nonce = nonce\<rparr>))"

definition auth_message :: "ServerFirst \<Rightarrow> bytes \<Rightarrow> bytes \<Rightarrow> bytes" where
  "auth_message first channel_binding nonce =
     client_first_bare first @ ascii '','' @ server_first_message first @ ascii '','' @
     ascii ''c='' @ channel_binding @ ascii '',r='' @ nonce"

definition xor_bytes :: "bytes \<Rightarrow> bytes \<Rightarrow> bytes" where
  "xor_bytes xs ys = map2 (XOR) xs ys"

definition verify_client_final ::
  "crypto_ops \<Rightarrow> bytes \<Rightarrow> ServerFirst \<Rightarrow> ScramCredential \<Rightarrow> (scram_error, bytes) result" where
  "verify_client_final co client_final first cred =
     (if \<not> valid_utf8 client_final then Err NotUtf8
      else case field client_final 99 of
        None \<Rightarrow> Err MissingBinding
      | Some channel_binding \<Rightarrow>
          (case field client_final 114 of
             None \<Rightarrow> Err MissingNonce
           | Some nonce \<Rightarrow>
               if nonce \<noteq> combined_nonce first then Err NonceMismatch
               else case field client_final 112 of
                 None \<Rightarrow> Err MissingProof
               | Some proof_b64 \<Rightarrow>
                   (case b64_decode co proof_b64 of
                      None \<Rightarrow> Err BadProofEncoding
                    | Some pr \<Rightarrow>
                        if length pr \<noteq> 32 then Err MalformedProof
                        else
                          let msg = auth_message first channel_binding nonce;
                              client_key = xor_bytes pr (hmac_sha256 co (sc_stored_key cred) msg) in
                          if sha256 co client_key \<noteq> sc_stored_key cred then Err ProofFailed
                          else Ok (ascii ''v='' @ b64_encode co (hmac_sha256 co (sc_server_key cred) msg)))))"

subsection \<open>The exchange\<close>

text \<open>
  What the code relies on in the libraries: base64 is inverted by its decoder and
  its texts are ASCII without a comma, and the two hashes have 32 bytes.
\<close>

definition plain_text :: "bytes \<Rightarrow> bool" where
  "plain_text bs \<longleftrightarrow> (\<forall>b \<in> set bs. unat b < 128) \<and> 44 \<notin> set bs"

definition crypto_ok :: "crypto_ops \<Rightarrow> bool" where
  "crypto_ok co \<longleftrightarrow>
     (\<forall>bs. b64_decode co (b64_encode co bs) = Some bs \<and> plain_text (b64_encode co bs)) \<and>
     (\<forall>k m. length (hmac_sha256 co k m) = 32) \<and> (\<forall>m. length (sha256 co m) = 32)"

text \<open>The client of RFC 5802: its two messages, and the signature it expects of the server.\<close>

definition client_first :: "bytes \<Rightarrow> bytes \<Rightarrow> bytes" where
  "client_first user nonce = ascii ''n,,'' @ ascii ''n='' @ user @ ascii '',r='' @ nonce"

definition client_proof :: "crypto_ops \<Rightarrow> bytes \<Rightarrow> bytes \<Rightarrow> u32 \<Rightarrow> bytes \<Rightarrow> bytes" where
  "client_proof co password salt iterations msg =
     (let client_key = hmac_sha256 co (pbkdf2 co password salt iterations) (ascii ''Client Key'')
      in xor_bytes client_key (hmac_sha256 co (sha256 co client_key) msg))"

definition client_final :: "crypto_ops \<Rightarrow> bytes \<Rightarrow> bytes \<Rightarrow> u32 \<Rightarrow> bytes \<Rightarrow> bytes \<Rightarrow> bytes \<Rightarrow> bytes" where
  "client_final co password salt iterations msg binding nonce =
     ascii ''c='' @ binding @ ascii '',r='' @ nonce @ ascii '',p='' @
     b64_encode co (client_proof co password salt iterations msg)"

lemma split_on_single: "sep \<notin> set bs \<Longrightarrow> split_on sep bs = [bs]"
  by (induction bs) auto

lemma split_on_Cons: "split_on sep bs \<noteq> []"
  by (cases "(sep, bs)" rule: split_on.cases) (auto split: list.split)

lemma split_on_append: "sep \<notin> set bs \<Longrightarrow> split_on sep (bs @ sep # rest) = bs # split_on sep rest"
  by (induction bs) auto

lemma xor_bytes_cancel: "length xs = length ys \<Longrightarrow> xor_bytes (xor_bytes xs ys) ys = xs"
  by (induction xs ys rule: list_induct2) (simp_all add: xor_bytes_def xor.assoc)

lemma length_xor_bytes [simp]: "length (xor_bytes xs ys) = min (length xs) (length ys)"
  by (simp add: xor_bytes_def)

lemma client_final_fields:
  assumes "plain_text binding" and "plain_text nonce" and "plain_text p64"
  shows "field (ascii ''c='' @ binding @ ascii '',r='' @ nonce @ ascii '',p='' @ p64) 99 = Some binding"
    "field (ascii ''c='' @ binding @ ascii '',r='' @ nonce @ ascii '',p='' @ p64) 114 = Some nonce"
    "field (ascii ''c='' @ binding @ ascii '',r='' @ nonce @ ascii '',p='' @ p64) 112 = Some p64"
proof -
  have "split_on 44 (ascii ''c='' @ binding @ ascii '',r='' @ nonce @ ascii '',p='' @ p64)
      = [ascii ''c='' @ binding, ascii ''r='' @ nonce, ascii ''p='' @ p64]"
    using assms by (simp add: plain_text_def ascii_def split_on_append split_on_single)
  then show "field (ascii ''c='' @ binding @ ascii '',r='' @ nonce @ ascii '',p='' @ p64) 99 = Some binding"
    "field (ascii ''c='' @ binding @ ascii '',r='' @ nonce @ ascii '',p='' @ p64) 114 = Some nonce"
    "field (ascii ''c='' @ binding @ ascii '',r='' @ nonce @ ascii '',p='' @ p64) 112 = Some p64"
    by (simp_all add: field_def ascii_def)
qed

lemma plain_text_append [simp]: "plain_text (xs @ ys) \<longleftrightarrow> plain_text xs \<and> plain_text ys"
  by (auto simp: plain_text_def)

lemma server_first_ok:
  assumes "plain_text user" and "plain_text nonce"
  shows "server_first co server_nonce (client_first user nonce) cred
    = Ok \<lparr>client_first_bare = ascii ''n='' @ user @ ascii '',r='' @ nonce,
          server_first_message = ascii ''r='' @ (nonce @ b64_encode co server_nonce) @ ascii '',s=''
            @ b64_encode co (sc_salt cred) @ ascii '',i='' @ int_to_string (uint (sc_iterations cred)),
          combined_nonce = nonce @ b64_encode co server_nonce\<rparr>"
proof -
  have "valid_utf8 (client_first user nonce)"
    using assms by (intro valid_utf8_ascii) (auto simp: client_first_def plain_text_def ascii_def)
  moreover have "strip_prefix (ascii ''n,,'') (client_first user nonce) = Some (ascii ''n='' @ user @ ascii '',r='' @ nonce)"
    by (simp add: strip_prefix_def client_first_def ascii_def)
  moreover have "split_on 44 (ascii ''n='' @ user @ ascii '',r='' @ nonce) = [ascii ''n='' @ user, ascii ''r='' @ nonce]"
    using assms by (simp add: plain_text_def ascii_def split_on_append split_on_single)
  then have "field (ascii ''n='' @ user @ ascii '',r='' @ nonce) 114 = Some nonce"
    by (simp add: field_def ascii_def)
  ultimately show ?thesis by (simp add: server_first_def Let_def)
qed

text \<open>
  C37: A client that knows the password is logged in, and can tell that the server
  knows it too.  For any client nonce and channel binding of plain text, the final
  message that RFC 5802 prescribes for the password the credential was derived from
  is accepted, and the answer carries the server's signature of the same exchange.
\<close>

theorem scram_accepts_password:
  assumes "crypto_ok co" and "plain_text user" and "plain_text nonce" and "plain_text binding"
    and "cred = derive_credential co password salt iterations"
    and "server_first co server_nonce (client_first user nonce) cred = Ok first"
    and "msg = auth_message first binding (combined_nonce first)"
  shows "verify_client_final co (client_final co password salt iterations msg binding (combined_nonce first)) first cred
    = Ok (ascii ''v='' @ b64_encode co (hmac_sha256 co (sc_server_key cred) msg))"
proof -
  let ?pr = "client_proof co password salt iterations msg" and ?n = "combined_nonce first"
  have b64: "b64_decode co (b64_encode co bs) = Some bs" "plain_text (b64_encode co bs)" for bs
    using assms(1) by (simp_all add: crypto_ok_def)
  have len: "length (hmac_sha256 co k m) = 32" for k m
    using assms(1) by (simp add: crypto_ok_def)
  have n: "plain_text ?n" using assms(3,6) b64(2) by (auto simp: server_first_ok [OF assms(2,3)])
  note f = client_final_fields [OF assms(4) n b64(2) [of ?pr], folded client_final_def]
  have "valid_utf8 (client_final co password salt iterations msg binding ?n)"
    using assms(4) n b64(2) by (intro valid_utf8_ascii) (auto simp: client_final_def plain_text_def ascii_def)
  moreover have "xor_bytes ?pr (hmac_sha256 co (sc_stored_key cred) msg)
      = hmac_sha256 co (pbkdf2 co password salt iterations) (ascii ''Client Key'')"
    using len by (simp add: client_proof_def assms(5) derive_credential_def Let_def xor_bytes_cancel)
  moreover have "length ?pr = 32" using len by (simp add: client_proof_def Let_def)
  ultimately show ?thesis
    using f b64(1) by (simp add: verify_client_final_def Let_def assms(5,7) derive_credential_def)
qed

definition example_crypto :: crypto_ops where
  "example_crypto =
     \<lparr>hmac_sha256 = (\<lambda>k m. replicate 32 (word_of_nat (length k + length m))), sha256 = (\<lambda>m. take 32 (m @ replicate 32 7)),
      pbkdf2 = (\<lambda>pw salt n. pw @ salt), b64_encode = concat \<circ> map (\<lambda>b. [65 + drop_bit 4 b, 65 + (b AND 15)]),
      b64_decode = (\<lambda>t. Some (map (\<lambda>i. push_bit 4 (t ! (2 * i) - 65) OR (t ! (2 * i + 1) - 65)) [0..<length t div 2]))\<rparr>"

lemma hex_low:
  "unat (65 + drop_bit 4 (b :: u8)) < 128 \<and> 65 + drop_bit 4 b \<noteq> (44 :: u8)"
  "unat (65 + (b AND 15)) < 128 \<and> 65 + (b AND 15) \<noteq> (44 :: u8)"
  "push_bit 4 (drop_bit 4 b) OR (b AND 15) = b"
proof -
  have m: "(15 :: u8) = mask 4" by (simp add: mask_eq_exp_minus_1)
  have u: "unat (65 + x) < 128 \<and> 65 + x \<noteq> (44 :: u8)" if "unat x < 16" for x :: u8
    using that by (simp add: unat_word_ariths word_unat_eq_iff)
  have "unat (drop_bit 4 b) < 16"
    using unat_u8_less [of b] by (subst unat_drop_bit_eq) (simp add: drop_bit_eq_div)
  moreover have "unat (b AND 15) < 16"
    unfolding m take_bit_eq_mask [symmetric] unsigned_take_bit_eq by (simp add: take_bit_eq_mod)
  ultimately show "unat (65 + drop_bit 4 b) < 128 \<and> 65 + drop_bit 4 b \<noteq> (44 :: u8)"
    "unat (65 + (b AND 15)) < 128 \<and> 65 + (b AND 15) \<noteq> (44 :: u8)"
    using u by blast+
  show "push_bit 4 (drop_bit 4 b) OR (b AND 15) = b"
    unfolding m take_bit_eq_mask [symmetric] by (rule bit_eqI) (auto simp: bit_simps)
qed

lemma hex_nth:
  "i < length bs \<Longrightarrow> concat (map (\<lambda>b. [f b, g b]) bs) ! (2 * i) = f (bs ! i)"
  "i < length bs \<Longrightarrow> concat (map (\<lambda>b. [f b, g b]) bs) ! Suc (2 * i) = g (bs ! i)"
proof (induction bs arbitrary: i)
  case (Cons b bs)
  { case 1 then show ?case using Cons by (cases i) auto }
  { case 2 then show ?case using Cons by (cases i) auto }
qed auto

lemma example_crypto_ok: "crypto_ok example_crypto"
proof -
  let ?e = "\<lambda>bs :: bytes. concat (map (\<lambda>b. [65 + drop_bit 4 b, 65 + (b AND 15)]) bs)"
  have len: "length (?e bs) = 2 * length bs" for bs by (induction bs) auto
  have "map (\<lambda>i. push_bit 4 (?e bs ! (2 * i) - 65) OR (?e bs ! (2 * i + 1) - 65)) [0..<length (?e bs) div 2] = bs" for bs
    by (rule nth_equalityI) (auto simp: len hex_nth hex_low)
  moreover have "plain_text (?e bs)" for bs
    using hex_low by (auto simp: plain_text_def)
  ultimately show ?thesis by (simp add: crypto_ok_def example_crypto_def min_def)
qed

theorem scram_accepts_password_witness:
  "\<exists>first msg. server_first example_crypto [9] (client_first [117] [110]) (derive_credential example_crypto [112] [1, 2] 4096) = Ok first
     \<and> verify_client_final example_crypto (client_final example_crypto [112] [1, 2] 4096 msg [98] (combined_nonce first)) first
         (derive_credential example_crypto [112] [1, 2] 4096)
       = Ok (ascii ''v='' @ b64_encode example_crypto
               (hmac_sha256 example_crypto (sc_server_key (derive_credential example_crypto [112] [1, 2] 4096)) msg))"
proof -
  have "plain_text [117]" "plain_text [110]" "plain_text [98]" by (simp_all add: plain_text_def)
  then show ?thesis
    using scram_accepts_password [OF example_crypto_ok, of "[117]" "[110]" "[98]" _ "[112]" "[1, 2]" 4096 "[9]"] server_first_ok
    by blast
qed

text \<open>
  Nobody is logged in without a proof for this very exchange.  When the server
  accepts a final message, that message repeats the nonce the server has just made
  and carries 32 bytes which, combined with the signature of this exchange under
  the stored key, hash to the stored key.
\<close>

theorem scram_accepts_only_proofs:
  assumes "verify_client_final co message first cred = Ok answer"
  shows "\<exists>binding proof_b64 pr. field message 99 = Some binding \<and> field message 114 = Some (combined_nonce first)
    \<and> field message 112 = Some proof_b64 \<and> b64_decode co proof_b64 = Some pr \<and> length pr = 32
    \<and> sha256 co (xor_bytes pr (hmac_sha256 co (sc_stored_key cred) (auth_message first binding (combined_nonce first))))
        = sc_stored_key cred"
  using assms by (auto simp: verify_client_final_def Let_def split: if_splits option.splits)

end
