(* ===== verification/Roles.thy ===== *)
theory Roles
  imports Privileges Scram
begin

text \<open>
  The role catalog, wire/roles.rs: the SCRAM credential and the attributes of each
  role.  The random salt and the clock are arguments of the operations that read
  them.
\<close>

definition ROLES :: bytes where
  "ROLES = ascii ''_tpt_roles''"

record RoleAttributes =
  ra_superuser :: bool
  ra_can_login :: bool

definition flag_cell :: "bool \<Rightarrow> cell" where
  "flag_cell b = text_cell (ascii (if b then ''t'' else ''f''))"

definition or_else :: "('e, 'a) result \<Rightarrow> 'a \<Rightarrow> 'a" where
  "or_else r x = (case r of Inl _ \<Rightarrow> x | Inr y \<Rightarrow> y)"

fun migrate_rows :: "'d engine_ops \<Rightarrow> KeyValue list \<Rightarrow> 'd \<Rightarrow> (access_error, unit) result \<times> 'd" where
  "migrate_rows eo [] d = (Ok (), d)"
| "migrate_rows eo (kv # kvs) d =
     (let val = kv_value kv in
      if is_ok (cell_str val 6) then migrate_rows eo kvs d
      else case and_then (cell_str val 0) (\<lambda>rolname. and_then (cell_str val 1) (\<lambda>salt.
                and_then (cell_str val 2) (\<lambda>iterations. and_then (cell_str val 3) (\<lambda>stored_key.
                and_then (cell_str val 4) (\<lambda>server_key. Ok (rolname, salt, iterations, stored_key, server_key)))))) of
        Inl e \<Rightarrow> (Err e, d)
      | Inr (rolname, salt, iterations, stored_key, server_key) \<Rightarrow>
          let created_at = or_else (cell_str val 5) (ascii ''0'') in
          and_step (lift_step (e_write eo ROLES rolname
            (encode_cells [text_cell rolname, text_cell salt, text_cell iterations, text_cell stored_key, text_cell server_key,
               Some (int_to_string (case parse_i64 created_at of Some n \<Rightarrow> n | None \<Rightarrow> 0)), flag_cell True, flag_cell True]) d))
            (\<lambda>_. migrate_rows eo kvs))"

definition roles_ensure :: "'d engine_ops \<Rightarrow> 'd \<Rightarrow> (access_error, unit) result \<times> 'd" where
  "roles_ensure eo d =
     (if e_get_table eo ROLES d \<noteq> None then
        (case lift_db (e_scan eo ROLES d) of Inl e \<Rightarrow> (Err e, d) | Inr kvs \<Rightarrow> migrate_rows eo kvs d)
      else lift_step (e_create_table eo ROLES
        [column ''rolname'' Text False True, column ''salt'' Text False False, column ''iterations'' Int8 False False,
         column ''stored_key'' Text False False, column ''server_key'' Text False False, column ''created_at'' Int8 False False,
         column ''rolsuper'' Text False False, column ''rolcanlogin'' Text False False] [] [] d))"

definition RoleStore_new :: "'d engine_ops \<Rightarrow> 'd \<Rightarrow> (access_error, unit) result \<times> 'd" where
  "RoleStore_new eo d =
     and_step (roles_ensure eo d) (\<lambda>_ d. and_step (members_ensure eo d) (\<lambda>_. privileges_ensure eo))"

definition roles_is_empty :: "'d engine_ops \<Rightarrow> 'd \<Rightarrow> (access_error, bool) result" where
  "roles_is_empty eo d = and_then (lift_db (e_scan eo ROLES d)) (\<lambda>kvs. Ok (kvs = []))"

definition attributes_of :: "bytes \<Rightarrow> RoleAttributes" where
  "attributes_of val =
     \<lparr>ra_superuser = or_else (and_then (cell_str val 6) (\<lambda>s. Ok (s = ascii ''t''))) False,
      ra_can_login = or_else (and_then (cell_str val 7) (\<lambda>s. Ok (s = ascii ''t''))) True\<rparr>"

definition find_role :: "'d engine_ops \<Rightarrow> bytes \<Rightarrow> 'd \<Rightarrow> (access_error, RoleAttributes option) result" where
  "find_role eo rolname d =
     and_then (lift_db (e_read eo ROLES rolname d)) (\<lambda>v. Ok (map_option attributes_of v))"

definition decode_key :: "crypto_ops \<Rightarrow> bytes \<Rightarrow> bytes \<Rightarrow> (access_error, bytes) result" where
  "decode_key co rolname t =
     (case b64_decode co t of
        None \<Rightarrow> Err BadBase64
      | Some k \<Rightarrow> if length k = 32 then Ok k else Err (CorruptKey rolname))"

definition find_credential :: "'d engine_ops \<Rightarrow> crypto_ops \<Rightarrow> bytes \<Rightarrow> 'd \<Rightarrow> (access_error, ScramCredential option) result" where
  "find_credential eo co rolname d =
     and_then (lift_db (e_read eo ROLES rolname d)) (\<lambda>v. case v of
        None \<Rightarrow> Ok None
      | Some val \<Rightarrow>
          and_then (cell_str val 1) (\<lambda>salt_b64.
          and_then (and_then (cell_str val 2) (\<lambda>t. case parse_u32 t of Some n \<Rightarrow> Ok n | None \<Rightarrow> Err BadNumber)) (\<lambda>iterations.
          and_then (cell_str val 3) (\<lambda>stored_b64.
          and_then (cell_str val 4) (\<lambda>server_b64.
          and_then (case b64_decode co salt_b64 of Some s \<Rightarrow> Ok s | None \<Rightarrow> Err BadBase64) (\<lambda>salt.
          and_then (decode_key co rolname stored_b64) (\<lambda>stored_key.
          and_then (decode_key co rolname server_b64) (\<lambda>server_key.
            Ok (Some \<lparr>sc_salt = salt, sc_iterations = iterations, sc_stored_key = stored_key, sc_server_key = server_key\<rparr>)))))))))"

definition verify_password :: "'d engine_ops \<Rightarrow> crypto_ops \<Rightarrow> bytes \<Rightarrow> bytes \<Rightarrow> 'd \<Rightarrow> (access_error, bool) result" where
  "verify_password eo co rolname password d =
     and_then (find_credential eo co rolname d) (\<lambda>c. case c of
        None \<Rightarrow> Ok False
      | Some cred \<Rightarrow>
          let candidate = derive_credential co password (sc_salt cred) (sc_iterations cred) in
          Ok (sc_stored_key candidate = sc_stored_key cred \<and> sc_server_key candidate = sc_server_key cred))"

definition db_scan_roles :: "'d engine_ops \<Rightarrow> 'd \<Rightarrow> (access_error, (bytes \<times> RoleAttributes) list) result" where
  "db_scan_roles eo d =
     and_then (lift_db (e_scan eo ROLES d)) (\<lambda>kvs.
       Ok (List.map_filter (\<lambda>kv. map_option (\<lambda>name. (name, attributes_of (kv_value kv))) (cell_text (decode_cell (kv_value kv) 0))) kvs))"

definition role_row :: "crypto_ops \<Rightarrow> bytes \<Rightarrow> i64 \<Rightarrow> bytes \<Rightarrow> bytes option \<Rightarrow> bool \<Rightarrow> bool \<Rightarrow> bytes" where
  "role_row co salt now_ms rolname password superuser can_login =
     (let (salt_b64, iterations, stored_b64, server_b64) =
            (case password of
               Some pw \<Rightarrow>
                 let cred = derive_credential co pw salt 4096 in
                 (b64_encode co (sc_salt cred), 4096, b64_encode co (sc_stored_key cred), b64_encode co (sc_server_key cred))
             | None \<Rightarrow> ([], 0, [], []))
      in encode_cells [text_cell rolname, text_cell salt_b64, int_cell iterations, text_cell stored_b64, text_cell server_b64,
           int_cell now_ms, flag_cell superuser, flag_cell can_login])"

definition upsert_with_attrs ::
  "'d engine_ops \<Rightarrow> crypto_ops \<Rightarrow> bytes \<Rightarrow> i64 \<Rightarrow> bytes \<Rightarrow> bytes option \<Rightarrow> bool \<Rightarrow> bool \<Rightarrow> 'd
     \<Rightarrow> (access_error, unit) result \<times> 'd" where
  "upsert_with_attrs eo co salt now_ms rolname password superuser can_login d =
     lift_step (e_write eo ROLES rolname (role_row co salt now_ms rolname password superuser can_login) d)"

fun grant_each :: "'d engine_ops \<Rightarrow> bytes \<Rightarrow> bytes list \<Rightarrow> 'd \<Rightarrow> (access_error, unit) result \<times> 'd" where
  "grant_each eo name [] d = (Ok (), d)"
| "grant_each eo name (g # gs) d = and_step (grant_membership eo name g d) (\<lambda>_. grant_each eo name gs)"

definition create_role ::
  "'d engine_ops \<Rightarrow> crypto_ops \<Rightarrow> bytes \<Rightarrow> i64 \<Rightarrow> bytes \<Rightarrow> bool \<Rightarrow> bool \<Rightarrow> bytes option \<Rightarrow> bytes list \<Rightarrow> 'd
     \<Rightarrow> (access_error, unit) result \<times> 'd" where
  "create_role eo co salt now_ms name superuser can_login password in_role d =
     (case find_role eo name d of
        Inl e \<Rightarrow> (Err e, d)
      | Inr (Some _) \<Rightarrow> (Err (RoleExists name), d)
      | Inr None \<Rightarrow>
          and_step (upsert_with_attrs eo co salt now_ms name password superuser can_login d) (\<lambda>_ d.
          and_step (members_ensure eo d) (\<lambda>_. grant_each eo name in_role)))"

definition alter_role ::
  "'d engine_ops \<Rightarrow> crypto_ops \<Rightarrow> bytes \<Rightarrow> i64 \<Rightarrow> bytes \<Rightarrow> bool option \<Rightarrow> bool option \<Rightarrow> bytes option \<Rightarrow> 'd
     \<Rightarrow> (access_error, unit) result \<times> 'd" where
  "alter_role eo co salt now_ms name superuser can_login password d =
     (case lift_db (e_read eo ROLES name d) of
        Inl e \<Rightarrow> (Err e, d)
      | Inr None \<Rightarrow> (Err (NoRole name), d)
      | Inr (Some val) \<Rightarrow>
          let new_super = (case superuser of Some b \<Rightarrow> b | None \<Rightarrow> ra_superuser (attributes_of val));
              new_login = (case can_login of Some b \<Rightarrow> b | None \<Rightarrow> ra_can_login (attributes_of val)) in
          (case password of
             Some pw \<Rightarrow> upsert_with_attrs eo co salt now_ms name (Some pw) new_super new_login d
           | None \<Rightarrow>
               lift_step (e_write eo ROLES name
                 (encode_cells [text_cell name, text_cell (or_else (cell_str val 1) []), text_cell (or_else (cell_str val 2) (ascii ''0'')),
                    text_cell (or_else (cell_str val 3) []), text_cell (or_else (cell_str val 4) []),
                    Some (int_to_string (case parse_i64 (or_else (cell_str val 5) (ascii ''0'')) of Some n \<Rightarrow> n | None \<Rightarrow> 0)),
                    flag_cell new_super, flag_cell new_login]) d)))"

definition drop_role :: "'d engine_ops \<Rightarrow> bytes \<Rightarrow> bool \<Rightarrow> 'd \<Rightarrow> (access_error, unit) result \<times> 'd" where
  "drop_role eo name if_exists d =
     (case find_role eo name d of
        Inl e \<Rightarrow> (Err e, d)
      | Inr None \<Rightarrow> (if if_exists then Ok () else Err (NoRole name), d)
      | Inr (Some _) \<Rightarrow>
          and_step (lift_step (e_delete eo ROLES name d)) (\<lambda>_ d.
          and_step (members_ensure eo d) (\<lambda>_. revoke_all eo name)))"

definition bootstrap_if_empty ::
  "'d engine_ops \<Rightarrow> crypto_ops \<Rightarrow> bytes \<Rightarrow> i64 \<Rightarrow> bytes \<Rightarrow> bytes \<Rightarrow> 'd \<Rightarrow> (access_error, unit) result \<times> 'd" where
  "bootstrap_if_empty eo co salt now_ms user password d =
     (case roles_is_empty eo d of
        Inl e \<Rightarrow> (Err e, d)
      | Inr none_yet \<Rightarrow> if none_yet then upsert_with_attrs eo co salt now_ms user (Some password) True True d else (Ok (), d))"

end
