(* ===== verification/Ast.thy ===== *)
theory Ast
  imports Prelude
begin

text \<open>
  The abstract syntax of sql/ast.rs.  A double is its 64 bits.  The fields of a
  struct are the selectors of its one constructor.
\<close>

datatype BinOp =
    Add | Sub | Mul | Div | Mod | Eq | NotEq | Lt | Lte | Gt | Gte | AndOp | OrOp | Concat | Arrow | LongArrow
  | Contains | HashArrow | HashLongArrow | RegexMatch | RegexNotMatch | RegexMatchCI | RegexNotMatchCI

datatype UnOp = Neg | NotOp

datatype Literal =
    LInt i64 | LFloat u64 | LText bytes | LBool bool | LNull | LFloatArray "u64 list"

datatype UnionOp = Union | UnionAll

datatype JoinType = Inner | Left | Right | Full | Cross

datatype FrameType = FrameRows | FrameRange | FrameGroups

datatype FrameBoundType = UnboundedPreceding | Preceding | CurrentRow | Following | UnboundedFollowing

text \<open>The structs below \<open>Expr\<close> and \<open>SelectStmt\<close> take these two as parameters: \<open>'e\<close> and \<open>'q\<close>.\<close>

datatype 'e FrameBound = FrameBound (fb_type: FrameBoundType) (fb_offset: "'e option")

datatype 'e WindowFrame = WindowFrame (wf_type: FrameType) (wf_start: "'e FrameBound") (wf_end: "'e FrameBound option")

datatype 'e OrderBy = OrderBy (ob_expr: 'e) (ob_asc: bool)

datatype 'e Projection = Wildcard | WildcardTable bytes | ProjExpr 'e "bytes option"

datatype ('e, 'q) InList = InExprs "'e list" | InSubquery 'q

datatype ('e, 'q) TableRef =
  TableRef (tr_name: bytes) (tr_alias: "bytes option") (tr_subquery: "'q option") (tr_func_args: "'e list option")

datatype ('e, 'q) Join = Join (jn_type: JoinType) (jn_table: "('e, 'q) TableRef") (jn_on: "'e option")

datatype ('e, 'q) TableWithJoins =
  TableWithJoins (twj_primary: "('e, 'q) TableRef") (twj_joins: "('e, 'q) Join list")

datatype 'q Cte = Cte (cte_name: bytes) (cte_columns: "bytes list") (cte_subquery: 'q) (cte_recursive: bool)

datatype (plugins only: size code) Expr =
    ELiteral Literal
  | EIdent bytes
  | EQualifiedIdent bytes bytes
  | EBinaryOp BinOp Expr Expr
  | EUnaryOp UnOp Expr
  | EIsNull Expr bool
  | EIsTrue Expr bool
  | EIsFalse Expr bool
  | EBetween Expr Expr Expr bool
  | ELike Expr Expr bool
  | EIn Expr "(Expr, SelectStmt) InList" bool
  | EExists SelectStmt bool
  | ECast Expr bytes
  | EFunction bytes "Expr list" bool
  | ECase "Expr option" "(Expr \<times> Expr) list" "Expr option"
  | EParam u32
  | ESubquery SelectStmt
  | EWindow bytes "Expr list" "Expr list" "Expr OrderBy list" "Expr WindowFrame option"
and SelectStmt = SelectStmt (sel_ctes: "SelectStmt Cte list") (sel_distinct: bool) (sel_projections: "Expr Projection list")
    (sel_from: "(Expr, SelectStmt) TableWithJoins option") (sel_where: "Expr option") (sel_group_by: "Expr list")
    (sel_having: "Expr option") (sel_order_by: "Expr OrderBy list") (sel_limit: "Expr option") (sel_offset: "Expr option")
    (sel_union: "(UnionOp \<times> SelectStmt) option")

subsection \<open>Statements\<close>

datatype MatchDirection = Out | In | Both

record MatchHop =
  mh_rel_type :: "bytes option"
  mh_direction :: MatchDirection

record MatchStmt =
  ms_nodes :: "bytes list"
  ms_hops :: "MatchHop list"
  ms_table :: bytes
  ms_column :: bytes
  ms_start_filter :: "bytes option"
  ms_returns :: "bytes list"
  ms_limit :: "u64 option"

record CreateTopicStmt =
  ct_name :: bytes
  ct_if_not_exists :: bool
  ct_options :: "(bytes \<times> bytes) list"

record CreateSequenceStmt =
  cs_if_not_exists :: bool
  cs_name :: bytes
  cs_start :: i64
  cs_increment :: i64

record CreateFunctionStmt =
  cf_name :: bytes
  cf_args :: "(bytes \<times> bytes) list"
  cf_return_type :: bytes
  cf_language :: bytes
  cf_body_base64 :: bytes

record CreateRoleStmt =
  cr_name :: bytes
  cr_superuser :: bool
  cr_can_login :: bool
  cr_password :: "bytes option"
  cr_in_role :: "bytes list"

record AlterRoleStmt =
  ar_name :: bytes
  ar_superuser :: "bool option"
  ar_can_login :: "bool option"
  ar_password :: "bytes option"

record DropRoleStmt =
  dr_if_exists :: bool
  dr_name :: bytes

datatype Privilege = PrivSelect | PrivInsert | PrivUpdate | PrivDelete | PrivCreate | PrivDrop | PrivUsage

datatype GrantObject = OnTable bytes | OnDatabase | OnTopic bytes

record GrantStmt =
  gs_is_role_grant :: bool
  gs_roles :: "bytes list"
  gs_privileges :: "Privilege list"
  gs_object :: GrantObject
  gs_grantees :: "bytes list"

type_synonym RevokeStmt = GrantStmt

record CopyStmt =
  cp_table :: bytes
  cp_columns :: "bytes list"

record DeclareCursorStmt =
  dc_name :: bytes
  dc_query :: SelectStmt

datatype FetchCount = FetchNext | FetchAll | FetchN i64

record FetchStmt =
  ft_cursor :: bytes
  ft_count :: FetchCount

record InsertStmt =
  ins_table :: bytes
  ins_columns :: "bytes list"
  ins_values :: "Expr list list"

record DeleteStmt =
  del_table :: bytes
  del_where :: "Expr option"

record UpdateStmt =
  upd_table :: bytes
  upd_assignments :: "(bytes \<times> Expr) list"
  upd_where :: "Expr option"

datatype TableConstraint = UniqueOf "bytes list" | ForeignKeyOf bytes bytes bytes

record ColumnSpec =
  co_name :: bytes
  co_type :: bytes
  co_nullable :: bool
  co_default :: "Expr option"
  co_is_pk :: bool
  co_is_unique :: bool
  co_references :: "(bytes \<times> bytes) option"
  co_is_serial :: bool

record CreateTableStmt =
  crt_table :: bytes
  crt_if_not_exists :: bool
  crt_columns :: "ColumnSpec list"
  crt_constraints :: "TableConstraint list"
  crt_options :: "(bytes \<times> bytes) list"

record DropTableStmt =
  dt_table :: bytes
  dt_if_exists :: bool

record DropIndexStmt =
  di_name :: bytes
  di_if_exists :: bool

record CreateIndexStmt =
  ci_table :: bytes
  ci_column :: bytes
  ci_if_not_exists :: bool
  ci_name :: "bytes option"
  ci_using :: "bytes option"
  ci_options :: "(bytes \<times> bytes) list"

datatype ColumnAction = SetDefault Expr | DropDefault | SetNotNull | DropNotNull

datatype AlterTableAction = AddColumn ColumnSpec | DropColumn bytes | AlterColumn bytes ColumnAction

record AlterTableStmt =
  at_table :: bytes
  at_action :: AlterTableAction

record SetStmt =
  set_name :: bytes
  set_value :: bytes

datatype (plugins only: size code) Stmt =
    SSelect SelectStmt
  | SInsert InsertStmt
  | SDelete DeleteStmt
  | SUpdate UpdateStmt
  | SCreateTable CreateTableStmt
  | SDropTable DropTableStmt
  | SDropIndex DropIndexStmt
  | SCreateIndex CreateIndexStmt
  | SAlterTable AlterTableStmt
  | SSet SetStmt
  | SShow bytes
  | SBegin
  | SCommit
  | SRollback
  | SDeclareCursor DeclareCursorStmt
  | SFetch FetchStmt
  | SMoveCursor FetchStmt
  | SCloseCursor bytes
  | SListen bytes
  | SNotify bytes "bytes option"
  | SUnlisten bytes
  | SCopyIn CopyStmt
  | SCopyOut CopyStmt
  | SCreateFunction CreateFunctionStmt
  | SCreateSequence CreateSequenceStmt
  | SCreateTopic CreateTopicStmt
  | SAnalyze "bytes option"
  | SMatch MatchStmt
  | SCreateRole CreateRoleStmt
  | SAlterRole AlterRoleStmt
  | SDropRole DropRoleStmt
  | SGrant GrantStmt
  | SRevoke RevokeStmt

end
