(* ===== verification/Rbac.thy ===== *)
theory Rbac
  imports Roles Ast
begin

text \<open>
  Authorization of statements, executor/rbac.rs, and of the bridges,
  wire/bridge_auth.rs: who an actor is, what a statement needs, and the role and
  privilege statements themselves.
\<close>

record Actor =
  ac_rolname :: bytes
  ac_superuser :: bool
  ac_unrestricted :: bool
  ac_memberships :: "bytes list"

datatype denial = SystemCatalog | RoleAdministration | NeedLiteral | NoCatalog | Lacks bytes PrivilegeRepr GrantObjectRepr

definition Actor_unrestricted :: Actor where
  "Actor_unrestricted = \<lparr>ac_rolname = [], ac_superuser = True, ac_unrestricted = True, ac_memberships = []\<rparr>"

definition Actor_for_role :: "'d engine_ops \<Rightarrow> bytes \<Rightarrow> 'd \<Rightarrow> (access_error, Actor) result \<times> 'd" where
  "Actor_for_role eo rolname d =
     and_step (RoleStore_new eo d) (\<lambda>_ d.
       case find_role eo rolname d of
         Inl e \<Rightarrow> (Err e, d)
       | Inr None \<Rightarrow> (Err (NoRole rolname), d)
       | Inr (Some attrs) \<Rightarrow>
           and_step (members_ensure eo d) (\<lambda>_ d.
             (and_then (all_memberships eo rolname d) (\<lambda>groups.
                Ok \<lparr>ac_rolname = rolname, ac_superuser = ra_superuser attrs, ac_unrestricted = False,
                    ac_memberships = groups\<rparr>), d)))"

definition require_privilege ::
  "'d engine_ops \<Rightarrow> Actor \<Rightarrow> PrivilegeRepr \<Rightarrow> GrantObjectRepr \<Rightarrow> 'd \<Rightarrow> (denial, unit) result \<times> 'd" where
  "require_privilege eo ac priv ob d =
     (case privileges_ensure eo d of
        (Inl e, d) \<Rightarrow> (Err NoCatalog, d)
      | (Inr _, d) \<Rightarrow>
          (case has_privilege eo (ac_rolname ac) priv ob d of
             (r, d) \<Rightarrow> (if or_else r False then Ok () else Err (Lacks (ac_rolname ac) priv ob), d)))"

definition check_topic_privilege ::
  "'d engine_ops \<Rightarrow> Actor \<Rightarrow> PrivilegeRepr \<Rightarrow> bytes \<Rightarrow> 'd \<Rightarrow> (denial, unit) result \<times> 'd" where
  "check_topic_privilege eo ac priv topic d =
     (if ac_unrestricted ac \<or> ac_superuser ac then (Ok (), d)
      else require_privilege eo ac priv (object_topic topic) d)"

subsection \<open>What a SELECT reads\<close>

text \<open>\<open>trim_start_matches(pat)\<close>: the pattern is removed as often as it stands at the front.\<close>

function trim_start_matches :: "bytes \<Rightarrow> bytes \<Rightarrow> bytes" where
  "trim_start_matches pat s =
     (if pat \<noteq> [] \<and> prefix pat s then trim_start_matches pat (drop (length pat) s) else s)"
  by pat_completeness auto
termination
  by (relation "measure (\<lambda>(pat, s). length s)") (auto simp: prefix_def)

declare trim_start_matches.simps [simp del]

definition push_ref :: "('e, 'q) TableRef \<Rightarrow> bytes list" where
  "push_ref r =
     (if tr_subquery r = None \<and> tr_func_args r = None
      then [trim_start_matches (ascii ''pg_catalog.'') (tr_name r)] else [])"

definition from_refs :: "('e, 'q) TableWithJoins \<Rightarrow> ('e, 'q) TableRef list" where
  "from_refs twj = twj_primary twj # map jn_table (twj_joins twj)"

definition collect_from :: "('e, 'q) TableWithJoins \<Rightarrow> bytes list" where
  "collect_from twj = concat (map push_ref (from_refs twj))"

definition option_list :: "'a option \<Rightarrow> 'a list" where
  "option_list x = (case x of None \<Rightarrow> [] | Some y \<Rightarrow> [y])"

text \<open>The parts of a SELECT that the collectors walk: the right side of a union, then the CTEs.\<close>

definition sub_selects :: "SelectStmt \<Rightarrow> SelectStmt list" where
  "sub_selects s = map snd (option_list (sel_union s)) @ map cte_subquery (sel_ctes s)"

lemma size_Cte: "size (cte_subquery c) < size_Cte size c"
  by (cases c) simp

lemma size_sub_selects: "q \<in> set (sub_selects s) \<Longrightarrow> size q < size s"
proof -
  assume "q \<in> set (sub_selects s)"
  then consider op where "sel_union s = Some (op, q)" | c where "c \<in> set (sel_ctes s)" "q = cte_subquery c"
    by (cases "sel_union s") (auto simp: sub_selects_def option_list_def)
  then show ?thesis
  proof cases
    case 1
    then show ?thesis by (cases s) simp
  next
    case 2
    then have "size q < size_list (size_Cte size) (sel_ctes s)"
      using size_Cte [of c] by (auto intro: size_list_estimation)
    then show ?thesis by (cases s) simp
  qed
qed

function collect_select :: "SelectStmt \<Rightarrow> bytes list" where
  "collect_select s =
     concat (map collect_from (option_list (sel_from s))) @ concat (map collect_select (sub_selects s))"
  by pat_completeness auto
termination
  by (relation "measure size") (auto simp: size_sub_selects)

declare collect_select.simps [simp del]

definition select_tables :: "SelectStmt \<Rightarrow> bytes list" where
  "select_tables s = concat (map collect_from (option_list (sel_from s))) @ collect_select s"

datatype FluxRef = RefTopic bytes | RefTable bytes | RefUnknown

definition to_ascii_lowercase :: "bytes \<Rightarrow> bytes" where
  "to_ascii_lowercase s = map (\<lambda>b. if 65 \<le> b \<and> b \<le> 90 then b + 32 else b) s"

definition first_literal :: "Expr list \<Rightarrow> bytes option" where
  "first_literal args = (case args of ELiteral (LText name) # _ \<Rightarrow> Some name | _ \<Rightarrow> None)"

definition flux_ref :: "(Expr, 'q) TableRef \<Rightarrow> FluxRef list" where
  "flux_ref r =
     (case tr_func_args r of
        None \<Rightarrow> []
      | Some args \<Rightarrow>
          let name = to_ascii_lowercase (tr_name r) in
          if \<not> prefix (ascii ''flux_'') name then []
          else [case first_literal args of
                  Some t \<Rightarrow> if name = ascii ''flux_time_travel'' then RefTable t else RefTopic t
                | None \<Rightarrow> RefUnknown])"

function collect_flux :: "SelectStmt \<Rightarrow> FluxRef list" where
  "collect_flux s =
     concat (map (\<lambda>twj. concat (map flux_ref (from_refs twj))) (option_list (sel_from s)))
     @ concat (map collect_flux (sub_selects s))"
  by pat_completeness auto
termination
  by (relation "measure size") (auto simp: size_sub_selects)

declare collect_flux.simps [simp del]

subsection \<open>What a statement needs\<close>

definition named_tables :: "Stmt \<Rightarrow> bytes list" where
  "named_tables stmt =
     (case stmt of
        SSelect s \<Rightarrow> select_tables s
      | SInsert i \<Rightarrow> [ins_table i]
      | SUpdate u \<Rightarrow> [upd_table u]
      | SDelete d \<Rightarrow> [del_table d]
      | SCreateTable c \<Rightarrow> [crt_table c]
      | SDropTable t \<Rightarrow> [dt_table t]
      | SCreateIndex c \<Rightarrow> [ci_table c]
      | _ \<Rightarrow> [])"

definition references_system_table :: "Stmt \<Rightarrow> bool" where
  "references_system_table stmt = list_ex is_internal_table (named_tables stmt)"

text \<open>The two loops of the SELECT arm: one privilege after the other, the first denial ends it.\<close>

fun require_each ::
  "'d engine_ops \<Rightarrow> Actor \<Rightarrow> PrivilegeRepr \<Rightarrow> GrantObjectRepr list \<Rightarrow> 'd \<Rightarrow> (denial, unit) result \<times> 'd" where
  "require_each eo ac priv [] d = (Ok (), d)"
| "require_each eo ac priv (ob # obs) d = and_step (require_privilege eo ac priv ob d) (\<lambda>_. require_each eo ac priv obs)"

fun require_flux :: "'d engine_ops \<Rightarrow> Actor \<Rightarrow> FluxRef list \<Rightarrow> 'd \<Rightarrow> (denial, unit) result \<times> 'd" where
  "require_flux eo ac [] d = (Ok (), d)"
| "require_flux eo ac (RefTopic t # refs) d =
     and_step (require_privilege eo ac Select (object_topic t) d) (\<lambda>_. require_flux eo ac refs)"
| "require_flux eo ac (RefTable t # refs) d =
     and_step (require_privilege eo ac Select (object_table t) d) (\<lambda>_. require_flux eo ac refs)"
| "require_flux eo ac (RefUnknown # refs) d = (Err NeedLiteral, d)"

fun check_arm :: "'d engine_ops \<Rightarrow> Actor \<Rightarrow> Stmt \<Rightarrow> 'd \<Rightarrow> (denial, unit) result \<times> 'd" where
  "check_arm eo ac (SCreateRole _) d = (Err RoleAdministration, d)"
| "check_arm eo ac (SAlterRole _) d = (Err RoleAdministration, d)"
| "check_arm eo ac (SDropRole _) d = (Err RoleAdministration, d)"
| "check_arm eo ac (SGrant _) d = (Err RoleAdministration, d)"
| "check_arm eo ac (SRevoke _) d = (Err RoleAdministration, d)"
| "check_arm eo ac (SCreateTable _) d = require_privilege eo ac Create object_database d"
| "check_arm eo ac (SCreateIndex _) d = require_privilege eo ac Create object_database d"
| "check_arm eo ac (SCreateFunction _) d = require_privilege eo ac Create object_database d"
| "check_arm eo ac (SCreateSequence _) d = require_privilege eo ac Create object_database d"
| "check_arm eo ac (SCreateTopic _) d = require_privilege eo ac Create object_database d"
| "check_arm eo ac (SAlterTable _) d = require_privilege eo ac Create object_database d"
| "check_arm eo ac (SAnalyze _) d = require_privilege eo ac Create object_database d"
| "check_arm eo ac (SDropTable _) d = require_privilege eo ac Drop object_database d"
| "check_arm eo ac (SDropIndex _) d = require_privilege eo ac Drop object_database d"
| "check_arm eo ac (SSelect s) d =
     and_step (require_each eo ac Select (map object_table (select_tables s)) d) (\<lambda>_. require_flux eo ac (collect_flux s))"
| "check_arm eo ac (SInsert i) d = require_privilege eo ac Insert (object_table (ins_table i)) d"
| "check_arm eo ac (SUpdate u) d = require_privilege eo ac Update (object_table (upd_table u)) d"
| "check_arm eo ac (SDelete x) d = require_privilege eo ac Delete (object_table (del_table x)) d"
| "check_arm eo ac _ d = (Ok (), d)"

definition check_stmt :: "'d engine_ops \<Rightarrow> Actor \<Rightarrow> Stmt \<Rightarrow> 'd \<Rightarrow> (denial, unit) result \<times> 'd" where
  "check_stmt eo ac stmt d =
     (if ac_unrestricted ac \<or> ac_superuser ac then (Ok (), d)
      else if references_system_table stmt then (Err SystemCatalog, d)
      else check_arm eo ac stmt d)"

subsection \<open>The role and privilege statements\<close>

fun repr_of :: "Privilege \<Rightarrow> PrivilegeRepr" where
  "repr_of PrivSelect = Select"
| "repr_of PrivInsert = Insert"
| "repr_of PrivUpdate = Update"
| "repr_of PrivDelete = Delete"
| "repr_of PrivCreate = Create"
| "repr_of PrivDrop = Drop"
| "repr_of PrivUsage = Usage"

fun object_of :: "GrantObject \<Rightarrow> GrantObjectRepr" where
  "object_of (OnTable t) = object_table t"
| "object_of OnDatabase = object_database"
| "object_of (OnTopic t) = object_topic t"

text \<open>Two nested loops over the statement's lists, the second list innermost.\<close>

fun for_pairs :: "('x \<times> 'y \<Rightarrow> 'd \<Rightarrow> (access_error, unit) result \<times> 'd) \<Rightarrow> ('x \<times> 'y) list \<Rightarrow> 'd \<Rightarrow> (access_error, unit) result \<times> 'd" where
  "for_pairs f [] d = (Ok (), d)"
| "for_pairs f (p # ps) d = and_step (f p d) (\<lambda>_. for_pairs f ps)"

definition execute_create_role ::
  "'d engine_ops \<Rightarrow> crypto_ops \<Rightarrow> bytes \<Rightarrow> i64 \<Rightarrow> CreateRoleStmt \<Rightarrow> 'd \<Rightarrow> (access_error, unit) result \<times> 'd" where
  "execute_create_role eo co salt now_ms stmt d =
     and_step (RoleStore_new eo d) (\<lambda>_.
       create_role eo co salt now_ms (cr_name stmt) (cr_superuser stmt) (cr_can_login stmt) (cr_password stmt) (cr_in_role stmt))"

definition execute_alter_role ::
  "'d engine_ops \<Rightarrow> crypto_ops \<Rightarrow> bytes \<Rightarrow> i64 \<Rightarrow> AlterRoleStmt \<Rightarrow> 'd \<Rightarrow> (access_error, unit) result \<times> 'd" where
  "execute_alter_role eo co salt now_ms stmt d =
     and_step (RoleStore_new eo d) (\<lambda>_.
       alter_role eo co salt now_ms (ar_name stmt) (ar_superuser stmt) (ar_can_login stmt) (ar_password stmt))"

definition execute_drop_role :: "'d engine_ops \<Rightarrow> DropRoleStmt \<Rightarrow> 'd \<Rightarrow> (access_error, unit) result \<times> 'd" where
  "execute_drop_role eo stmt d =
     and_step (RoleStore_new eo d) (\<lambda>_. drop_role eo (dr_name stmt) (dr_if_exists stmt))"

definition execute_grant :: "'d engine_ops \<Rightarrow> GrantStmt \<Rightarrow> 'd \<Rightarrow> (access_error, unit) result \<times> 'd" where
  "execute_grant eo stmt d =
     (if gs_is_role_grant stmt then
        and_step (members_ensure eo d) (\<lambda>_.
          for_pairs (\<lambda>(role, grantee). grant_membership eo grantee role) (List.product (gs_roles stmt) (gs_grantees stmt)))
      else
        and_step (privileges_ensure eo d) (\<lambda>_.
          for_pairs (\<lambda>(p, grantee). grant_privilege eo grantee (repr_of p) (object_of (gs_object stmt)))
            (List.product (gs_privileges stmt) (gs_grantees stmt))))"

definition execute_revoke :: "'d engine_ops \<Rightarrow> RevokeStmt \<Rightarrow> 'd \<Rightarrow> (access_error, unit) result \<times> 'd" where
  "execute_revoke eo stmt d =
     (if gs_is_role_grant stmt then
        and_step (members_ensure eo d) (\<lambda>_.
          for_pairs (\<lambda>(role, grantee). revoke_membership eo grantee role) (List.product (gs_roles stmt) (gs_grantees stmt)))
      else
        and_step (privileges_ensure eo d) (\<lambda>_.
          for_pairs (\<lambda>(p, grantee). revoke_privilege eo grantee (repr_of p) (object_of (gs_object stmt)))
            (List.product (gs_privileges stmt) (gs_grantees stmt))))"

subsection \<open>The bridges\<close>

text \<open>\<open>split_once(c)\<close>.\<close>

definition split_once :: "u8 \<Rightarrow> bytes \<Rightarrow> (bytes \<times> bytes) option" where
  "split_once c s = map_option (\<lambda>i. (take i s, drop (Suc i) s)) (position (\<lambda>b. b = c) s)"

text \<open>\<open>trim\<close> is the standard library's removal of Unicode whitespace, an argument.\<close>

definition parse_basic_auth :: "crypto_ops \<Rightarrow> (bytes \<Rightarrow> bytes) \<Rightarrow> bytes option \<Rightarrow> (bytes \<times> bytes) option" where
  "parse_basic_auth co trim header =
     Option.bind header (\<lambda>h.
     Option.bind (split_once 32 h) (\<lambda>(scheme, rest).
       if to_ascii_lowercase scheme \<noteq> ascii ''basic'' then None
       else Option.bind (b64_decode co (trim rest)) (\<lambda>decoded.
         if valid_utf8 decoded then split_once 58 decoded else None)))"

definition authenticate_actor ::
  "'d engine_ops \<Rightarrow> crypto_ops \<Rightarrow> (bytes \<Rightarrow> bytes) \<Rightarrow> bytes option \<Rightarrow> 'd \<Rightarrow> (access_error, Actor) result \<times> 'd" where
  "authenticate_actor eo co trim authorization d =
     (case roles_is_empty eo d of
        Inl e \<Rightarrow> (Err e, d)
      | Inr none_yet \<Rightarrow>
          if none_yet then (Ok Actor_unrestricted, d)
          else case parse_basic_auth co trim authorization of
            None \<Rightarrow> (Err BadAuthHeader, d)
          | Some (user, pass) \<Rightarrow>
              (case find_role eo user d of
                 Inl e \<Rightarrow> (Err e, d)
               | Inr None \<Rightarrow> (Err (NoRole user), d)
               | Inr (Some attrs) \<Rightarrow>
                   if \<not> ra_can_login attrs then (Err (NoLogin user), d)
                   else case verify_password eo co user pass d of
                     Inl e \<Rightarrow> (Err e, d)
                   | Inr ok \<Rightarrow> if \<not> ok then (Err (PasswordFailed user), d) else Actor_for_role eo user d))"

definition actor_for_mcp :: "'d engine_ops \<Rightarrow> bytes option \<Rightarrow> 'd \<Rightarrow> (access_error, Actor) result \<times> 'd" where
  "actor_for_mcp eo token d =
     (case roles_is_empty eo d of
        Inl e \<Rightarrow> (Err e, d)
      | Inr none_yet \<Rightarrow>
          if none_yet then (Ok Actor_unrestricted, d)
          else if token \<noteq> None then
            (case db_scan_roles eo d of
               Inl e \<Rightarrow> (Err e, d)
             | Inr roles \<Rightarrow>
                 (case List.find (\<lambda>(name, attrs). ra_superuser attrs) roles of
                    Some (name, _) \<Rightarrow> Actor_for_role eo name d
                  | None \<Rightarrow> (Err NoSuperuser, d)))
          else (Err NoTokenGate, d))"

end
