(* ===== verification/AccessRows.thy ===== *)
theory AccessRows
  imports RowStore Rbac
begin

text \<open>
  What the rows of the access-control catalogs say: the membership graph, the grants
  and the roles that a database holds, and how the readers of the catalogs find
  them.
\<close>

type_synonym members = "(bytes \<times> bytes) set"
type_synonym grants = "(bytes \<times> PrivilegeRepr \<times> GrantObjectRepr) set"
type_synonym role_table = "bytes \<Rightarrow> RoleAttributes option"

definition role_name :: "bytes \<Rightarrow> bool" where
  "role_name n \<longleftrightarrow> valid_utf8 n \<and> 0 \<notin> set n \<and> length n < 2 ^ 28"

definition object_ok :: "GrantObjectRepr \<Rightarrow> bool" where
  "object_ok ob \<longleftrightarrow> ob = object_database
     \<or> (\<exists>t. valid_utf8 t \<and> length t < 2 ^ 28 \<and> (ob = object_table t \<or> ob = object_topic t))"

text \<open>The table \<open>t\<close> has exactly one row for each element of \<open>S\<close>.\<close>

definition table_holds :: "rows \<Rightarrow> bytes \<Rightarrow> ('x \<Rightarrow> bytes) \<Rightarrow> ('x \<Rightarrow> bytes) \<Rightarrow> 'x set \<Rightarrow> bool" where
  "table_holds rows t key row S \<longleftrightarrow> inj_on key S \<and>
     (\<forall>k v. rows (t, k) = Some v \<longleftrightarrow> (\<exists>x \<in> S. k = key x \<and> v = row x))"

fun edge_key :: "bytes \<times> bytes \<Rightarrow> bytes" where
  "edge_key (m, g) = member_key m g"

fun edge_row :: "bytes \<times> bytes \<Rightarrow> bytes" where
  "edge_row (m, g) = member_row m g"

fun edge_ok :: "bytes \<times> bytes \<Rightarrow> bool" where
  "edge_ok (m, g) \<longleftrightarrow> role_name m \<and> role_name g"

definition members_hold :: "rows \<Rightarrow> members \<Rightarrow> bool" where
  "members_hold rows E \<longleftrightarrow> (\<forall>e \<in> E. edge_ok e) \<and> table_holds rows MEMBERS edge_key edge_row E"

fun held_key :: "bytes \<times> PrivilegeRepr \<times> GrantObjectRepr \<Rightarrow> bytes" where
  "held_key (r, p, ob) = grant_key r (as_str p) (go_kind ob) (go_name ob)"

fun held_row :: "bytes \<times> PrivilegeRepr \<times> GrantObjectRepr \<Rightarrow> bytes" where
  "held_row (r, p, ob) = grant_row r p ob"

fun held_ok :: "bytes \<times> PrivilegeRepr \<times> GrantObjectRepr \<Rightarrow> bool" where
  "held_ok (r, p, ob) \<longleftrightarrow> role_name r \<and> object_ok ob"

definition grants_hold :: "rows \<Rightarrow> grants \<Rightarrow> bool" where
  "grants_hold rows G \<longleftrightarrow> (\<forall>h \<in> G. held_ok h) \<and> table_holds rows PRIVILEGES held_key held_row G"

definition roles_hold :: "rows \<Rightarrow> role_table \<Rightarrow> bool" where
  "roles_hold rows R \<longleftrightarrow> (\<forall>k. map_option attributes_of (rows (ROLES, k)) = R k)"

subsection \<open>Names and keys\<close>

lemma catalog_names [simp]: "table_name MEMBERS" "table_name PRIVILEGES" "table_name ROLES"
    "MEMBERS \<noteq> PRIVILEGES" "MEMBERS \<noteq> ROLES" "PRIVILEGES \<noteq> ROLES"
    "PRIVILEGES \<noteq> MEMBERS" "ROLES \<noteq> MEMBERS" "ROLES \<noteq> PRIVILEGES"
  by (simp_all add: table_name_def MEMBERS_def PRIVILEGES_def ROLES_def ascii_def valid_utf8_ascii)

lemma zero_split:
  assumes "0 \<notin> set xs" and "0 \<notin> set ys"
  shows "xs @ 0 # as = ys @ 0 # bs \<longleftrightarrow> xs = ys \<and> as = (bs :: bytes)"
  using assms
proof (induction xs arbitrary: ys)
  case Nil
  then show ?case by (cases ys) auto
next
  case (Cons x xs)
  then show ?case by (cases ys) auto
qed

lemma as_str_plain [simp]: "0 \<notin> set (as_str p)" "valid_utf8 (as_str p)"
  by (cases p; simp add: ascii_def valid_utf8_ascii)+

lemma length_as_str: "length (as_str p) < 16"
  by (cases p) (simp_all add: ascii_def)

lemmas object_defs = object_table_def object_topic_def object_database_def

lemma object_ok_plain:
  assumes "object_ok ob"
  shows "0 \<notin> set (go_kind ob)" "valid_utf8 (go_kind ob)" "valid_utf8 (go_name ob)" "length (go_kind ob) < 16" "length (go_name ob) < 2 ^ 28"
  using assms by (auto simp: object_ok_def object_defs ascii_def valid_utf8_ascii)

lemma member_key_eq:
  "role_name m \<Longrightarrow> role_name m' \<Longrightarrow> member_key m g = member_key m' g' \<longleftrightarrow> m = m' \<and> g = g'"
  by (simp add: member_key_def role_name_def zero_split)

lemma grant_key_eq:
  assumes "role_name r" "role_name r'" "object_ok ob" "object_ok ob'"
  shows "grant_key r (as_str p) (go_kind ob) (go_name ob) = grant_key r' (as_str p') (go_kind ob') (go_name ob')
    \<longleftrightarrow> r = r' \<and> p = p' \<and> ob = ob'"
  using assms object_ok_plain(1) [OF assms(3)] object_ok_plain(1) [OF assms(4)]
  by (auto simp: grant_key_def role_name_def zero_split intro: GrantObjectRepr.equality)

subsection \<open>Cells of the rows\<close>

lemma cell_str_encode:
  assumes "list_all cell_fits cells" and "i < length cells" and "cells ! i = Some b" and "valid_utf8 b"
  shows "cell_str (encode_cells cells) i = Ok b"
  using assms by (simp add: cell_str_def cell_text_def decode_encode_cells)

lemma lossy_fits: "3 * length bs < 2 ^ 31 \<Longrightarrow> cell_fits (Some (from_utf8_lossy bs))"
  using length_from_utf8_lossy [of bs] by (simp add: cell_fits_def)

lemma member_row_cells:
  assumes "role_name m" and "role_name g"
  shows "cell_str (member_row m g) (Suc 0) = Ok m" "cell_str (member_row m g) 2 = Ok g"
proof -
  have "cell_fits (Some (from_utf8_lossy (member_key m g)))"
    using assms by (intro lossy_fits) (simp add: member_key_def role_name_def)
  then have "list_all cell_fits [text_cell (from_utf8_lossy (member_key m g)), text_cell m, text_cell g]"
    using assms by (simp add: text_cell_def cell_fits_def role_name_def)
  from cell_str_encode [OF this, of 1 m] cell_str_encode [OF this, of 2 g] assms
  show "cell_str (member_row m g) (Suc 0) = Ok m" "cell_str (member_row m g) 2 = Ok g"
    by (simp_all add: member_row_def text_cell_def role_name_def)
qed

lemma grant_row_cells:
  assumes "role_name r" and "object_ok ob"
  shows "cell_str (grant_row r p ob) (Suc 0) = Ok r" "cell_str (grant_row r p ob) 2 = Ok (as_str p)"
    "cell_str (grant_row r p ob) 3 = Ok (go_kind ob)" "cell_str (grant_row r p ob) 4 = Ok (go_name ob)"
proof -
  let ?cells = "[text_cell (from_utf8_lossy (grant_key r (as_str p) (go_kind ob) (go_name ob))), text_cell r,
    text_cell (as_str p), text_cell (go_kind ob), text_cell (go_name ob)]"
  note ob = object_ok_plain [OF assms(2)]
  have "cell_fits (Some (from_utf8_lossy (grant_key r (as_str p) (go_kind ob) (go_name ob))))"
    using assms ob length_as_str [of p] by (intro lossy_fits) (simp add: grant_key_def role_name_def)
  then have fits: "list_all cell_fits ?cells"
    using assms ob length_as_str [of p] by (simp add: text_cell_def cell_fits_def role_name_def)
  note cells = cell_str_encode [OF fits]
  show "cell_str (grant_row r p ob) (Suc 0) = Ok r" "cell_str (grant_row r p ob) 2 = Ok (as_str p)"
    "cell_str (grant_row r p ob) 3 = Ok (go_kind ob)" "cell_str (grant_row r p ob) 4 = Ok (go_name ob)"
    using cells [of 1 r] cells [of 2 "as_str p"] cells [of 3 "go_kind ob"] cells [of 4 "go_name ob"] assms ob
    by (simp_all add: grant_row_def text_cell_def role_name_def)
qed

subsection \<open>Reading the catalogs\<close>

lemma listed_rows:
  assumes "table_holds rows t key row S" and "lists_table rows t kvs"
  shows "(\<lambda>kv. (kv_key kv, kv_value kv)) ` set kvs = (\<lambda>x. (key x, row x)) ` S"
proof -
  have kv: "(k, v) \<in> (\<lambda>kv. (kv_key kv, kv_value kv)) ` set kvs \<longleftrightarrow> \<lparr>kv_key = k, kv_value = v\<rparr> \<in> set kvs" for k v
  proof
    assume "(k, v) \<in> (\<lambda>kv. (kv_key kv, kv_value kv)) ` set kvs"
    then obtain kv where "kv \<in> set kvs" "k = kv_key kv" "v = kv_value kv" by blast
    moreover have "\<lparr>kv_key = kv_key kv, kv_value = kv_value kv\<rparr> = kv" by (cases kv) simp
    ultimately show "\<lparr>kv_key = k, kv_value = v\<rparr> \<in> set kvs" by metis
  next
    assume "\<lparr>kv_key = k, kv_value = v\<rparr> \<in> set kvs"
    then show "(k, v) \<in> (\<lambda>kv. (kv_key kv, kv_value kv)) ` set kvs" by (intro image_eqI) auto
  qed
  have "(k, v) \<in> (\<lambda>kv. (kv_key kv, kv_value kv)) ` set kvs \<longleftrightarrow> (k, v) \<in> (\<lambda>x. (key x, row x)) ` S" for k v
    unfolding kv using assms unfolding lists_table_def table_holds_def by blast
  then show ?thesis by (simp only: set_eq_iff split_paired_All) blast
qed

lemma listed_row:
  assumes "table_holds rows t key row S" and "lists_table rows t kvs" and "kv \<in> set kvs"
  shows "\<exists>x \<in> S. kv_key kv = key x \<and> kv_value kv = row x"
  using imageI [OF assms(3), of "\<lambda>kv. (kv_key kv, kv_value kv)"] unfolding listed_rows [OF assms(1,2)] by blast

lemma row_listed:
  assumes "table_holds rows t key row S" and "lists_table rows t kvs" and "x \<in> S"
  shows "\<exists>kv \<in> set kvs. kv_key kv = key x \<and> kv_value kv = row x"
  using imageI [OF assms(3), of "\<lambda>x. (key x, row x)"] unfolding listed_rows [OF assms(1,2), symmetric] by auto

lemma direct_groups_map:
  assumes "\<forall>kv \<in> set kvs. cell_str (kv_value kv) 1 = Ok (fst (f kv)) \<and> cell_str (kv_value kv) 2 = Ok (snd (f kv))"
  shows "direct_groups role kvs = Ok (map (snd \<circ> f) (filter (\<lambda>kv. fst (f kv) = role) kvs))"
  using assms by (induction kvs) auto

lemma touching_map:
  assumes "\<forall>kv \<in> set kvs. cell_str (kv_value kv) 1 = Ok (fst (f kv)) \<and> cell_str (kv_value kv) 2 = Ok (snd (f kv))"
  shows "touching role kvs = Ok (map kv_key (filter (\<lambda>kv. fst (f kv) = role \<or> snd (f kv) = role) kvs))"
  using assms by (induction kvs) auto

definition edge_of :: "KeyValue \<Rightarrow> bytes \<times> bytes" where
  "edge_of kv = (projr (cell_str (kv_value kv) 1), projr (cell_str (kv_value kv) 2))"

lemma member_rows:
  assumes "members_hold rows E" and "lists_table rows MEMBERS kvs"
  shows "\<forall>kv \<in> set kvs. cell_str (kv_value kv) 1 = Ok (fst (edge_of kv)) \<and> cell_str (kv_value kv) 2 = Ok (snd (edge_of kv))
      \<and> kv_key kv = edge_key (edge_of kv)"
    and "edge_of ` set kvs = E"
proof -
  note T = assms(1) [unfolded members_hold_def, THEN conjunct2] assms(2)
  have edge: "cell_str (kv_value kv) 1 = Ok (fst e) \<and> cell_str (kv_value kv) 2 = Ok (snd e) \<and> edge_of kv = e"
    if "e \<in> E" "kv_value kv = edge_row e" for kv e
    using that assms(1) member_row_cells [of "fst e" "snd e"]
    by (cases e) (auto simp: members_hold_def edge_of_def)
  have at: "edge_of kv \<in> E \<and> kv_key kv = edge_key (edge_of kv) \<and> kv_value kv = edge_row (edge_of kv)" if kv: "kv \<in> set kvs" for kv
    using listed_row [OF T kv] edge by metis
  show "\<forall>kv \<in> set kvs. cell_str (kv_value kv) 1 = Ok (fst (edge_of kv)) \<and> cell_str (kv_value kv) 2 = Ok (snd (edge_of kv))
      \<and> kv_key kv = edge_key (edge_of kv)"
    using at edge by blast
  show "edge_of ` set kvs = E"
    using at edge row_listed [OF T] by (metis image_eqI image_subsetI subsetI subset_antisym)
qed

lemma direct_groups_edges:
  assumes "members_hold rows E" and "lists_table rows MEMBERS kvs"
  shows "\<exists>gs. direct_groups role kvs = Ok gs \<and> set gs = E `` {role}"
proof -
  have "(snd \<circ> edge_of) ` {kv \<in> set kvs. fst (edge_of kv) = role} = (edge_of ` set kvs) `` {role}"
    by (auto simp: image_iff) (metis fst_conv snd_conv)
  then show ?thesis
    using member_rows [OF assms] direct_groups_map [of kvs edge_of role] by simp
qed

subsection \<open>The walk\<close>

lemma visit_sets:
  "visit gs (f, r) = (f', r') \<Longrightarrow> set r' = set r \<union> set gs \<and> set f' = set f \<union> (set gs - set r)"
  by (induction gs "(f, r)" arbitrary: f r rule: visit.induct) (auto split: if_splits)

text \<open>
  What holds in every round: groups found are reachable, and the groups of every
  visited role that is not on the stack are found.
\<close>

definition walk_inv :: "members \<Rightarrow> bytes \<Rightarrow> bytes list \<Rightarrow> bytes list \<Rightarrow> bool" where
  "walk_inv E role frontier result \<longleftrightarrow>
     set result \<subseteq> E\<^sup>+ `` {role} \<and> set frontier \<subseteq> insert role (set result) \<and>
     (\<forall>x \<in> insert role (set result). x \<in> set frontier \<or> E `` {x} \<subseteq> set result)"

lemma walk_inv_step:
  assumes "walk_inv E role (current # frontier) result" and "set gs = E `` {current}"
    and "visit gs (frontier, result) = (f, r)"
  shows "walk_inv E role f r"
proof -
  note v = visit_sets [OF assms(3)]
  have "E `` {current} \<subseteq> E\<^sup>+ `` {role}"
    using assms(1) unfolding walk_inv_def by (auto intro: trancl.intros)
  then show ?thesis using assms(1,2) v unfolding walk_inv_def by auto
qed

lemma walk_reaches:
  "(\<And>x. \<exists>gs. direct_groups x kvs = Ok gs \<and> set gs = E `` {x}) \<Longrightarrow> walk_inv E role frontier result \<Longrightarrow>
   \<exists>gs. walk kvs frontier result = Ok gs \<and> set gs = E\<^sup>+ `` {role}"
proof (induction kvs frontier result rule: walk.induct)
  case (1 kvs result)
  have "y \<in> set result" if "(role, y) \<in> E\<^sup>+" for y
    using that 1(2) by (induction rule: trancl_induct) (auto simp: walk_inv_def)
  then show ?case using 1(2) by (auto simp: walk_inv_def)
next
  case (2 kvs current frontier result)
  obtain gs where gs: "direct_groups current kvs = Ok gs" "set gs = E `` {current}" using "2.prems"(1) by blast
  obtain f r where v: "visit gs (frontier, result) = (f, r)" by fastforce
  have "walk_inv E role f r" using walk_inv_step [OF "2.prems"(2) gs(2) v] .
  then show ?case using "2.IH" [OF gs(1) v [symmetric] "2.prems"(1)] gs(1) v by simp
qed

subsection \<open>Grants\<close>

lemma grant_row_eq:
  assumes "role_name r" "role_name r'" "object_ok ob" "object_ok ob'"
  shows "grant_row r p ob = grant_row r' p' ob' \<longleftrightarrow> r = r' \<and> p = p' \<and> ob = ob'"
proof
  assume eq: "grant_row r p ob = grant_row r' p' ob'"
  show "r = r' \<and> p = p' \<and> ob = ob'"
    using grant_row_cells [OF assms(1,3), of p] grant_row_cells [OF assms(2,4), of p'] unfolding eq
    by (auto intro: GrantObjectRepr.equality)
qed simp

lemma holds_directly_rows:
  assumes "\<forall>kv \<in> set kvs. \<exists>r p ob'. role_name r \<and> object_ok ob' \<and> kv_value kv = grant_row r p ob'"
    and "role_name cand" and "object_ok ob"
  shows "holds_directly cand priv ob kvs = Ok (\<exists>kv \<in> set kvs. \<exists>p. kv_value kv = grant_row cand p ob \<and> (p = All \<or> p = priv))"
  using assms(1)
proof (induction kvs)
  case (Cons kv kvs)
  then obtain r p ob' where r: "role_name r" "object_ok ob'" "kv_value kv = grant_row r p ob'" by auto
  let ?hit = "r = cand \<and> ob' = ob \<and> (p = All \<or> p = priv)"
  have eq: "ob' = ob \<longleftrightarrow> go_kind ob' = go_kind ob \<and> go_name ob' = go_name ob" by auto
  have "holds_directly cand priv ob (kv # kvs) = (if ?hit then Ok True else holds_directly cand priv ob kvs)"
    using grant_row_cells [OF r(1,2), of p] r(3) by (cases "r = cand") (auto simp: eq simp del: as_str.simps)
  moreover have "(\<exists>q. kv_value kv = grant_row cand q ob \<and> (q = All \<or> q = priv)) \<longleftrightarrow> ?hit"
    using grant_row_eq [OF r(1) assms(2) r(2) assms(3), of p] r(3) by auto
  moreover have "holds_directly cand priv ob kvs = Ok (\<exists>kv \<in> set kvs. \<exists>p. kv_value kv = grant_row cand p ob \<and> (p = All \<or> p = priv))"
    using Cons by simp
  ultimately show ?case by (cases ?hit) (auto simp del: holds_directly.simps)
qed simp

lemma holds_directly_grants:
  assumes "grants_hold rows G" and "lists_table rows PRIVILEGES kvs" and "role_name cand" and "object_ok ob"
  shows "holds_directly cand priv ob kvs = Ok ((cand, All, ob) \<in> G \<or> (cand, priv, ob) \<in> G)"
proof -
  note T = assms(1) [unfolded grants_hold_def, THEN conjunct2] assms(2)
  have row: "\<exists>r p ob'. (r, p, ob') \<in> G \<and> kv_value kv = grant_row r p ob'" if kv: "kv \<in> set kvs" for kv
    using listed_row [OF T kv] by (metis held_row.simps prod_cases3)
  have ok: "role_name r \<and> object_ok ob'" if "(r, p, ob') \<in> G" for r p ob'
    using that assms(1) unfolding grants_hold_def by (metis held_ok.simps)
  have "(\<exists>kv \<in> set kvs. kv_value kv = grant_row cand p ob) \<longleftrightarrow> (cand, p, ob) \<in> G" for p
  proof
    assume "\<exists>kv \<in> set kvs. kv_value kv = grant_row cand p ob"
    then obtain r p' ob' where "(r, p', ob') \<in> G" "grant_row r p' ob' = grant_row cand p ob" using row by metis
    then show "(cand, p, ob) \<in> G" using grant_row_eq [of r cand ob' ob p' p] ok assms(3,4) by metis
  next
    assume "(cand, p, ob) \<in> G"
    from row_listed [OF T this] show "\<exists>kv \<in> set kvs. kv_value kv = grant_row cand p ob" by auto
  qed
  moreover have "\<forall>kv \<in> set kvs. \<exists>r p ob'. role_name r \<and> object_ok ob' \<and> kv_value kv = grant_row r p ob'"
    using row ok by meson
  moreover have "(\<exists>kv \<in> set kvs. \<exists>p. kv_value kv = grant_row cand p ob \<and> (p = All \<or> p = priv))
      \<longleftrightarrow> (\<exists>kv \<in> set kvs. kv_value kv = grant_row cand All ob) \<or> (\<exists>kv \<in> set kvs. kv_value kv = grant_row cand priv ob)"
    by blast
  ultimately show ?thesis using holds_directly_rows [OF _ assms(3,4), of kvs priv] by simp
qed

subsection \<open>Changing the catalogs\<close>

lemma table_holds_other:
  "t \<noteq> t' \<Longrightarrow> table_holds (rows((t, k) := w)) t' key row S = table_holds rows t' key row S"
  by (simp add: table_holds_def)

lemma hold_other [simp]:
  "t \<noteq> MEMBERS \<Longrightarrow> members_hold (rows((t, k) := w)) E = members_hold rows E"
  "t \<noteq> PRIVILEGES \<Longrightarrow> grants_hold (rows((t, k) := w)) G = grants_hold rows G"
  "t \<noteq> ROLES \<Longrightarrow> roles_hold (rows((t, k) := w)) R = roles_hold rows R"
  by (simp_all add: members_hold_def grants_hold_def roles_hold_def table_holds_other)

lemma table_holds_put:
  assumes "table_holds rows t key row S" and "inj_on key (insert x S)"
  shows "table_holds (rows((t, key x) := Some (row x))) t key row (insert x S)"
proof -
  have "(rows((t, key x) := Some (row x))) (t, k) = Some v \<longleftrightarrow> (\<exists>y \<in> insert x S. k = key y \<and> v = row y)" for k v
  proof (cases "k = key x")
    case True
    then have "k = key y \<longleftrightarrow> y = x" if "y \<in> insert x S" for y
      using inj_on_eq_iff [OF assms(2) that, of x] by auto
    then show ?thesis using True by auto
  next
    case False
    then show ?thesis using assms(1) by (simp add: table_holds_def)
  qed
  then show ?thesis using assms(2) by (simp only: table_holds_def) blast
qed

lemma table_holds_drop:
  assumes "table_holds rows t key row S" and "F \<subseteq> S"
    and "\<And>k. rows' (t, k) = (if k \<in> key ` F then None else rows (t, k))"
  shows "table_holds rows' t key row (S - F)"
proof -
  have inj: "inj_on key S" using assms(1) by (simp add: table_holds_def)
  have "key x \<in> key ` F \<longleftrightarrow> x \<in> F" if "x \<in> S" for x
    using inj_on_image_mem_iff [OF inj that assms(2)] .
  then have "rows' (t, k) = Some v \<longleftrightarrow> (\<exists>x \<in> S - F. k = key x \<and> v = row x)" for k v
    using assms(1,3) unfolding table_holds_def by (metis Diff_iff option.distinct(1))
  then show ?thesis using inj_on_diff [OF inj] by (simp add: table_holds_def)
qed

lemma table_holds_remove:
  assumes "table_holds rows t key row S" and "inj_on key (insert x S)"
  shows "table_holds (rows((t, key x) := None)) t key row (S - {x})"
proof -
  have "rows (t, key x) = None" if "x \<notin> S"
    using that assms inj_onD [OF assms(2)] unfolding table_holds_def by (metis insertCI not_Some_eq)
  then have "(rows((t, key x) := None)) (t, k) = (if k \<in> key ` ({x} \<inter> S) then None else rows (t, k))" for k
    by (cases "x \<in> S") auto
  from table_holds_drop [OF assms(1) Int_lower2, of "rows((t, key x) := None)", OF this]
  show ?thesis by (simp add: Diff_Int_distrib2 Diff_Int)
qed

lemma inj_edge_key: "\<forall>e \<in> E. edge_ok e \<Longrightarrow> inj_on edge_key E"
proof (rule inj_onI, clarify)
  fix m g m' g'
  assume "\<forall>e \<in> E. edge_ok e" "(m, g) \<in> E" "(m', g') \<in> E" "edge_key (m, g) = edge_key (m', g')"
  moreover from this(1-3) have "edge_ok (m, g)" "edge_ok (m', g')" by blast+
  ultimately show "m = m' \<and> g = g'" using member_key_eq [of m m' g g'] by simp
qed

lemma inj_held_key: "\<forall>h \<in> G. held_ok h \<Longrightarrow> inj_on held_key G"
proof (rule inj_onI)
  fix x y assume "\<forall>h \<in> G. held_ok h" "x \<in> G" "y \<in> G" and eq: "held_key x = held_key y"
  moreover from this(1-3) have ok: "held_ok x" "held_ok y" by blast+
  moreover obtain r p ob where x: "x = (r, p, ob)" by (rule prod_cases3)
  moreover obtain r' p' ob' where y: "y = (r', p', ob')" by (rule prod_cases3)
  ultimately show "x = y" using grant_key_eq [of r r' ob ob' p p'] by simp
qed

end
