(* ===== verification/AccessRuns.thy ===== *)
theory AccessRuns
  imports AccessRows
begin

text \<open>
  The access-control catalogs as one object: the operations on roles, memberships
  and privileges, an abstract specification of them on a graph and a relation, and
  the simulation, proved for every row store.
\<close>

subsection \<open>Operations\<close>

datatype access_op =
    OpCreate bytes bool bool "bytes option" bytes i64 "bytes list"
  | OpDrop bytes bool
  | OpJoin bytes bytes
  | OpLeave bytes bytes
  | OpGrant bytes PrivilegeRepr GrantObjectRepr
  | OpRevoke bytes PrivilegeRepr GrantObjectRepr
  | OpAsk bytes PrivilegeRepr GrantObjectRepr

type_synonym answer = "(access_error, bool) result"

definition done_as :: "(access_error, unit) result \<times> 'd \<Rightarrow> answer \<times> 'd" where
  "done_as p = (and_then (fst p) (\<lambda>_. Ok True), snd p)"

lemma done_as_simps [simp]: "done_as (Inr (), d) = (Ok True, d)" "done_as (Inl e, d) = (Err e, d)"
  by (simp_all add: done_as_def)

fun access_exec :: "'d engine_ops \<Rightarrow> crypto_ops \<Rightarrow> access_op \<Rightarrow> 'd \<Rightarrow> answer \<times> 'd" where
  "access_exec eo co (OpCreate name su login pw salt now groups) d =
     done_as (create_role eo co salt now name su login pw groups d)"
| "access_exec eo co (OpDrop name if_exists) d = done_as (drop_role eo name if_exists d)"
| "access_exec eo co (OpJoin member grp) d = done_as (grant_membership eo member grp d)"
| "access_exec eo co (OpLeave member grp) d = done_as (revoke_membership eo member grp d)"
| "access_exec eo co (OpGrant r p ob) d = done_as (grant_privilege eo r p ob d)"
| "access_exec eo co (OpRevoke r p ob) d = done_as (revoke_privilege eo r p ob d)"
| "access_exec eo co (OpAsk r p ob) d = has_privilege eo r p ob d"

subsection \<open>The specification\<close>

record access =
  acc_roles :: role_table
  acc_members :: members
  acc_grants :: grants

text \<open>A role may do what it, or a group it belongs to in any number of steps, has been granted.\<close>

definition permitted :: "access \<Rightarrow> bytes \<Rightarrow> PrivilegeRepr \<Rightarrow> GrantObjectRepr \<Rightarrow> bool" where
  "permitted a role p ob \<longleftrightarrow>
     (\<exists>r \<in> insert role ((acc_members a)\<^sup>+ `` {role}). (r, All, ob) \<in> acc_grants a \<or> (r, p, ob) \<in> acc_grants a)"

definition join_spec :: "bytes \<Rightarrow> bytes \<Rightarrow> access \<Rightarrow> (access_error, unit) result \<times> access" where
  "join_spec m g a =
     (if m = g then (Err (SelfMember m), a)
      else if (m, g) \<in> (acc_members a)\<^sup>+ \<or> (g, m) \<in> (acc_members a)\<^sup>+ then (Err (MemberCycle m g), a)
      else (Ok (), a\<lparr>acc_members := insert (m, g) (acc_members a)\<rparr>))"

fun join_each :: "bytes \<Rightarrow> bytes list \<Rightarrow> access \<Rightarrow> (access_error, unit) result \<times> access" where
  "join_each name [] a = (Ok (), a)"
| "join_each name (g # gs) a = and_step (join_spec name g a) (\<lambda>_. join_each name gs)"

definition edges_at :: "bytes \<Rightarrow> members \<Rightarrow> members" where
  "edges_at r E = {(m, g) \<in> E. m = r \<or> g = r}"

definition held_at :: "bytes \<Rightarrow> GrantObjectRepr \<Rightarrow> grants \<Rightarrow> grants" where
  "held_at r ob G = {(r', p, ob') \<in> G. r' = r \<and> ob' = ob}"

fun access_spec :: "access_op \<Rightarrow> access \<Rightarrow> answer \<times> access" where
  "access_spec (OpCreate name su login pw salt now groups) a =
     (if acc_roles a name \<noteq> None then (Err (RoleExists name), a)
      else done_as (join_each name groups
        (a\<lparr>acc_roles := (acc_roles a)(name \<mapsto> \<lparr>ra_superuser = su, ra_can_login = login\<rparr>)\<rparr>)))"
| "access_spec (OpDrop name if_exists) a =
     (if acc_roles a name = None then (if if_exists then Ok True else Err (NoRole name), a)
      else (Ok True, a\<lparr>acc_roles := (acc_roles a)(name := None),
                        acc_members := acc_members a - edges_at name (acc_members a)\<rparr>))"
| "access_spec (OpJoin m g) a = done_as (join_spec m g a)"
| "access_spec (OpLeave m g) a = (Ok True, a\<lparr>acc_members := acc_members a - {(m, g)}\<rparr>)"
| "access_spec (OpGrant r p ob) a = (Ok True, a\<lparr>acc_grants := insert (r, p, ob) (acc_grants a)\<rparr>)"
| "access_spec (OpRevoke r p ob) a =
     (Ok True, a\<lparr>acc_grants := acc_grants a - (if p = All then held_at r ob (acc_grants a) else {(r, p, ob)})\<rparr>)"
| "access_spec (OpAsk r p ob) a = (Ok (permitted a r p ob), a)"

text \<open>How many rows an operation writes or deletes at most.\<close>

fun op_cost :: "access_op \<Rightarrow> access \<Rightarrow> nat" where
  "op_cost (OpCreate name su login pw salt now groups) a = Suc (length groups)"
| "op_cost (OpDrop name if_exists) a = Suc (card (edges_at name (acc_members a)))"
| "op_cost (OpJoin m g) a = 1"
| "op_cost (OpLeave m g) a = 1"
| "op_cost (OpGrant r p ob) a = 1"
| "op_cost (OpRevoke r p ob) a = Suc (card (held_at r ob (acc_grants a)))"
| "op_cost (OpAsk r p ob) a = 0"

fun run_cost :: "access_op list \<Rightarrow> access \<Rightarrow> nat" where
  "run_cost [] a = 0"
| "run_cost (op # ops) a = op_cost op a + run_cost ops (snd (access_spec op a))"

text \<open>Names the catalogs can hold, and rows within the size that \<open>small\<close> allows.\<close>

definition small_edge :: "(bytes \<Rightarrow> bytes \<Rightarrow> bytes option \<Rightarrow> bool) \<Rightarrow> bytes \<times> bytes \<Rightarrow> bool" where
  "small_edge small e \<longleftrightarrow> edge_ok e \<and> small MEMBERS (edge_key e) (Some (edge_row e)) \<and> small MEMBERS (edge_key e) None"

definition small_held ::
  "(bytes \<Rightarrow> bytes \<Rightarrow> bytes option \<Rightarrow> bool) \<Rightarrow> bytes \<times> PrivilegeRepr \<times> GrantObjectRepr \<Rightarrow> bool" where
  "small_held small h \<longleftrightarrow> held_ok h \<and> small PRIVILEGES (held_key h) (Some (held_row h)) \<and> small PRIVILEGES (held_key h) None"

fun op_fits :: "(bytes \<Rightarrow> bytes \<Rightarrow> bytes option \<Rightarrow> bool) \<Rightarrow> crypto_ops \<Rightarrow> access_op \<Rightarrow> bool" where
  "op_fits small co (OpCreate name su login pw salt now groups) \<longleftrightarrow>
     length (role_row co salt now name pw su login) < 2 ^ 31 \<and>
     small ROLES name (Some (role_row co salt now name pw su login)) \<and> list_all (\<lambda>g. small_edge small (name, g)) groups"
| "op_fits small co (OpDrop name if_exists) \<longleftrightarrow> small ROLES name None"
| "op_fits small co (OpJoin m g) \<longleftrightarrow> small_edge small (m, g)"
| "op_fits small co (OpLeave m g) \<longleftrightarrow> small_edge small (m, g)"
| "op_fits small co (OpGrant r p ob) \<longleftrightarrow> small_held small (r, p, ob)"
| "op_fits small co (OpRevoke r p ob) \<longleftrightarrow> small_held small (r, p, ob)"
| "op_fits small co (OpAsk r p ob) \<longleftrightarrow> role_name r \<and> object_ok ob"

definition rows_hold :: "(bytes \<Rightarrow> bytes \<Rightarrow> bytes option \<Rightarrow> bool) \<Rightarrow> rows \<Rightarrow> access \<Rightarrow> bool" where
  "rows_hold small rows a \<longleftrightarrow> roles_hold rows (acc_roles a) \<and> members_hold rows (acc_members a) \<and> grants_hold rows (acc_grants a)
     \<and> (\<forall>e \<in> acc_members a. small MEMBERS (edge_key e) None) \<and> (\<forall>h \<in> acc_grants a. small PRIVILEGES (held_key h) None)"

definition has_catalogs :: "'d engine_ops \<Rightarrow> 'd \<Rightarrow> bool" where
  "has_catalogs eo d \<longleftrightarrow> e_get_table eo ROLES d \<noteq> None \<and> e_get_table eo MEMBERS d \<noteq> None \<and> e_get_table eo PRIVILEGES d \<noteq> None"

lemma ensure_present: "has_catalogs eo d \<Longrightarrow> members_ensure eo d = (Ok (), d)" "has_catalogs eo d \<Longrightarrow> privileges_ensure eo d = (Ok (), d)"
  by (simp_all add: has_catalogs_def members_ensure_def privileges_ensure_def ensure_table_def)

subsection \<open>Rows of the catalogs\<close>

lemma encode_cells_fits: "length (encode_cells cells) < 2 ^ 31 \<Longrightarrow> list_all cell_fits cells"
proof (induction cells)
  case (Cons c cells)
  then have "length (encode_cells cells) < 2 ^ 31" by (cases c) (simp_all add: encode_cells_def)
  moreover have "cell_fits c" using Cons.prems by (cases c) (simp_all add: encode_cells_def cell_fits_def)
  ultimately show ?case using Cons.IH by simp
qed simp

lemma attributes_role_row:
  assumes "length (role_row co salt now name pw su login) < 2 ^ 31"
  shows "attributes_of (role_row co salt now name pw su login) = \<lparr>ra_superuser = su, ra_can_login = login\<rparr>"
proof -
  obtain c1 c2 c3 c4 where row: "role_row co salt now name pw su login
      = encode_cells [text_cell name, c1, c2, c3, c4, int_cell now, flag_cell su, flag_cell login]" (is "_ = encode_cells ?cells")
    by (cases pw) (auto simp: role_row_def Let_def)
  have fits: "list_all cell_fits ?cells" using assms unfolding row by (rule encode_cells_fits)
  have "valid_utf8 (ascii (if b then ''t'' else ''f''))" for b
    by (simp add: valid_utf8_ascii ascii_def)
  then have "cell_str (encode_cells ?cells) 6 = Ok (ascii (if su then ''t'' else ''f''))"
    "cell_str (encode_cells ?cells) 7 = Ok (ascii (if login then ''t'' else ''f''))"
    using cell_str_encode [OF fits, of 6] cell_str_encode [OF fits, of 7] by (simp_all add: flag_cell_def text_cell_def)
  then show ?thesis unfolding row attributes_of_def by (simp add: or_else_def ascii_def)
qed

text \<open>The keys of the rows that a catalog scan selects, and how many they are.\<close>

lemma listed_keys:
  assumes T: "table_holds rows t key row S" "lists_table rows t kvs"
    and hit: "\<And>kv x. x \<in> S \<Longrightarrow> kv_value kv = row x \<Longrightarrow> Q kv \<longleftrightarrow> P x"
  shows "set (map kv_key (filter Q kvs)) = key ` {x \<in> S. P x}"
    and "length (map kv_key (filter Q kvs)) = card {x \<in> S. P x}"
proof -
  show keys: "set (map kv_key (filter Q kvs)) = key ` {x \<in> S. P x}"
  proof (intro set_eqI iffI)
    fix k assume "k \<in> set (map kv_key (filter Q kvs))"
    then obtain kv where kv: "kv \<in> set kvs" "Q kv" "k = kv_key kv" by auto
    then show "k \<in> key ` {x \<in> S. P x}" using listed_row [OF T kv(1)] hit by auto
  next
    fix k assume "k \<in> key ` {x \<in> S. P x}"
    then obtain x where x: "x \<in> S" "P x" "k = key x" by auto
    then show "k \<in> set (map kv_key (filter Q kvs))" using row_listed [OF T x(1)] hit [OF x(1)] by force
  qed
  have "distinct (map kv_key kvs)" using T(2) by (auto simp: lists_table_def strict_sorted_iff)
  then have "distinct (map kv_key (filter Q kvs))" by (simp add: distinct_map_filter)
  from distinct_card [OF this] have "length (map kv_key (filter Q kvs)) = card (key ` {x \<in> S. P x})" unfolding keys by simp
  also have "inj_on key {x \<in> S. P x}" using T(1) by (auto simp: table_holds_def intro: inj_on_subset)
  then have "card (key ` {x \<in> S. P x}) = card {x \<in> S. P x}" by (rule card_image)
  finally show "length (map kv_key (filter Q kvs)) = card {x \<in> S. P x}" .
qed

lemma touching_keys:
  assumes "members_hold rows E" and "lists_table rows MEMBERS kvs"
  shows "\<exists>ks. touching r kvs = Ok ks \<and> set ks = edge_key ` edges_at r E \<and> length ks = card (edges_at r E)"
proof -
  note T = assms(1) [unfolded members_hold_def, THEN conjunct2] assms(2)
  let ?Q = "\<lambda>kv. fst (edge_of kv) = r \<or> snd (edge_of kv) = r" and ?P = "\<lambda>e. fst e = r \<or> snd e = r"
  have "edge_of kv = e" if "e \<in> E" "kv_value kv = edge_row e" for kv e
    using that assms(1) member_row_cells [of "fst e" "snd e"] by (cases e) (auto simp: members_hold_def edge_of_def)
  then have "\<And>kv e. e \<in> E \<Longrightarrow> kv_value kv = edge_row e \<Longrightarrow> ?Q kv \<longleftrightarrow> ?P e" by simp
  note K = listed_keys [OF T, of ?Q ?P, OF this]
  have "{e \<in> E. ?P e} = edges_at r E" by (auto simp: edges_at_def)
  then show ?thesis using K touching_map [of kvs edge_of r] member_rows(1) [OF assms] by simp
qed

lemma held_on_rows:
  assumes "\<forall>kv \<in> set kvs. \<exists>r' p ob'. role_name r' \<and> object_ok ob' \<and> kv_value kv = grant_row r' p ob'"
    and "role_name r" and "object_ok ob"
  shows "held_on r ob kvs = Ok (map kv_key (filter (\<lambda>kv. \<exists>p. kv_value kv = grant_row r p ob) kvs))"
  using assms(1)
proof (induction kvs)
  case (Cons kv kvs)
  then obtain r' p ob' where r: "role_name r'" "object_ok ob'" "kv_value kv = grant_row r' p ob'" by auto
  have eq: "ob' = ob \<longleftrightarrow> go_kind ob' = go_kind ob \<and> go_name ob' = go_name ob" by auto
  have "(\<exists>p. kv_value kv = grant_row r p ob) \<longleftrightarrow> r' = r \<and> ob' = ob"
    using grant_row_eq [OF r(1) assms(2) r(2) assms(3)] r(3) by auto
  then show ?case
    using Cons grant_row_cells [OF r(1,2), of p] r(3) by (cases "r' = r") (auto simp: eq)
qed simp

lemma held_on_keys:
  assumes "grants_hold rows G" and "lists_table rows PRIVILEGES kvs" and "role_name r" and "object_ok ob"
  shows "\<exists>ks. held_on r ob kvs = Ok ks \<and> set ks = held_key ` held_at r ob G \<and> length ks = card (held_at r ob G)"
proof -
  note T = assms(1) [unfolded grants_hold_def, THEN conjunct2] assms(2)
  let ?Q = "\<lambda>kv. \<exists>p. kv_value kv = grant_row r p ob" and ?P = "\<lambda>h. fst h = r \<and> snd (snd h) = ob"
  have ok: "\<forall>h \<in> G. held_ok h" using assms(1) by (simp add: grants_hold_def)
  have "?Q kv \<longleftrightarrow> ?P h" if "h \<in> G" "kv_value kv = held_row h" for kv h
  proof -
    obtain r' p' ob' where h: "h = (r', p', ob')" by (rule prod_cases3)
    then have "role_name r'" "object_ok ob'" using ok that(1) by auto
    then show ?thesis using that(2) grant_row_eq [of r' r ob' ob p'] assms(3,4) h by auto
  qed
  note K = listed_keys [OF T, of ?Q ?P, OF this]
  have "{h \<in> G. ?P h} = held_at r ob G" by (auto simp: held_at_def)
  moreover have "\<forall>kv \<in> set kvs. \<exists>r' p ob'. role_name r' \<and> object_ok ob' \<and> kv_value kv = grant_row r' p ob'"
  proof
    fix kv assume "kv \<in> set kvs"
    from listed_row [OF T this] obtain h where h: "h \<in> G" "kv_value kv = held_row h" by blast
    then show "\<exists>r' p ob'. role_name r' \<and> object_ok ob' \<and> kv_value kv = grant_row r' p ob'"
      using ok by (metis held_ok.simps held_row.simps prod_cases3)
  qed
  ultimately show ?thesis using K held_on_rows [OF _ assms(3,4)] by simp
qed

subsection \<open>What a statement needs\<close>

text \<open>
  The privileges that each form of statement asks for; \<open>None\<close> is a demand that no role
  meets.
\<close>

fun flux_need :: "FluxRef \<Rightarrow> (PrivilegeRepr \<times> GrantObjectRepr) option" where
  "flux_need (RefTopic t) = Some (Select, object_topic t)"
| "flux_need (RefTable t) = Some (Select, object_table t)"
| "flux_need RefUnknown = None"

definition needs :: "Stmt \<Rightarrow> (PrivilegeRepr \<times> GrantObjectRepr) option list" where
  "needs stmt =
     (case stmt of
        SSelect s \<Rightarrow> map (\<lambda>t. Some (Select, object_table t)) (select_tables s) @ map flux_need (collect_flux s)
      | SInsert i \<Rightarrow> [Some (Insert, object_table (ins_table i))]
      | SUpdate u \<Rightarrow> [Some (Update, object_table (upd_table u))]
      | SDelete x \<Rightarrow> [Some (Delete, object_table (del_table x))]
      | SCreateTable _ \<Rightarrow> [Some (Create, object_database)] | SCreateIndex _ \<Rightarrow> [Some (Create, object_database)]
      | SCreateFunction _ \<Rightarrow> [Some (Create, object_database)] | SCreateSequence _ \<Rightarrow> [Some (Create, object_database)]
      | SCreateTopic _ \<Rightarrow> [Some (Create, object_database)] | SAlterTable _ \<Rightarrow> [Some (Create, object_database)]
      | SAnalyze _ \<Rightarrow> [Some (Create, object_database)]
      | SDropTable _ \<Rightarrow> [Some (Drop, object_database)] | SDropIndex _ \<Rightarrow> [Some (Drop, object_database)]
      | SCreateRole _ \<Rightarrow> [None] | SAlterRole _ \<Rightarrow> [None] | SDropRole _ \<Rightarrow> [None] | SGrant _ \<Rightarrow> [None] | SRevoke _ \<Rightarrow> [None]
      | _ \<Rightarrow> [])"

definition meets :: "access \<Rightarrow> bytes \<Rightarrow> (PrivilegeRepr \<times> GrantObjectRepr) option \<Rightarrow> bool" where
  "meets a role x \<longleftrightarrow> (case x of None \<Rightarrow> False | Some (p, ob) \<Rightarrow> permitted a role p ob)"

subsection \<open>The simulation\<close>

definition acc_rep ::
  "'d engine_ops \<Rightarrow> (nat \<Rightarrow> 'd \<Rightarrow> rows \<Rightarrow> bool) \<Rightarrow> (bytes \<Rightarrow> bytes \<Rightarrow> bytes option \<Rightarrow> bool) \<Rightarrow> nat \<Rightarrow> 'd \<Rightarrow> access \<Rightarrow> bool" where
  "acc_rep eo rep small n d a \<longleftrightarrow> (\<exists>rows. rep n d rows \<and> rows_hold small rows a) \<and> has_catalogs eo d"

lemma has_catalogs_same: "has_catalogs eo d \<Longrightarrow> \<forall>t. e_get_table eo t d' = e_get_table eo t d \<Longrightarrow> has_catalogs eo d'"
  by (simp add: has_catalogs_def)

context row_store
begin

lemma acc_rep_less: "acc_rep eo rep small m d a \<Longrightarrow> n \<le> m \<Longrightarrow> acc_rep eo rep small n d a"
  using rep_mono unfolding acc_rep_def by blast

lemma all_memberships_reach:
  assumes "acc_rep eo rep small n d a"
  shows "\<exists>gs. all_memberships eo role d = Ok gs \<and> set gs = (acc_members a)\<^sup>+ `` {role}"
proof -
  obtain rows where rows: "rep n d rows" "members_hold rows (acc_members a)"
    using assms by (auto simp: acc_rep_def rows_hold_def)
  obtain kvs where kvs: "e_scan eo MEMBERS d = Ok kvs" "lists_table rows MEMBERS kvs"
    using scan_rows [OF rows(1) catalog_names(1)] by blast
  have "walk_inv (acc_members a) role [role] []" by (simp add: walk_inv_def)
  from walk_reaches [OF direct_groups_edges [OF rows(2) kvs(2)] this] kvs(1)
  show ?thesis by (simp add: all_memberships_def)
qed

lemma any_holds_grants:
  assumes "rep n d rows" and "grants_hold rows G" and "object_ok ob"
  shows "list_all role_name cands \<Longrightarrow>
    any_holds eo p ob d cands = Ok (\<exists>c \<in> set cands. (c, All, ob) \<in> G \<or> (c, p, ob) \<in> G)"
proof (induction cands)
  case (Cons c cands)
  obtain kvs where kvs: "e_scan eo PRIVILEGES d = Ok kvs" "lists_table rows PRIVILEGES kvs"
    using scan_rows [OF assms(1) catalog_names(2)] by blast
  have "holds_directly c p ob kvs = Ok ((c, All, ob) \<in> G \<or> (c, p, ob) \<in> G)"
    using holds_directly_grants [OF assms(2) kvs(2) _ assms(3)] Cons.prems by simp
  then show ?case using Cons kvs(1) by simp
qed simp

lemma has_privilege_permitted:
  assumes acc: "acc_rep eo rep small n d a" and "role_name role" and "object_ok ob"
  shows "has_privilege eo role p ob d = (Ok (permitted a role p ob), d)"
proof -
  obtain rows where rows: "rep n d rows" "members_hold rows (acc_members a)" "grants_hold rows (acc_grants a)"
    using acc by (auto simp: acc_rep_def rows_hold_def)
  obtain gs where gs: "all_memberships eo role d = Ok gs" "set gs = (acc_members a)\<^sup>+ `` {role}"
    using all_memberships_reach [OF acc] by blast
  have "role_name g" if g: "g \<in> set gs" for g
  proof -
    from g gs(2) have "(role, g) \<in> (acc_members a)\<^sup>+" by auto
    from tranclD2 [OF this] obtain m where "(m, g) \<in> acc_members a" by blast
    then have "edge_ok (m, g)" using rows(2) unfolding members_hold_def by blast
    then show ?thesis by simp
  qed
  then have "list_all role_name (role # gs)" using assms(2) by (simp add: list_all_iff)
  from any_holds_grants [OF rows(1,3) assms(3) this] gs acc show ?thesis
    by (simp add: has_privilege_def ensure_present acc_rep_def permitted_def)
qed

lemma join_simulated:
  assumes acc: "acc_rep eo rep small (Suc n) d a" and small: "small_edge small (m, g)"
  shows "\<exists>d'. grant_membership eo m g d = (fst (join_spec m g a), d') \<and> acc_rep eo rep small n d' (snd (join_spec m g a))"
proof -
  obtain rows where rows: "rep (Suc n) d rows" "rows_hold small rows a" and cat: "has_catalogs eo d"
    using acc by (auto simp: acc_rep_def)
  obtain gs where gs: "all_memberships eo m d = Ok gs" "set gs = (acc_members a)\<^sup>+ `` {m}"
    using all_memberships_reach [OF acc] by blast
  obtain ms where ms: "all_memberships eo g d = Ok ms" "set ms = (acc_members a)\<^sup>+ `` {g}"
    using all_memberships_reach [OF acc] by blast
  have keep: "acc_rep eo rep small n d a" using acc by (rule acc_rep_less) simp
  show ?thesis
  proof (cases "m = g \<or> (m, g) \<in> (acc_members a)\<^sup>+ \<or> (g, m) \<in> (acc_members a)\<^sup>+")
    case True
    then show ?thesis using gs ms keep by (auto simp: grant_membership_def join_spec_def)
  next
    case False
    let ?rows = "rows((MEMBERS, edge_key (m, g)) := Some (edge_row (m, g)))"
    obtain d' where d': "e_write eo MEMBERS (edge_key (m, g)) (edge_row (m, g)) d = (Ok (), d')" "rep n d' ?rows"
      "\<forall>t. e_get_table eo t d' = e_get_table eo t d"
      using write_rows [OF rows(1) catalog_names(1)] small unfolding small_edge_def by blast
    have names: "\<forall>e \<in> insert (m, g) (acc_members a). edge_ok e"
      using rows(2) small by (auto simp: rows_hold_def members_hold_def small_edge_def)
    then have "members_hold ?rows (insert (m, g) (acc_members a))"
      using table_holds_put [OF _ inj_edge_key [OF names], of rows MEMBERS edge_row] rows(2)
      by (auto simp: rows_hold_def members_hold_def)
    then have "rows_hold small ?rows (a\<lparr>acc_members := insert (m, g) (acc_members a)\<rparr>)"
      using rows(2) small by (auto simp: rows_hold_def small_edge_def)
    then show ?thesis
      using False gs ms d' has_catalogs_same [OF cat d'(3)]
      by (auto simp: grant_membership_def join_spec_def lift_step_def acc_rep_def)
  qed
qed

lemma join_each_simulated:
  "acc_rep eo rep small (length groups + n) d a \<Longrightarrow> list_all (\<lambda>g. small_edge small (name, g)) groups \<Longrightarrow>
   \<exists>d'. grant_each eo name groups d = (fst (join_each name groups a), d') \<and> acc_rep eo rep small n d' (snd (join_each name groups a))"
proof (induction groups arbitrary: d a)
  case (Cons g groups)
  obtain d1 where d1: "grant_membership eo name g d = (fst (join_spec name g a), d1)"
    "acc_rep eo rep small (length groups + n) d1 (snd (join_spec name g a))"
    using join_simulated [of "length groups + n" d a name g] Cons.prems by auto
  obtain r a1 where j: "join_spec name g a = (r, a1)" by fastforce
  show ?case
  proof (cases r)
    case (Inl e)
    then show ?thesis using d1 j acc_rep_less [OF d1(2), of n] by simp
  next
    case (Inr u)
    then show ?thesis using d1 j Cons.IH [of d1 a1] Cons.prems(2) by simp
  qed
qed auto

lemma leave_simulated:
  assumes acc: "acc_rep eo rep small (Suc n) d a" and small: "small_edge small (m, g)"
  shows "\<exists>d'. revoke_membership eo m g d = (Ok (), d') \<and>
    acc_rep eo rep small n d' (a\<lparr>acc_members := acc_members a - {(m, g)}\<rparr>)"
proof -
  obtain rows where rows: "rep (Suc n) d rows" "rows_hold small rows a" and cat: "has_catalogs eo d"
    using acc by (auto simp: acc_rep_def)
  let ?rows = "rows((MEMBERS, edge_key (m, g)) := None)"
  obtain d' where d': "e_delete eo MEMBERS (edge_key (m, g)) d = (Ok (), d')" "rep n d' ?rows"
    "\<forall>t. e_get_table eo t d' = e_get_table eo t d"
    using delete_rows [OF rows(1) catalog_names(1)] small unfolding small_edge_def by blast
  have names: "\<forall>e \<in> insert (m, g) (acc_members a). edge_ok e"
    using rows(2) small unfolding rows_hold_def members_hold_def small_edge_def by blast
  then have "members_hold ?rows (acc_members a - {(m, g)})"
    using table_holds_remove [OF _ inj_edge_key [OF names], of rows MEMBERS edge_row] rows(2)
    unfolding rows_hold_def members_hold_def by blast
  then have "rows_hold small ?rows (a\<lparr>acc_members := acc_members a - {(m, g)}\<rparr>)"
    using rows(2) by (auto simp: rows_hold_def)
  then show ?thesis
    using d' has_catalogs_same [OF cat d'(3)] by (auto simp: revoke_membership_def lift_step_def acc_rep_def)
qed

lemma grant_simulated:
  assumes acc: "acc_rep eo rep small (Suc n) d a" and small: "small_held small (r, p, ob)"
  shows "\<exists>d'. grant_privilege eo r p ob d = (Ok (), d') \<and>
    acc_rep eo rep small n d' (a\<lparr>acc_grants := insert (r, p, ob) (acc_grants a)\<rparr>)"
proof -
  obtain rows where rows: "rep (Suc n) d rows" "rows_hold small rows a" and cat: "has_catalogs eo d"
    using acc by (auto simp: acc_rep_def)
  let ?h = "(r, p, ob)"
  let ?rows = "rows((PRIVILEGES, held_key ?h) := Some (held_row ?h))"
  obtain d' where d': "e_write eo PRIVILEGES (held_key ?h) (held_row ?h) d = (Ok (), d')" "rep n d' ?rows"
    "\<forall>t. e_get_table eo t d' = e_get_table eo t d"
    using write_rows [OF rows(1) catalog_names(2)] small unfolding small_held_def by blast
  have ok: "\<forall>h \<in> insert ?h (acc_grants a). held_ok h"
    using rows(2) small unfolding rows_hold_def grants_hold_def small_held_def by blast
  then have "grants_hold ?rows (insert ?h (acc_grants a))"
    using table_holds_put [OF _ inj_held_key [OF ok], of rows PRIVILEGES held_row] rows(2)
    unfolding rows_hold_def grants_hold_def by blast
  then have "rows_hold small ?rows (a\<lparr>acc_grants := insert ?h (acc_grants a)\<rparr>)"
    using rows(2) small by (simp add: rows_hold_def small_held_def)
  then show ?thesis
    using d' has_catalogs_same [OF cat d'(3)] by (auto simp: grant_privilege_def lift_step_def acc_rep_def)
qed

lemma revoke_simulated:
  assumes acc: "acc_rep eo rep small (Suc (card (held_at r ob (acc_grants a))) + n) d a" and small: "small_held small (r, p, ob)"
  shows "\<exists>d'. revoke_privilege eo r p ob d = (Ok (), d') \<and> acc_rep eo rep small n d'
    (a\<lparr>acc_grants := acc_grants a - (if p = All then held_at r ob (acc_grants a) else {(r, p, ob)})\<rparr>)"
proof -
  let ?F = "if p = All then held_at r ob (acc_grants a) else {(r, p, ob)}"
  obtain rows where rows: "rep (Suc (card (held_at r ob (acc_grants a))) + n) d rows" "rows_hold small rows a" and cat: "has_catalogs eo d"
    using acc by (auto simp: acc_rep_def)
  have ok: "\<forall>h \<in> insert (r, p, ob) (acc_grants a). held_ok h" and T: "table_holds rows PRIVILEGES held_key held_row (acc_grants a)"
    using rows(2) small unfolding rows_hold_def grants_hold_def small_held_def by blast+
  have "\<exists>d' rows'. revoke_privilege eo r p ob d = (Ok (), d') \<and> rep n d' rows' \<and> (\<forall>t. e_get_table eo t d' = e_get_table eo t d)
    \<and> table_holds rows' PRIVILEGES held_key held_row (acc_grants a - ?F) \<and> (\<forall>t k. t \<noteq> PRIVILEGES \<longrightarrow> rows' (t, k) = rows (t, k))"
  proof (cases "p = All")
    case True
    obtain kvs where kvs: "e_scan eo PRIVILEGES d = Ok kvs" "lists_table rows PRIVILEGES kvs"
      using scan_rows [OF rows(1) catalog_names(2)] by blast
    obtain ks where ks: "held_on r ob kvs = Ok ks" "set ks = held_key ` held_at r ob (acc_grants a)" "length ks = card (held_at r ob (acc_grants a))"
      using held_on_keys [OF _ kvs(2), of "acc_grants a" r ob] rows(2) ok by (auto simp: rows_hold_def)
    have "list_all (\<lambda>k. small PRIVILEGES k None) ks"
      using ks(2) rows(2) by (auto simp: list_all_iff rows_hold_def held_at_def)
    then obtain d' where d': "delete_keys eo PRIVILEGES ks d = (Ok (), d')" "\<forall>t. e_get_table eo t d' = e_get_table eo t d"
      "rep n d' (\<lambda>(t', k). if t' = PRIVILEGES \<and> k \<in> set ks then None else rows (t', k))" (is "rep n d' ?rows")
      using delete_keys_rows [of ks n d rows PRIVILEGES] rep_mono [OF rows(1), of "length ks + n"] ks(3) by auto
    have "table_holds ?rows PRIVILEGES held_key held_row (acc_grants a - held_at r ob (acc_grants a))"
      by (rule table_holds_drop [OF T]) (auto simp: ks(2) held_at_def)
    then show ?thesis using True d' kvs(1) ks(1) by (intro exI [of _ d'] exI [of _ ?rows]) (simp add: revoke_privilege_def)
  next
    case False
    let ?rows = "rows((PRIVILEGES, held_key (r, p, ob)) := None)"
    obtain d' where "e_delete eo PRIVILEGES (held_key (r, p, ob)) d = (Ok (), d')" "rep (card (held_at r ob (acc_grants a)) + n) d' ?rows"
      "\<forall>t. e_get_table eo t d' = e_get_table eo t d"
      using delete_rows [OF rows(1) [unfolded add_Suc] catalog_names(2)] small unfolding small_held_def by blast
    then show ?thesis
      using False rep_mono table_holds_remove [OF T inj_held_key [OF ok]]
      by (intro exI [of _ d'] exI [of _ ?rows]) (auto simp: revoke_privilege_def lift_step_def)
  qed
  then obtain d' rows' where d': "revoke_privilege eo r p ob d = (Ok (), d')" "rep n d' rows'"
    "\<forall>t. e_get_table eo t d' = e_get_table eo t d" "table_holds rows' PRIVILEGES held_key held_row (acc_grants a - ?F)"
    "\<forall>t k. t \<noteq> PRIVILEGES \<longrightarrow> rows' (t, k) = rows (t, k)" by blast
  have "rows_hold small rows' (a\<lparr>acc_grants := acc_grants a - ?F\<rparr>)"
    using rows(2) d'(4,5) by (simp add: rows_hold_def roles_hold_def members_hold_def grants_hold_def table_holds_def)
  then show ?thesis using d' has_catalogs_same [OF cat d'(3)] by (auto simp: acc_rep_def)
qed

lemma create_simulated:
  assumes acc: "acc_rep eo rep small (Suc (length groups) + n) d a"
    and fits: "op_fits small co (OpCreate name su login pw salt now groups)"
  shows "\<exists>d'. access_exec eo co (OpCreate name su login pw salt now groups) d
      = (fst (access_spec (OpCreate name su login pw salt now groups) a), d') \<and>
    acc_rep eo rep small n d' (snd (access_spec (OpCreate name su login pw salt now groups) a))"
proof -
  obtain rows where rows: "rep (Suc (length groups + n)) d rows" "rows_hold small rows a" and cat: "has_catalogs eo d"
    using acc by (auto simp: acc_rep_def)
  let ?row = "role_row co salt now name pw su login"
  let ?a = "a\<lparr>acc_roles := (acc_roles a)(name \<mapsto> \<lparr>ra_superuser = su, ra_can_login = login\<rparr>)\<rparr>"
  have find: "find_role eo name d = Ok (acc_roles a name)"
    using read_rows [OF rows(1) catalog_names(3)] rows(2) by (simp add: find_role_def rows_hold_def roles_hold_def)
  show ?thesis
  proof (cases "acc_roles a name")
    case (Some x)
    then show ?thesis using find acc_rep_less [OF acc, of n] by (simp add: create_role_def)
  next
    case None
    obtain d1 where d1: "e_write eo ROLES name ?row d = (Ok (), d1)" "rep (length groups + n) d1 (rows((ROLES, name) := Some ?row))"
      "\<forall>t. e_get_table eo t d1 = e_get_table eo t d"
      using write_rows [OF rows(1) catalog_names(3)] fits by (meson op_fits.simps(1))
    have "rows_hold small (rows((ROLES, name) := Some ?row)) ?a"
      using rows(2) fits attributes_role_row by (simp add: rows_hold_def roles_hold_def)
    then have acc1: "acc_rep eo rep small (length groups + n) d1 ?a" and cat1: "has_catalogs eo d1"
      using d1 has_catalogs_same [OF cat d1(3)] by (auto simp: acc_rep_def)
    from join_each_simulated [OF acc1] fits obtain d' where
      "grant_each eo name groups d1 = (fst (join_each name groups ?a), d')" "acc_rep eo rep small n d' (snd (join_each name groups ?a))"
      by auto
    then show ?thesis
      using None find d1(1) ensure_present [OF cat1]
      by (simp add: create_role_def upsert_with_attrs_def lift_step_def done_as_def)
  qed
qed

lemma drop_simulated:
  assumes acc: "acc_rep eo rep small (Suc (card (edges_at name (acc_members a))) + n) d a" and small: "small ROLES name None"
  shows "\<exists>d'. access_exec eo co (OpDrop name if_exists) d = (fst (access_spec (OpDrop name if_exists) a), d') \<and>
    acc_rep eo rep small n d' (snd (access_spec (OpDrop name if_exists) a))"
proof -
  let ?E = "acc_members a" and ?F = "edges_at name (acc_members a)"
  obtain rows where rows: "rep (Suc (card ?F + n)) d rows" "rows_hold small rows a" and cat: "has_catalogs eo d"
    using acc by (auto simp: acc_rep_def)
  have find: "find_role eo name d = Ok (acc_roles a name)"
    using read_rows [OF rows(1) catalog_names(3)] rows(2) by (simp add: find_role_def rows_hold_def roles_hold_def)
  show ?thesis
  proof (cases "acc_roles a name")
    case None
    then show ?thesis using find acc_rep_less [OF acc, of n] by (simp add: drop_role_def)
  next
    case (Some x)
    obtain d1 where d1: "e_delete eo ROLES name d = (Ok (), d1)" "rep (card ?F + n) d1 (rows((ROLES, name) := None))"
      "\<forall>t. e_get_table eo t d1 = e_get_table eo t d"
      using delete_rows [OF rows(1) catalog_names(3) small] by blast
    let ?rows1 = "rows((ROLES, name) := None)"
    have M: "members_hold ?rows1 ?E" using rows(2) by (simp add: rows_hold_def)
    obtain kvs where kvs: "e_scan eo MEMBERS d1 = Ok kvs" "lists_table ?rows1 MEMBERS kvs"
      using scan_rows [OF d1(2) catalog_names(1)] by blast
    obtain ks where ks: "touching name kvs = Ok ks" "set ks = edge_key ` ?F" "length ks = card ?F"
      using touching_keys [OF M kvs(2)] by blast
    have "list_all (\<lambda>k. small MEMBERS k None) ks"
      using ks(2) rows(2) by (auto simp: list_all_iff rows_hold_def edges_at_def)
    then obtain d' where d': "delete_keys eo MEMBERS ks d1 = (Ok (), d')" "\<forall>t. e_get_table eo t d' = e_get_table eo t d1"
      "rep n d' (\<lambda>(t', k). if t' = MEMBERS \<and> k \<in> set ks then None else ?rows1 (t', k))" (is "rep n d' ?rows")
      using delete_keys_rows [of ks n d1 ?rows1 MEMBERS] d1(2) ks(3) by auto
    have "table_holds ?rows MEMBERS edge_key edge_row (?E - ?F)"
      by (rule table_holds_drop [of ?rows1]) (use M in \<open>auto simp: ks(2) edges_at_def members_hold_def\<close>)
    then have "rows_hold small ?rows (a\<lparr>acc_roles := (acc_roles a)(name := None), acc_members := ?E - ?F\<rparr>)"
      using rows(2) by (simp add: rows_hold_def roles_hold_def members_hold_def grants_hold_def table_holds_def)
    moreover have cat1: "has_catalogs eo d1" by (rule has_catalogs_same [OF cat d1(3)])
    ultimately show ?thesis
      using Some find d1(1) kvs(1) ks(1) d' has_catalogs_same [OF cat1 d'(2)] ensure_present [OF cat1]
      by (auto simp: drop_role_def revoke_all_def lift_step_def acc_rep_def)
  qed
qed

lemma op_simulated:
  assumes acc: "acc_rep eo rep small (op_cost op a + n) d a" and fits: "op_fits small co op"
  shows "\<exists>d'. access_exec eo co op d = (fst (access_spec op a), d') \<and> acc_rep eo rep small n d' (snd (access_spec op a))"
proof (cases op)
  case (OpCreate name su login pw salt now groups)
  then show ?thesis using create_simulated [of groups n d a co name su login pw salt now] acc fits by simp
next
  case (OpDrop name if_exists)
  then show ?thesis using drop_simulated [of name a n d co if_exists] acc fits by simp
next
  case (OpJoin m g)
  then show ?thesis using join_simulated [of n d a m g] acc fits by (auto simp: done_as_def)
next
  case (OpLeave m g)
  then show ?thesis using leave_simulated [of n d a m g] acc fits by auto
next
  case (OpGrant r p ob)
  then show ?thesis using grant_simulated [of n d a r p ob] acc fits by auto
next
  case (OpRevoke r p ob)
  then show ?thesis using revoke_simulated [of r ob a n d p] acc fits by fastforce
next
  case (OpAsk r p ob)
  then show ?thesis using has_privilege_permitted [of n d a r ob p] acc fits by simp
qed

lemma run_simulated:
  "acc_rep eo rep small (run_cost ops a + n) d a \<Longrightarrow> list_all (op_fits small co) ops \<Longrightarrow>
   \<exists>d'. run_ops (access_exec eo co) ops d = (fst (run_ops access_spec ops a), d') \<and>
     acc_rep eo rep small n d' (snd (run_ops access_spec ops a))"
proof (induction ops arbitrary: d a)
  case (Cons op ops)
  obtain out a1 where s: "access_spec op a = (out, a1)" by fastforce
  obtain d1 where d1: "access_exec eo co op d = (out, d1)" "acc_rep eo rep small (run_cost ops a1 + n) d1 a1"
    using op_simulated [of op a "run_cost ops a1 + n" d co] Cons.prems s by (auto simp: add.assoc)
  from Cons.IH [OF d1(2)] Cons.prems(2) obtain d' where
    "run_ops (access_exec eo co) ops d1 = (fst (run_ops access_spec ops a1), d')" "acc_rep eo rep small n d' (snd (run_ops access_spec ops a1))"
    by auto
  then show ?case using d1(1) s by (simp add: map_prod_def case_prod_unfold)
qed auto

subsection \<open>Statements\<close>

lemma require_permitted:
  assumes "acc_rep eo rep small n d a" and "role_name (ac_rolname ac)" and "object_ok ob"
  shows "require_privilege eo ac p ob d
    = (if permitted a (ac_rolname ac) p ob then Ok () else Err (Lacks (ac_rolname ac) p ob), d)"
proof -
  have "has_catalogs eo d" using assms(1) by (simp add: acc_rep_def)
  then show ?thesis
    using has_privilege_permitted [OF assms] by (simp add: require_privilege_def ensure_present or_else_def)
qed

lemma require_each_permitted:
  assumes "acc_rep eo rep small n d a" and "role_name (ac_rolname ac)"
  shows "\<forall>ob \<in> set obs. object_ok ob \<Longrightarrow>
    \<exists>r. require_each eo ac p obs d = (r, d) \<and> (is_ok r \<longleftrightarrow> (\<forall>ob \<in> set obs. permitted a (ac_rolname ac) p ob))"
  by (induction obs) (auto simp: require_permitted [OF assms])

lemma require_flux_permitted:
  assumes "acc_rep eo rep small n d a" and "role_name (ac_rolname ac)"
  shows "\<forall>x \<in> set (map flux_need refs). \<forall>p ob. x = Some (p, ob) \<longrightarrow> object_ok ob \<Longrightarrow>
    \<exists>r. require_flux eo ac refs d = (r, d) \<and> (is_ok r \<longleftrightarrow> list_all (meets a (ac_rolname ac)) (map flux_need refs))"
proof (induction refs)
  case (Cons ref refs)
  then show ?case by (cases ref) (auto simp: require_permitted [OF assms] meets_def)
qed simp

lemma check_stmt_meets:
  assumes "acc_rep eo rep small n d a" and "role_name (ac_rolname ac)"
    and "\<forall>x \<in> set (needs stmt). \<forall>p ob. x = Some (p, ob) \<longrightarrow> object_ok ob"
  shows "\<exists>r. check_stmt eo ac stmt d = (r, d) \<and> (is_ok r \<longleftrightarrow> ac_unrestricted ac \<or> ac_superuser ac
    \<or> \<not> references_system_table stmt \<and> list_all (meets a (ac_rolname ac)) (needs stmt))"
proof (cases "ac_unrestricted ac \<or> ac_superuser ac \<or> references_system_table stmt")
  case True
  then show ?thesis by (auto simp: check_stmt_def)
next
  case False
  then have "check_stmt eo ac stmt d = check_arm eo ac stmt d" by (simp add: check_stmt_def)
  moreover have "\<exists>r. check_arm eo ac stmt d = (r, d) \<and> (is_ok r \<longleftrightarrow> list_all (meets a (ac_rolname ac)) (needs stmt))"
  proof (cases "\<exists>s. stmt = SSelect s")
    case True
    then obtain s where s: "stmt = SSelect s" by blast
    let ?obs = "map object_table (select_tables s)"
    have n: "needs stmt = map (\<lambda>t. Some (Select, object_table t)) (select_tables s) @ map flux_need (collect_flux s)"
      by (simp add: s needs_def)
    then have "\<forall>ob \<in> set ?obs. object_ok ob" and f: "\<forall>x \<in> set (map flux_need (collect_flux s)). \<forall>p ob. x = Some (p, ob) \<longrightarrow> object_ok ob"
      using assms(3) by auto
    then obtain r where r: "require_each eo ac Select ?obs d = (r, d)" "is_ok r \<longleftrightarrow> (\<forall>ob \<in> set ?obs. permitted a (ac_rolname ac) Select ob)"
      using require_each_permitted [OF assms(1,2), of ?obs Select] by blast
    moreover obtain r' where "require_flux eo ac (collect_flux s) d = (r', d)"
      "is_ok r' \<longleftrightarrow> list_all (meets a (ac_rolname ac)) (map flux_need (collect_flux s))"
      using require_flux_permitted [OF assms(1,2) f] by blast
    moreover have "list_all (meets a (ac_rolname ac)) (map (\<lambda>t. Some (Select, object_table t)) (select_tables s))
        \<longleftrightarrow> (\<forall>ob \<in> set ?obs. permitted a (ac_rolname ac) Select ob)"
      by (simp add: list_all_iff meets_def)
    ultimately show ?thesis unfolding n by (cases r) (simp_all add: s)
  next
    case False
    then show ?thesis
      using assms(3) by (cases stmt) (simp_all add: needs_def meets_def require_permitted [OF assms(1,2)])
  qed
  ultimately show ?thesis using False by simp
qed

end

end
