(* ===== verification/AccessProps.thy ===== *)
theory AccessProps
  imports AccessRuns
begin

text \<open>
  What the access-control code guarantees when it runs on the database: the
  properties of the catalogs and of the check that every statement passes, and
  where the check falls short of what it is for.
\<close>

subsection \<open>The catalogs\<close>

text \<open>
  C7: The role, membership and privilege catalogs implement an access-control matrix.
  Take any sequence of creating and dropping roles, granting and revoking
  memberships and privileges, and asking for a privilege, on a database that takes
  the writes they need.  Every answer is the answer of the specification on a set of
  roles, a membership graph and a set of grants: a question is answered with yes
  exactly when the role, or a group it reaches in the graph, holds the privilege or
  ALL on the object, and a membership is refused exactly when its ends are equal or
  already connected.
\<close>

theorem access_control_refines_graph:
  assumes "acc_rep (db_engine env cc maintain lease) (db_rep env maintain lease bound) (small_write bound) (run_cost ops a) db a"
    and "list_all (op_fits (small_write bound) co) ops"
  shows "fst (run_ops (access_exec (db_engine env cc maintain lease) co) ops db) = fst (run_ops access_spec ops a)"
  using db_rows.run_simulated [of env cc maintain lease bound ops a 0 db co] assms by auto

subsection \<open>Acyclicity\<close>

lemma join_acyclic: "acyclic (acc_members a) \<Longrightarrow> acyclic (acc_members (snd (join_spec m g a)))"
  by (auto simp: join_spec_def acyclic_insert rtrancl_eq_or_trancl)

lemma join_each_acyclic: "acyclic (acc_members a) \<Longrightarrow> acyclic (acc_members (snd (join_each name gs a)))"
proof (induction gs arbitrary: a)
  case (Cons g gs)
  obtain r a1 where j: "join_spec name g a = (r, a1)" by fastforce
  then have "acyclic (acc_members a1)" using join_acyclic [OF Cons.prems, of name g] by simp
  then show ?case using Cons.IH j by (cases r) simp_all
qed simp

lemma spec_acyclic: "acyclic (acc_members a) \<Longrightarrow> acyclic (acc_members (snd (access_spec op a)))"
proof (cases op)
  case (OpCreate name su login pw salt now groups)
  assume "acyclic (acc_members a)"
  then show ?thesis using OpCreate join_each_acyclic by (simp add: done_as_def)
qed (auto simp: done_as_def join_acyclic intro: acyclic_subset)

lemma spec_run_acyclic: "acyclic (acc_members a) \<Longrightarrow> acyclic (acc_members (snd (run_ops access_spec ops a)))"
proof (induction ops arbitrary: a)
  case (Cons op ops)
  then show ?case using spec_acyclic [OF Cons.prems, of op] by (simp add: case_prod_unfold)
qed simp

text \<open>
  C38: The membership graph in the database never gets a cycle: when the catalog holds
  an acyclic graph, it holds an acyclic graph after any such sequence of operations.
\<close>

theorem membership_stays_acyclic:
  assumes "acc_rep (db_engine env cc maintain lease) (db_rep env maintain lease bound) (small_write bound) (run_cost ops a) db a"
    and "list_all (op_fits (small_write bound) co) ops" and "acyclic (acc_members a)"
  shows "\<exists>a'. acc_rep (db_engine env cc maintain lease) (db_rep env maintain lease bound) (small_write bound) 0
      (snd (run_ops (access_exec (db_engine env cc maintain lease) co) ops db)) a' \<and> acyclic (acc_members a')"
  using db_rows.run_simulated [of env cc maintain lease bound ops a 0 db co] assms spec_run_acyclic by fastforce

subsection \<open>The check of a statement\<close>


text \<open>
  C39: A query in parentheses is not checked at all.  Whatever tables a query reads,
  system tables included, and whatever the actor was granted, the statement that
  selects from it as a derived table, with any projection and condition, passes the
  check.
\<close>

theorem derived_table_unchecked:
  "check_stmt eo ac (SSelect (SelectStmt [] distinct_rows projections
      (Some (TableWithJoins (TableRef name alias (Some q) None) [])) cond group_by having order_by limit offset None)) d = (Ok (), d)"
proof -
  let ?s = "SelectStmt [] distinct_rows projections (Some (TableWithJoins (TableRef name alias (Some q) None) []))
    cond group_by having order_by limit offset None"
  have "select_tables ?s = []" "collect_flux ?s = []"
    by (simp_all add: select_tables_def collect_select.simps collect_flux.simps option_list_def collect_from_def
        from_refs_def push_ref_def sub_selects_def flux_ref_def)
  then show ?thesis by (simp add: check_stmt_def references_system_table_def named_tables_def)
qed

text \<open>
  C40: Dropping a role does not take back its privileges.  When a role that holds a
  privilege is dropped, a new role of the same name, without membership in any group,
  holds that privilege at once.
\<close>

theorem dropped_role_keeps_grants:
  assumes "acc_rep (db_engine env cc maintain lease) (db_rep env maintain lease bound) (small_write bound) n db a"
    and "Suc (Suc (card (edges_at r (acc_members a)))) \<le> n"
    and "acc_roles a r \<noteq> None" and "(r, p, ob) \<in> acc_grants a" and "role_name r" and "object_ok ob"
    and "op_fits (small_write bound) co (OpCreate r False True pw salt now [])"
  shows "fst (run_ops (access_exec (db_engine env cc maintain lease) co)
      [OpDrop r False, OpCreate r False True pw salt now [], OpAsk r p ob] db) = [Ok True, Ok True, Ok True]"
proof -
  let ?ops = "[OpDrop r False, OpCreate r False True pw salt now [], OpAsk r p ob]"
  have cost: "run_cost ?ops a \<le> n" using assms(2,3) by simp
  have "small_write bound ROLES r None" using assms(7) by (simp add: small_write_def)
  then have "list_all (op_fits (small_write bound) co) ?ops" using assms(5-7) by simp
  from db_rows.run_simulated [OF _ this, of env cc maintain lease a 0 db] db_rows.acc_rep_less [OF assms(1) cost]
  have "fst (run_ops (access_exec (db_engine env cc maintain lease) co) ?ops db) = fst (run_ops access_spec ?ops a)" by auto
  then show ?thesis using assms(3,4) by (simp add: permitted_def)
qed

subsection \<open>An example database\<close>

text \<open>A new database whose three catalogs exist and are empty.\<close>

definition blank_table :: "bytes \<Rightarrow> TableSchema" where
  "blank_table t = \<lparr>sch_name = t, sch_columns = [], sch_pk_columns = [], sch_unique_groups = [], sch_foreign_keys = [],
     sch_json_schemas = []\<rparr>"

definition access_db :: "(u8, LocalFs, unit) Database" where
  "access_db = fresh_db\<lparr>db_schemas := map (\<lambda>t. (t, blank_table t)) [PRIVILEGES, MEMBERS, ROLES]\<rparr>"

definition no_access :: access where
  "no_access = \<lparr>acc_roles = \<lambda>_. None, acc_members = {}, acc_grants = {}\<rparr>"

definition stub_codec :: catalog_codec where
  "stub_codec = \<lparr>ser_schema = \<lambda>_. None, de_schema = \<lambda>_. None, ser_sequence = \<lambda>_. None, de_sequence = \<lambda>_. None,
     ser_function = \<lambda>_. None, de_function = \<lambda>_. None\<rparr>"

lemma access_db_rep:
  assumes "n \<le> 100"
  shows "acc_rep (db_engine example_env stub_codec no_indexes example_lease) (db_rep example_env no_indexes example_lease 200)
    (small_write 200) n access_db no_access"
proof -
  have lsm: "db_lsm access_db = fresh_engine" "db_role access_db = Writer" by (simp_all add: access_db_def fresh_db_def)
  have "spare 200 n access_db"
    using assms by (simp add: spare_def lsm fresh_engine_def memtable_new_def MEMTABLE_MAX_SIZE_def next_seq_def)
  then have "roomy example_env no_indexes example_lease 200 n access_db" by (rule spare_roomy [rotated]) simp
  moreover have "newest fresh_engine [] k = None" for k
    by (simp add: newest_def sees_def eng_layers_def fresh_engine_def imm_data_def memtable_new_def layers_def)
  then have "sim_at example_env (db_lsm access_db) [] (\<lambda>_. None) (\<lambda>_. None, \<lambda>_. None)"
    using fresh_engine_ok
    by (simp add: sim_at_def lsm rows_ok_def counts_ok_def snapshot_count_def readers_def fresh_engine_def next_seq_def)
  ultimately have "db_rep example_env no_indexes example_lease 200 n access_db (\<lambda>_. None)"
    using example_bloom_ok by (auto simp: db_rep_def)
  moreover have "rows_hold (small_write 200) (\<lambda>_. None) no_access"
    by (simp add: rows_hold_def roles_hold_def members_hold_def grants_hold_def table_holds_def no_access_def)
  moreover have "has_catalogs (db_engine example_env stub_codec no_indexes example_lease) access_db"
    by (simp add: has_catalogs_def db_engine_def get_table_def access_db_def)
  ultimately show ?thesis by (auto simp: acc_rep_def)
qed

lemma single_edge_trancl: "m \<noteq> g \<Longrightarrow> {(m, g)}\<^sup>+ = {(m, g)}"
proof -
  have "(x, y) = (m, g)" if "m \<noteq> g" "(x, y) \<in> {(m, g)}\<^sup>+" for x y
    using that(2) by (induction rule: trancl_induct) (use that(1) in auto)
  then show "m \<noteq> g \<Longrightarrow> {(m, g)}\<^sup>+ = {(m, g)}" by auto
qed

lemma plain_names: "\<forall>b \<in> set n. 0 < unat b \<and> unat b < 128 \<Longrightarrow> length n < 10 \<Longrightarrow> role_name n"
  by (auto simp: role_name_def valid_utf8_ascii)

lemmas row_sizes = small_write_def small_edge_def small_held_def MEMBERS_def ROLES_def PRIVILEGES_def ascii_def member_key_def
  member_row_def grant_key_def grant_row_def encode_cells_def text_cell_def valid_utf8_ascii object_defs

lemma role_row_small:
  "name = [b] \<Longrightarrow> op_fits (small_write 200) co (OpCreate name su login None [] 0 [])"
  by (simp add: role_row_def row_sizes int_cell_def int_to_string_def dec_digits.simps flag_cell_def)

definition example_ops :: "access_op list" where
  "example_ops =
     [OpCreate [97] False True None [] 0 [], OpCreate [115] False False None [] 0 [], OpJoin [97] [115],
      OpGrant [115] Select (object_table [116]), OpAsk [97] Select (object_table [116]), OpJoin [115] [97],
      OpLeave [97] [115], OpAsk [97] Select (object_table [116])]"

lemma example_names: "role_name [97]" "role_name [115]" "object_ok (object_table [116])"
proof -
  show "role_name [97]" "role_name [115]" by (rule plain_names; simp)+
  show "object_ok (object_table [116])"
    unfolding object_ok_def by (intro disjI2 exI [of _ "[116]"]) (simp add: valid_utf8_ascii)
qed

lemma example_rows_small:
  "small_edge (small_write 200) ([97], [115])" "small_edge (small_write 200) ([115], [97])"
  "small_held (small_write 200) ([115], Select, object_table [116])"
  using example_names by (simp_all add: row_sizes)

lemma example_ops_fit: "list_all (op_fits (small_write 200) co) example_ops"
  using example_names example_rows_small role_row_small by (simp add: example_ops_def del: op_fits.simps(1))

lemma example_ops_cost: "run_cost example_ops a \<le> 100"
  by (simp add: example_ops_def)

theorem access_control_refines_graph_witness:
  "fst (run_ops (access_exec (db_engine example_env stub_codec no_indexes example_lease) example_crypto) example_ops access_db)
   = [Ok True, Ok True, Ok True, Ok True, Ok True, Err (MemberCycle [115] [97]), Ok True, Ok False]"
proof -
  have "fst (run_ops access_spec example_ops no_access)
      = [Ok True, Ok True, Ok True, Ok True, Ok True, Err (MemberCycle [115] [97]), Ok True, Ok False]"
    by (simp add: example_ops_def no_access_def join_spec_def permitted_def single_edge_trancl)
  then show ?thesis
    using access_control_refines_graph [OF access_db_rep [OF example_ops_cost] example_ops_fit] by simp
qed

theorem membership_stays_acyclic_witness:
  "\<exists>a'. acc_rep (db_engine example_env stub_codec no_indexes example_lease) (db_rep example_env no_indexes example_lease 200)
      (small_write 200) 0
      (snd (run_ops (access_exec (db_engine example_env stub_codec no_indexes example_lease) example_crypto) example_ops access_db)) a'
    \<and> acyclic (acc_members a')"
  using membership_stays_acyclic [OF access_db_rep [OF example_ops_cost] example_ops_fit] by (simp add: no_access_def acyclic_def)


theorem dropped_role_keeps_grants_witness:
  "fst (run_ops (access_exec (db_engine example_env stub_codec no_indexes example_lease) example_crypto)
      [OpDrop [115] False, OpCreate [115] False True None [] 0 [], OpAsk [115] Select (object_table [116])]
      (snd (run_ops (access_exec (db_engine example_env stub_codec no_indexes example_lease) example_crypto)
        [OpCreate [115] False True None [] 0 [], OpGrant [115] Select (object_table [116])] access_db)))
   = [Ok True, Ok True, Ok True]"
proof -
  let ?ops = "[OpCreate [115] False True None [] 0 [], OpGrant [115] Select (object_table [116])]"
  have "list_all (op_fits (small_write 200) example_crypto) ?ops"
    using example_names example_rows_small role_row_small by (simp del: op_fits.simps(1))
  then have "acc_rep (db_engine example_env stub_codec no_indexes example_lease) (db_rep example_env no_indexes example_lease 200)
      (small_write 200) 10 (snd (run_ops (access_exec (db_engine example_env stub_codec no_indexes example_lease) example_crypto) ?ops access_db))
      (snd (run_ops access_spec ?ops no_access))"
    using db_rows.run_simulated [OF access_db_rep [of "run_cost ?ops no_access + 10"]] by fastforce
  from dropped_role_keeps_grants [OF this, of "[115]" Select "object_table [116]" example_crypto None "[]" 0]
  show ?thesis using example_names role_row_small by (simp add: no_access_def edges_at_def del: op_fits.simps(1))
qed

end
