(* ===== verification/Lexer.thy ===== *)
theory Lexer
  imports Ast Cells
begin

text \<open>
  The SQL lexer, sql/lexer.rs.  The state of a lexer is what is left of the source.
  The keyword variants of \<open>Token\<close> are \<open>TKw\<close> applied to the keyword's text.  Parsing a
  floating-point number is the standard library's, an argument.
\<close>

unbundle bit_operations_syntax

datatype Token =
    TInt i64 | TFloat u64 | TString bytes | TKw string | TIdent bytes
  | TStar | TPlus | TMinus | TSlash | TPercent | TEq | TNotEq | TLt | TLte | TGt | TGte | TConcat | TArrow | TLongArrow
  | TComma | TDot | TSemicolon | TLParen | TRParen | TLBracket | TRBracket | TColon | TDoubleColon | TDollar u32
  | TAtArrow | THashArrow | THashLongArrow | TTilde | TNotTilde | TTildeStar | TNotTildeStar | TEof

datatype lex_error = UnterminatedString | UnterminatedIdent | BadNumberText bytes | UnexpectedChar u8

definition KEYWORDS :: "string list" where
  "KEYWORDS =
     [''SELECT'', ''FROM'', ''WHERE'', ''AS'', ''AND'', ''OR'', ''NOT'', ''NULL'', ''TRUE'', ''FALSE'', ''SET'', ''SHOW'', ''BEGIN'',
      ''COMMIT'', ''ROLLBACK'', ''IS'', ''IN'', ''LIKE'', ''BETWEEN'', ''LIMIT'', ''OFFSET'', ''ORDER'', ''BY'', ''ASC'', ''DESC'', ''GROUP'',
      ''HAVING'', ''DISTINCT'', ''ALL'', ''CASE'', ''WHEN'', ''THEN'', ''ELSE'', ''END'', ''CAST'', ''INTERVAL'', ''INSERT'', ''INTO'',
      ''VALUES'', ''DELETE'', ''UPDATE'', ''CREATE'', ''TABLE'', ''DROP'', ''INDEX'', ''IF'', ''EXISTS'', ''PRIMARY'', ''KEY'', ''DEFAULT'',
      ''JOIN'', ''LEFT'', ''RIGHT'', ''FULL'', ''CROSS'', ''ON'', ''WITH'', ''RECURSIVE'', ''UNION'', ''OVER'', ''PARTITION'', ''ROWS'',
      ''RANGE'', ''UNBOUNDED'', ''PRECEDING'', ''FOLLOWING'', ''CURRENT'', ''ROW'', ''DECLARE'', ''CURSOR'', ''FOR'', ''FETCH'', ''NEXT'',
      ''MOVE'', ''CLOSE'', ''LISTEN'', ''NOTIFY'', ''UNLISTEN'', ''COPY'', ''STDIN'', ''STDOUT'', ''TO'', ''FUNCTION'', ''RETURNS'',
      ''LANGUAGE'', ''ALTER'', ''COLUMN'', ''UNIQUE'', ''REFERENCES'', ''FOREIGN'', ''SEQUENCE'', ''INCREMENT'', ''START'', ''TOPIC'',
      ''ANALYZE'', ''COLLATE'', ''OPERATOR'', ''MATCH'', ''RETURN'', ''ROLE'', ''SUPERUSER'', ''NOSUPERUSER'', ''LOGIN'', ''NOLOGIN'',
      ''PASSWORD'', ''GRANT'', ''REVOKE'', ''PRIVILEGES'', ''USAGE'', ''DATABASE'']"

subsection \<open>Characters\<close>

definition is_ascii_whitespace :: "u8 \<Rightarrow> bool" where
  "is_ascii_whitespace b \<longleftrightarrow> b = 32 \<or> b = 9 \<or> b = 10 \<or> b = 12 \<or> b = 13"

definition is_ascii_alphabetic :: "u8 \<Rightarrow> bool" where
  "is_ascii_alphabetic b \<longleftrightarrow> 65 \<le> b \<and> b \<le> 90 \<or> 97 \<le> b \<and> b \<le> 122"

definition to_upper :: "u8 \<Rightarrow> char" where
  "to_upper b = char_of (unat (if 97 \<le> b \<and> b \<le> 122 then b - 32 else b))"

definition peek_byte :: "bytes \<Rightarrow> u8 option" where
  "peek_byte bs = (case bs of [] \<Rightarrow> None | b # _ \<Rightarrow> Some b)"

text \<open>\<open>String::push(b as char)\<close>: the byte read as a character of Latin-1.\<close>

definition push_char :: "u8 \<Rightarrow> bytes" where
  "push_char b = (if b < 128 then [b] else [192 OR drop_bit 6 b, 128 OR (b AND 63)])"

subsection \<open>Blank space and comments\<close>

fun skip_line :: "bytes \<Rightarrow> bytes" where
  "skip_line [] = []"
| "skip_line (b # bs) = (if b = 10 then bs else skip_line bs)"

fun skip_block :: "bytes \<Rightarrow> bytes" where
  "skip_block [] = []"
| "skip_block (b # bs) = (if b = 42 \<and> peek_byte bs = Some 47 then drop 1 bs else skip_block bs)"

lemma length_skip_line: "length (skip_line bs) \<le> length bs"
  by (induction bs) auto

lemma length_skip_block: "length (skip_block bs) \<le> length bs"
  by (induction bs) auto

function skip_whitespace :: "bytes \<Rightarrow> bytes" where
  "skip_whitespace [] = []"
| "skip_whitespace (b # bs) =
     (if is_ascii_whitespace b then skip_whitespace bs
      else if b = 45 \<and> peek_byte bs = Some 45 then skip_whitespace (skip_line bs)
      else if b = 47 \<and> peek_byte bs = Some 42 then skip_whitespace (skip_block (drop 1 bs))
      else b # bs)"
  by pat_completeness auto
termination
proof (relation "measure length")
  fix b :: u8 and bs
  show "(skip_line bs, b # bs) \<in> measure length" using length_skip_line [of bs] by simp
  show "(skip_block (drop 1 bs), b # bs) \<in> measure length" using length_skip_block [of "drop 1 bs"] by simp
qed simp_all

lemma length_skip_whitespace: "length (skip_whitespace bs) \<le> length bs"
proof (induction bs rule: skip_whitespace.induct)
  case (2 b bs)
  then show ?case using length_skip_line [of bs] length_skip_block [of "drop 1 bs"] by auto
qed simp

subsection \<open>Literals and names\<close>

text \<open>The body of a literal or identifier after its opening quote; a doubled quote stands for one.\<close>

fun read_quoted :: "u8 \<Rightarrow> bytes \<Rightarrow> (bytes \<times> bytes) option" where
  "read_quoted q [] = None"
| "read_quoted q [b] = (if b = q then Some ([], []) else None)"
| "read_quoted q (b # c # bs) =
     (if b = q then (if c = q then map_option (\<lambda>(s, rest). (q # s, rest)) (read_quoted q bs) else Some ([], c # bs))
      else map_option (\<lambda>(s, rest). (push_char b @ s, rest)) (read_quoted q (c # bs)))"

lemma length_read_quoted: "read_quoted q bs = Some (s, rest) \<Longrightarrow> length rest < length bs"
proof (induction q bs arbitrary: s rule: read_quoted.induct)
  case (3 q b c bs)
  consider "b = q" "c \<noteq> q" | s' where "b = q" "c = q" "read_quoted q bs = Some (s', rest)"
    | s' where "b \<noteq> q" "read_quoted q (c # bs) = Some (s', rest)"
    using "3.prems" by (auto split: if_splits)
  then show ?case
  proof cases
    case 2
    then show ?thesis using "3.IH"(1) by fastforce
  next
    case 3
    then show ?thesis using "3.IH"(2) by fastforce
  qed (use "3.prems" in auto)
qed (auto split: if_splits)

text \<open>The text of a number, whether it has a point, whether it has an exponent, and the rest.\<close>

fun read_number :: "bool \<Rightarrow> bool \<Rightarrow> bytes \<Rightarrow> bytes \<times> bool \<times> bool \<times> bytes" where
  "read_number has_dot has_exp [] = ([], has_dot, has_exp, [])"
| "read_number has_dot has_exp (b # bs) =
     (if is_digit b then map_prod (Cons b) id (read_number has_dot has_exp bs)
      else if b = 46 \<and> \<not> has_dot \<and> \<not> has_exp then map_prod (Cons b) id (read_number True has_exp bs)
      else if (b = 101 \<or> b = 69) \<and> \<not> has_exp then
        (case bs of
           [] \<Rightarrow> ([b], has_dot, True, [])
         | s # rest \<Rightarrow>
             if s = 43 \<or> s = 45 then map_prod (\<lambda>t. b # s # t) id (read_number has_dot True rest)
             else map_prod (Cons b) id (read_number has_dot True bs))
      else ([], has_dot, has_exp, b # bs))"

declare read_number.simps [simp del]

lemma length_read_number: "length (snd (snd (snd (read_number d e bs)))) \<le> length bs"
proof (induction d e bs rule: read_number.induct)
  case (2 d e b bs)
  show ?case
  proof (cases bs)
    case Nil
    then show ?thesis by (simp add: read_number.simps)
  next
    case (Cons s rest)
    note unfold = read_number.simps(2) [of d e b bs]
    consider (digit) "is_digit b" | (dot) "\<not> is_digit b" "b = 46 \<and> \<not> d \<and> \<not> e"
      | (sign) "\<not> is_digit b" "\<not> (b = 46 \<and> \<not> d \<and> \<not> e)" "(b = 101 \<or> b = 69) \<and> \<not> e" "s = 43 \<or> s = 45"
      | (exp) "\<not> is_digit b" "\<not> (b = 46 \<and> \<not> d \<and> \<not> e)" "(b = 101 \<or> b = 69) \<and> \<not> e" "\<not> (s = 43 \<or> s = 45)"
      | (stop) "\<not> is_digit b" "\<not> (b = 46 \<and> \<not> d \<and> \<not> e)" "\<not> ((b = 101 \<or> b = 69) \<and> \<not> e)"
      by blast
    then show ?thesis
    proof cases
      case digit
      then show ?thesis using "2.IH"(1) unfold by simp
    next
      case dot
      then show ?thesis using "2.IH"(2) unfold by simp
    next
      case sign
      then show ?thesis using "2.IH"(3) unfold Cons by auto
    next
      case exp
      then show ?thesis using "2.IH"(4) [OF _ _ _ Cons] unfold Cons by auto
    next
      case stop
      then show ?thesis using unfold by auto
    qed
  qed
qed (simp add: read_number.simps)

definition read_ident :: "bytes \<Rightarrow> bytes \<times> bytes" where
  "read_ident bs =
     (let ok = \<lambda>b. is_ascii_alphabetic b \<or> is_digit b \<or> b = 95 \<or> b = 36 in (takeWhile ok bs, dropWhile ok bs))"

definition keyword_or_ident :: "bytes \<Rightarrow> Token" where
  "keyword_or_ident s = (let k = map to_upper s in if k \<in> set KEYWORDS then TKw k else TIdent s)"

subsection \<open>Tokens\<close>

text \<open>An operator or punctuation that starts with \<open>b\<close>, given what follows.\<close>

definition read_operator :: "u8 \<Rightarrow> bytes \<Rightarrow> (lex_error, Token \<times> bytes) result" where
  "read_operator b bs =
     (let p = peek_byte bs; p2 = peek_byte (drop 1 bs) in
      if b = 42 then Ok (TStar, bs) else if b = 43 then Ok (TPlus, bs) else if b = 37 then Ok (TPercent, bs)
      else if b = 44 then Ok (TComma, bs) else if b = 46 then Ok (TDot, bs) else if b = 59 then Ok (TSemicolon, bs)
      else if b = 40 then Ok (TLParen, bs) else if b = 41 then Ok (TRParen, bs)
      else if b = 91 then Ok (TLBracket, bs) else if b = 93 then Ok (TRBracket, bs)
      else if b = 47 then Ok (TSlash, bs) else if b = 61 then Ok (TEq, bs)
      else if b = 33 \<and> p = Some 61 then Ok (TNotEq, drop 1 bs)
      else if b = 33 \<and> p = Some 126 then (if p2 = Some 42 then Ok (TNotTildeStar, drop 2 bs) else Ok (TNotTilde, drop 1 bs))
      else if b = 60 then
        (if p = Some 61 then Ok (TLte, drop 1 bs) else if p = Some 62 then Ok (TNotEq, drop 1 bs) else Ok (TLt, bs))
      else if b = 62 then (if p = Some 61 then Ok (TGte, drop 1 bs) else Ok (TGt, bs))
      else if b = 45 then
        (if p = Some 62 then (if p2 = Some 62 then Ok (TLongArrow, drop 2 bs) else Ok (TArrow, drop 1 bs)) else Ok (TMinus, bs))
      else if b = 124 \<and> p = Some 124 then Ok (TConcat, drop 1 bs)
      else if b = 58 then (if p = Some 58 then Ok (TDoubleColon, drop 1 bs) else Ok (TColon, bs))
      else if b = 64 \<and> p = Some 62 then Ok (TAtArrow, drop 1 bs)
      else if b = 35 \<and> p = Some 62 then (if p2 = Some 62 then Ok (THashLongArrow, drop 2 bs) else Ok (THashArrow, drop 1 bs))
      else if b = 126 then (if p = Some 42 then Ok (TTildeStar, drop 1 bs) else Ok (TTilde, bs))
      else Err (UnexpectedChar b))"

definition starts_digit :: "bytes \<Rightarrow> bool" where
  "starts_digit bs \<longleftrightarrow> (case bs of [] \<Rightarrow> False | b # _ \<Rightarrow> is_digit b)"

definition number_token :: "(bytes \<Rightarrow> u64 option) \<Rightarrow> bytes \<Rightarrow> (lex_error, Token \<times> bytes) result" where
  "number_token parse_f64 bs =
     (case read_number False False bs of
        (s, has_dot, has_exp, rest) \<Rightarrow>
          if has_dot \<or> has_exp then (case parse_f64 s of Some f \<Rightarrow> Ok (TFloat f, rest) | None \<Rightarrow> Err (BadNumberText s))
          else (case parse_i64 s of Some n \<Rightarrow> Ok (TInt (word_of_int n), rest) | None \<Rightarrow> Err (BadNumberText s)))"

definition dollar_token :: "bytes \<Rightarrow> Token \<times> bytes" where
  "dollar_token bs =
     (TDollar (case parse_u32 (takeWhile is_digit bs) of Some n \<Rightarrow> n | None \<Rightarrow> 0), dropWhile is_digit bs)"

definition next_token :: "(bytes \<Rightarrow> u64 option) \<Rightarrow> bytes \<Rightarrow> (lex_error, Token \<times> bytes) result" where
  "next_token parse_f64 src =
     (case skip_whitespace src of
        [] \<Rightarrow> Ok (TEof, [])
      | b # bs \<Rightarrow>
          if b = 39 then
            (case read_quoted 39 bs of Some (s, rest) \<Rightarrow> Ok (TString s, rest) | None \<Rightarrow> Err UnterminatedString)
          else if b = 34 then
            (case read_quoted 34 bs of Some (s, rest) \<Rightarrow> Ok (TIdent s, rest) | None \<Rightarrow> Err UnterminatedIdent)
          else if is_digit b \<or> b = 46 \<and> starts_digit bs then number_token parse_f64 (b # bs)
          else if b = 36 \<and> starts_digit bs then Ok (dollar_token bs)
          else if is_ascii_alphabetic b \<or> b = 95 then
            (case read_ident (b # bs) of (s, rest) \<Rightarrow> Ok (keyword_or_ident s, rest))
          else read_operator b bs)"

lemma read_operator_shorter: "read_operator b bs = Ok (t, rest) \<Longrightarrow> length rest \<le> length bs"
proof -
  have "case read_operator b bs of Inl _ \<Rightarrow> True | Inr (t, rest) \<Rightarrow> length rest \<le> length bs"
    unfolding read_operator_def Let_def by (intro conjI impI | split if_split | simp)+
  then show "read_operator b bs = Ok (t, rest) \<Longrightarrow> length rest \<le> length bs" by simp
qed

lemma number_token_shorter:
  assumes "number_token parse_f64 (b # bs) = Ok (t, rest)" and "is_digit b \<or> b = 46"
  shows "length rest \<le> length bs"
proof -
  obtain s d e r where r: "read_number False False (b # bs) = (s, d, e, r)" by (metis prod_cases4)
  then have "rest = r" using assms(1) by (auto simp: number_token_def split: if_splits option.splits)
  moreover have "length (snd (snd (snd (read_number False False (b # bs))))) \<le> length bs"
    using assms(2) length_read_number [of False False bs] length_read_number [of True False bs]
    by (auto simp: read_number.simps)
  ultimately show ?thesis using r by simp
qed

lemma next_token_shorter:
  assumes "next_token parse_f64 src = Ok (t, rest)" and "t \<noteq> TEof"
  shows "length rest < length src"
proof (cases "skip_whitespace src")
  case (Cons b bs)
  note tok = assms(1) [unfolded next_token_def Cons list.case]
  have "length rest \<le> length bs"
  proof (cases "b = 39 \<or> b = 34")
    case True
    then show ?thesis
      using tok length_read_quoted [of 39 bs] length_read_quoted [of 34 bs] by (auto split: option.splits prod.splits)
  next
    case False
    then show ?thesis
      using tok number_token_shorter [of parse_f64 b bs t rest] read_operator_shorter [of b bs t rest] length_dropWhile_le [of _ bs]
      by (auto simp: dollar_token_def read_ident_def Let_def split: if_splits)
  qed
  then show ?thesis using length_skip_whitespace [of src] Cons by simp
qed (use assms in \<open>simp add: next_token_def\<close>)

function tokenize :: "(bytes \<Rightarrow> u64 option) \<Rightarrow> bytes \<Rightarrow> (lex_error, Token list) result" where
  "tokenize parse_f64 src =
     (case next_token parse_f64 src of
        Inl e \<Rightarrow> Err e
      | Inr (t, rest) \<Rightarrow>
          if t = TEof then Ok [TEof] else and_then (tokenize parse_f64 rest) (\<lambda>ts. Ok (t # ts)))"
  by pat_completeness auto
termination
  by (relation "measure (\<lambda>(f, src). length src)") (auto dest: next_token_shorter)

declare tokenize.simps [simp del]

end
