(* ===== verification/Parsing.thy ===== *)
theory Parsing
  imports Lexer
begin

text \<open>
  The token stream of sql/parser.rs and the control flow of its methods.  The state of a
  parser is the list of tokens not yet read, that is \<open>tokens[pos..]\<close>; a method is a
  function from it to an error, or a value and the tokens left.

  \<open>Stuck\<close> is the outcome of a loop or a recursion that used up its fuel.  The relations
  \<open>par n\<close> and \<open>spar n\<close> say that two parsers agree on fewer than \<open>n\<close> tokens, do not get
  stuck there and leave no more (strictly fewer) tokens than they were given.  The
  collection \<open>parser_rules\<close> derives them along the structure of a parser.
\<close>

named_theorems parser_rules \<open>agreement of parsers\<close>

datatype parse_error = Expected Token Token | Bad string Token | Refused string | Stuck

type_synonym 'a parser = "Token list \<Rightarrow> (parse_error, 'a \<times> Token list) result"

subsection \<open>Reading tokens\<close>

definition peek :: "Token list \<Rightarrow> Token" where
  "peek ts = (case ts of [] \<Rightarrow> TEof | t # _ \<Rightarrow> t)"

definition peek2 :: "Token list \<Rightarrow> Token" where
  "peek2 ts = peek (drop 1 ts)"

definition advance :: "Token parser" where
  "advance ts = Ok (peek ts, drop 1 ts)"

definition ret :: "'a \<Rightarrow> 'a parser" where
  "ret x ts = Ok (x, ts)"

definition bail :: "parse_error \<Rightarrow> 'a parser" where
  "bail e ts = Err e"

definition pbind :: "'a parser \<Rightarrow> ('a \<Rightarrow> 'b parser) \<Rightarrow> 'b parser" where
  "pbind p f ts = and_then (p ts) (\<lambda>(x, rest). f x rest)"

definition pthen :: "'a parser \<Rightarrow> 'b parser \<Rightarrow> 'b parser" where
  "pthen p q = pbind p (\<lambda>_. q)"

definition expect :: "Token \<Rightarrow> unit parser" where
  "expect t = pbind advance (\<lambda>got. if got = t then ret () else bail (Expected t got))"

definition eat :: "Token \<Rightarrow> bool parser" where
  "eat t ts = (if peek ts = t then Ok (True, drop 1 ts) else Ok (False, ts))"

subsection \<open>Branches\<close>

text \<open>
  \<open>if self.eat(t) { p } else { q }\<close>, which is also the arm \<open>t => { self.advance(); p }\<close> of
  a \<open>match self.peek()\<close> whose other arms are \<open>q\<close>.
\<close>

definition on :: "Token \<Rightarrow> 'a parser \<Rightarrow> 'a parser \<Rightarrow> 'a parser" where
  "on t p q = pbind (eat t) (\<lambda>b. if b then p else q)"

text \<open>The arms for a token that carries a value, and for two tokens in a row.\<close>

definition on_some :: "(Token \<Rightarrow> 'b option) \<Rightarrow> ('b \<Rightarrow> 'a parser) \<Rightarrow> 'a parser \<Rightarrow> 'a parser" where
  "on_some f p q ts = (case f (peek ts) of Some x \<Rightarrow> p x (drop 1 ts) | None \<Rightarrow> q ts)"

definition on2 :: "Token \<Rightarrow> Token \<Rightarrow> 'a parser \<Rightarrow> 'a parser \<Rightarrow> 'a parser" where
  "on2 t u p q ts = (if peek ts = t \<and> peek2 ts = u then p (drop 2 ts) else q ts)"

text \<open>A test of the next token, or of the one after it, that reads nothing.\<close>

definition at_tok :: "(Token \<Rightarrow> bool) \<Rightarrow> 'a parser \<Rightarrow> 'a parser \<Rightarrow> 'a parser" where
  "at_tok c p q ts = (if c (peek ts) then p ts else q ts)"

definition at_tok2 :: "Token \<Rightarrow> Token \<Rightarrow> 'a parser \<Rightarrow> 'a parser \<Rightarrow> 'a parser" where
  "at_tok2 t u p q ts = (if peek ts = t \<and> peek2 ts = u then p ts else q ts)"

definition opt :: "Token \<Rightarrow> unit parser" where
  "opt t = pthen (eat t) (ret ())"

fun int_of :: "Token \<Rightarrow> i64 option" where
  "int_of (TInt n) = Some n"
| "int_of t = None"

fun float_of :: "Token \<Rightarrow> u64 option" where
  "float_of (TFloat f) = Some f"
| "float_of t = None"

fun string_of :: "Token \<Rightarrow> bytes option" where
  "string_of (TString s) = Some s"
| "string_of t = None"

fun ident_of :: "Token \<Rightarrow> bytes option" where
  "ident_of (TIdent s) = Some s"
| "ident_of t = None"

fun dollar_of :: "Token \<Rightarrow> u32 option" where
  "dollar_of (TDollar n) = Some n"
| "dollar_of t = None"

text \<open>\<open>match self.advance().clone() { T(x) => x, other => bail!(msg, other) }\<close>.\<close>

definition expect_some :: "(Token \<Rightarrow> 'b option) \<Rightarrow> string \<Rightarrow> 'b parser" where
  "expect_some f msg = pbind advance (\<lambda>t. case f t of Some x \<Rightarrow> ret x | None \<Rightarrow> bail (Bad msg t))"

definition same_word :: "string \<Rightarrow> Token \<Rightarrow> bool" where
  "same_word w t \<longleftrightarrow> (case ident_of t of Some s \<Rightarrow> map to_upper s = w | None \<Rightarrow> False)"

subsection \<open>Loops\<close>

text \<open>The body of a loop returns its new state and whether the loop goes on.\<close>

primrec loopp :: "nat \<Rightarrow> ('s \<Rightarrow> ('s \<times> bool) parser) \<Rightarrow> 's \<Rightarrow> 's parser" where
  "loopp 0 body s = bail Stuck"
| "loopp (Suc fuel) body s = pbind (body s) (\<lambda>(s', again). if again then loopp fuel body s' else ret s')"

text \<open>A loop that reads a token in each round ends within \<open>Suc (length ts)\<close> rounds.\<close>

definition iterate :: "('s \<Rightarrow> ('s \<times> bool) parser) \<Rightarrow> 's \<Rightarrow> 's parser" where
  "iterate body s ts = loopp (Suc (length ts)) body s ts"

definition again :: "'s \<Rightarrow> ('s \<times> bool) parser" where
  "again s = ret (s, True)"

definition stop :: "'s \<Rightarrow> ('s \<times> bool) parser" where
  "stop s = ret (s, False)"

text \<open>\<open>vec![p()?]\<close>, then \<open>push(p()?)\<close> while a comma follows.\<close>

definition comma_list :: "'a parser \<Rightarrow> 'a list parser" where
  "comma_list p =
     pbind p (\<lambda>x. iterate (\<lambda>xs. on TComma (pbind p (\<lambda>y. again (xs @ [y]))) (stop xs)) [x])"

definition closed :: "'a parser \<Rightarrow> 'a parser" where
  "closed p = pbind p (\<lambda>x. pthen (expect TRParen) (ret x))"

definition optional :: "Token \<Rightarrow> 'a parser \<Rightarrow> 'a option parser" where
  "optional t p = on t (pbind p (\<lambda>x. ret (Some x))) (ret None)"

subsection \<open>Agreement\<close>

text \<open>
  Two parsers agree on fewer than \<open>n\<close> tokens and do not get stuck there; \<open>Q\<close> relates a
  value, the number of tokens left and the number given.
\<close>

definition fits :: "('a \<Rightarrow> nat \<Rightarrow> nat \<Rightarrow> bool) \<Rightarrow> nat \<Rightarrow> 'a parser \<Rightarrow> 'a parser \<Rightarrow> bool" where
  "fits Q n p q \<longleftrightarrow>
     (\<forall>ts. length ts < n \<longrightarrow>
        p ts = q ts \<and> p ts \<noteq> Err Stuck \<and> (\<forall>x rest. p ts = Ok (x, rest) \<longrightarrow> Q x (length rest) (length ts)))"

abbreviation par :: "nat \<Rightarrow> 'a parser \<Rightarrow> 'a parser \<Rightarrow> bool" where
  "par \<equiv> fits (\<lambda>x k l. k \<le> l)"

abbreviation spar :: "nat \<Rightarrow> 'a parser \<Rightarrow> 'a parser \<Rightarrow> bool" where
  "spar \<equiv> fits (\<lambda>x k l. k < l)"

text \<open>The body of a loop must read a token when it goes on.\<close>

abbreviation rpar :: "nat \<Rightarrow> ('s \<times> bool) parser \<Rightarrow> ('s \<times> bool) parser \<Rightarrow> bool" where
  "rpar \<equiv> fits (\<lambda>(s, g) k l. k \<le> l \<and> (g \<longrightarrow> k < l))"

lemma peek_simps [simp]: "peek [] = TEof" "peek (t # ts) = t" "peek2 [] = TEof" "peek2 (t # ts) = peek ts"
  by (simp_all add: peek_def peek2_def)

lemma peek_not_eof: "peek ts \<noteq> TEof \<Longrightarrow> \<exists>r. ts = peek ts # r"
  by (cases ts) auto

lemma fitsI:
  assumes "\<And>ts. length ts < n \<Longrightarrow> p ts = q ts" and "\<And>ts. length ts < n \<Longrightarrow> p ts \<noteq> Err Stuck"
    and "\<And>ts x rest. length ts < n \<Longrightarrow> p ts = Ok (x, rest) \<Longrightarrow> Q x (length rest) (length ts)"
  shows "fits Q n p q"
  using assms by (simp add: fits_def)

lemma fitsD:
  assumes "fits Q n p q" and "length ts < n"
  shows "p ts = q ts" and "p ts \<noteq> Err Stuck" and "p ts = Ok (x, rest) \<Longrightarrow> Q x (length rest) (length ts)"
  using assms by (auto simp: fits_def)

lemma fits_weaken:
  assumes f: "fits Q n p q" and m: "m \<le> n" and QR: "\<And>x k l. Q x k l \<Longrightarrow> R x k l"
  shows "fits R m p q"
proof (rule fitsI)
  fix ts :: "Token list" assume "length ts < m"
  then have n: "length ts < n" using m by simp
  show "p ts = q ts" "p ts \<noteq> Err Stuck" using fitsD [OF f n] by simp_all
  show "p ts = Ok (x, rest) \<Longrightarrow> R x (length rest) (length ts)" for x rest
    using fitsD(3) [OF f n] by (intro QR)
qed

lemma spar_par: "spar n p q \<Longrightarrow> par n p q"
  by (erule fits_weaken) auto

lemma spar_mono: "spar n p q \<Longrightarrow> m \<le> n \<Longrightarrow> spar m p q"
  by (erule fits_weaken)

lemma par_mono: "par n p q \<Longrightarrow> m \<le> n \<Longrightarrow> par m p q"
  by (erule fits_weaken)

lemma spar_rpar: "spar n p q \<Longrightarrow> rpar n p q"
  by (erule fits_weaken) auto

lemma fits_bind:
  assumes p: "fits Q n p p'" and f: "\<And>x. fits (R x) m (f x) (f' x)"
    and less: "\<And>x k l. Q x k l \<Longrightarrow> l < n \<Longrightarrow> k < m"
    and QR: "\<And>x y j k l. Q x k l \<Longrightarrow> R x y j k \<Longrightarrow> S y j l"
  shows "fits S n (pbind p f) (pbind p' f')"
  unfolding fits_def
proof (intro allI impI)
  fix ts :: "Token list" assume n: "length ts < n"
  show "pbind p f ts = pbind p' f' ts \<and> pbind p f ts \<noteq> Err Stuck \<and>
      (\<forall>x rest. pbind p f ts = Ok (x, rest) \<longrightarrow> S x (length rest) (length ts))"
  proof (cases "p ts")
    case (Inl e)
    then show ?thesis using fitsD(1,2) [OF p n] by (simp add: pbind_def)
  next
    case (Inr xr)
    obtain x r where xr: "p ts = Ok (x, r)" "p' ts = Ok (x, r)" using Inr fitsD(1) [OF p n] by (cases xr) auto
    have q: "Q x (length r) (length ts)" by (rule fitsD(3) [OF p n xr(1)])
    then have m: "length r < m" using less n by blast
    have "S y (length rest) (length ts)" if "f x r = Ok (y, rest)" for y rest
      using QR [OF q fitsD(3) [OF f m that]] .
    then show ?thesis using fitsD(1,2) [OF f [of x] m] xr by (simp add: pbind_def)
  qed
qed

lemma par_bind [parser_rules]:
  assumes p: "par n p p'" and f: "\<And>x. par n (f x) (f' x)"
  shows "par n (pbind p f) (pbind p' f')"
  by (rule fits_bind [OF p f]) auto

text \<open>After a token has been read, one token fewer may be left.\<close>

lemma spar_bind:
  assumes p: "spar (Suc n) p p'" and f: "\<And>x. par n (f x) (f' x)"
  shows "spar (Suc n) (pbind p f) (pbind p' f')"
  by (rule fits_bind [OF p f]) auto

lemma spar_bind_later:
  assumes p: "par n p p'" and f: "\<And>x. spar n (f x) (f' x)"
  shows "spar n (pbind p f) (pbind p' f')"
  by (rule fits_bind [OF p f]) auto

lemma spar_bind_first:
  assumes p: "spar n p p'" and f: "\<And>x. par n (f x) (f' x)"
  shows "spar n (pbind p f) (pbind p' f')"
  by (rule fits_bind [OF p f]) auto

lemma rpar_bind [parser_rules]: "spar n p p' \<Longrightarrow> (\<And>x. par n (f x) (f' x)) \<Longrightarrow> rpar n (pbind p f) (pbind p' f')"
  by (rule spar_rpar, rule spar_bind_first)

lemma par_ret [parser_rules]: "par n (ret x) (ret x)"
  by (simp add: fits_def ret_def)

lemma fits_bail [parser_rules]: "e \<noteq> Stuck \<Longrightarrow> fits Q n (bail e) (bail e)"
  by (simp add: fits_def bail_def)

lemma par_advance [parser_rules]: "par n advance advance"
  by (simp add: fits_def advance_def)

lemma par_eat [parser_rules]: "par n (eat t) (eat t)"
  by (simp add: fits_def eat_def)

lemma par_then [parser_rules]: "par n p p' \<Longrightarrow> par n q q' \<Longrightarrow> par n (pthen p q) (pthen p' q')"
  unfolding pthen_def by (rule par_bind)

lemma spar_then: "spar (Suc n) p p' \<Longrightarrow> par n q q' \<Longrightarrow> spar (Suc n) (pthen p q) (pthen p' q')"
  unfolding pthen_def by (rule spar_bind)

lemma fits_if [parser_rules]: "fits Q n p p' \<Longrightarrow> fits Q n q q' \<Longrightarrow> fits Q n (if b then p else q) (if b then p' else q')"
  by simp

lemma fits_case_option [parser_rules]:
  "(\<And>x. fits Q n (p x) (p' x)) \<Longrightarrow> fits Q n q q' \<Longrightarrow>
   fits Q n (case v of Some x \<Rightarrow> p x | None \<Rightarrow> q) (case v of Some x \<Rightarrow> p' x | None \<Rightarrow> q')"
  by (cases v) auto

lemma fits_case_prod [parser_rules]:
  "(\<And>x y. fits Q n (p x y) (p' x y)) \<Longrightarrow> fits Q n (case z of (x, y) \<Rightarrow> p x y) (case z of (x, y) \<Rightarrow> p' x y)"
  by (cases z) auto

lemma fits_at_tok [parser_rules]:
  assumes "fits Q n p p'" and "fits Q n q q'"
  shows "fits Q n (at_tok c p q) (at_tok c p' q')"
proof (rule fitsI)
  fix ts :: "Token list" assume n: "length ts < n"
  note d = fitsD [OF assms(1) n] fitsD [OF assms(2) n]
  show "at_tok c p q ts = at_tok c p' q' ts" using d by (simp add: at_tok_def)
  show "at_tok c p q ts \<noteq> Err Stuck" using d(2,5) by (simp add: at_tok_def)
  show "at_tok c p q ts = Ok (x, rest) \<Longrightarrow> Q x (length rest) (length ts)" for x rest
    using d(3,6) by (simp add: at_tok_def split: if_splits)
qed

lemma fits_at_tok2 [parser_rules]:
  assumes "fits Q n p p'" and "fits Q n q q'"
  shows "fits Q n (at_tok2 t u p q) (at_tok2 t u p' q')"
proof (rule fitsI)
  fix ts :: "Token list" assume n: "length ts < n"
  note d = fitsD [OF assms(1) n] fitsD [OF assms(2) n]
  show "at_tok2 t u p q ts = at_tok2 t u p' q' ts" using d by (simp add: at_tok2_def)
  show "at_tok2 t u p q ts \<noteq> Err Stuck" using d(2,5) by (simp add: at_tok2_def)
  show "at_tok2 t u p q ts = Ok (x, rest) \<Longrightarrow> Q x (length rest) (length ts)" for x rest
    using d(3,6) by (simp add: at_tok2_def split: if_splits)
qed

lemma par_opt [parser_rules]: "par n (opt t) (opt t)"
  unfolding opt_def by (intro parser_rules)

lemma par_on [parser_rules]: "par n p p' \<Longrightarrow> par n q q' \<Longrightarrow> par n (on t p q) (on t p' q')"
  unfolding on_def by (intro parser_rules)

lemma par_expect_some [parser_rules]: "par n (expect_some f msg) (expect_some f msg)"
  unfolding expect_some_def by (intro parser_rules) simp

lemma par_expect [parser_rules]: "par n (expect t) (expect t)"
  unfolding expect_def by (intro parser_rules) simp

lemma par_closed [parser_rules]: "par n p p' \<Longrightarrow> par n (closed p) (closed p')"
  unfolding closed_def by (intro parser_rules)

lemma par_optional [parser_rules]: "par n p p' \<Longrightarrow> par n (optional t p) (optional t p')"
  unfolding optional_def by (intro parser_rules)

lemma par_drop:
  assumes p: "par n p p'" and n: "length ts < n"
  shows "p (drop k ts) = p' (drop k ts)" and "p (drop k ts) \<noteq> Err Stuck"
    and "p (drop k ts) = Ok (x, rest) \<Longrightarrow> length rest \<le> length ts"
proof -
  have m: "length (drop k ts) < n" using n by simp
  show "p (drop k ts) = p' (drop k ts)" "p (drop k ts) \<noteq> Err Stuck" using fitsD(1,2) [OF p m] by simp_all
  show "p (drop k ts) = Ok (x, rest) \<Longrightarrow> length rest \<le> length ts" using fitsD(3) [OF p m, of x rest] by simp
qed

lemma par_on2 [parser_rules]:
  assumes "par n p p'" and "par n q q'"
  shows "par n (on2 t u p q) (on2 t u p' q')"
proof (rule fitsI)
  fix ts :: "Token list" assume n: "length ts < n"
  note d = par_drop [OF assms(1) n, where k = 2] fitsD [OF assms(2) n]
  show "on2 t u p q ts = on2 t u p' q' ts" using d by (simp add: on2_def)
  show "on2 t u p q ts \<noteq> Err Stuck" using d(2,5) by (simp add: on2_def)
  show "on2 t u p q ts = Ok (x, rest) \<Longrightarrow> length rest \<le> length ts" for x rest
    using d(3,6) by (simp add: on2_def split: if_splits)
qed

lemma par_on_some [parser_rules]:
  assumes "\<And>x. par n (p x) (p' x)" and "par n q q'"
  shows "par n (on_some f p q) (on_some f p' q')"
proof (rule fitsI)
  fix ts :: "Token list" assume n: "length ts < n"
  note d = par_drop [OF assms(1) n, where k = 1] fitsD [OF assms(2) n]
  show "on_some f p q ts = on_some f p' q' ts" using d by (simp add: on_some_def split: option.split)
  show "on_some f p q ts \<noteq> Err Stuck" using d(2,5) by (simp add: on_some_def split: option.split)
  show "on_some f p q ts = Ok (x, rest) \<Longrightarrow> length rest \<le> length ts" for x rest
    using d(3,6) by (simp add: on_some_def split: option.splits)
qed

text \<open>Branches that start by reading a token.\<close>

lemma fits_on:
  assumes t: "t \<noteq> TEof" and p: "par m p p'" and q: "fits Q n q q'" and m: "n \<le> Suc m"
    and Q: "\<And>x k l. k < l \<Longrightarrow> Q x k l"
  shows "fits Q n (on t p q) (on t p' q')"
  unfolding fits_def
proof (intro allI impI)
  fix ts :: "Token list" assume n: "length ts < n"
  show "on t p q ts = on t p' q' ts \<and> on t p q ts \<noteq> Err Stuck \<and>
      (\<forall>x rest. on t p q ts = Ok (x, rest) \<longrightarrow> Q x (length rest) (length ts))"
  proof (cases "peek ts = t")
    case True
    then obtain r where ts: "ts = t # r" using t peek_not_eof [of ts] by auto
    then have r: "length r < m" using n m by simp
    have "Q x (length rest) (length ts)" if "p r = Ok (x, rest)" for x rest
      using fitsD(3) [OF p r that] ts by (intro Q) simp
    then show ?thesis using fitsD(1,2) [OF p r] by (simp add: ts on_def pbind_def eat_def)
  next
    case False
    then show ?thesis using fitsD [OF q n] by (simp add: on_def pbind_def eat_def)
  qed
qed

lemma spar_on: "t \<noteq> TEof \<Longrightarrow> par n p p' \<Longrightarrow> spar (Suc n) q q' \<Longrightarrow> spar (Suc n) (on t p q) (on t p' q')"
  by (rule fits_on) auto

lemma rpar_on [parser_rules]: "t \<noteq> TEof \<Longrightarrow> par n p p' \<Longrightarrow> rpar n q q' \<Longrightarrow> rpar n (on t p q) (on t p' q')"
  by (rule fits_on) auto

lemma spar_on_same: "t \<noteq> TEof \<Longrightarrow> par n p p' \<Longrightarrow> spar n q q' \<Longrightarrow> spar n (on t p q) (on t p' q')"
  by (rule fits_on) auto

lemma spar_on2_same:
  assumes t: "t \<noteq> TEof" and p: "par n p p'" and q: "spar n q q'"
  shows "spar n (on2 t u p q) (on2 t u p' q')"
proof (rule fitsI)
  fix ts :: "Token list" assume n: "length ts < n"
  note d = par_drop [OF p n, where k = 2] fitsD [OF q n]
  show "on2 t u p q ts = on2 t u p' q' ts" using d by (simp add: on2_def)
  show "on2 t u p q ts \<noteq> Err Stuck" using d(2,5) by (simp add: on2_def)
  show "length rest < length ts" if r: "on2 t u p q ts = Ok (x, rest)" for x rest
  proof (cases "peek ts = t \<and> peek2 ts = u")
    case True
    then have "ts \<noteq> []" "length (drop 2 ts) < n" using t n by auto
    then show ?thesis using fitsD(3) [OF p, of "drop 2 ts" x rest] r True
      by (cases ts) (auto simp: on2_def)
  qed (use r d(6) in \<open>auto simp: on2_def\<close>)
qed

lemma fits_on_some:
  assumes f: "f TEof = None" and p: "\<And>x. par m (p x) (p' x)" and q: "fits Q n q q'" and m: "n \<le> Suc m"
    and Q: "\<And>x k l. k < l \<Longrightarrow> Q x k l"
  shows "fits Q n (on_some f p q) (on_some f p' q')"
  unfolding fits_def
proof (intro allI impI)
  fix ts :: "Token list" assume n: "length ts < n"
  show "on_some f p q ts = on_some f p' q' ts \<and> on_some f p q ts \<noteq> Err Stuck \<and>
      (\<forall>x rest. on_some f p q ts = Ok (x, rest) \<longrightarrow> Q x (length rest) (length ts))"
  proof (cases "f (peek ts)")
    case (Some y)
    then obtain t r where ts: "ts = t # r" using f peek_not_eof [of ts] by (cases ts) auto
    then have r: "length r < m" using n m by simp
    have "Q x (length rest) (length ts)" if "p y r = Ok (x, rest)" for x rest
      using fitsD(3) [OF p r that] ts by (intro Q) simp
    then show ?thesis using fitsD(1,2) [OF p [of y] r] Some by (simp add: ts on_some_def)
  next
    case None
    then show ?thesis using fitsD [OF q n] by (simp add: on_some_def)
  qed
qed

lemma spar_on_some:
  "f TEof = None \<Longrightarrow> (\<And>x. par n (p x) (p' x)) \<Longrightarrow> spar (Suc n) q q' \<Longrightarrow> spar (Suc n) (on_some f p q) (on_some f p' q')"
  by (rule fits_on_some) auto

lemma rpar_on_some [parser_rules]:
  "f TEof = None \<Longrightarrow> (\<And>x. par n (p x) (p' x)) \<Longrightarrow> rpar n q q' \<Longrightarrow> rpar n (on_some f p q) (on_some f p' q')"
  by (rule fits_on_some) auto

lemma spar_expect [parser_rules]: "t \<noteq> TEof \<Longrightarrow> spar n (expect t) (expect t)"
  by (auto simp: fits_def expect_def pbind_def advance_def ret_def bail_def peek_def split: list.split)

lemma spar_expect_some [parser_rules]: "f TEof = None \<Longrightarrow> spar n (expect_some f msg) (expect_some f msg)"
  by (auto simp: fits_def expect_some_def pbind_def advance_def ret_def bail_def peek_def split: list.split option.split)

subsection \<open>Loops end\<close>

lemma loopp_fits:
  assumes body: "\<And>s. rpar n (body s) (body' s)"
  shows "length ts < n \<Longrightarrow> length ts < fuel \<Longrightarrow>
    loopp fuel body s ts = loopp fuel body' s ts \<and> loopp fuel body s ts \<noteq> Err Stuck \<and>
    (\<forall>x rest. loopp fuel body s ts = Ok (x, rest) \<longrightarrow> length rest \<le> length ts)"
proof (induction fuel arbitrary: s ts)
  case (Suc fuel)
  note b = fitsD [OF body Suc.prems(1)]
  show ?case
  proof (cases "body s ts")
    case (Inl e)
    then show ?thesis using b(1,2) [of s] by (simp add: pbind_def)
  next
    case (Inr x)
    obtain s' g r where x: "body s ts = Ok ((s', g), r)" using Inr by (cases x; cases "fst x") auto
    have r: "length r \<le> length ts" "g \<Longrightarrow> length r < length ts" using b(3) [OF x] by simp_all
    show ?thesis
    proof (cases g)
      case True
      then have "length r < n" "length r < fuel" using r Suc.prems by simp_all
      note ih = Suc.IH [OF this, of s']
      have e: "loopp (Suc fuel) body s ts = loopp fuel body s' r" "loopp (Suc fuel) body' s ts = loopp fuel body' s' r"
        using x b(1) [of s] True by (simp_all add: pbind_def)
      show ?thesis unfolding e using ih r by fastforce
    next
      case False
      have "body' s ts = Ok ((s', g), r)" using x b(1) [of s] by simp
      then show ?thesis using x r False by (simp add: pbind_def ret_def)
    qed
  qed
qed simp

lemma par_iterate [parser_rules]:
  "(\<And>s. rpar n (body s) (body' s)) \<Longrightarrow> par n (iterate body s) (iterate body' s)"
  unfolding fits_def [of _ _ "iterate _ _"] iterate_def using loopp_fits [of n body body'] by blast

lemma rpar_stop [parser_rules]: "rpar n (stop s) (stop s)"
  by (simp add: fits_def stop_def ret_def)

lemma par_again [parser_rules]: "par n (again s) (again s)" "par n (stop s) (stop s)"
  unfolding again_def stop_def by (rule par_ret)+

lemma par_comma_list [parser_rules]: "par n p p' \<Longrightarrow> par n (comma_list p) (comma_list p')"
  unfolding comma_list_def by (intro parser_rules) simp_all

lemma spar_comma_list [parser_rules]: "spar n p p' \<Longrightarrow> spar n (comma_list p) (comma_list p')"
  unfolding comma_list_def by (intro spar_bind_first parser_rules spar_par) simp_all

end
