(* ===== verification/ExprParser.thy ===== *)
theory ExprParser
  imports Parsing
begin

text \<open>
  The expression and \<open>SELECT\<close> methods of sql/parser.rs.  \<open>parse_expr\<close> and \<open>parse_select\<close> call
  each other: the methods below take the two as arguments \<open>pe\<close> and \<open>ps\<close>, \<open>expr_body\<close> and
  \<open>select_body\<close> are their bodies, and \<open>parsers\<close> ties the knot with a bound on the depth of
  nesting.  A nested call follows a token already read, so one more than the number of tokens
  is bound enough: \<open>parse_expr\<close> and \<open>parse_select\<close> take that bound and satisfy the equations of
  the source (\<open>parse_expr_unfold\<close>, \<open>parse_select_unfold\<close>).
\<close>

type_synonym expr_parser = "nat \<Rightarrow> Expr parser"
type_synonym select_parser = "SelectStmt parser"

subsection \<open>Names and numbers\<close>

definition parse_ident_string :: "bytes parser" where
  "parse_ident_string = expect_some ident_of ''expected identifier''"

definition parse_object_name :: "bytes parser" where
  "parse_object_name = pbind parse_ident_string (\<lambda>first. on TDot parse_ident_string (ret first))"

definition parse_cast_type_name :: "bytes parser" where
  "parse_cast_type_name =
     pbind parse_ident_string
       (iterate (\<lambda>name. on TDot (pbind parse_ident_string again) (stop name)))"

text \<open>\<open>n as f64\<close>: the nearest double, ties to even, as its bits.\<close>

fun bit_len :: "nat \<Rightarrow> nat" where
  "bit_len m = (if m = 0 then 0 else Suc (bit_len (m div 2)))"

declare bit_len.simps [simp del]

definition round_half_even :: "nat \<Rightarrow> nat \<Rightarrow> nat" where
  "round_half_even m k =
     (let q = m div 2 ^ k; r = m mod 2 ^ k; half = 2 ^ (k - 1) in
      if half < r \<or> r = half \<and> odd q then q + 1 else q)"

definition f64_of_i64 :: "i64 \<Rightarrow> u64" where
  "f64_of_i64 n =
     (let m = nat \<bar>sint n\<bar>; e = bit_len m - 1;
          frac = if e \<le> 52 then m * 2 ^ (52 - e) else round_half_even m (e - 52) in
      if m = 0 then 0
      else word_of_nat ((if sint n < 0 then 2 ^ 63 else 0) + (e + 1023) * 2 ^ 52 + (frac - 2 ^ 52)))"

definition parse_float_element :: "u64 parser" where
  "parse_float_element =
     on_some float_of ret (on_some int_of (\<lambda>n. ret (f64_of_i64 n))
       (\<lambda>ts. bail (Bad ''expected numeric element in float array literal'' (peek ts)) ts))"

definition parse_float_array_literal :: "Expr parser" where
  "parse_float_array_literal =
     pthen (expect TLBracket)
       (pbind (at_tok (\<lambda>t. t = TRBracket) (ret []) (comma_list parse_float_element)) (\<lambda>items.
        pthen (expect TRBracket) (ret (ELiteral (LFloatArray items)))))"

subsection \<open>Binding powers\<close>

definition infix_bp :: "Token \<Rightarrow> (nat \<times> nat \<times> BinOp) option" where
  "infix_bp tok =
     map_of
       [(TKw ''OR'', (1, 2, OrOp)), (TKw ''AND'', (3, 4, AndOp)), (TEq, (5, 6, Eq)), (TNotEq, (5, 6, NotEq)), (TLt, (5, 6, Lt)),
        (TLte, (5, 6, Lte)), (TGt, (5, 6, Gt)), (TGte, (5, 6, Gte)), (TConcat, (7, 8, Concat)), (TPlus, (9, 10, Add)),
        (TMinus, (9, 10, Sub)), (TStar, (11, 12, Mul)), (TSlash, (11, 12, Div)), (TPercent, (11, 12, Mod)),
        (TArrow, (13, 14, Arrow)), (TLongArrow, (13, 14, LongArrow)), (THashArrow, (13, 14, HashArrow)),
        (THashLongArrow, (13, 14, HashLongArrow)), (TAtArrow, (5, 6, Contains)), (TTilde, (5, 6, RegexMatch)),
        (TNotTilde, (5, 6, RegexNotMatch)), (TTildeStar, (5, 6, RegexMatchCI)), (TNotTildeStar, (5, 6, RegexNotMatchCI)),
        (TKw ''IS'', (5, 6, Eq)), (TKw ''BETWEEN'', (5, 6, Eq)), (TKw ''LIKE'', (5, 6, Eq)), (TKw ''IN'', (5, 6, Eq)),
        (TKw ''NOT'', (5, 6, Eq)), (TKw ''COLLATE'', (5, 6, Eq)), (TKw ''OPERATOR'', (5, 6, Eq))] tok"

subsection \<open>Window clauses\<close>

definition parse_order_by :: "expr_parser \<Rightarrow> Expr OrderBy parser" where
  "parse_order_by pe =
     pbind (pe 0) (\<lambda>e. on (TKw ''DESC'') (ret (OrderBy e False)) (pthen (opt (TKw ''ASC'')) (ret (OrderBy e True))))"

definition parse_order_by_list :: "expr_parser \<Rightarrow> Expr OrderBy list parser" where
  "parse_order_by_list pe = comma_list (parse_order_by pe)"

definition preceding_or_following :: "'a \<Rightarrow> 'a \<Rightarrow> 'a parser" where
  "preceding_or_following a b =
     pbind advance (\<lambda>t. if t = TKw ''PRECEDING'' then ret a else if t = TKw ''FOLLOWING'' then ret b
                        else bail (Bad ''expected PRECEDING or FOLLOWING'' t))"

definition parse_frame_bound :: "expr_parser \<Rightarrow> Expr FrameBound parser" where
  "parse_frame_bound pe =
     on (TKw ''UNBOUNDED'')
       (preceding_or_following (FrameBound UnboundedPreceding None) (FrameBound UnboundedFollowing None))
     (on (TKw ''CURRENT'') (pthen (expect (TKw ''ROW'')) (ret (FrameBound CurrentRow None)))
     (pbind (pe 0) (\<lambda>e. preceding_or_following (FrameBound Preceding (Some e)) (FrameBound Following (Some e)))))"

definition parse_window_frame :: "expr_parser \<Rightarrow> Expr WindowFrame parser" where
  "parse_window_frame pe =
     pbind (pbind advance (\<lambda>t. if t = TKw ''ROWS'' then ret FrameRows else if t = TKw ''RANGE'' then ret FrameRange
                              else bail (Bad ''expected ROWS or RANGE'' t))) (\<lambda>frame_type.
     on (TKw ''BETWEEN'')
       (pbind (parse_frame_bound pe) (\<lambda>start. pthen (expect (TKw ''AND''))
         (pbind (parse_frame_bound pe) (\<lambda>end_bound. ret (WindowFrame frame_type start (Some end_bound))))))
       (pbind (parse_frame_bound pe) (\<lambda>start. ret (WindowFrame frame_type start None))))"

definition parse_over_clause :: "expr_parser \<Rightarrow> bytes \<Rightarrow> Expr list \<Rightarrow> Expr parser" where
  "parse_over_clause pe func args =
     pthen (expect (TKw ''OVER'')) (pthen (expect TLParen)
     (pbind (on (TKw ''PARTITION'') (pthen (expect (TKw ''BY'')) (comma_list (pe 0))) (ret [])) (\<lambda>partition_by.
      pbind (on2 (TKw ''ORDER'') (TKw ''BY'') (parse_order_by_list pe) (ret [])) (\<lambda>order_by.
      pbind (at_tok (\<lambda>t. t = TKw ''ROWS'' \<or> t = TKw ''RANGE'') (pbind (parse_window_frame pe) (\<lambda>f. ret (Some f))) (ret None))
        (\<lambda>frame. pthen (expect TRParen) (ret (EWindow func args partition_by order_by frame)))))))"

subsection \<open>Atoms\<close>

definition parse_case :: "expr_parser \<Rightarrow> Expr parser" where
  "parse_case pe =
     pbind (at_tok (\<lambda>t. t \<noteq> TKw ''WHEN'') (pbind (pe 0) (\<lambda>e. ret (Some e))) (ret None)) (\<lambda>operand.
     pbind (iterate (\<lambda>branches. on (TKw ''WHEN'')
              (pbind (pe 0) (\<lambda>cond. pthen (expect (TKw ''THEN'')) (pbind (pe 0) (\<lambda>r. again (branches @ [(cond, r)])))))
              (stop branches)) []) (\<lambda>branches.
     pbind (optional (TKw ''ELSE'') (pe 0)) (\<lambda>else_branch.
     pthen (expect (TKw ''END'')) (ret (ECase operand branches else_branch)))))"

definition parse_call :: "expr_parser \<Rightarrow> bytes \<Rightarrow> Expr parser" where
  "parse_call pe name =
     pbind (eat (TKw ''DISTINCT'')) (\<lambda>distinct.
     pbind (closed (on TStar (ret []) (at_tok (\<lambda>t. t = TRParen) (ret []) (comma_list (pe 0))))) (\<lambda>args.
     at_tok (\<lambda>t. t = TKw ''OVER'') (parse_over_clause pe name args) (ret (EFunction name args distinct))))"

definition parse_name :: "expr_parser \<Rightarrow> bytes \<Rightarrow> Expr parser" where
  "parse_name pe name =
     on TLParen (parse_call pe name)
     (on TDot
       (pbind parse_ident_string (\<lambda>col. on TLParen (parse_call pe (name @ [46] @ col)) (ret (EQualifiedIdent name col))))
       (ret (EIdent name)))"

definition parse_atom :: "expr_parser \<Rightarrow> select_parser \<Rightarrow> Expr parser" where
  "parse_atom pe ps =
     on_some int_of (\<lambda>n. ret (ELiteral (LInt n)))
     (on_some float_of (\<lambda>f. ret (ELiteral (LFloat f)))
     (on_some string_of (\<lambda>s. ret (ELiteral (LText s)))
     (on (TKw ''TRUE'') (ret (ELiteral (LBool True)))
     (on (TKw ''FALSE'') (ret (ELiteral (LBool False)))
     (on (TKw ''NULL'') (ret (ELiteral LNull))
     (at_tok (\<lambda>t. t = TLBracket) parse_float_array_literal
     (on_some dollar_of (\<lambda>n. ret (EParam n))
     (on TLParen
       (at_tok (\<lambda>t. t = TKw ''SELECT'') (pbind (closed ps) (\<lambda>q. ret (ESubquery q))) (closed (pe 0)))
     (on (TKw ''CASE'') (parse_case pe)
     (on (TKw ''CAST'')
       (pthen (expect TLParen) (pbind (pe 0) (\<lambda>inner. pthen (opt (TKw ''AS''))
         (pbind (closed parse_cast_type_name) (\<lambda>ty. ret (ECast inner ty))))))
     (on_some ident_of (parse_name pe)
     (\<lambda>ts. bail (Bad ''unexpected token in expression'' (peek ts)) ts))))))))))))"

definition parse_postfix :: "expr_parser \<Rightarrow> select_parser \<Rightarrow> Expr parser" where
  "parse_postfix pe ps =
     pbind (parse_atom pe ps)
       (iterate (\<lambda>expr. on TDoubleColon (pbind parse_cast_type_name (\<lambda>ty. again (ECast expr ty))) (stop expr)))"

definition parse_exists :: "select_parser \<Rightarrow> bool \<Rightarrow> Expr parser" where
  "parse_exists ps negated =
     pthen (expect (TKw ''EXISTS'')) (pthen (expect TLParen) (pbind (closed ps) (\<lambda>q. ret (EExists q negated))))"

fun parse_unary :: "expr_parser \<Rightarrow> select_parser \<Rightarrow> Expr parser" where
  "parse_unary pe ps [] = parse_postfix pe ps []"
| "parse_unary pe ps (t # ts) =
     (if t = TMinus then and_then (parse_unary pe ps ts) (\<lambda>(e, rest). Ok (EUnaryOp Neg e, rest))
      else if t = TPlus then parse_unary pe ps ts
      else if t = TKw ''NOT'' \<and> peek ts = TKw ''EXISTS'' then parse_exists ps True ts
      else if t = TKw ''NOT'' then and_then (parse_unary pe ps ts) (\<lambda>(e, rest). Ok (EUnaryOp NotOp e, rest))
      else if t = TKw ''EXISTS'' then parse_exists ps False (t # ts)
      else parse_postfix pe ps (t # ts))"

subsection \<open>Infix operators\<close>

definition parse_is :: "Expr \<Rightarrow> Expr parser" where
  "parse_is lhs =
     pbind (eat (TKw ''NOT'')) (\<lambda>negated.
     on (TKw ''NULL'') (ret (EIsNull lhs negated))
     (on (TKw ''TRUE'') (ret (EIsTrue lhs negated))
     (on (TKw ''FALSE'') (ret (EIsFalse lhs negated))
     (bail (Refused ''expected NULL, TRUE, or FALSE after IS'')))))"

definition parse_between :: "expr_parser \<Rightarrow> nat \<Rightarrow> Expr \<Rightarrow> bool \<Rightarrow> Expr parser" where
  "parse_between pe r_bp lhs negated =
     pbind (pe r_bp) (\<lambda>low. pthen (opt (TKw ''AND'')) (pbind (pe r_bp) (\<lambda>high. ret (EBetween lhs low high negated))))"

definition parse_in :: "expr_parser \<Rightarrow> select_parser \<Rightarrow> Expr \<Rightarrow> bool \<Rightarrow> Expr parser" where
  "parse_in pe ps lhs negated =
     pthen (expect TLParen)
       (pbind (closed (at_tok (\<lambda>t. t = TKw ''SELECT'') (pbind ps (\<lambda>q. ret (InSubquery q)))
                         (pbind (comma_list (pe 0)) (\<lambda>es. ret (InExprs es)))))
          (\<lambda>l. ret (EIn lhs l negated)))"

text \<open>An optional schema, as \<open>pg_catalog\<close> with its point.\<close>

definition skip_qualifier :: "unit parser" where
  "skip_qualifier ts = Ok ((), if ident_of (peek ts) \<noteq> None \<and> peek2 ts = TDot then drop 2 ts else ts)"

definition parse_collate :: "Expr \<Rightarrow> Expr parser" where
  "parse_collate lhs = pthen skip_qualifier (on_some ident_of (\<lambda>_. ret lhs) (on (TKw ''DEFAULT'') (ret lhs) (ret lhs)))"

definition parse_operator :: "expr_parser \<Rightarrow> Expr \<Rightarrow> Expr parser" where
  "parse_operator pe lhs =
     pthen (expect TLParen) (pthen skip_qualifier
       (on_some infix_bp
          (\<lambda>(l_bp, r_bp, binop). pthen (expect TRParen) (pbind (pe r_bp) (\<lambda>rhs. ret (EBinaryOp binop lhs rhs))))
          (bail (Refused ''unknown operator in OPERATOR(...)''))))"

text \<open>One round of the loop, on an operator that binds tightly enough.\<close>

definition infix_step :: "expr_parser \<Rightarrow> select_parser \<Rightarrow> Expr \<Rightarrow> nat \<Rightarrow> BinOp \<Rightarrow> Expr parser" where
  "infix_step pe ps lhs r_bp op =
     on (TKw ''IS'') (parse_is lhs)
     (on2 (TKw ''NOT'') (TKw ''BETWEEN'') (parse_between pe r_bp lhs True)
     (on (TKw ''BETWEEN'') (parse_between pe r_bp lhs False)
     (on2 (TKw ''NOT'') (TKw ''LIKE'') (pbind (pe r_bp) (\<lambda>p. ret (ELike lhs p True)))
     (on (TKw ''LIKE'') (pbind (pe r_bp) (\<lambda>p. ret (ELike lhs p False)))
     (on2 (TKw ''NOT'') (TKw ''IN'') (parse_in pe ps lhs True)
     (on (TKw ''IN'') (parse_in pe ps lhs False)
     (on (TKw ''COLLATE'') (parse_collate lhs)
     (on (TKw ''OPERATOR'') (parse_operator pe lhs)
     (pthen advance (pbind (pe r_bp) (\<lambda>rhs. ret (EBinaryOp op lhs rhs))))))))))))"

definition infix_round :: "expr_parser \<Rightarrow> select_parser \<Rightarrow> nat \<Rightarrow> Expr \<Rightarrow> (Expr \<times> bool) parser" where
  "infix_round pe ps min_bp lhs ts =
     (case infix_bp (peek ts) of
        None \<Rightarrow> stop lhs ts
      | Some (l_bp, r_bp, op) \<Rightarrow> if l_bp < min_bp then stop lhs ts else pbind (infix_step pe ps lhs r_bp op) again ts)"

definition infix_loop :: "expr_parser \<Rightarrow> select_parser \<Rightarrow> nat \<Rightarrow> Expr \<Rightarrow> Expr parser" where
  "infix_loop pe ps min_bp = iterate (infix_round pe ps min_bp)"

definition expr_body :: "expr_parser \<Rightarrow> select_parser \<Rightarrow> nat \<Rightarrow> Expr parser" where
  "expr_body pe ps min_bp = pbind (parse_unary pe ps) (infix_loop pe ps min_bp)"

subsection \<open>SELECT\<close>

definition parse_alias :: "bytes option parser" where
  "parse_alias =
     on (TKw ''AS'') (pbind parse_ident_string (\<lambda>a. ret (Some a))) (on_some ident_of (\<lambda>a. ret (Some a)) (ret None))"

definition parse_projection :: "expr_parser \<Rightarrow> Expr Projection parser" where
  "parse_projection pe =
     on TStar (on TDot (pbind parse_ident_string (\<lambda>t. ret (WildcardTable t))) (ret Wildcard))
     (pbind (pe 0) (\<lambda>e. pbind parse_alias (\<lambda>a. ret (ProjExpr e a))))"

definition virtual_schema :: "bytes \<Rightarrow> bool" where
  "virtual_schema s \<longleftrightarrow> map to_upper s = ''PG_CATALOG'' \<or> map to_upper s = ''INFORMATION_SCHEMA''"

definition parse_table_ref :: "expr_parser \<Rightarrow> select_parser \<Rightarrow> (Expr, SelectStmt) TableRef parser" where
  "parse_table_ref pe ps =
     at_tok2 TLParen (TKw ''SELECT'')
       (pthen advance (pbind (closed ps) (\<lambda>subquery.
          pbind (on (TKw ''AS'') parse_ident_string parse_ident_string) (\<lambda>alias.
          ret (TableRef alias (Some alias) (Some subquery) None)))))
       (pbind parse_ident_string (\<lambda>first.
          on TLParen
            (pbind (closed (at_tok (\<lambda>t. t \<noteq> TRParen) (comma_list (pe 0)) (ret []))) (\<lambda>args.
             pbind parse_alias (\<lambda>alias. ret (TableRef first alias None (Some args)))))
            (pbind (on TDot
                     (pbind parse_ident_string (\<lambda>second. ret (if virtual_schema first then first @ [46] @ second else second)))
                     (ret first)) (\<lambda>name.
             pbind parse_alias (\<lambda>alias. ret (TableRef name alias None None))))))"

definition parse_join_type :: "JoinType option parser" where
  "parse_join_type =
     on TComma (ret (Some Cross))
     (on (TKw ''JOIN'') (ret (Some Inner))
     (on (TKw ''LEFT'') (pthen (opt (TKw ''JOIN'')) (ret (Some Left)))
     (on (TKw ''RIGHT'') (pthen (opt (TKw ''JOIN'')) (ret (Some Right)))
     (on (TKw ''FULL'') (pthen (opt (TKw ''JOIN'')) (ret (Some Full)))
     (on (TKw ''CROSS'') (pthen (expect (TKw ''JOIN'')) (ret (Some Cross)))
     (ret None))))))"

definition parse_join :: "expr_parser \<Rightarrow> select_parser \<Rightarrow> JoinType \<Rightarrow> (Expr, SelectStmt) Join parser" where
  "parse_join pe ps join_type =
     pbind (parse_table_ref pe ps) (\<lambda>table. pbind (optional (TKw ''ON'') (pe 0)) (\<lambda>c. ret (Join join_type table c)))"

definition parse_table_with_joins :: "expr_parser \<Rightarrow> select_parser \<Rightarrow> (Expr, SelectStmt) TableWithJoins parser" where
  "parse_table_with_joins pe ps =
     pbind (parse_table_ref pe ps) (\<lambda>primary.
     pbind (iterate (\<lambda>joins. pbind parse_join_type (\<lambda>jt.
              case jt of Some j \<Rightarrow> pbind (parse_join pe ps j) (\<lambda>join. again (joins @ [join])) | None \<Rightarrow> stop joins)) [])
       (\<lambda>joins. ret (TableWithJoins primary joins)))"

definition parse_union :: "select_parser \<Rightarrow> (UnionOp \<times> SelectStmt) option parser" where
  "parse_union ps =
     on (TKw ''UNION'')
       (pbind (on (TKw ''ALL'') (ret UnionAll) (ret Union)) (\<lambda>op. pbind ps (\<lambda>rhs. ret (Some (op, rhs)))))
       (ret None)"

definition select_body :: "expr_parser \<Rightarrow> select_parser \<Rightarrow> SelectStmt parser" where
  "select_body pe ps =
     pthen (expect (TKw ''SELECT''))
     (pbind (on (TKw ''DISTINCT'') (ret True) (pthen (opt (TKw ''ALL'')) (ret False))) (\<lambda>distinct.
      pbind (comma_list (parse_projection pe)) (\<lambda>projections.
      pbind (optional (TKw ''FROM'') (parse_table_with_joins pe ps)) (\<lambda>from_clause.
      pbind (optional (TKw ''WHERE'') (pe 0)) (\<lambda>where_clause.
      pbind (on2 (TKw ''GROUP'') (TKw ''BY'') (comma_list (pe 0)) (ret [])) (\<lambda>group_by.
      pbind (optional (TKw ''HAVING'') (pe 0)) (\<lambda>having.
      pbind (on2 (TKw ''ORDER'') (TKw ''BY'') (parse_order_by_list pe) (ret [])) (\<lambda>order_by.
      pbind (optional (TKw ''LIMIT'') (pe 0)) (\<lambda>limit.
      pbind (optional (TKw ''OFFSET'') (pe 0)) (\<lambda>offset.
      pbind (parse_union ps) (\<lambda>union.
      ret (SelectStmt [] distinct projections from_clause where_clause group_by having order_by limit offset union))))))))))))"

subsection \<open>The recursion\<close>

primrec parsers :: "nat \<Rightarrow> expr_parser \<times> select_parser" where
  "parsers 0 = (\<lambda>_. bail Stuck, bail Stuck)"
| "parsers (Suc n) =
     (expr_body (fst (parsers n)) (snd (parsers n)), select_body (fst (parsers n)) (snd (parsers n)))"

definition parse_expr :: expr_parser where
  "parse_expr min_bp ts = fst (parsers (Suc (length ts))) min_bp ts"

definition parse_select :: select_parser where
  "parse_select ts = snd (parsers (Suc (length ts))) ts"

subsection \<open>The recursion ends\<close>

lemma spar_ident [parser_rules]: "spar n parse_ident_string parse_ident_string"
  unfolding parse_ident_string_def by (rule spar_expect_some) simp

lemma par_ident [parser_rules]: "par n parse_ident_string parse_ident_string"
  by (rule spar_par [OF spar_ident])

lemma par_object_name [parser_rules]: "par n parse_object_name parse_object_name"
  unfolding parse_object_name_def by (intro parser_rules)

lemma par_cast_type_name [parser_rules]: "par n parse_cast_type_name parse_cast_type_name"
  unfolding parse_cast_type_name_def by (intro parser_rules) simp

lemma par_float_element [parser_rules]: "par n parse_float_element parse_float_element"
  unfolding parse_float_element_def by (intro parser_rules) (simp add: fits_def bail_def)

lemma infix_bp_Eof [simp]: "infix_bp TEof = None"
  by (simp add: infix_bp_def)

lemma par_skip_qualifier [parser_rules]: "par n skip_qualifier skip_qualifier"
  by (simp add: fits_def skip_qualifier_def)

lemma par_alias [parser_rules]: "par n parse_alias parse_alias"
  unfolding parse_alias_def by (intro parser_rules)

lemma par_preceding_or_following [parser_rules]: "par n (preceding_or_following a b) (preceding_or_following a b)"
  unfolding preceding_or_following_def by (intro parser_rules) simp

lemma par_is [parser_rules]: "par n (parse_is e) (parse_is e)"
  unfolding parse_is_def by (intro parser_rules) simp

lemma par_collate [parser_rules]: "par n (parse_collate e) (parse_collate e)"
  unfolding parse_collate_def by (intro parser_rules)

lemma spar_float_array: "spar n parse_float_array_literal parse_float_array_literal"
  unfolding parse_float_array_literal_def pthen_def by (intro spar_bind_first parser_rules) simp_all

lemma par_clauses [parser_rules]:
  assumes pe: "\<And>b. par n (pe b) (pe' b)"
  shows "par n (parse_order_by_list pe) (parse_order_by_list pe')"
    and "par n (parse_window_frame pe) (parse_window_frame pe')"
    and "par n (parse_between pe r lhs g) (parse_between pe' r lhs g)"
    and "par n (parse_operator pe lhs) (parse_operator pe' lhs)"
    and "par n (parse_case pe) (parse_case pe')"
  unfolding parse_order_by_list_def parse_order_by_def parse_window_frame_def parse_frame_bound_def parse_between_def
    parse_operator_def parse_case_def
  by (intro parser_rules pe; simp)+

lemma par_calls [parser_rules]:
  assumes pe: "\<And>b. par n (pe b) (pe' b)"
  shows "par n (parse_over_clause pe f es) (parse_over_clause pe' f es)"
    and "par n (parse_call pe f) (parse_call pe' f)"
    and "par n (parse_name pe f) (parse_name pe' f)"
  unfolding parse_name_def parse_call_def parse_over_clause_def by (intro parser_rules pe)+

lemma par_projection [parser_rules]:
  assumes pe: "\<And>b. par n (pe b) (pe' b)"
  shows "par n (parse_projection pe) (parse_projection pe')"
  unfolding parse_projection_def by (intro parser_rules pe)

lemma par_union [parser_rules]: "par n ps ps' \<Longrightarrow> par n (parse_union ps) (parse_union ps')"
  unfolding parse_union_def by (intro parser_rules)

lemma par_selects [parser_rules]:
  assumes pe: "\<And>b. par n (pe b) (pe' b)" and ps: "par n ps ps'"
  shows "par n (parse_in pe ps lhs g) (parse_in pe' ps' lhs g)"
    and "par n (parse_join pe ps j) (parse_join pe' ps' j)"
    and "par n (parse_table_ref pe ps) (parse_table_ref pe' ps')"
  unfolding parse_in_def parse_join_def parse_table_ref_def
  by (intro parser_rules pe ps)+

lemma spar_atom:
  assumes pe: "\<And>b. par n (pe b) (pe' b)" and ps: "par n ps ps'"
  shows "spar (Suc n) (parse_atom pe ps) (parse_atom pe' ps')"
  unfolding parse_atom_def
  by (intro spar_on spar_on_some fits_at_tok spar_float_array parser_rules pe ps) (simp_all add: fits_def bail_def)

lemma spar_postfix:
  assumes pe: "\<And>b. par n (pe b) (pe' b)" and ps: "par n ps ps'"
  shows "spar (Suc n) (parse_postfix pe ps) (parse_postfix pe' ps')"
  unfolding parse_postfix_def
  by (intro spar_bind spar_atom pe ps parser_rules) simp

lemma spar_exists: "par n ps ps' \<Longrightarrow> spar (Suc n) (parse_exists ps g) (parse_exists ps' g)"
  unfolding parse_exists_def by (intro spar_then parser_rules) simp_all

lemma unary_ok:
  assumes pe: "\<And>b. par n (pe b) (pe' b)" and ps: "par n ps ps'"
  shows "length ts < Suc n \<Longrightarrow>
    parse_unary pe ps ts = parse_unary pe' ps' ts \<and> parse_unary pe ps ts \<noteq> Err Stuck \<and>
    (\<forall>x rest. parse_unary pe ps ts = Ok (x, rest) \<longrightarrow> length rest < length ts)"
proof (induction ts)
  case Nil
  then show ?case using fitsD [OF spar_postfix [where pe = pe and pe' = pe', OF pe ps], of "[]"] by fastforce
next
  case (Cons t ts)
  have m: "length ts < Suc n" using Cons.prems by simp
  note ih = Cons.IH [OF m]
  note post = fitsD [OF spar_postfix [where pe = pe and pe' = pe', OF pe ps] Cons.prems]
  note ex = fitsD [OF spar_exists [OF ps] Cons.prems, of False] fitsD [OF spar_exists [OF ps] m, of True]
  define G :: "(parse_error, Expr \<times> Token list) result \<Rightarrow> bool"
    where "G r \<longleftrightarrow> r \<noteq> Err Stuck \<and> (\<forall>x rest. r = Ok (x, rest) \<longrightarrow> length rest < Suc (length ts))" for r
  have u: "G (parse_unary pe ps ts)" unfolding G_def using ih less_SucI by blast
  have w: "G (and_then (parse_unary pe ps ts) (\<lambda>(e, rest). Ok (f e, rest)))" for f
    using u by (auto simp: G_def and_then_Ok_iff and_then_Err_iff)
  have x: "G (parse_exists ps False (t # ts))" "G (parse_exists ps True ts)"
    unfolding G_def using ex(2,3,5) less_SucI [OF ex(6)] by auto
  have p: "G (parse_postfix pe ps (t # ts))" unfolding G_def using post(2,3) by auto
  have "G (parse_unary pe ps (t # ts))" using u w x p by auto
  moreover have "parse_unary pe ps (t # ts) = parse_unary pe' ps' (t # ts)" using ih post(1) ex(1,4) by auto
  ultimately show ?case unfolding G_def length_Cons by blast
qed

lemma spar_unary:
  assumes "\<And>b. par n (pe b) (pe' b)" and "par n ps ps'"
  shows "spar (Suc n) (parse_unary pe ps) (parse_unary pe' ps')"
  unfolding fits_def using unary_ok [where pe = pe and pe' = pe', OF assms] by blast

lemma spar_advance_then: "spar n q q' \<Longrightarrow> spar n (pthen advance q) (pthen advance q')"
  unfolding pthen_def by (intro spar_bind_later parser_rules)

lemma spar_infix_step:
  assumes pe: "\<And>b. spar n (pe b) (pe' b)" and ps: "spar n ps ps'"
  shows "spar n (infix_step pe ps lhs r op) (infix_step pe' ps' lhs r op)"
  unfolding infix_step_def
  by (intro spar_on_same spar_on2_same spar_advance_then spar_bind_first pe parser_rules
      spar_par [OF pe] spar_par [OF ps]) simp_all

lemma rpar_infix_round [parser_rules]:
  assumes pe: "\<And>b. spar n (pe b) (pe' b)" and ps: "spar n ps ps'"
  shows "rpar n (infix_round pe ps m lhs) (infix_round pe' ps' m lhs)"
proof -
  have step: "rpar n (pbind (infix_step pe ps lhs r op) again) (pbind (infix_step pe' ps' lhs r op) again)" for r op
    by (intro parser_rules spar_infix_step pe ps)
  have stop: "rpar n (stop lhs) (stop lhs)" by (rule rpar_stop)
  show ?thesis
  proof (rule fitsI)
    fix ts :: "Token list" assume n: "length ts < n"
    show "infix_round pe ps m lhs ts = infix_round pe' ps' m lhs ts"
      using fitsD(1) [OF step n] by (simp add: infix_round_def split: option.split)
    show "infix_round pe ps m lhs ts \<noteq> Err Stuck"
      using fitsD(2) [OF step n] fitsD(2) [OF stop n] by (simp add: infix_round_def split: option.split)
    show "(case x of (s, g) \<Rightarrow> \<lambda>k l. k \<le> l \<and> (g \<longrightarrow> k < l)) (length rest) (length ts)"
      if "infix_round pe ps m lhs ts = Ok (x, rest)" for x rest
      using that fitsD(3) [where x = x and rest = rest, OF step n] fitsD(3) [where x = x and rest = rest, OF stop n]
      by (auto simp: infix_round_def split: option.splits if_splits)
  qed
qed

lemma spar_expr_body:
  assumes pe: "\<And>b. spar n (pe b) (pe' b)" and ps: "spar n ps ps'"
  shows "spar (Suc n) (expr_body pe ps m) (expr_body pe' ps' m)"
  unfolding expr_body_def infix_loop_def
  by (intro spar_bind spar_unary parser_rules pe ps spar_par [OF pe] spar_par [OF ps])

text \<open>A round of the join loop reads the token that names the join.\<close>

lemma join_type_reads:
  assumes "parse_join_type ts = Ok (j, rest)"
  shows "length rest \<le> length ts \<and> (j \<noteq> None \<longrightarrow> length rest < length ts)"
  using assms
  by (cases ts) (auto simp: parse_join_type_def on_def pbind_def eat_def ret_def pthen_def opt_def expect_def advance_def
      bail_def split: if_splits)

lemma join_type_not_stuck: "parse_join_type ts \<noteq> Err Stuck"
  by (auto simp: parse_join_type_def on_def pbind_def eat_def ret_def pthen_def opt_def expect_def advance_def bail_def
      split: if_splits)

lemma rpar_join_round [parser_rules]:
  assumes pj: "\<And>j. par n (pj j) (pj' j)"
  shows "rpar n (pbind parse_join_type (\<lambda>jt. case jt of Some j \<Rightarrow> pbind (pj j) (\<lambda>x. again (f x)) | None \<Rightarrow> stop s))
     (pbind parse_join_type (\<lambda>jt. case jt of Some j \<Rightarrow> pbind (pj' j) (\<lambda>x. again (f x)) | None \<Rightarrow> stop s))"
proof (rule fits_bind)
  show "fits (\<lambda>j k l. k \<le> l \<and> (j \<noteq> None \<longrightarrow> k < l)) n parse_join_type parse_join_type"
    using join_type_reads join_type_not_stuck by (simp add: fits_def)
  show "fits (\<lambda>(s, g) k l. k \<le> l \<and> (jt = None \<longrightarrow> \<not> g)) n
      (case jt of Some j \<Rightarrow> pbind (pj j) (\<lambda>x. again (f x)) | None \<Rightarrow> stop s)
      (case jt of Some j \<Rightarrow> pbind (pj' j) (\<lambda>x. again (f x)) | None \<Rightarrow> stop s)" for jt
  proof (cases jt)
    case None
    then show ?thesis by (simp add: fits_def stop_def ret_def)
  next
    case (Some j)
    have "par n (pbind (pj j) (\<lambda>x. again (f x))) (pbind (pj' j) (\<lambda>x. again (f x)))" by (intro parser_rules pj)
    then show ?thesis using Some by (simp add: case_prod_unfold)
  qed
qed auto

lemma par_table_with_joins [parser_rules]:
  assumes pe: "\<And>b. par n (pe b) (pe' b)" and ps: "par n ps ps'"
  shows "par n (parse_table_with_joins pe ps) (parse_table_with_joins pe' ps')"
  unfolding parse_table_with_joins_def by (intro parser_rules pe ps)

lemma spar_select_body:
  assumes pe: "\<And>b. spar n (pe b) (pe' b)" and ps: "spar n ps ps'"
  shows "spar (Suc n) (select_body pe ps) (select_body pe' ps')"
  unfolding select_body_def
  by (intro spar_then parser_rules spar_par [OF pe] spar_par [OF ps]) simp_all

lemma spar_parsers:
  "n \<le> m \<Longrightarrow> n \<le> k \<Longrightarrow>
   (\<forall>b. spar n (fst (parsers m) b) (fst (parsers k) b)) \<and> spar n (snd (parsers m)) (snd (parsers k))"
proof (induction n arbitrary: m k)
  case (Suc n)
  obtain m' k' where mk: "m = Suc m'" "k = Suc k'" using Suc.prems by (metis Suc_le_D)
  then have ih: "spar n (fst (parsers m') b) (fst (parsers k') b)" "spar n (snd (parsers m')) (snd (parsers k'))" for b
    using Suc.IH [of m' k'] Suc.prems by auto
  show ?case
    using spar_expr_body [where pe = "fst (parsers m')" and pe' = "fst (parsers k')", OF ih]
      spar_select_body [where pe = "fst (parsers m')" and pe' = "fst (parsers k')", OF ih] mk by simp
qed (simp add: fits_def)

lemma parsers_enough:
  assumes "length ts < n"
  shows "fst (parsers n) b ts = parse_expr b ts" and "snd (parsers n) ts = parse_select ts"
    and "parse_expr b ts \<noteq> Err Stuck" and "parse_select ts \<noteq> Err Stuck"
    and "parse_expr b ts = Ok (e, rest) \<Longrightarrow> length rest < length ts"
    and "parse_select ts = Ok (q, rest) \<Longrightarrow> length rest < length ts"
proof -
  have l: "length ts < Suc (length ts)" by simp
  have n: "Suc (length ts) \<le> n" using assms by simp
  have e: "spar (Suc (length ts)) (fst (parsers (Suc (length ts))) b) (fst (parsers n) b)"
    using spar_parsers [OF order.refl n] by blast
  have s: "spar (Suc (length ts)) (snd (parsers (Suc (length ts)))) (snd (parsers n))"
    using spar_parsers [OF order.refl n] by blast
  show "fst (parsers n) b ts = parse_expr b ts" "snd (parsers n) ts = parse_select ts"
    "parse_expr b ts \<noteq> Err Stuck" "parse_select ts \<noteq> Err Stuck"
    "parse_expr b ts = Ok (e, rest) \<Longrightarrow> length rest < length ts"
    "parse_select ts = Ok (q, rest) \<Longrightarrow> length rest < length ts"
    unfolding parse_expr_def parse_select_def
    using fitsD [OF e l] fitsD [OF s l] by (simp_all del: parsers.simps)
qed

lemma spar_expr: "spar n (parse_expr b) (parse_expr b)" and spar_select: "spar n parse_select parse_select"
  by (auto simp: fits_def parsers_enough [OF lessI])

lemma spar_parsers_expr: "spar n (fst (parsers n) b) (parse_expr b)"
  and spar_parsers_select: "spar n (snd (parsers n)) parse_select"
  by (auto simp: fits_def parsers_enough)

text \<open>The two methods satisfy the equations of the source.\<close>

lemma parse_expr_unfold: "parse_expr b = expr_body parse_expr parse_select b"
proof
  fix ts
  show "parse_expr b ts = expr_body parse_expr parse_select b ts"
    using fitsD(1) [OF spar_expr_body [where pe' = parse_expr, OF spar_parsers_expr spar_parsers_select], of ts "length ts" b]
    by (simp add: parse_expr_def)
qed

lemma parse_select_unfold: "parse_select = select_body parse_expr parse_select"
proof
  fix ts
  show "parse_select ts = select_body parse_expr parse_select ts"
    using fitsD(1) [OF spar_select_body [where pe' = parse_expr, OF spar_parsers_expr spar_parsers_select], of ts "length ts"]
    by (simp add: parse_select_def)
qed

lemmas par_expr [parser_rules] = spar_par [OF spar_expr]
lemmas par_select [parser_rules] = spar_par [OF spar_select]

end
