(* ===== verification/StmtParser.thy ===== *)
theory StmtParser
  imports ExprParser
begin

text \<open>
  The statement methods of sql/parser.rs.  The loop over the table constraints of
  \<open>CREATE TABLE\<close> does not stop at the end of the input, so it takes its fuel from the caller
  and \<open>Stuck\<close> is a possible outcome; every other statement ends.  The debug format of a token,
  which \<open>SET\<close> keeps as the value, is an argument.
\<close>

subsection \<open>Shared clauses\<close>

definition parse_columns :: "bytes list parser" where
  "parse_columns = on TLParen (closed (comma_list parse_ident_string)) (ret [])"

definition parse_role_name_list :: "bytes list parser" where
  "parse_role_name_list = comma_list parse_ident_string"

definition parse_paren_ident_list :: "bytes list parser" where
  "parse_paren_ident_list = pthen (expect TLParen) (closed (comma_list parse_ident_string))"

definition parse_if_not_exists :: "bool parser" where
  "parse_if_not_exists =
     on2 (TKw ''IF'') (TKw ''NOT'') (pthen (expect (TKw ''EXISTS'')) (ret True)) (ret False)"

definition parse_if_exists :: "bool parser" where
  "parse_if_exists = on2 (TKw ''IF'') (TKw ''EXISTS'') (ret True) (ret False)"

definition parse_type_name :: "bytes parser" where
  "parse_type_name = pbind parse_ident_string (\<lambda>name. on2 TLBracket TRBracket (ret (name @ ascii ''[]'')) (ret name))"

definition parse_signed_int :: "i64 parser" where
  "parse_signed_int =
     pbind (eat TMinus) (\<lambda>neg. pbind (expect_some int_of ''expected integer'') (\<lambda>n. ret (if neg then - n else n)))"

definition option_key :: "Token \<Rightarrow> bytes option" where
  "option_key t =
     (if t = TKw ''INTERVAL'' then Some (ascii ''interval'') else if t = TKw ''TO'' then Some (ascii ''to'') else ident_of t)"

definition option_value :: "Token \<Rightarrow> bytes option" where
  "option_value t =
     (case string_of t of
        Some s \<Rightarrow> Some s
      | None \<Rightarrow> (case ident_of t of Some s \<Rightarrow> Some s | None \<Rightarrow> map_option (\<lambda>n. int_to_string (sint n)) (int_of t)))"

definition parse_kv_option :: "(bytes \<times> bytes) parser" where
  "parse_kv_option =
     pbind (expect_some option_key ''expected an index option name'') (\<lambda>key.
     pthen (expect TEq)
       (pbind (expect_some option_value ''expected a string or integer literal for option value'') (\<lambda>v. ret (key, v))))"

definition parse_with_options :: "(bytes \<times> bytes) list parser" where
  "parse_with_options = on (TKw ''WITH'') (pthen (expect TLParen) (closed (comma_list parse_kv_option))) (ret [])"

definition skip_referential_actions :: "unit parser" where
  "skip_referential_actions =
     iterate (\<lambda>_. on (TKw ''ON'')
       (pthen advance (pthen advance (on (TKw ''NULL'') (again ()) (on (TKw ''DEFAULT'') (again ()) (again ())))))
       (stop ())) ()"

subsection \<open>Queries and rows\<close>

definition parse_cte :: "bool \<Rightarrow> SelectStmt Cte parser" where
  "parse_cte recursive =
     pbind parse_ident_string (\<lambda>name. pbind parse_columns (\<lambda>columns.
     pthen (expect (TKw ''AS'')) (pthen (expect TLParen)
       (pbind (closed parse_select) (\<lambda>subquery. ret (Cte name columns subquery recursive))))))"

definition parse_ctes :: "bool \<Rightarrow> SelectStmt Cte list parser" where
  "parse_ctes recursive = comma_list (parse_cte recursive)"

definition with_ctes :: "SelectStmt Cte list \<Rightarrow> SelectStmt \<Rightarrow> SelectStmt" where
  "with_ctes ctes q =
     (case q of SelectStmt _ d ps f w g h ob l off u \<Rightarrow> SelectStmt ctes d ps f w g h ob l off u)"

definition parse_with :: "Stmt parser" where
  "parse_with =
     pbind (eat (TKw ''RECURSIVE'')) (\<lambda>recursive. pbind (parse_ctes recursive) (\<lambda>ctes.
     pbind parse_select (\<lambda>q. ret (SSelect (with_ctes ctes q)))))"

definition parse_row :: "Expr list parser" where
  "parse_row = pthen (expect TLParen) (closed (comma_list (parse_expr 0)))"

definition parse_insert :: "Stmt parser" where
  "parse_insert =
     pthen (expect (TKw ''INTO'')) (pbind parse_object_name (\<lambda>table. pbind parse_columns (\<lambda>columns.
     pthen (expect (TKw ''VALUES'')) (pbind parse_row (\<lambda>first_values.
     pbind (iterate (\<lambda>rows. at_tok2 TComma TLParen
              (on TComma (pbind parse_row (\<lambda>row. again (rows @ [row]))) (stop rows)) (stop rows)) [first_values]) (\<lambda>rows.
     ret (SInsert \<lparr>ins_table = table, ins_columns = columns, ins_values = rows\<rparr>)))))))"

definition parse_delete :: "Stmt parser" where
  "parse_delete =
     pthen (expect (TKw ''FROM'')) (pbind parse_object_name (\<lambda>table. pbind (optional (TKw ''WHERE'') (parse_expr 0)) (\<lambda>w.
     ret (SDelete \<lparr>del_table = table, del_where = w\<rparr>))))"

definition parse_assignment :: "(bytes \<times> Expr) parser" where
  "parse_assignment = pbind parse_ident_string (\<lambda>col. pthen (expect TEq) (pbind (parse_expr 0) (\<lambda>e. ret (col, e))))"

definition parse_update :: "Stmt parser" where
  "parse_update =
     pbind parse_object_name (\<lambda>table. pthen (expect (TKw ''SET''))
     (pbind (comma_list parse_assignment) (\<lambda>assignments. pbind (optional (TKw ''WHERE'') (parse_expr 0)) (\<lambda>w.
     ret (SUpdate \<lparr>upd_table = table, upd_assignments = assignments, upd_where = w\<rparr>)))))"

subsection \<open>Tables\<close>

text \<open>The type name of a column; the serial types stand for integers that are not null.\<close>

definition new_column :: "bytes \<Rightarrow> bytes \<Rightarrow> ColumnSpec" where
  "new_column name col_type =
     (let w = map to_upper col_type; is_serial = w \<in> {''SERIAL'', ''BIGSERIAL'', ''SMALLSERIAL''} in
      \<lparr>co_name = name,
       co_type = if \<not> is_serial then col_type else if w = ''SMALLSERIAL'' then ascii ''int2''
                 else if w = ''BIGSERIAL'' then ascii ''int8'' else ascii ''int4'',
       co_nullable = \<not> is_serial, co_default = None, co_is_pk = False, co_is_unique = False, co_references = None,
       co_is_serial = is_serial\<rparr>)"

definition parse_reference :: "(bytes \<times> bytes) parser" where
  "parse_reference =
     pbind parse_object_name (\<lambda>ref_table. pthen (expect TLParen)
     (pbind (closed parse_ident_string) (\<lambda>ref_column. pthen skip_referential_actions (ret (ref_table, ref_column)))))"

definition column_attribute :: "ColumnSpec \<Rightarrow> (ColumnSpec \<times> bool) parser" where
  "column_attribute c =
     on (TKw ''PRIMARY'') (pthen (expect (TKw ''KEY'')) (again (c\<lparr>co_is_pk := True, co_nullable := False\<rparr>)))
     (on (TKw ''NOT'') (on (TKw ''NULL'') (again (c\<lparr>co_nullable := False\<rparr>)) (again c))
     (on (TKw ''NULL'') (again (c\<lparr>co_nullable := True\<rparr>))
     (on (TKw ''DEFAULT'') (pbind (parse_expr 0) (\<lambda>e. again (c\<lparr>co_default := Some e\<rparr>)))
     (on (TKw ''UNIQUE'') (again (c\<lparr>co_is_unique := True\<rparr>))
     (on (TKw ''REFERENCES'') (pbind parse_reference (\<lambda>r. again (c\<lparr>co_references := Some r\<rparr>)))
     (stop c))))))"

definition starts_constraint :: "Token \<Rightarrow> bool" where
  "starts_constraint t \<longleftrightarrow> t = TKw ''PRIMARY'' \<or> t = TKw ''UNIQUE'' \<or> t = TKw ''FOREIGN''"

definition parse_column :: "ColumnSpec parser" where
  "parse_column =
     pbind parse_ident_string (\<lambda>name. pbind parse_ident_string (\<lambda>col_type. iterate column_attribute (new_column name col_type)))"

definition parse_column_list :: "ColumnSpec list parser" where
  "parse_column_list =
     iterate (\<lambda>columns. at_tok starts_constraint (stop columns)
       (pbind parse_column (\<lambda>c. on TComma (again (columns @ [c])) (stop (columns @ [c]))))) []"

text \<open>The first column of that name becomes part of the key.\<close>

fun mark_pk :: "bytes \<Rightarrow> ColumnSpec list \<Rightarrow> ColumnSpec list" where
  "mark_pk col [] = []"
| "mark_pk col (c # cs) = (if co_name c = col then c\<lparr>co_is_pk := True, co_nullable := False\<rparr> # cs else c # mark_pk col cs)"

text \<open>The rest of a group after its opening parenthesis; the end of the input closes it.\<close>

fun skip_group :: "nat \<Rightarrow> Token list \<Rightarrow> Token list" where
  "skip_group depth [] = []"
| "skip_group depth (t # ts) =
     (if depth = 0 then t # ts
      else if t = TLParen then skip_group (Suc depth) ts
      else if t = TRParen then skip_group (depth - 1) ts
      else if t = TEof then ts else skip_group depth ts)"

type_synonym table_parts = "ColumnSpec list \<times> TableConstraint list"

definition parse_foreign_key :: "TableConstraint parser" where
  "parse_foreign_key =
     pthen (expect (TKw ''KEY'')) (pbind parse_paren_ident_list (\<lambda>cols. pthen (expect (TKw ''REFERENCES''))
     (pbind parse_reference (\<lambda>(ref_table, ref_column). ret (ForeignKeyOf (hd cols) ref_table ref_column)))))"

definition constraint_round :: "table_parts \<Rightarrow> (table_parts \<times> bool) parser" where
  "constraint_round = (\<lambda>(columns, constraints).
     on TRParen (stop (columns, constraints))
     (on (TKw ''PRIMARY'')
       (pthen (expect (TKw ''KEY'')) (pbind parse_paren_ident_list (\<lambda>cols. again (fold mark_pk cols columns, constraints))))
     (on (TKw ''UNIQUE'') (pbind parse_paren_ident_list (\<lambda>cols. again (columns, constraints @ [UniqueOf cols])))
     (on (TKw ''FOREIGN'') (pbind parse_foreign_key (\<lambda>c. again (columns, constraints @ [c])))
     (on TComma (again (columns, constraints))
     (pthen advance (on TLParen (\<lambda>ts. again (columns, constraints) (skip_group 1 ts)) (again (columns, constraints)))))))))"

definition create_table_head :: "(bool \<times> bytes \<times> ColumnSpec list) parser" where
  "create_table_head =
     pbind parse_if_not_exists (\<lambda>if_not_exists. pbind parse_object_name (\<lambda>table. pthen (expect TLParen)
     (pbind parse_column_list (\<lambda>columns. ret (if_not_exists, table, columns)))))"

definition parse_create_table :: "nat \<Rightarrow> Stmt parser" where
  "parse_create_table fuel =
     pbind create_table_head (\<lambda>(if_not_exists, table, columns).
     pbind (loopp fuel constraint_round (columns, [])) (\<lambda>(columns, constraints).
     pbind parse_with_options (\<lambda>options.
     ret (SCreateTable \<lparr>crt_table = table, crt_if_not_exists = if_not_exists, crt_columns = columns,
            crt_constraints = constraints, crt_options = options\<rparr>))))"

definition add_column_attribute :: "ColumnSpec \<Rightarrow> (ColumnSpec \<times> bool) parser" where
  "add_column_attribute c =
     on (TKw ''DEFAULT'') (pbind (parse_expr 0) (\<lambda>e. again (c\<lparr>co_default := Some e\<rparr>)))
     (on (TKw ''NOT'') (pthen (expect (TKw ''NULL'')) (again (c\<lparr>co_nullable := False\<rparr>)))
     (stop c))"

definition parse_add_column :: "AlterTableAction parser" where
  "parse_add_column =
     pthen (opt (TKw ''COLUMN'')) (pbind parse_ident_string (\<lambda>name. pbind parse_ident_string (\<lambda>col_type.
     pbind (iterate add_column_attribute
              \<lparr>co_name = name, co_type = col_type, co_nullable = True, co_default = None, co_is_pk = False,
               co_is_unique = False, co_references = None, co_is_serial = False\<rparr>)
       (\<lambda>c. ret (AddColumn c)))))"

definition expect_not_null :: "'a \<Rightarrow> 'a parser" where
  "expect_not_null x = pthen (expect (TKw ''NOT'')) (pthen (expect (TKw ''NULL'')) (ret x))"

definition parse_column_action :: "ColumnAction parser" where
  "parse_column_action =
     on (TKw ''SET'')
       (on (TKw ''DEFAULT'') (pbind (parse_expr 0) (\<lambda>e. ret (SetDefault e))) (expect_not_null SetNotNull))
       (pthen (expect (TKw ''DROP'')) (on (TKw ''DEFAULT'') (ret DropDefault) (expect_not_null DropNotNull)))"

definition parse_alter_table :: "Stmt parser" where
  "parse_alter_table =
     pthen (expect (TKw ''TABLE''))
     (pthen (at_tok (same_word ''ONLY'') (pthen advance (ret ())) (ret ()))
     (pbind parse_object_name (\<lambda>table.
      pbind
        (at_tok (same_word ''ADD'') (pthen advance parse_add_column)
        (on (TKw ''DROP'') (pthen (opt (TKw ''COLUMN'')) (pbind parse_ident_string (\<lambda>c. ret (DropColumn c))))
        (on (TKw ''ALTER'')
          (pthen (opt (TKw ''COLUMN'')) (pbind parse_ident_string (\<lambda>c. pbind parse_column_action (\<lambda>a. ret (AlterColumn c a)))))
        (\<lambda>ts. bail (Bad ''expected ADD, DROP, or ALTER after ALTER TABLE'' (peek ts)) ts))))
        (\<lambda>action. ret (SAlterTable \<lparr>at_table = table, at_action = action\<rparr>)))))"

subsection \<open>Roles and privileges\<close>

definition role_clause :: "CreateRoleStmt \<Rightarrow> (CreateRoleStmt \<times> bool) parser" where
  "role_clause r =
     on (TKw ''SUPERUSER'') (again (r\<lparr>cr_superuser := True\<rparr>))
     (on (TKw ''NOSUPERUSER'') (again (r\<lparr>cr_superuser := False\<rparr>))
     (on (TKw ''LOGIN'') (again (r\<lparr>cr_can_login := True\<rparr>))
     (on (TKw ''NOLOGIN'') (again (r\<lparr>cr_can_login := False\<rparr>))
     (on (TKw ''PASSWORD'')
       (pbind (expect_some string_of ''expected string literal password after PASSWORD'') (\<lambda>p. again (r\<lparr>cr_password := Some p\<rparr>)))
     (on (TKw ''IN'')
       (pthen (expect (TKw ''ROLE'')) (pbind parse_role_name_list (\<lambda>ns. again (r\<lparr>cr_in_role := cr_in_role r @ ns\<rparr>))))
     (stop r))))))"

definition parse_create_role :: "Stmt parser" where
  "parse_create_role =
     pthen parse_if_not_exists (pbind parse_ident_string (\<lambda>name.
     pbind (iterate role_clause
              \<lparr>cr_name = name, cr_superuser = False, cr_can_login = True, cr_password = None, cr_in_role = []\<rparr>)
       (\<lambda>r. ret (SCreateRole r))))"

definition alter_clause :: "AlterRoleStmt \<Rightarrow> (AlterRoleStmt \<times> bool) parser" where
  "alter_clause r =
     on (TKw ''SUPERUSER'') (again (r\<lparr>ar_superuser := Some True\<rparr>))
     (on (TKw ''NOSUPERUSER'') (again (r\<lparr>ar_superuser := Some False\<rparr>))
     (on (TKw ''LOGIN'') (again (r\<lparr>ar_can_login := Some True\<rparr>))
     (on (TKw ''NOLOGIN'') (again (r\<lparr>ar_can_login := Some False\<rparr>))
     (on (TKw ''PASSWORD'')
       (pbind (expect_some string_of ''expected string literal password after PASSWORD'') (\<lambda>p. again (r\<lparr>ar_password := Some p\<rparr>)))
     (stop r)))))"

definition parse_alter_role :: "Stmt parser" where
  "parse_alter_role =
     pbind parse_ident_string (\<lambda>name.
     pbind (iterate alter_clause \<lparr>ar_name = name, ar_superuser = None, ar_can_login = None, ar_password = None\<rparr>)
       (\<lambda>r. ret (SAlterRole r)))"

definition parse_drop_role :: "Stmt parser" where
  "parse_drop_role =
     pbind parse_if_exists (\<lambda>if_exists. pbind parse_ident_string (\<lambda>name.
     ret (SDropRole \<lparr>dr_if_exists = if_exists, dr_name = name\<rparr>)))"

definition is_privilege_keyword :: "Token \<Rightarrow> bool" where
  "is_privilege_keyword t \<longleftrightarrow>
     t \<in> {TKw ''SELECT'', TKw ''INSERT'', TKw ''UPDATE'', TKw ''DELETE'', TKw ''CREATE'', TKw ''DROP'', TKw ''USAGE'', TKw ''ALL''}"

definition privilege_of :: "Token \<Rightarrow> Privilege option" where
  "privilege_of t =
     map_of [(TKw ''SELECT'', PrivSelect), (TKw ''INSERT'', PrivInsert), (TKw ''UPDATE'', PrivUpdate), (TKw ''DELETE'', PrivDelete),
             (TKw ''CREATE'', PrivCreate), (TKw ''DROP'', PrivDrop), (TKw ''USAGE'', PrivUsage)] t"

definition parse_one_privilege :: "Privilege parser" where
  "parse_one_privilege = expect_some privilege_of ''expected a privilege name''"

definition parse_privilege_list :: "Privilege list parser" where
  "parse_privilege_list =
     on (TKw ''ALL'') (ret [PrivSelect, PrivInsert, PrivUpdate, PrivDelete, PrivCreate, PrivDrop, PrivUsage])
       (comma_list parse_one_privilege)"

definition parse_grant_object :: "bool \<Rightarrow> GrantObject parser" where
  "parse_grant_object is_grant =
     on (TKw ''ON'')
       (on (TKw ''DATABASE'') (ret OnDatabase)
       (on (TKw ''TOPIC'') (pbind parse_object_name (\<lambda>n. ret (OnTopic n)))
       (pthen (opt (TKw ''TABLE'')) (pbind parse_object_name (\<lambda>n. ret (OnTable n))))))
       (bail (Refused (if is_grant then ''GRANT privileges require an ON <object> clause''
                       else ''REVOKE privileges require an ON <object> clause'')))"

definition parse_grant_or_revoke_head :: "bool \<Rightarrow> (bool \<times> bytes list \<times> Privilege list \<times> GrantObject) parser" where
  "parse_grant_or_revoke_head is_grant =
     at_tok (\<lambda>t. ident_of t \<noteq> None \<and> \<not> is_privilege_keyword t)
       (pbind parse_role_name_list (\<lambda>roles. ret (True, roles, [], OnDatabase)))
       (pbind parse_privilege_list (\<lambda>privileges. pthen (opt (TKw ''PRIVILEGES''))
          (pbind (parse_grant_object is_grant) (\<lambda>object. ret (False, [], privileges, object)))))"

definition parse_grant_stmt :: "bool \<Rightarrow> GrantStmt parser" where
  "parse_grant_stmt is_grant =
     pbind (parse_grant_or_revoke_head is_grant) (\<lambda>(is_role_grant, roles, privileges, object).
     pthen (expect (TKw (if is_grant then ''TO'' else ''FROM''))) (pbind parse_role_name_list (\<lambda>grantees.
     ret \<lparr>gs_is_role_grant = is_role_grant, gs_roles = roles, gs_privileges = privileges, gs_object = object,
          gs_grantees = grantees\<rparr>)))"

definition parse_grant :: "Stmt parser" where
  "parse_grant = pbind (parse_grant_stmt True) (\<lambda>g. ret (SGrant g))"

definition parse_revoke :: "Stmt parser" where
  "parse_revoke = pbind (parse_grant_stmt False) (\<lambda>g. ret (SRevoke g))"

subsection \<open>Other definitions\<close>

definition parse_create_function :: "Stmt parser" where
  "parse_create_function =
     pbind parse_ident_string (\<lambda>name. pthen (expect TLParen)
     (pbind (closed (at_tok (\<lambda>t. t \<noteq> TRParen)
               (comma_list (pbind parse_ident_string (\<lambda>arg. pbind parse_type_name (\<lambda>ty. ret (arg, ty))))) (ret []))) (\<lambda>args.
      pthen (expect (TKw ''RETURNS'')) (pbind parse_type_name (\<lambda>return_type.
      pthen (expect (TKw ''LANGUAGE'')) (pbind parse_ident_string (\<lambda>language.
      pthen (expect (TKw ''AS'')) (pbind (expect_some string_of ''expected string literal function body'') (\<lambda>body.
      ret (SCreateFunction \<lparr>cf_name = name, cf_args = args, cf_return_type = return_type, cf_language = language,
             cf_body_base64 = body\<rparr>))))))))))"

definition sequence_clause :: "CreateSequenceStmt \<Rightarrow> (CreateSequenceStmt \<times> bool) parser" where
  "sequence_clause s =
     on (TKw ''START'') (pthen (opt (TKw ''WITH'')) (pbind parse_signed_int (\<lambda>n. again (s\<lparr>cs_start := n\<rparr>))))
     (on (TKw ''INCREMENT'') (pthen (opt (TKw ''BY'')) (pbind parse_signed_int (\<lambda>n. again (s\<lparr>cs_increment := n\<rparr>))))
     (on_some (\<lambda>t. if t = TSemicolon \<or> t = TEof then None else Some ()) (\<lambda>_. again s) (stop s)))"

definition parse_create_sequence :: "Stmt parser" where
  "parse_create_sequence =
     pbind parse_if_not_exists (\<lambda>if_not_exists. pbind parse_object_name (\<lambda>name.
     pbind (iterate sequence_clause \<lparr>cs_if_not_exists = if_not_exists, cs_name = name, cs_start = 1, cs_increment = 1\<rparr>)
       (\<lambda>s. ret (SCreateSequence s))))"

definition parse_create_topic :: "Stmt parser" where
  "parse_create_topic =
     pbind parse_if_not_exists (\<lambda>if_not_exists. pbind parse_object_name (\<lambda>name. pbind parse_with_options (\<lambda>options.
     ret (SCreateTopic \<lparr>ct_name = name, ct_if_not_exists = if_not_exists, ct_options = options\<rparr>))))"

definition parse_create_index :: "Stmt parser" where
  "parse_create_index =
     pbind parse_if_not_exists (\<lambda>if_not_exists.
     pbind (at_tok (\<lambda>t. t = TKw ''ON'') (ret None) (pbind parse_ident_string (\<lambda>n. ret (Some n)))) (\<lambda>name.
     pthen (expect (TKw ''ON'')) (pbind parse_object_name (\<lambda>table.
     pbind (at_tok (same_word ''USING'') (pthen advance (pbind parse_ident_string (\<lambda>u. ret (Some u)))) (ret None)) (\<lambda>kind.
     pthen (expect TLParen) (pbind (closed parse_ident_string) (\<lambda>column.
     pbind parse_with_options (\<lambda>options.
     ret (SCreateIndex \<lparr>ci_table = table, ci_column = column, ci_if_not_exists = if_not_exists, ci_name = name,
            ci_using = kind, ci_options = options\<rparr>)))))))))"

definition parse_create_other :: "Stmt parser" where
  "parse_create_other =
     on (TKw ''INDEX'') parse_create_index
     (on (TKw ''ROLE'') parse_create_role
     (on (TKw ''FUNCTION'') parse_create_function
     (on (TKw ''SEQUENCE'') parse_create_sequence
     (on (TKw ''TOPIC'') parse_create_topic
     (\<lambda>ts. bail (Bad ''expected TABLE, INDEX, FUNCTION, SEQUENCE, or TOPIC after CREATE'' (peek ts)) ts)))))"

definition parse_create :: "nat \<Rightarrow> Stmt parser" where
  "parse_create fuel = on (TKw ''TABLE'') (parse_create_table fuel) parse_create_other"

definition parse_drop :: "Stmt parser" where
  "parse_drop =
     on (TKw ''TABLE'')
       (pbind parse_if_exists (\<lambda>e. pbind parse_object_name (\<lambda>n. ret (SDropTable \<lparr>dt_table = n, dt_if_exists = e\<rparr>))))
     (on (TKw ''ROLE'') parse_drop_role
     (on (TKw ''INDEX'')
       (pbind parse_if_exists (\<lambda>e. pbind parse_object_name (\<lambda>n. ret (SDropIndex \<lparr>di_name = n, di_if_exists = e\<rparr>))))
     (\<lambda>ts. bail (Bad ''expected TABLE or INDEX after DROP'' (peek ts)) ts)))"

subsection \<open>Session statements\<close>

text \<open>The tokens up to the end of the statement, in their debug format, with blanks between.\<close>

definition ends_stmt :: "Token \<Rightarrow> bool" where
  "ends_stmt t \<longleftrightarrow> t = TSemicolon \<or> t = TEof"

fun join_blank :: "bytes list \<Rightarrow> bytes" where
  "join_blank [] = []"
| "join_blank [x] = x"
| "join_blank (x # y # xs) = x @ [32] @ join_blank (y # xs)"

definition parse_set :: "(Token \<Rightarrow> bytes) \<Rightarrow> Stmt parser" where
  "parse_set debug_token =
     pbind parse_ident_string (\<lambda>name. pthen (on TEq (ret ()) (opt (TKw ''TO'')))
     (\<lambda>ts. Ok (SSet \<lparr>set_name = name, set_value = join_blank (map debug_token (takeWhile (\<lambda>t. \<not> ends_stmt t) ts))\<rparr>,
               dropWhile (\<lambda>t. \<not> ends_stmt t) ts)))"

definition parse_copy :: "Stmt parser" where
  "parse_copy =
     pbind parse_object_name (\<lambda>table. pbind parse_columns (\<lambda>columns.
     on (TKw ''FROM'') (pthen (expect (TKw ''STDIN'')) (ret (SCopyIn \<lparr>cp_table = table, cp_columns = columns\<rparr>)))
     (on (TKw ''TO'') (pthen (expect (TKw ''STDOUT'')) (ret (SCopyOut \<lparr>cp_table = table, cp_columns = columns\<rparr>)))
     (bail (Refused ''expected FROM STDIN or TO STDOUT after COPY table'')))))"

definition parse_declare_cursor :: "Stmt parser" where
  "parse_declare_cursor =
     pbind parse_ident_string (\<lambda>name. pthen (expect (TKw ''CURSOR'')) (pthen (expect (TKw ''FOR''))
     (pbind parse_select (\<lambda>q. ret (SDeclareCursor \<lparr>dc_name = name, dc_query = q\<rparr>)))))"

definition parse_fetch_stmt :: "FetchStmt parser" where
  "parse_fetch_stmt =
     pbind (on (TKw ''NEXT'') (ret FetchNext) (on (TKw ''ALL'') (ret FetchAll) (on_some int_of (\<lambda>n. ret (FetchN n)) (ret FetchNext))))
       (\<lambda>count. pthen (opt (TKw ''FROM'')) (pthen (opt (TKw ''IN''))
        (pbind parse_ident_string (\<lambda>cursor. ret \<lparr>ft_cursor = cursor, ft_count = count\<rparr>))))"

definition parse_notify :: "Stmt parser" where
  "parse_notify =
     pbind parse_ident_string (\<lambda>channel.
     pbind (optional TComma (expect_some string_of ''expected string literal payload'')) (\<lambda>payload. ret (SNotify channel payload)))"

subsection \<open>MATCH\<close>

definition parse_match_rel_bracket :: "bytes option parser" where
  "parse_match_rel_bracket =
     pthen (expect TLBracket) (pbind (optional TColon parse_ident_string) (\<lambda>r. pthen (expect TRBracket) (ret r)))"

definition parse_match_node :: "bytes parser" where
  "parse_match_node = pthen (expect TLParen) (closed parse_ident_string)"

definition match_hop :: "bytes list \<times> MatchHop list \<Rightarrow> ((bytes list \<times> MatchHop list) \<times> bool) parser" where
  "match_hop = (\<lambda>(nodes, hops).
     on TMinus
       (pbind parse_match_rel_bracket (\<lambda>rel.
        pbind (on TArrow (ret Out) (pthen (expect TMinus) (ret Both))) (\<lambda>dir.
        pbind parse_match_node (\<lambda>node. again (nodes @ [node], hops @ [\<lparr>mh_rel_type = rel, mh_direction = dir\<rparr>])))))
     (on TLt
       (pthen (expect TMinus) (pbind parse_match_rel_bracket (\<lambda>rel. pthen (expect TMinus)
        (pbind parse_match_node (\<lambda>node. again (nodes @ [node], hops @ [\<lparr>mh_rel_type = rel, mh_direction = In\<rparr>]))))))
     (stop (nodes, hops))))"

definition match_literal :: "Token \<Rightarrow> bytes option" where
  "match_literal t =
     (case string_of t of Some s \<Rightarrow> Some s | None \<Rightarrow> map_option (\<lambda>n. int_to_string (sint n)) (int_of t))"

definition parse_start_filter :: "bytes list \<Rightarrow> bytes option parser" where
  "parse_start_filter nodes =
     on (TKw ''WHERE'')
       (pbind parse_ident_string (\<lambda>var. pthen (expect TEq) (pbind (expect_some match_literal ''MATCH WHERE'') (\<lambda>lit.
        if var = hd nodes then ret (Some lit)
        else bail (Refused ''MATCH WHERE currently only supports filtering the pattern's first variable'')))))
       (ret None)"

definition parse_match :: "Stmt parser" where
  "parse_match =
     pbind parse_match_node (\<lambda>first. pbind (iterate match_hop ([first], [])) (\<lambda>(nodes, hops).
     pthen (expect (TKw ''ON'')) (pbind parse_ident_string (\<lambda>table. pthen (expect TLParen)
     (pbind (closed parse_ident_string) (\<lambda>column.
      pbind (parse_start_filter nodes) (\<lambda>start_filter. pthen (expect (TKw ''RETURN''))
      (pbind (comma_list parse_ident_string) (\<lambda>returns.
       if \<not> list_all (\<lambda>r. r \<in> set nodes) returns then bail (Refused ''MATCH RETURN references unknown pattern variable'')
       else pbind (optional (TKw ''LIMIT'') (expect_some int_of ''expected integer after LIMIT'')) (\<lambda>limit.
       ret (SMatch \<lparr>ms_nodes = nodes, ms_hops = hops, ms_table = table, ms_column = column, ms_start_filter = start_filter,
              ms_returns = returns, ms_limit = limit\<rparr>)))))))))))"

subsection \<open>Statements\<close>

definition skip_semicolons :: "unit parser" where
  "skip_semicolons ts = Ok ((), dropWhile (\<lambda>t. t = TSemicolon) ts)"

definition parse_alter :: "Stmt parser" where
  "parse_alter =
     at_tok (\<lambda>t. t = TKw ''TABLE'') parse_alter_table
     (on (TKw ''ROLE'') parse_alter_role (\<lambda>ts. bail (Bad ''expected TABLE or ROLE after ALTER'' (peek ts)) ts))"

text \<open>The arms of the match for statements that cannot run forever, in the order of the source.\<close>

definition parse_ended :: "(Token \<Rightarrow> bytes) \<Rightarrow> Stmt parser" where
  "parse_ended debug_token =
     on (TKw ''WITH'') parse_with
     (at_tok (\<lambda>t. t = TKw ''SELECT'' \<or> t = TKw ''DISTINCT'') (pbind parse_select (\<lambda>q. ret (SSelect q)))
     (on (TKw ''INSERT'') parse_insert
     (on (TKw ''DELETE'') parse_delete
     (on (TKw ''UPDATE'') parse_update
     (on (TKw ''DROP'') parse_drop
     (on (TKw ''ALTER'') parse_alter
     (on (TKw ''GRANT'') parse_grant
     (on (TKw ''REVOKE'') parse_revoke
     (on (TKw ''SET'') (parse_set debug_token)
     (on (TKw ''SHOW'') (pbind parse_ident_string (\<lambda>n. ret (SShow n)))
     (on (TKw ''BEGIN'') (ret SBegin)
     (on (TKw ''COMMIT'') (ret SCommit)
     (on (TKw ''ROLLBACK'') (ret SRollback)
     (on (TKw ''DECLARE'') parse_declare_cursor
     (on (TKw ''FETCH'') (pbind parse_fetch_stmt (\<lambda>f. ret (SFetch f)))
     (on (TKw ''MOVE'') (pbind parse_fetch_stmt (\<lambda>f. ret (SMoveCursor f)))
     (on (TKw ''CLOSE'') (pbind parse_ident_string (\<lambda>n. ret (SCloseCursor n)))
     (on (TKw ''LISTEN'') (pbind parse_ident_string (\<lambda>n. ret (SListen n)))
     (on (TKw ''UNLISTEN'') (on TStar (ret (SUnlisten [42])) (pbind parse_ident_string (\<lambda>n. ret (SUnlisten n))))
     (on (TKw ''NOTIFY'') parse_notify
     (on (TKw ''COPY'') parse_copy
     (on (TKw ''ANALYZE'') (at_tok ends_stmt (ret (SAnalyze None)) (pbind parse_object_name (\<lambda>n. ret (SAnalyze (Some n)))))
     (on (TKw ''MATCH'') parse_match
     (at_tok (\<lambda>t. t = TEof) (bail (Refused ''empty statement''))
     (\<lambda>ts. bail (Bad ''unexpected token'' (peek ts)) ts)))))))))))))))))))))))))"

definition parse_stmt :: "(Token \<Rightarrow> bytes) \<Rightarrow> nat \<Rightarrow> Stmt parser" where
  "parse_stmt debug_token fuel =
     pthen skip_semicolons
       (pbind (on (TKw ''CREATE'') (parse_create fuel) (parse_ended debug_token)) (\<lambda>s. pthen (opt TSemicolon) (ret s)))"

definition parse_all_stmts :: "(Token \<Rightarrow> bytes) \<Rightarrow> nat \<Rightarrow> Stmt list parser" where
  "parse_all_stmts debug_token fuel =
     iterate (\<lambda>stmts. pthen skip_semicolons
       (at_tok (\<lambda>t. t = TEof) (stop stmts) (pbind (parse_stmt debug_token fuel) (\<lambda>s. again (stmts @ [s]))))) []"

subsection \<open>Statements end\<close>

lemma par_names [parser_rules]:
  "par n parse_columns parse_columns" "par n parse_role_name_list parse_role_name_list"
  "par n parse_paren_ident_list parse_paren_ident_list" "par n parse_if_not_exists parse_if_not_exists"
  "par n parse_if_exists parse_if_exists" "par n parse_type_name parse_type_name"
  "par n parse_signed_int parse_signed_int" "par n parse_kv_option parse_kv_option"
  unfolding parse_columns_def parse_role_name_list_def parse_paren_ident_list_def parse_if_not_exists_def
    parse_if_exists_def parse_type_name_def parse_signed_int_def parse_kv_option_def
  by (intro parser_rules)+

lemma par_with_options [parser_rules]: "par n parse_with_options parse_with_options"
  unfolding parse_with_options_def by (intro parser_rules)

lemma par_skip_referential [parser_rules]: "par n skip_referential_actions skip_referential_actions"
  unfolding skip_referential_actions_def by (intro parser_rules) simp

lemma par_reference [parser_rules]: "par n parse_reference parse_reference"
  unfolding parse_reference_def by (intro parser_rules)

lemma par_query_stmts [parser_rules]:
  "par n parse_with parse_with" "par n parse_row parse_row" "par n parse_delete parse_delete" "par n parse_update parse_update"
  unfolding parse_with_def parse_ctes_def parse_cte_def parse_row_def parse_delete_def parse_update_def parse_assignment_def
  by (intro parser_rules)+

lemma par_insert [parser_rules]: "par n parse_insert parse_insert"
  unfolding parse_insert_def by (intro parser_rules) simp

lemma rpar_clauses [parser_rules]:
  "rpar n (column_attribute c) (column_attribute c)" "rpar n (add_column_attribute c) (add_column_attribute c)"
  "rpar n (role_clause r) (role_clause r)" "rpar n (alter_clause a) (alter_clause a)"
  "rpar n (sequence_clause s) (sequence_clause s)" "rpar n (match_hop h) (match_hop h)"
  unfolding column_attribute_def add_column_attribute_def role_clause_def alter_clause_def sequence_clause_def match_hop_def
    parse_match_rel_bracket_def parse_match_node_def
  by (intro parser_rules; simp)+

lemma spar_column: "spar n parse_column parse_column"
  unfolding parse_column_def by (intro spar_bind_first parser_rules)

lemma par_column_list [parser_rules]: "par n parse_column_list parse_column_list"
  unfolding parse_column_list_def by (intro parser_rules spar_column)

lemma par_create_table_head [parser_rules]: "par n create_table_head create_table_head"
  unfolding create_table_head_def by (intro parser_rules)

lemma par_alter_stmts [parser_rules]: "par n parse_alter parse_alter"
  unfolding parse_alter_def parse_alter_table_def parse_alter_role_def parse_add_column_def parse_column_action_def
    expect_not_null_def
  by (intro parser_rules) (simp_all add: fits_def bail_def)

lemma par_grant_stmts [parser_rules]: "par n parse_grant parse_grant" "par n parse_revoke parse_revoke"
  unfolding parse_grant_def parse_revoke_def parse_grant_stmt_def parse_grant_or_revoke_head_def parse_grant_object_def
    parse_privilege_list_def parse_one_privilege_def
  by (intro parser_rules; simp)+

lemma par_create_other [parser_rules]: "par n parse_create_other parse_create_other"
  unfolding parse_create_other_def parse_create_index_def parse_create_role_def parse_create_function_def
    parse_create_sequence_def parse_create_topic_def
  by (intro parser_rules) (simp_all add: fits_def bail_def)

lemma par_drop_stmts [parser_rules]: "par n parse_drop parse_drop"
  unfolding parse_drop_def parse_drop_role_def by (intro parser_rules) (simp_all add: fits_def bail_def)

lemma par_set [parser_rules]: "par n (parse_set d) (parse_set d)"
  unfolding parse_set_def by (intro parser_rules) (simp add: fits_def length_dropWhile_le)

lemma par_session_stmts [parser_rules]:
  "par n parse_copy parse_copy" "par n parse_declare_cursor parse_declare_cursor"
  "par n parse_fetch_stmt parse_fetch_stmt" "par n parse_notify parse_notify"
  unfolding parse_copy_def parse_declare_cursor_def parse_fetch_stmt_def parse_notify_def
  by (intro parser_rules; simp)+

lemma par_match [parser_rules]: "par n parse_match parse_match"
  unfolding parse_match_def parse_match_node_def parse_start_filter_def by (intro parser_rules) simp_all

lemma par_skip_semicolons [parser_rules]: "par n skip_semicolons skip_semicolons"
  by (simp add: fits_def skip_semicolons_def length_dropWhile_le)

lemma spar_ended: "spar (Suc n) (parse_ended d) (parse_ended d)"
  unfolding parse_ended_def
  by (intro spar_on fits_at_tok spar_bind_first spar_select parser_rules) (simp_all add: fits_def bail_def)

subsection \<open>The constraints of a table\<close>

lemma length_skip_group: "length (skip_group d ts) \<le> length ts"
  by (induction d ts rule: skip_group.induct) auto

lemma constraint_round_reads:
  "fits (\<lambda>(s, g) k l. k \<le> l \<and> (g \<and> l \<noteq> 0 \<longrightarrow> k < l)) n (constraint_round s) (constraint_round s)"
proof -
  have skip: "fits (\<lambda>(s, g) k l. k \<le> l \<and> (g \<and> l \<noteq> 0 \<longrightarrow> k < l)) n
      (pthen advance (on TLParen (\<lambda>ts. again (c, t) (skip_group 1 ts)) (again (c, t))))
      (pthen advance (on TLParen (\<lambda>ts. again (c, t) (skip_group 1 ts)) (again (c, t))))" for c t
  proof (rule fitsI)
    fix ts :: "Token list" and x rest
    let ?p = "pthen advance (on TLParen (\<lambda>ts. again (c, t) (skip_group 1 ts)) (again (c, t)))"
    show "?p ts \<noteq> Err Stuck" by (simp add: pthen_def pbind_def advance_def on_def eat_def again_def ret_def)
    show "(case x of (s, g) \<Rightarrow> \<lambda>k l. k \<le> l \<and> (g \<and> l \<noteq> 0 \<longrightarrow> k < l)) (length rest) (length ts)" if "?p ts = Ok (x, rest)"
      using that length_skip_group [of 1 "drop 2 ts"]
      by (cases ts) (auto simp: pthen_def pbind_def advance_def on_def eat_def again_def ret_def split: if_splits)
  qed simp
  have fk: "par n parse_foreign_key parse_foreign_key"
    unfolding parse_foreign_key_def by (intro parser_rules)
  show ?thesis
    unfolding constraint_round_def parse_paren_ident_list_def
    by (cases s, simp only: prod.case, intro fits_on [where m = n] skip parser_rules fk) (auto simp: fits_def stop_def ret_def)
qed

lemma constraints_at_end: "loopp k constraint_round s [] = Err Stuck"
  by (induction k arbitrary: s)
    (auto simp: bail_def constraint_round_def on_def pbind_def eat_def pthen_def advance_def again_def ret_def split: prod.split)

lemma constraint_loop_enough:
  "length ts < k \<Longrightarrow> length ts < k' \<Longrightarrow> loopp k constraint_round s ts = loopp k' constraint_round s ts"
proof (induction k arbitrary: k' s ts)
  case (Suc k)
  obtain j where j: "k' = Suc j" using Suc.prems by (cases k') auto
  show ?case
  proof (cases "ts = []")
    case True
    then show ?thesis by (simp only: constraints_at_end)
  next
    case False
    have "loopp k constraint_round s' r = loopp j constraint_round s' r"
      if "constraint_round s ts = Ok ((s', True), r)" for s' r
      using fitsD(3) [OF constraint_round_reads lessI that] False Suc.prems j by (intro Suc.IH) auto
    then show ?thesis
      unfolding j loopp.simps pbind_def
      by (cases "constraint_round s ts") (auto split: prod.split)
  qed
qed simp

lemma loopp_more: "loopp k b s ts \<noteq> Err Stuck \<Longrightarrow> k \<le> k' \<Longrightarrow> loopp k' b s ts = loopp k b s ts"
proof (induction k arbitrary: k' s ts)
  case (Suc k)
  obtain j where j: "k' = Suc j" "k \<le> j" using Suc.prems(2) by (cases k') auto
  show ?case
  proof (cases "b s ts")
    case (Inr x)
    then show ?thesis
      using Suc.IH [OF _ j(2)] Suc.prems(1) j by (auto simp: pbind_def split: prod.splits if_splits)
  qed (simp add: pbind_def j)
qed (simp add: bail_def)

lemma constraint_loop_decided:
  assumes "length ts < k" and "loopp k constraint_round s ts = Err Stuck"
  shows "loopp k' constraint_round s ts = Err Stuck"
proof (rule ccontr)
  assume n: "loopp k' constraint_round s ts \<noteq> Err Stuck"
  have "loopp (k' + k) constraint_round s ts = loopp k' constraint_round s ts" by (rule loopp_more [OF n]) simp
  moreover have "loopp (k' + k) constraint_round s ts = loopp k constraint_round s ts"
    using assms(1) by (intro constraint_loop_enough) auto
  ultimately show False using assms n by simp
qed

text \<open>Without a closing parenthesis and a constraint, the loop skips to the end and stays there.\<close>

lemma set_skip_group: "set (skip_group d ts) \<subseteq> set ts"
  by (induction d ts rule: skip_group.induct) auto

lemma constraint_round_unclosed:
  assumes "set ts \<inter> {TRParen, TKw ''PRIMARY'', TKw ''UNIQUE'', TKw ''FOREIGN''} = {}"
  shows "\<exists>s' r. constraint_round s ts = Ok ((s', True), r) \<and> set r \<subseteq> set ts"
proof (cases ts)
  case Nil
  then show ?thesis
    by (cases s) (simp add: constraint_round_def on_def pbind_def eat_def pthen_def advance_def again_def ret_def)
next
  case (Cons t r)
  have "set (drop (Suc 0) r) \<subseteq> set r" by (rule set_drop_subset)
  then show ?thesis using assms Cons set_skip_group [of "Suc 0" "drop (Suc 0) r"]
    by (cases s) (auto simp: constraint_round_def on_def pbind_def eat_def pthen_def advance_def again_def ret_def)
qed

lemma constraint_loop_unclosed:
  "set ts \<inter> {TRParen, TKw ''PRIMARY'', TKw ''UNIQUE'', TKw ''FOREIGN''} = {} \<Longrightarrow>
   loopp k constraint_round s ts = Err Stuck"
proof (induction k arbitrary: s ts)
  case (Suc k)
  obtain s' r where r: "constraint_round s ts = Ok ((s', True), r)" "set r \<subseteq> set ts"
    using constraint_round_unclosed [OF Suc.prems] by blast
  then have "loopp k constraint_round s' r = Err Stuck" using Suc.prems by (intro Suc.IH) blast
  then show ?case using r by (simp add: pbind_def)
qed (simp add: bail_def)

subsection \<open>Fuel of a statement\<close>

text \<open>The tokens at which the match of \<open>parse_stmt\<close> looks.\<close>

definition stmt_tokens :: "Token list \<Rightarrow> Token list" where
  "stmt_tokens ts = dropWhile (\<lambda>t. t = TSemicolon) ts"

definition is_create_table :: "Token list \<Rightarrow> bool" where
  "is_create_table ts \<longleftrightarrow> peek (stmt_tokens ts) = TKw ''CREATE'' \<and> peek2 (stmt_tokens ts) = TKw ''TABLE''"

lemma parse_stmt_eq:
  "parse_stmt d k ts =
     pbind (on (TKw ''CREATE'') (parse_create k) (parse_ended d)) (\<lambda>s. pthen (opt TSemicolon) (ret s)) (stmt_tokens ts)"
  by (simp add: parse_stmt_def pthen_def [of skip_semicolons] pbind_def [of skip_semicolons] skip_semicolons_def stmt_tokens_def)

lemma parse_stmt_ends:
  assumes "\<not> is_create_table ts"
  shows "parse_stmt d k ts = parse_stmt d k' ts" and "parse_stmt d k ts \<noteq> Err Stuck"
proof -
  let ?p = "pbind (on (TKw ''CREATE'') parse_create_other (parse_ended d)) (\<lambda>s. pthen (opt TSemicolon) (ret s))"
  have e: "parse_stmt d j ts = ?p (stmt_tokens ts)" for j
    using assms by (cases "stmt_tokens ts") (auto simp: parse_stmt_eq is_create_table_def pbind_def on_def eat_def parse_create_def)
  have "par (Suc (length (stmt_tokens ts))) ?p ?p"
    by (intro parser_rules spar_par [OF spar_ended])
  from fitsD(2) [OF this lessI] show "parse_stmt d k ts \<noteq> Err Stuck" using e by simp
  show "parse_stmt d k ts = parse_stmt d k' ts" using e by simp
qed

lemma create_table_stuck:
  assumes "length ts < k" and "parse_create_table k ts = Err Stuck"
  shows "parse_create_table k' ts = Err Stuck"
proof -
  have h: "create_table_head ts \<noteq> Err Stuck" "create_table_head ts = Ok (x, r) \<Longrightarrow> length r \<le> length ts" for x r
    using fitsD [OF par_create_table_head lessI] by auto
  obtain i t c r where head: "create_table_head ts = Ok ((i, t, c), r)"
    using assms(2) h(1) by (cases "create_table_head ts") (auto simp: parse_create_table_def pbind_def)
  have k: "length r < k" using h(2) [OF head] assms(1) by simp
  have "loopp k constraint_round (c, []) r = Err Stuck"
  proof (cases "loopp k constraint_round (c, []) r")
    case (Inr x)
    obtain c' cs r' where x: "x = ((c', cs), r')" by (cases x; cases "fst x") auto
    have "parse_with_options r' \<noteq> Err Stuck" using fitsD(2) [OF par_with_options lessI] .
    then show ?thesis using assms(2) head Inr x
      by (auto simp: parse_create_table_def pbind_def ret_def and_then_Err_iff)
  qed (use assms(2) head in \<open>simp add: parse_create_table_def pbind_def\<close>)
  then have "loopp k' constraint_round (c, []) r = Err Stuck" by (rule constraint_loop_decided [OF k])
  then show ?thesis using head by (simp add: parse_create_table_def pbind_def)
qed

lemma parse_stmt_create_table:
  assumes "is_create_table ts"
  shows "parse_stmt d k ts = Err Stuck \<longleftrightarrow> parse_create_table k (drop 2 (stmt_tokens ts)) = Err Stuck"
proof -
  obtain r where r: "stmt_tokens ts = TKw ''CREATE'' # TKw ''TABLE'' # r"
    using assms by (cases "stmt_tokens ts"; cases "tl (stmt_tokens ts)") (auto simp: is_create_table_def)
  have "pthen (opt TSemicolon) (ret s) rest \<noteq> Err Stuck" for s :: Stmt and rest
    by (simp add: pthen_def opt_def pbind_def eat_def ret_def)
  then show ?thesis unfolding parse_stmt_eq r
    by (auto simp: pbind_def on_def eat_def parse_create_def and_then_Err_iff)
qed

lemma parse_stmt_stuck:
  assumes k: "length ts < k" and stuck: "parse_stmt d k ts = Err Stuck"
  shows "parse_stmt d k' ts = Err Stuck"
proof -
  have c: "is_create_table ts" using stuck parse_stmt_ends(2) by blast
  have "length (drop 2 (stmt_tokens ts)) \<le> length ts"
    using length_dropWhile_le [of "\<lambda>t. t = TSemicolon" ts] by (simp add: stmt_tokens_def)
  then have "length (drop 2 (stmt_tokens ts)) < k" using k by simp
  then show ?thesis using stuck create_table_stuck parse_stmt_create_table [OF c] by blast
qed

end
