(* ===== verification/PrintExpr.thy ===== *)
theory PrintExpr
  imports StmtParser
begin

text \<open>
  Expressions written out as tokens with the fewest parentheses, and the proof that the
  parser reads them back.  \<open>bare e\<close> is \<open>e\<close> without outer parentheses, \<open>shown k e\<close> is \<open>e\<close> as
  an operand where only what binds at least as tightly as \<open>k\<close> may stand without them.
\<close>

named_theorems parser_eval \<open>one step of a parser on given tokens\<close>

subsection \<open>Printing\<close>

fun op_token :: "BinOp \<Rightarrow> Token" where
  "op_token Add = TPlus"
| "op_token Sub = TMinus"
| "op_token Mul = TStar"
| "op_token Div = TSlash"
| "op_token Mod = TPercent"
| "op_token Eq = TEq"
| "op_token NotEq = TNotEq"
| "op_token Lt = TLt"
| "op_token Lte = TLte"
| "op_token Gt = TGt"
| "op_token Gte = TGte"
| "op_token AndOp = TKw ''AND''"
| "op_token OrOp = TKw ''OR''"
| "op_token Concat = TConcat"
| "op_token Arrow = TArrow"
| "op_token LongArrow = TLongArrow"
| "op_token Contains = TAtArrow"
| "op_token HashArrow = THashArrow"
| "op_token HashLongArrow = THashLongArrow"
| "op_token RegexMatch = TTilde"
| "op_token RegexNotMatch = TNotTilde"
| "op_token RegexMatchCI = TTildeStar"
| "op_token RegexNotMatchCI = TNotTildeStar"

fun op_bp :: "BinOp \<Rightarrow> nat" where
  "op_bp OrOp = 1"
| "op_bp AndOp = 3"
| "op_bp Concat = 7"
| "op_bp Add = 9"
| "op_bp Sub = 9"
| "op_bp Mul = 11"
| "op_bp Div = 11"
| "op_bp Mod = 11"
| "op_bp Arrow = 13"
| "op_bp LongArrow = 13"
| "op_bp HashArrow = 13"
| "op_bp HashLongArrow = 13"
| "op_bp _ = 5"

definition un_token :: "UnOp \<Rightarrow> Token" where
  "un_token op = (case op of Neg \<Rightarrow> TMinus | NotOp \<Rightarrow> TKw ''NOT'')"

fun level :: "Expr \<Rightarrow> nat" where
  "level (EBinaryOp op _ _) = op_bp op"
| "level (EIsNull _ _) = 5"
| "level (EIsTrue _ _) = 5"
| "level (EIsFalse _ _) = 5"
| "level (EBetween _ _ _ _) = 5"
| "level (ELike _ _ _) = 5"
| "level (EIn _ _ _) = 5"
| "level (EUnaryOp _ _) = 15"
| "level _ = 16"

definition wrap :: "nat \<Rightarrow> nat \<Rightarrow> Token list \<Rightarrow> Token list" where
  "wrap k l ts = (if l < k then TLParen # ts @ [TRParen] else ts)"

fun commas :: "Token list list \<Rightarrow> Token list" where
  "commas [] = []"
| "commas [x] = x"
| "commas (x # y # xs) = x @ TComma # commas (y # xs)"

definition neg_tokens :: "bool \<Rightarrow> Token list" where
  "neg_tokens negated = (if negated then [TKw ''NOT''] else [])"

fun lit_tokens :: "Literal \<Rightarrow> Token list" where
  "lit_tokens (LInt n) = [TInt n]"
| "lit_tokens (LFloat f) = [TFloat f]"
| "lit_tokens (LText s) = [TString s]"
| "lit_tokens (LBool b) = [TKw (if b then ''TRUE'' else ''FALSE'')]"
| "lit_tokens LNull = [TKw ''NULL'']"
| "lit_tokens (LFloatArray fs) = TLBracket # commas (map (\<lambda>f. [TFloat f]) fs) @ [TRBracket]"

fun bare :: "Expr \<Rightarrow> Token list" where
  "bare (ELiteral l) = lit_tokens l"
| "bare (EIdent s) = [TIdent s]"
| "bare (EQualifiedIdent a b) = [TIdent a, TDot, TIdent b]"
| "bare (EParam n) = [TDollar n]"
| "bare (EBinaryOp op l r) =
     wrap (op_bp op) (level l) (bare l) @ op_token op # wrap (Suc (op_bp op)) (level r) (bare r)"
| "bare (EUnaryOp op x) = un_token op # wrap 15 (level x) (bare x)"
| "bare (EIsNull x g) = wrap 5 (level x) (bare x) @ TKw ''IS'' # neg_tokens g @ [TKw ''NULL'']"
| "bare (EIsTrue x g) = wrap 5 (level x) (bare x) @ TKw ''IS'' # neg_tokens g @ [TKw ''TRUE'']"
| "bare (EIsFalse x g) = wrap 5 (level x) (bare x) @ TKw ''IS'' # neg_tokens g @ [TKw ''FALSE'']"
| "bare (EBetween x lo hi g) =
     wrap 5 (level x) (bare x) @ neg_tokens g @ TKw ''BETWEEN'' # wrap 6 (level lo) (bare lo) @
     TKw ''AND'' # wrap 6 (level hi) (bare hi)"
| "bare (ELike x p g) = wrap 5 (level x) (bare x) @ neg_tokens g @ TKw ''LIKE'' # wrap 6 (level p) (bare p)"
| "bare (EIn x (InExprs es) g) =
     wrap 5 (level x) (bare x) @ neg_tokens g @ TKw ''IN'' # TLParen # commas (map bare es) @ [TRParen]"
| "bare (ECast x ty) = TKw ''CAST'' # TLParen # bare x @ [TKw ''AS'', TIdent ty, TRParen]"
| "bare (EFunction f es d) =
     TIdent f # TLParen # (if d then [TKw ''DISTINCT''] else []) @ commas (map bare es) @ [TRParen]"
| "bare (ECase v bs r) =
     TKw ''CASE'' # (case v of Some x \<Rightarrow> bare x | None \<Rightarrow> []) @
     concat (map (\<lambda>(c, x). TKw ''WHEN'' # bare c @ TKw ''THEN'' # bare x) bs) @
     (case r of Some x \<Rightarrow> TKw ''ELSE'' # bare x | None \<Rightarrow> []) @ [TKw ''END'']"
| "bare _ = []"

definition shown :: "nat \<Rightarrow> Expr \<Rightarrow> Token list" where
  "shown k e = wrap k (level e) (bare e)"

text \<open>The expressions without subqueries and window functions that have a written form.\<close>

fun plain :: "Expr \<Rightarrow> bool" where
  "plain (ELiteral l) = True"
| "plain (EIdent s) = True"
| "plain (EQualifiedIdent a b) = True"
| "plain (EParam n) = True"
| "plain (EBinaryOp op l r) \<longleftrightarrow> plain l \<and> plain r"
| "plain (EUnaryOp op x) = plain x"
| "plain (EIsNull x g) = plain x"
| "plain (EIsTrue x g) = plain x"
| "plain (EIsFalse x g) = plain x"
| "plain (EBetween x lo hi g) \<longleftrightarrow> plain x \<and> plain lo \<and> plain hi"
| "plain (ELike x p g) \<longleftrightarrow> plain x \<and> plain p"
| "plain (EIn x (InExprs es) g) \<longleftrightarrow> plain x \<and> es \<noteq> [] \<and> list_all plain es"
| "plain (ECast x ty) = plain x"
| "plain (EFunction f es d) = list_all plain es"
| "plain (ECase v bs r) \<longleftrightarrow>
     (v \<noteq> None \<or> bs \<noteq> []) \<and> (case v of Some x \<Rightarrow> plain x | None \<Rightarrow> True) \<and>
     list_all (\<lambda>(c, x). plain c \<and> plain x) bs \<and> (case r of Some x \<Rightarrow> plain x | None \<Rightarrow> True)"
| "plain _ = False"

subsection \<open>Evaluating a parser\<close>

lemma on_eq [parser_eval]: "on t p q ts = (if peek ts = t then p (drop 1 ts) else q ts)"
  by (simp add: on_def pbind_def eat_def)

lemma expect_eq [parser_eval]: "expect t (t # ts) = Ok ((), ts)"
  by (simp add: expect_def pbind_def advance_def ret_def)

lemma expect_some_eq [parser_eval]: "f t = Some x \<Longrightarrow> expect_some f msg (t # ts) = Ok (x, ts)"
  by (simp add: expect_some_def pbind_def advance_def ret_def)

lemma pbind_Ok: "p ts = Ok (x, r) \<Longrightarrow> pbind p f ts = f x r"
  by (simp add: pbind_def)

lemma ident_eq [parser_eval]: "parse_ident_string (TIdent s # ts) = Ok (s, ts)"
  by (simp add: parse_ident_string_def expect_some_eq)

lemmas [parser_eval] = on2_def on_some_def at_tok_def at_tok2_def pbind_def pthen_def ret_def advance_def opt_def eat_def
  closed_def optional_def again_def stop_def

lemma loopp_enough:
  assumes "\<And>n s. rpar n (body s) (body s)"
  shows "length ts < k \<Longrightarrow> length ts < k' \<Longrightarrow> loopp k body s ts = loopp k' body s ts"
proof (induction k arbitrary: k' s ts)
  case (Suc k)
  obtain j where j: "k' = Suc j" using Suc.prems by (cases k') auto
  have "loopp k body s' r = loopp j body s' r" if "body s ts = Ok ((s', True), r)" for s' r
    using fitsD(3) [OF assms lessI that] Suc.prems j by (intro Suc.IH) auto
  then show ?case unfolding j loopp.simps pbind_def by (cases "body s ts") (auto split: prod.split)
qed simp

text \<open>A loop that reads a token in each round, unfolded once.\<close>

lemma iterate_unfold:
  assumes body: "\<And>n s. rpar n (body s) (body s)"
  shows "iterate body s ts = pbind (body s) (\<lambda>(s', g). if g then iterate body s' else ret s') ts"
proof (cases "body s ts")
  case (Inr x)
  obtain s' g r where x: "body s ts = Ok ((s', g), r)" using Inr by (cases x; cases "fst x") auto
  have "loopp (length ts) body s' r = iterate body s' r" if g
    unfolding iterate_def using fitsD(3) [OF body lessI x] that by (intro loopp_enough [OF body]) auto
  then show ?thesis using x by (simp add: iterate_def [of body s] pbind_def)
qed (simp add: iterate_def pbind_def)

lemma rpar_infix: "rpar n (infix_round parse_expr parse_select m e) (infix_round parse_expr parse_select m e)"
  by (intro parser_rules spar_expr spar_select)

abbreviation infix_rest :: "nat \<Rightarrow> Expr \<Rightarrow> Expr parser" where
  "infix_rest \<equiv> infix_loop parse_expr parse_select"

lemma infix_rest_unfold:
  "infix_rest m e ts =
     (case infix_bp (peek ts) of
        None \<Rightarrow> Ok (e, ts)
      | Some (l, r, op) \<Rightarrow> if l < m then Ok (e, ts) else pbind (infix_step parse_expr parse_select e r op) (infix_rest m) ts)"
proof (cases "infix_bp (peek ts)")
  case (Some x)
  obtain l r op where x: "x = (l, r, op)" by (cases x)
  show ?thesis using Some x unfolding infix_loop_def
    by (subst iterate_unfold [OF rpar_infix], cases "infix_step parse_expr parse_select e r op ts")
      (auto simp: infix_round_def pbind_def stop_def again_def ret_def)
qed (subst infix_loop_def, subst iterate_unfold [OF rpar_infix], simp add: infix_round_def pbind_def stop_def ret_def)

subsection \<open>Following tokens\<close>

text \<open>The next token neither extends an atom nor binds the operand to its left more tightly than \<open>k\<close>.\<close>

definition clean :: "Token \<Rightarrow> bool" where
  "clean t \<longleftrightarrow> t \<notin> {TDoubleColon, TLParen, TDot, TKw ''OVER''}"

definition follows :: "nat \<Rightarrow> Token \<Rightarrow> bool" where
  "follows k t \<longleftrightarrow> clean t \<and> (case infix_bp t of Some (l, _) \<Rightarrow> l \<le> k | None \<Rightarrow> True)"

lemma infix_rest_stops: "follows k (peek rest) \<Longrightarrow> k < m \<Longrightarrow> infix_rest m e rest = Ok (e, rest)"
  by (auto simp: infix_rest_unfold follows_def split: option.splits)

definition ends_expr :: "Token \<Rightarrow> bool" where
  "ends_expr t \<longleftrightarrow> clean t \<and> infix_bp t = None"

lemma infix_rest_ends: "ends_expr (peek rest) \<Longrightarrow> infix_rest m e rest = Ok (e, rest)"
  by (simp add: infix_rest_unfold ends_expr_def)

lemma ends_follows: "ends_expr t \<Longrightarrow> follows k t"
  by (simp add: ends_expr_def follows_def)

lemma follows_mono: "follows k t \<Longrightarrow> k \<le> j \<Longrightarrow> follows j t"
  by (auto simp: follows_def split: option.splits)

lemma follows_clean: "follows k t \<Longrightarrow> clean t"
  by (simp add: follows_def)

lemma ends_expr_tokens [simp]:
  "ends_expr TRParen" "ends_expr TComma" "ends_expr TEof" "ends_expr (TKw ''AS'')" "ends_expr (TKw ''WHEN'')"
  "ends_expr (TKw ''THEN'')" "ends_expr (TKw ''ELSE'')" "ends_expr (TKw ''END'')"
  by (simp_all add: ends_expr_def clean_def infix_bp_def)

lemma infix_bp_op [simp]: "infix_bp (op_token op) = Some (op_bp op, Suc (op_bp op), op)"
  by (cases op) (simp_all add: infix_bp_def)

lemma infix_bp_keywords [simp]:
  "infix_bp (TKw ''IS'') = Some (5, 6, Eq)" "infix_bp (TKw ''BETWEEN'') = Some (5, 6, Eq)"
  "infix_bp (TKw ''LIKE'') = Some (5, 6, Eq)" "infix_bp (TKw ''IN'') = Some (5, 6, Eq)"
  "infix_bp (TKw ''NOT'') = Some (5, 6, Eq)" "infix_bp (TKw ''AND'') = Some (3, 4, AndOp)"
  by (simp_all add: infix_bp_def)

lemma clean_op [simp]: "clean (op_token op)"
  by (cases op) (simp_all add: clean_def)

lemma clean_keywords [simp]:
  "clean (TKw ''IS'')" "clean (TKw ''BETWEEN'')" "clean (TKw ''LIKE'')" "clean (TKw ''IN'')" "clean (TKw ''NOT'')"
  "clean (TKw ''AND'')"
  by (simp_all add: clean_def)

lemma step_op:
  "infix_step pe ps e r op (op_token o' # ts) = pbind (pe r) (\<lambda>rhs. ret (EBinaryOp op e rhs)) ts"
  by (cases o') (simp_all add: infix_step_def parser_eval)

subsection \<open>First tokens\<close>

definition begins :: "Token \<Rightarrow> bool" where
  "begins t \<longleftrightarrow> t \<notin> {TKw ''SELECT'', TKw ''DISTINCT'', TKw ''WHEN'', TKw ''EXISTS'', TKw ''BETWEEN'', TKw ''LIKE'', TKw ''IN'', TStar, TRParen, TEof}"

lemma begins_tokens [simp]:
  "begins (un_token op)" "begins TLParen" "begins TLBracket" "begins (TIdent x)" "begins (TInt n)" "begins (TFloat f)"
  "begins (TString x)" "begins (TDollar d)" "begins (TKw ''CAST'')" "begins (TKw ''CASE'')" "begins (TKw ''NULL'')"
  "begins (TKw ''TRUE'')" "begins (TKw ''FALSE'')"
  by (cases op) (simp_all add: begins_def un_token_def)

lemma begins_wrap:
  assumes "\<And>r. begins (peek (ts @ r)) \<and> ts \<noteq> []"
  shows "begins (peek (wrap k l ts @ r)) \<and> wrap k l ts \<noteq> []"
  using assms by (simp add: wrap_def)

lemma begins_bare: "plain e \<Longrightarrow> begins (peek (bare e @ ts)) \<and> bare e \<noteq> []"
proof (induction e arbitrary: ts rule: plain.induct)
  case (1 l)
  then show ?case by (cases l) simp_all
qed (simp_all add: begins_wrap [THEN conjunct1])

lemma begins_shown: "plain e \<Longrightarrow> begins (peek (shown k e @ ts))"
  using begins_wrap [of "bare e" k "level e" ts] begins_bare [of e] by (simp add: shown_def)

subsection \<open>Reading back\<close>

abbreviation unary :: "Expr parser" where
  "unary \<equiv> parse_unary parse_expr parse_select"

abbreviation atom :: "Expr parser" where
  "atom \<equiv> parse_atom parse_expr parse_select"

text \<open>An operand at level \<open>k\<close> is read, and the rest of the loop goes on; as a factor it is read alone.\<close>

definition readable :: "Expr \<Rightarrow> bool" where
  "readable e \<longleftrightarrow>
     (\<forall>m k rest. m \<le> k \<longrightarrow> follows k (peek rest) \<longrightarrow> parse_expr m (shown k e @ rest) = infix_rest m e rest) \<and>
     (\<forall>rest. clean (peek rest) \<longrightarrow> unary (shown 15 e @ rest) = Ok (e, rest))"

lemma readable_at: "readable e \<Longrightarrow> m \<le> k \<Longrightarrow> follows k (peek rest) \<Longrightarrow> parse_expr m (shown k e @ rest) = infix_rest m e rest"
  by (simp add: readable_def)

lemma readable_stop:
  "readable e \<Longrightarrow> follows k (peek rest) \<Longrightarrow> k < m \<Longrightarrow> parse_expr m (shown m e @ rest) = Ok (e, rest)"
  using readable_at [of e m m rest] infix_rest_stops [of k rest m e] follows_mono [of k _ m] by simp

lemma readable_bare: "readable e \<Longrightarrow> ends_expr (peek rest) \<Longrightarrow> parse_expr 0 (bare e @ rest) = Ok (e, rest)"
  using readable_at [of e 0 0 rest] ends_follows infix_rest_ends [of rest 0 e] by (simp add: shown_def wrap_def)

lemma readable_unary: "readable e \<Longrightarrow> clean (peek rest) \<Longrightarrow> unary (shown 15 e @ rest) = Ok (e, rest)"
  by (simp add: readable_def)

lemma expr_of_unary: "unary ts = Ok (e, rest) \<Longrightarrow> parse_expr m ts = infix_rest m e rest"
  by (subst parse_expr_unfold) (simp add: expr_body_def pbind_def)

lemma postfix_of_atom:
  assumes "parse_atom pe ps ts = Ok (e, rest)" and "peek rest \<noteq> TDoubleColon"
  shows "parse_postfix pe ps ts = Ok (e, rest)"
  using assms by (simp add: parse_postfix_def pbind_def iterate_def on_eq stop_def ret_def)

lemma unary_of_atom:
  assumes "atom ts = Ok (e, rest)" and "clean (peek rest)"
    and "peek ts \<notin> {TMinus, TPlus, TKw ''NOT'', TKw ''EXISTS''}"
  shows "unary ts = Ok (e, rest)"
  using assms postfix_of_atom [OF assms(1)] by (cases ts) (auto simp: clean_def)

text \<open>What holds of the written form without outer parentheses is enough.\<close>

lemma readable_from_bare:
  assumes plain: "plain e"
    and bare: "\<And>m k rest. m \<le> k \<Longrightarrow> k \<le> level e \<Longrightarrow> follows k (peek rest) \<Longrightarrow> parse_expr m (bare e @ rest) = infix_rest m e rest"
    and un: "\<And>rest. 15 \<le> level e \<Longrightarrow> clean (peek rest) \<Longrightarrow> unary (bare e @ rest) = Ok (e, rest)"
  shows "readable e"
proof -
  have paren: "unary (TLParen # bare e @ TRParen # rest) = Ok (e, rest)" if "clean (peek rest)" for rest
  proof (rule unary_of_atom)
    have "parse_expr 0 (bare e @ TRParen # rest) = Ok (e, TRParen # rest)"
      using bare [of 0 0 "TRParen # rest"] infix_rest_ends [of "TRParen # rest"] ends_follows by simp
    moreover have "peek (bare e @ TRParen # rest) \<noteq> TKw ''SELECT''"
      using begins_bare [OF plain, of "TRParen # rest"] by (auto simp: begins_def)
    ultimately show "atom (TLParen # bare e @ TRParen # rest) = Ok (e, rest)"
      by (simp add: parse_atom_def parser_eval)
  qed (use that in auto)
  show ?thesis unfolding readable_def
  proof (intro conjI allI impI)
    fix m k rest assume mk: "m \<le> k" and f: "follows k (peek rest)"
    show "parse_expr m (shown k e @ rest) = infix_rest m e rest"
      using bare [OF mk _ f] expr_of_unary [OF paren [OF follows_clean [OF f]], of m] by (simp add: shown_def wrap_def)
  next
    fix rest assume "clean (peek rest)"
    then show "unary (shown 15 e @ rest) = Ok (e, rest)" using paren un by (simp add: shown_def wrap_def)
  qed
qed

lemma readable_atom:
  assumes "plain e" and "level e = 16 \<or> level e = 15" and un: "\<And>rest. clean (peek rest) \<Longrightarrow> unary (bare e @ rest) = Ok (e, rest)"
  shows "readable e"
proof (rule readable_from_bare [OF assms(1)])
  show "parse_expr m (bare e @ rest) = infix_rest m e rest" if "follows k (peek rest)" for m k rest
    using expr_of_unary [OF un [OF follows_clean [OF that]]] .
qed (use un in simp)

lemma readable_infix:
  assumes "plain e" and "level e < 15" and "readable l" and "bare e = shown (level e) l @ ts"
    and clean: "\<And>rest. follows (level e) (peek (ts @ rest))"
    and step: "\<And>k m rest. m \<le> k \<Longrightarrow> k \<le> level e \<Longrightarrow> follows k (peek rest) \<Longrightarrow> infix_rest m l (ts @ rest) = infix_rest m e rest"
  shows "readable e"
proof (rule readable_from_bare [OF assms(1)])
  fix m k rest assume h: "m \<le> k" "k \<le> level e" "follows k (peek rest)"
  have "parse_expr m (shown (level e) l @ ts @ rest) = infix_rest m l (ts @ rest)"
    using h clean by (intro readable_at [OF assms(3)]) simp_all
  then show "parse_expr m (bare e @ rest) = infix_rest m e rest" using step [OF h] assms(4) by simp
qed (use assms(2) in simp)

subsection \<open>Operators\<close>

lemma readable_binary:
  assumes "readable l" and "readable r" and "plain l" and "plain r"
  shows "readable (EBinaryOp op l r)"
proof (rule readable_infix)
  show "level (EBinaryOp op l r) < 15" by (cases op) simp_all
  show "bare (EBinaryOp op l r) = shown (level (EBinaryOp op l r)) l @ op_token op # shown (Suc (op_bp op)) r"
    by (simp add: shown_def)
  fix m k rest
  show "follows (level (EBinaryOp op l r)) (peek ((op_token op # shown (Suc (op_bp op)) r) @ rest))"
    by (simp add: follows_def)
  assume h: "m \<le> k" "k \<le> level (EBinaryOp op l r)" "follows k (peek rest)"
  have "parse_expr (Suc (op_bp op)) (shown (Suc (op_bp op)) r @ rest) = Ok (r, rest)"
    using h by (intro readable_stop [OF assms(2), of k]) simp_all
  then show "infix_rest m l ((op_token op # shown (Suc (op_bp op)) r) @ rest) = infix_rest m (EBinaryOp op l r) rest"
    using h by (subst infix_rest_unfold) (simp add: pbind_def step_op ret_def)
qed (use assms in auto)

lemma readable_un:
  assumes "readable x" and "plain x"
  shows "readable (EUnaryOp op x)"
proof (rule readable_atom)
  fix rest assume "clean (peek rest)"
  then have "unary (shown 15 x @ rest) = Ok (x, rest)" using assms(1) by (rule readable_unary [rotated])
  moreover have "peek (shown 15 x @ rest) \<noteq> TKw ''EXISTS''"
    using begins_shown [OF assms(2), of 15 rest] by (auto simp: begins_def)
  ultimately show "unary (bare (EUnaryOp op x) @ rest) = Ok (EUnaryOp op x, rest)"
    by (cases op) (simp_all add: un_token_def shown_def)
qed (use assms in simp_all)

text \<open>The operators written with keywords bind like a comparison.\<close>

lemma readable_keyword:
  assumes "plain e" and "level e = 5" and "readable x" and "bare e = shown 5 x @ t # ts" and "t \<in> {TKw ''IS'', TKw ''NOT'', TKw ''BETWEEN'', TKw ''LIKE'', TKw ''IN''}"
    and step: "\<And>k rest. k \<le> 5 \<Longrightarrow> follows k (peek rest) \<Longrightarrow> infix_step parse_expr parse_select x 6 Eq (t # ts @ rest) = Ok (e, rest)"
  shows "readable e"
proof (rule readable_infix [where ts = "t # ts"])
  have t: "infix_bp t = Some (5, 6, Eq)" "clean t" using assms(5) by auto
  show "follows (level e) (peek ((t # ts) @ rest))" for rest using t assms(2) by (simp add: follows_def)
  show "infix_rest m x ((t # ts) @ rest) = infix_rest m e rest"
    if "m \<le> k" "k \<le> level e" "follows k (peek rest)" for k m rest
    using t that assms(2) step [of k rest] by (subst infix_rest_unfold) (simp add: pbind_def)
qed (use assms in simp_all)

lemma readable_is:
  assumes "readable x" and "plain x"
  shows "readable (EIsNull x g)" and "readable (EIsTrue x g)" and "readable (EIsFalse x g)"
proof -
  have step: "infix_step parse_expr parse_select x 6 Eq (TKw ''IS'' # (neg_tokens g @ [TKw ''NULL'']) @ rest) = Ok (EIsNull x g, rest)"
    "infix_step parse_expr parse_select x 6 Eq (TKw ''IS'' # (neg_tokens g @ [TKw ''TRUE'']) @ rest) = Ok (EIsTrue x g, rest)"
    "infix_step parse_expr parse_select x 6 Eq (TKw ''IS'' # (neg_tokens g @ [TKw ''FALSE'']) @ rest) = Ok (EIsFalse x g, rest)"
    for rest
    by (simp_all add: infix_step_def parse_is_def parser_eval neg_tokens_def)
  show "readable (EIsNull x g)"
    by (rule readable_keyword [where x = x and t = "TKw ''IS''" and ts = "neg_tokens g @ [TKw ''NULL'']"])
      (use assms step in \<open>auto simp: shown_def\<close>)
  show "readable (EIsTrue x g)"
    by (rule readable_keyword [where x = x and t = "TKw ''IS''" and ts = "neg_tokens g @ [TKw ''TRUE'']"])
      (use assms step in \<open>auto simp: shown_def\<close>)
  show "readable (EIsFalse x g)"
    by (rule readable_keyword [where x = x and t = "TKw ''IS''" and ts = "neg_tokens g @ [TKw ''FALSE'']"])
      (use assms step in \<open>auto simp: shown_def\<close>)
qed

text \<open>An operator that may be negated: its first token and what follows.\<close>

lemma readable_negated:
  assumes "plain e" and "level e = 5" and "readable x" and "bare e = shown 5 x @ neg_tokens g @ TKw w # ts"
    and "w \<in> {''BETWEEN'', ''LIKE'', ''IN''}"
    and step: "\<And>k rest. k \<le> 5 \<Longrightarrow> follows k (peek rest) \<Longrightarrow>
      infix_step parse_expr parse_select x 6 Eq (neg_tokens g @ TKw w # ts @ rest) = Ok (e, rest)"
  shows "readable e"
proof (cases g)
  case True
  then show ?thesis using assms(1-4) step
    by - (rule readable_keyword [where x = x and t = "TKw ''NOT''" and ts = "TKw w # ts"], simp_all add: neg_tokens_def)
next
  case False
  then have "bare e = shown 5 x @ TKw w # ts" using assms(4) by (simp add: neg_tokens_def)
  moreover have "TKw w \<in> {TKw ''IS'', TKw ''NOT'', TKw ''BETWEEN'', TKw ''LIKE'', TKw ''IN''}" using assms(5) by blast
  ultimately show ?thesis using assms(1-3) step False
    by - (rule readable_keyword [where x = x and t = "TKw w" and ts = ts], simp_all add: neg_tokens_def)
qed

lemma readable_between:
  assumes "readable x" "readable lo" "readable hi" and "plain x" "plain lo" "plain hi"
  shows "readable (EBetween x lo hi g)"
proof (rule readable_negated)
  show "bare (EBetween x lo hi g) =
      shown 5 x @ neg_tokens g @ TKw ''BETWEEN'' # shown 6 lo @ TKw ''AND'' # shown 6 hi"
    by (simp add: shown_def)
  fix k rest assume h: "k \<le> (5 :: nat)" "follows k (peek rest)"
  have "parse_expr 6 (shown 6 lo @ TKw ''AND'' # shown 6 hi @ rest) = Ok (lo, TKw ''AND'' # shown 6 hi @ rest)"
    by (rule readable_stop [OF assms(2), of 5]) (simp_all add: follows_def)
  moreover have "parse_expr 6 (shown 6 hi @ rest) = Ok (hi, rest)"
    using h by (intro readable_stop [OF assms(3), of k]) simp_all
  ultimately show "infix_step parse_expr parse_select x 6 Eq
      (neg_tokens g @ TKw ''BETWEEN'' # (shown 6 lo @ TKw ''AND'' # shown 6 hi) @ rest) = Ok (EBetween x lo hi g, rest)"
    by (simp add: infix_step_def parse_between_def parser_eval neg_tokens_def)
qed (use assms in auto)

lemma readable_like:
  assumes "readable x" "readable p" and "plain x" "plain p"
  shows "readable (ELike x p g)"
proof (rule readable_negated)
  show "bare (ELike x p g) = shown 5 x @ neg_tokens g @ TKw ''LIKE'' # shown 6 p"
    by (simp add: shown_def)
  fix k rest assume h: "k \<le> (5 :: nat)" "follows k (peek rest)"
  then have "parse_expr 6 (shown 6 p @ rest) = Ok (p, rest)"
    by (intro readable_stop [OF assms(2), of k]) simp_all
  then show "infix_step parse_expr parse_select x 6 Eq (neg_tokens g @ TKw ''LIKE'' # shown 6 p @ rest) = Ok (ELike x p g, rest)"
    by (simp add: infix_step_def parser_eval neg_tokens_def)
qed (use assms in auto)

subsection \<open>Lists\<close>

lemma ends_commas: "ends_expr (peek rest) \<Longrightarrow> ends_expr (peek (concat (map (\<lambda>x. TComma # f x) xs) @ rest))"
  by (cases xs) simp_all

lemma commas_loop:
  assumes rp: "\<And>n. par n p p" and "\<And>x r. x \<in> set xs \<Longrightarrow> ends_expr (peek r) \<Longrightarrow> p (f x @ r) = Ok (x, r)"
    and "peek rest \<noteq> TComma" and "ends_expr (peek rest)"
  shows "iterate (\<lambda>xs. on TComma (pbind p (\<lambda>y. again (xs @ [y]))) (stop xs)) acc
      (concat (map (\<lambda>x. TComma # f x) xs) @ rest) = Ok (acc @ xs, rest)"
  using assms(2)
proof (induction xs arbitrary: acc)
  let ?b = "\<lambda>xs. on TComma (pbind p (\<lambda>y. again (xs @ [y]))) (stop xs)"
  have rb: "rpar n (?b s) (?b s)" for n s by (intro parser_rules rp) simp
  {
    case Nil
    show ?case using assms(3) by (subst iterate_unfold [OF rb]) (simp add: parser_eval)
  next
    case (Cons x xs)
    let ?tl = "concat (map (\<lambda>x. TComma # f x) xs) @ rest"
    have "p (f x @ ?tl) = Ok (x, ?tl)"
      using Cons.prems [of x] ends_commas [OF assms(4), of f xs] by simp
    then have "iterate ?b acc (TComma # f x @ ?tl) = iterate ?b (acc @ [x]) ?tl"
      by (subst iterate_unfold [OF rb]) (simp add: parser_eval)
    also have "\<dots> = Ok ((acc @ [x]) @ xs, rest)" using Cons.prems by (intro Cons.IH) simp
    finally show ?case by simp
  }
qed

lemma commas_Cons: "commas (x # xs) = x @ concat (map (\<lambda>y. TComma # y) xs)"
  by (induction xs arbitrary: x) auto

lemma comma_list_eq:
  assumes rp: "\<And>n. par n p p" and p: "\<And>x r. x \<in> set xs \<Longrightarrow> ends_expr (peek r) \<Longrightarrow> p (f x @ r) = Ok (x, r)"
    and rest: "peek rest \<noteq> TComma" "ends_expr (peek rest)" and "xs \<noteq> []"
  shows "comma_list p (commas (map f xs) @ rest) = Ok (xs, rest)"
proof (cases xs)
  case (Cons x ys)
  let ?tl = "concat (map (\<lambda>x. TComma # f x) ys) @ rest"
  have "p (f x @ ?tl) = Ok (x, ?tl)" using p [of x] ends_commas [OF rest(2), of f ys] Cons by simp
  then show ?thesis
    using commas_loop [of p ys f rest "[x]", OF rp p rest] Cons
    by (simp add: comma_list_def pbind_def commas_Cons comp_def)
qed (use assms in simp)

lemma expr_list_eq:
  assumes "\<And>x. x \<in> set es \<Longrightarrow> readable x" and "es \<noteq> []"
  shows "comma_list (parse_expr 0) (commas (map bare es) @ TRParen # rest) = Ok (es, TRParen # rest)"
  using assms readable_bare by (intro comma_list_eq parser_rules) simp_all

lemma begins_commas: "es \<noteq> [] \<Longrightarrow> list_all plain es \<Longrightarrow> begins (peek (commas (map bare es) @ ts))"
  using begins_bare by (cases es) (simp_all add: commas_Cons)

lemma readable_in:
  assumes "readable x" "plain x" and es: "\<And>y. y \<in> set es \<Longrightarrow> readable y" "es \<noteq> []" "list_all plain es"
  shows "readable (EIn x (InExprs es) g)"
proof (rule readable_negated)
  show "bare (EIn x (InExprs es) g) =
      shown 5 x @ neg_tokens g @ TKw ''IN'' # TLParen # commas (map bare es) @ [TRParen]"
    by (simp add: shown_def)
  fix k rest
  have "peek (commas (map bare es) @ TRParen # rest) \<noteq> TKw ''SELECT''"
    using begins_commas [OF es(2,3), of "TRParen # rest"] by (auto simp: begins_def)
  then show "infix_step parse_expr parse_select x 6 Eq
      (neg_tokens g @ TKw ''IN'' # (TLParen # commas (map bare es) @ [TRParen]) @ rest) = Ok (EIn x (InExprs es) g, rest)"
    using expr_list_eq [OF es(1,2), of rest]
    by (simp add: infix_step_def parse_in_def parser_eval neg_tokens_def)
qed (use assms in auto)

subsection \<open>Atoms\<close>

lemma float_element_eq: "parse_float_element (TFloat f # ts) = Ok (f, ts)"
  by (simp add: parse_float_element_def parser_eval)

lemma atom_literal: "atom (lit_tokens l @ rest) = Ok (ELiteral l, rest)"
proof (cases l)
  case (LFloatArray fs)
  let ?ts = "commas (map (\<lambda>f. [TFloat f]) fs) @ TRBracket # rest"
  have e: "ends_expr TRBracket" by (simp add: ends_expr_def clean_def infix_bp_def)
  have "comma_list parse_float_element ?ts = Ok (fs, TRBracket # rest)" if "fs \<noteq> []"
    using that e by (intro comma_list_eq [where f = "\<lambda>f. [TFloat f]"] parser_rules) (simp_all add: float_element_eq)
  moreover have "peek ?ts = TRBracket \<longleftrightarrow> fs = []" by (cases fs) (simp_all add: commas_Cons)
  ultimately have "parse_float_array_literal (TLBracket # ?ts) = Ok (ELiteral (LFloatArray fs), rest)"
    by (cases "fs = []") (simp_all add: parse_float_array_literal_def parser_eval)
  then show ?thesis using LFloatArray by (simp add: parse_atom_def parser_eval)
qed (simp_all add: parse_atom_def parser_eval)

lemma readable_literal: "readable (ELiteral l)"
proof (rule readable_atom)
  show "unary (bare (ELiteral l) @ rest) = Ok (ELiteral l, rest)" if "clean (peek rest)" for rest
    using that atom_literal [of l rest] by (intro unary_of_atom) (cases l; simp)+
qed simp_all

lemma readable_names:
  "readable (EIdent s)" "readable (EQualifiedIdent s c)" "readable (EParam n)"
proof -
  have "atom (TIdent s # rest) = Ok (EIdent s, rest)" "atom (TIdent s # TDot # TIdent c # rest) = Ok (EQualifiedIdent s c, rest)"
    "atom (TDollar n # rest) = Ok (EParam n, rest)" if "clean (peek rest)" for rest
    using that by (simp_all add: parse_atom_def parse_name_def parser_eval clean_def)
  then show "readable (EIdent s)" "readable (EQualifiedIdent s c)" "readable (EParam n)"
    by (auto intro!: readable_atom unary_of_atom)
qed

lemma readable_cast:
  assumes "readable x" and "plain x"
  shows "readable (ECast x ty)"
proof (rule readable_atom)
  fix rest assume c: "clean (peek rest)"
  have t: "parse_cast_type_name (TIdent ty # TRParen # rest) = Ok (ty, TRParen # rest)"
    by (simp add: parse_cast_type_name_def iterate_def parser_eval)
  have "parse_expr 0 (bare x @ TKw ''AS'' # TIdent ty # TRParen # rest) = Ok (x, TKw ''AS'' # TIdent ty # TRParen # rest)"
    by (rule readable_bare [OF assms(1)]) simp
  then have "atom (bare (ECast x ty) @ rest) = Ok (ECast x ty, rest)"
    using t by (simp add: parse_atom_def parser_eval)
  then show "unary (bare (ECast x ty) @ rest) = Ok (ECast x ty, rest)" using c by (intro unary_of_atom) simp_all
qed (use assms in simp_all)

lemma readable_function:
  assumes es: "\<And>y. y \<in> set es \<Longrightarrow> readable y" "list_all plain es"
  shows "readable (EFunction f es d)"
proof (rule readable_atom)
  fix rest assume c: "clean (peek rest)"
  let ?ts = "commas (map bare es) @ TRParen # rest"
  have b: "es \<noteq> [] \<Longrightarrow> begins (peek ?ts)" using begins_commas [OF _ es(2)] by simp
  have l: "es \<noteq> [] \<Longrightarrow> comma_list (parse_expr 0) ?ts = Ok (es, TRParen # rest)" using expr_list_eq [OF es(1)] by simp
  have "parse_call parse_expr f ((if d then [TKw ''DISTINCT''] else []) @ ?ts) = Ok (EFunction f es d, rest)"
    using b l c by (cases "es = []") (auto simp: parse_call_def parser_eval begins_def clean_def)
  then have "atom (bare (EFunction f es d) @ rest) = Ok (EFunction f es d, rest)"
    by (simp add: parse_atom_def parse_name_def parser_eval)
  then show "unary (bare (EFunction f es d) @ rest) = Ok (EFunction f es d, rest)" using c by (intro unary_of_atom) simp_all
qed (use assms in simp_all)

definition branch_tokens :: "(Expr \<times> Expr) list \<Rightarrow> Token list" where
  "branch_tokens bs = concat (map (\<lambda>(c, x). TKw ''WHEN'' # bare c @ TKw ''THEN'' # bare x) bs)"

lemma ends_branches: "ends_expr (peek rest) \<Longrightarrow> ends_expr (peek (branch_tokens bs @ rest))"
  by (cases bs) (auto simp: branch_tokens_def)

lemma branches_eq:
  assumes "\<And>c x. (c, x) \<in> set bs \<Longrightarrow> readable c \<and> readable x"
    and "ends_expr (peek rest)" and "peek rest \<noteq> TKw ''WHEN''"
  shows "iterate (\<lambda>branches. on (TKw ''WHEN'')
      (pbind (parse_expr 0) (\<lambda>cond. pthen (expect (TKw ''THEN'')) (pbind (parse_expr 0) (\<lambda>r. again (branches @ [(cond, r)])))))
      (stop branches)) acc (branch_tokens bs @ rest) = Ok (acc @ bs, rest)"
  using assms(1)
proof (induction bs arbitrary: acc)
  let ?b = "\<lambda>branches. on (TKw ''WHEN'')
      (pbind (parse_expr 0) (\<lambda>cond. pthen (expect (TKw ''THEN'')) (pbind (parse_expr 0) (\<lambda>r. again (branches @ [(cond, r)])))))
      (stop branches)"
  have rb: "rpar n (?b s) (?b s)" for n s by (intro parser_rules) simp
  {
    case Nil
    show ?case using assms(3) by (subst iterate_unfold [OF rb]) (simp add: parser_eval branch_tokens_def)
  next
    case (Cons cx bs)
    obtain c x where cx: "cx = (c, x)" by (cases cx)
    then have r: "readable c" "readable x" using Cons.prems by auto
    let ?tl = "branch_tokens bs @ rest"
    have "parse_expr 0 (bare c @ TKw ''THEN'' # bare x @ ?tl) = Ok (c, TKw ''THEN'' # bare x @ ?tl)"
      by (rule readable_bare [OF r(1)]) simp
    moreover have "parse_expr 0 (bare x @ ?tl) = Ok (x, ?tl)"
      by (rule readable_bare [OF r(2)]) (rule ends_branches [OF assms(2)])
    ultimately have "iterate ?b acc (TKw ''WHEN'' # bare c @ TKw ''THEN'' # bare x @ ?tl) = iterate ?b (acc @ [(c, x)]) ?tl"
      by (subst iterate_unfold [OF rb]) (simp add: parser_eval)
    also have "\<dots> = Ok ((acc @ [(c, x)]) @ bs, rest)" using Cons.prems by (intro Cons.IH) auto
    finally show ?case by (simp add: cx branch_tokens_def)
  }
qed

lemma readable_case:
  assumes p: "plain (ECase v bs r)" and v: "\<And>x. v = Some x \<Longrightarrow> readable x"
    and bs: "\<And>c x. (c, x) \<in> set bs \<Longrightarrow> readable c \<and> readable x" and r: "\<And>x. r = Some x \<Longrightarrow> readable x"
  shows "readable (ECase v bs r)"
proof (rule readable_atom [OF p])
  fix rest assume c: "clean (peek rest)"
  let ?stop = "TKw ''END'' # rest"
  let ?els = "(case r of Some x \<Rightarrow> TKw ''ELSE'' # bare x | None \<Rightarrow> []) @ ?stop"
  have els: "optional (TKw ''ELSE'') (parse_expr 0) ?els = Ok (r, ?stop)"
    using readable_bare [OF r, of _ ?stop] by (cases r) (simp_all add: parser_eval)
  have ends: "ends_expr (peek ?els)" "peek ?els \<noteq> TKw ''WHEN''" by (cases r; simp)+
  note br = branches_eq [where acc = "[]" and bs = bs, OF bs ends, unfolded append_Nil]
  have opd: "at_tok (\<lambda>t. t \<noteq> TKw ''WHEN'') (pbind (parse_expr 0) (\<lambda>e. ret (Some e))) (ret None)
      ((case v of Some x \<Rightarrow> bare x | None \<Rightarrow> []) @ branch_tokens bs @ ?els) = Ok (v, branch_tokens bs @ ?els)"
  proof (cases v)
    case None
    then have "bs \<noteq> []" using p by simp
    then have "peek (branch_tokens bs @ ?els) = TKw ''WHEN''" by (cases bs) (auto simp: branch_tokens_def)
    then show ?thesis using None by (simp add: at_tok_def ret_def)
  next
    case (Some x)
    then have "plain x" using p by simp
    then have "peek (bare x @ branch_tokens bs @ ?els) \<noteq> TKw ''WHEN''"
      using begins_bare [of x "branch_tokens bs @ ?els"] by (auto simp: begins_def)
    moreover have "parse_expr 0 (bare x @ branch_tokens bs @ ?els) = Ok (x, branch_tokens bs @ ?els)"
      by (rule readable_bare [OF v [OF Some]]) (rule ends_branches [OF ends(1)])
    ultimately show ?thesis using Some by (simp add: at_tok_def pbind_def ret_def)
  qed
  have "parse_case parse_expr ((case v of Some x \<Rightarrow> bare x | None \<Rightarrow> []) @ branch_tokens bs @ ?els) = Ok (ECase v bs r, rest)"
    unfolding parse_case_def by (simp only: pthen_def [of "expect (TKw ''END'')"] pbind_Ok opd br els expect_eq ret_def)
  then have "atom (bare (ECase v bs r) @ rest) = Ok (ECase v bs r, rest)"
    by (simp add: parse_atom_def parser_eval branch_tokens_def)
  then show "unary (bare (ECase v bs r) @ rest) = Ok (ECase v bs r, rest)" using c by (intro unary_of_atom) simp_all
qed simp

subsection \<open>Every plain expression\<close>

lemma readable_plain: "plain e \<Longrightarrow> readable e"
proof (induction e rule: plain.induct)
  case (12 x es g)
  then show ?case by (intro readable_in) (auto simp: list_all_iff)
next
  case (14 f es d)
  then show ?case by (intro readable_function) (auto simp: list_all_iff)
next
  case (15 v bs r)
  show ?case
  proof (rule readable_case [OF "15.prems"])
    show "readable x" if "v = Some x" for x using 15 that by simp
    show "readable x" if "r = Some x" for x using 15 that by simp
    show "readable c \<and> readable x" if "(c, x) \<in> set bs" for c x using 15 that by (auto simp: list_all_iff)
  qed
qed (auto intro: readable_literal readable_names readable_binary readable_un readable_is readable_between readable_like
    readable_cast)

end
