(* ===== verification/ParserProps.thy ===== *)
theory ParserProps
  imports PrintExpr
begin

text \<open>
  What the SQL front end promises: literals survive the lexer, expressions survive the parser,
  parsing ends, and the inputs where it does not or where it reads something else than
  was written.
\<close>

subsection \<open>String literals\<close>

definition quote_text :: "bytes \<Rightarrow> bytes" where
  "quote_text s = concat (map (\<lambda>b. if b = 39 then [39, 39] else [b]) s)"

lemma push_char_self: "push_char b = [b] \<longleftrightarrow> b < 128"
  by (simp add: push_char_def)

lemma length_push_char: "length (push_char b) = (if b < 128 then 1 else 2)"
  by (simp add: push_char_def)

lemma push_chars_length: "length s \<le> length (concat (map push_char s))"
  by (induction s) (auto simp: length_push_char)

lemma push_chars_self: "concat (map push_char s) = s \<longleftrightarrow> (\<forall>b \<in> set s. b < 128)"
proof (induction s)
  case (Cons b s)
  show ?case
  proof (cases "b < 128")
    case True
    then have "push_char b = [b]" using push_char_self by blast
    then show ?thesis using Cons True by simp
  next
    case False
    have "length (concat (map push_char (b # s))) \<noteq> length (b # s)"
      using push_chars_length [of s] False by (simp add: length_push_char)
    then have "concat (map push_char (b # s)) \<noteq> b # s" by metis
    then show ?thesis using False by auto
  qed
qed simp

lemma read_quoted_quote:
  assumes "peek_byte rest \<noteq> Some 39"
  shows "read_quoted 39 (quote_text s @ 39 # rest) = Some (concat (map push_char s), rest)"
proof (induction s)
  case Nil
  then show ?case using assms by (cases rest) (simp_all add: quote_text_def peek_byte_def)
next
  case (Cons b s)
  obtain c ts where t: "quote_text s @ 39 # rest = c # ts" by (cases "quote_text s") auto
  show ?case
  proof (cases "b = 39")
    case True
    then show ?thesis using Cons by (simp add: quote_text_def push_char_def)
  next
    case False
    then have "quote_text (b # s) @ 39 # rest = b # c # ts" using t by (simp add: quote_text_def)
    then show ?thesis using False Cons unfolding t by simp
  qed
qed

text \<open>
  C21: A text written as a SQL literal, its quotes doubled, is one token: the lexer goes on right after the closing quote
  whatever the text holds, and the token is the text exactly when all its bytes are ASCII.
\<close>

theorem literal_is_one_token:
  assumes "peek_byte rest \<noteq> Some 39"
  shows "\<exists>t. next_token f (39 # quote_text s @ 39 # rest) = Ok (TString t, rest) \<and> (t = s \<longleftrightarrow> (\<forall>b \<in> set s. b < 128))"
  using read_quoted_quote [OF assms, of s] push_chars_self [of s]
  by (simp add: next_token_def is_ascii_whitespace_def peek_byte_def)

theorem literal_is_one_token_witness:
  "\<exists>t. next_token (\<lambda>_. None) (39 # quote_text [39, 59, 195, 169] @ 39 # [59]) = Ok (TString t, [59]) \<and> t \<noteq> [39, 59, 195, 169]"
  using literal_is_one_token [of "[59]" "\<lambda>_. None" "[39, 59, 195, 169]"] by (auto simp: peek_byte_def)

subsection \<open>Expressions\<close>

text \<open>
  C9: Precedence is printed and parsed alike: an expression written with the fewest parentheses that
  the binding powers allow is read back as itself, up to the first token that cannot continue it.
\<close>

theorem printed_expression_reads_back:
  assumes "plain e" and "ends_expr (peek rest)"
  shows "parse_expr 0 (bare e @ rest) = Ok (e, rest)"
  by (rule readable_bare [OF readable_plain [OF assms(1)] assms(2)])

definition sample_expr :: Expr where
  "sample_expr =
     EBinaryOp AndOp
       (EBinaryOp OrOp (EIdent [97]) (EUnaryOp NotOp (EBinaryOp Eq (EIdent [98]) (ELiteral (LInt 1)))))
       (EBetween (EBinaryOp Mul (EBinaryOp Add (EIdent [99]) (ELiteral (LInt 2))) (EIdent [100])) (ELiteral (LInt 3)) (EParam 1) True)"

theorem printed_expression_reads_back_witness:
  "bare sample_expr =
     [TLParen, TIdent [97], TKw ''OR'', TKw ''NOT'', TLParen, TIdent [98], TEq, TInt 1, TRParen, TRParen, TKw ''AND'',
      TLParen, TIdent [99], TPlus, TInt 2, TRParen, TStar, TIdent [100], TKw ''NOT'', TKw ''BETWEEN'', TInt 3, TKw ''AND'',
      TDollar 1] \<and>
   parse_expr 0 (bare sample_expr @ [TEof]) = Ok (sample_expr, [TEof])"
proof
  have "plain sample_expr" by (simp add: sample_expr_def)
  then show "parse_expr 0 (bare sample_expr @ [TEof]) = Ok (sample_expr, [TEof])"
    by (rule printed_expression_reads_back) simp
qed (simp add: sample_expr_def wrap_def un_token_def neg_tokens_def)

text \<open>
  What is written with \<open>NOT\<close> and what is read differ: \<open>NOT x op r\<close> applies the operator to \<open>NOT x\<close>, whatever the
  operator, and a \<open>NOT\<close> that stands between two operands is read as an equality.
\<close>

theorem not_reads_as_equality:
  assumes "plain l" and "plain r" and "ends_expr (peek rest)"
  shows "parse_expr 0 (TKw ''NOT'' # shown 15 l @ op_token op # shown (Suc (op_bp op)) r @ rest) =
           Ok (EBinaryOp op (EUnaryOp NotOp l) r, rest) \<and>
         parse_expr 0 (shown 5 l @ TKw ''NOT'' # shown 6 r @ rest) = Ok (EBinaryOp Eq l r, rest)"
proof
  have "readable (EBinaryOp op (EUnaryOp NotOp l) r)" using assms by (intro readable_plain) simp
  moreover have "wrap (op_bp op) 15 ts = ts" for ts by (cases op) (simp_all add: wrap_def)
  ultimately show "parse_expr 0 (TKw ''NOT'' # shown 15 l @ op_token op # shown (Suc (op_bp op)) r @ rest) =
      Ok (EBinaryOp op (EUnaryOp NotOp l) r, rest)"
    using readable_bare [of "EBinaryOp op (EUnaryOp NotOp l) r" rest] assms(3) by (simp add: shown_def un_token_def)
  have l: "parse_expr 0 (shown 5 l @ TKw ''NOT'' # shown 6 r @ rest) = infix_rest 0 l (TKw ''NOT'' # shown 6 r @ rest)"
    by (rule readable_at [OF readable_plain [OF assms(1)]]) (simp_all add: follows_def)
  have r: "parse_expr 6 (shown 6 r @ rest) = Ok (r, rest)"
    using readable_stop [OF readable_plain [OF assms(2)], of 0 rest 6] ends_follows [OF assms(3)] by simp
  have "peek (shown 6 r @ rest) \<notin> {TKw ''BETWEEN'', TKw ''LIKE'', TKw ''IN''}"
    using begins_shown [OF assms(2), of 6 rest] by (auto simp: begins_def)
  then have "infix_step parse_expr parse_select l 6 Eq (TKw ''NOT'' # shown 6 r @ rest) = Ok (EBinaryOp Eq l r, rest)"
    using r by (simp add: infix_step_def parser_eval)
  then show "parse_expr 0 (shown 5 l @ TKw ''NOT'' # shown 6 r @ rest) = Ok (EBinaryOp Eq l r, rest)"
    using infix_rest_ends [OF assms(3)] unfolding l by (subst infix_rest_unfold) (simp add: pbind_def)
qed

theorem not_reads_as_equality_witness:
  "parse_expr 0 [TKw ''NOT'', TIdent [97], TEq, TIdent [98], TEof] =
     Ok (EBinaryOp Eq (EUnaryOp NotOp (EIdent [97])) (EIdent [98]), [TEof]) \<and>
   parse_expr 0 [TIdent [97], TKw ''NOT'', TIdent [98], TEof] = Ok (EBinaryOp Eq (EIdent [97]) (EIdent [98]), [TEof])"
  using not_reads_as_equality [of "EIdent [97]" "EIdent [98]" "[TEof]" Eq] by (simp add: shown_def wrap_def)

subsection \<open>Parsing ends\<close>

text \<open>
  C20: The recursive descent of \<open>parse_expr\<close> and \<open>parse_select\<close> ends on every input: the two satisfy the equations of the
  source, never run out of the depth they are given, and a larger depth changes nothing.
\<close>

theorem expression_parser_ends:
  "parse_expr m = expr_body parse_expr parse_select m \<and> parse_select = select_body parse_expr parse_select \<and>
   parse_expr m ts \<noteq> Err Stuck \<and> parse_select ts \<noteq> Err Stuck \<and>
   fst (parsers (length ts + Suc k)) m ts = parse_expr m ts \<and> snd (parsers (length ts + Suc k)) ts = parse_select ts"
proof -
  have n: "length ts < length ts + Suc k" by simp
  show ?thesis
    by (intro conjI parse_expr_unfold parse_select_unfold parsers_enough(3,4) [OF lessI] parsers_enough(1,2) [OF n])
qed

text \<open>
  C10: Parsing a statement ends, with a bound on its rounds of one more than its tokens, for every statement but
  \<open>CREATE TABLE\<close>; and where a \<open>CREATE TABLE\<close> does not end within that bound, it never does.
\<close>

theorem statement_ends_or_never:
  assumes "length ts < k"
  shows "parse_stmt d k ts = Err Stuck \<longleftrightarrow> is_create_table ts \<and> (\<forall>j. parse_stmt d j ts = Err Stuck)"
  using parse_stmt_ends(2) parse_stmt_stuck [OF assms] by blast

theorem statement_ends_or_never_witness:
  "parse_stmt (\<lambda>_. []) 5 [TKw ''BEGIN'', TSemicolon, TEof] \<noteq> Err Stuck"
  using statement_ends_or_never [of "[TKw ''BEGIN'', TSemicolon, TEof]" 5 "\<lambda>_. []"]
  by (simp add: is_create_table_def stmt_tokens_def)

text \<open>
  C22: A \<open>CREATE TABLE\<close> whose closing parenthesis is missing hangs the parser: once the columns are read and no closing
  parenthesis and no table constraint is left, no number of rounds is enough.
\<close>

theorem unclosed_create_table_hangs:
  assumes "is_create_table ts" and "create_table_head (drop 2 (stmt_tokens ts)) = Ok (head, rest)"
    and "set rest \<inter> {TRParen, TKw ''PRIMARY'', TKw ''UNIQUE'', TKw ''FOREIGN''} = {}"
  shows "parse_stmt d fuel ts = Err Stuck"
proof -
  obtain i t c where h: "head = (i, t, c)" by (cases head)
  have "loopp fuel constraint_round (c, []) rest = Err Stuck" by (rule constraint_loop_unclosed [OF assms(3)])
  then have "parse_create_table fuel (drop 2 (stmt_tokens ts)) = Err Stuck"
    using assms(2) h by (simp add: parse_create_table_def pbind_def)
  then show ?thesis using parse_stmt_create_table [OF assms(1)] by simp
qed

definition unclosed_table :: "Token list" where
  "unclosed_table = [TKw ''CREATE'', TKw ''TABLE'', TIdent [116], TLParen, TIdent [97], TIdent [105, 110, 116], TEof]"

theorem unclosed_create_table_hangs_witness:
  "\<forall>fuel. parse_stmt (\<lambda>_. []) fuel unclosed_table = Err Stuck"
proof (rule allI, rule unclosed_create_table_hangs)
  show "is_create_table unclosed_table" by (simp add: unclosed_table_def is_create_table_def stmt_tokens_def)
  show "create_table_head (drop 2 (stmt_tokens unclosed_table)) =
      Ok ((False, [116], [new_column [97] [105, 110, 116]]), [TEof])"
    by (simp add: unclosed_table_def stmt_tokens_def create_table_head_def parse_if_not_exists_def parse_object_name_def
        parse_column_list_def parse_column_def starts_constraint_def column_attribute_def iterate_def parser_eval)
qed simp

end
