(* ===== verification/Values.thy ===== *)
theory Values
  imports ExprParser Schema
begin

text \<open>
  Runtime values and the operators on them, executor/eval.rs.  A double is its bits;
  its comparison and its conversions from and to integers are defined here, rounded arithmetic
  and decimal text are arguments, and so are the case mappings of Unicode and the hex encoder.  A
  character is the bytes that encode it.  Arithmetic that the release build wraps wraps here.
\<close>

unbundle bit_operations_syntax

datatype Value = VInt i64 | VFloat u64 | VText bytes | VBool bool | VNull | VFloatArray "u64 list" | VBytea bytes

text \<open>\<open>Panicked\<close> is a panic of the evaluating thread, every other error a message to the client.\<close>

datatype eval_error = EvalError string | Panicked

record std_ops =
  so_parse_f64 :: "bytes \<Rightarrow> u64 option"
  so_show_f64 :: "u64 \<Rightarrow> bytes"
  so_add :: "u64 \<Rightarrow> u64 \<Rightarrow> u64"
  so_sub :: "u64 \<Rightarrow> u64 \<Rightarrow> u64"
  so_mul :: "u64 \<Rightarrow> u64 \<Rightarrow> u64"
  so_div :: "u64 \<Rightarrow> u64 \<Rightarrow> u64"
  so_rem :: "u64 \<Rightarrow> u64 \<Rightarrow> u64"
  so_lower :: "bytes \<Rightarrow> bytes"
  so_upper :: "bytes \<Rightarrow> bytes"
  so_hex :: "bytes \<Rightarrow> bytes"

subsection \<open>Doubles\<close>

definition f64_exponent :: "u64 \<Rightarrow> nat" where
  "f64_exponent b = unat (drop_bit 52 b AND 0x7ff)"

definition f64_mantissa :: "u64 \<Rightarrow> nat" where
  "f64_mantissa b = unat (b AND 0xfffffffffffff)"

definition f64_negative :: "u64 \<Rightarrow> bool" where
  "f64_negative b \<longleftrightarrow> sint b < 0"

definition is_nan :: "u64 \<Rightarrow> bool" where
  "is_nan b \<longleftrightarrow> f64_exponent b = 2047 \<and> f64_mantissa b \<noteq> 0"

text \<open>The order of doubles that are not NaN is the order of these integers.\<close>

definition f64_rank :: "u64 \<Rightarrow> int" where
  "f64_rank b = (let m = int (unat (b AND 0x7fffffffffffffff)) in if f64_negative b then - m else m)"

definition cmp_int :: "int \<Rightarrow> int \<Rightarrow> int" where
  "cmp_int x y = (if x < y then - 1 else if x = y then 0 else 1)"

definition f64_partial_cmp :: "u64 \<Rightarrow> u64 \<Rightarrow> int option" where
  "f64_partial_cmp x y = (if is_nan x \<or> is_nan y then None else Some (cmp_int (f64_rank x) (f64_rank y)))"

definition f64_is_zero :: "u64 \<Rightarrow> bool" where
  "f64_is_zero b \<longleftrightarrow> f64_partial_cmp b 0 = Some 0"

definition f64_neg :: "u64 \<Rightarrow> u64" where
  "f64_neg b = b XOR 0x8000000000000000"

text \<open>\<open>f as i64\<close>: towards zero, saturating, zero for NaN.\<close>

definition f64_to_i64 :: "u64 \<Rightarrow> i64" where
  "f64_to_i64 b =
     (let e = f64_exponent b; m = f64_mantissa b + 2 ^ 52;
          mag = if e < 1023 then 0 else if e < 1075 then m div 2 ^ (1075 - e) else m * 2 ^ (e - 1075);
          v = if f64_negative b then - int mag else int mag
      in if is_nan b then 0 else word_of_int (max (- (2 ^ 63)) (min (2 ^ 63 - 1) v)))"

subsection \<open>Characters\<close>

definition is_cont_byte :: "u8 \<Rightarrow> bool" where
  "is_cont_byte b \<longleftrightarrow> 128 \<le> b \<and> b < 192"

function utf8_chars :: "bytes \<Rightarrow> bytes list" where
  "utf8_chars [] = []"
| "utf8_chars (b # bs) = (b # takeWhile is_cont_byte bs) # utf8_chars (dropWhile is_cont_byte bs)"
  by pat_completeness auto
termination
  by (relation "measure length") (auto simp: less_Suc_eq_le length_dropWhile_le)

definition is_whitespace :: "bytes \<Rightarrow> bool" where
  "is_whitespace c \<longleftrightarrow>
     c \<in> {[9], [10], [11], [12], [13], [32], [194, 133], [194, 160], [225, 154, 128], [226, 128, 168], [226, 128, 169],
         [226, 128, 175], [226, 129, 159], [227, 128, 128]} \<or>
     (\<exists>b \<in> set (drop 2 c). take 2 c = [226, 128] \<and> 128 \<le> b \<and> b \<le> 138)"

definition trim :: "bytes \<Rightarrow> bytes" where
  "trim s = concat (rev (dropWhile is_whitespace (rev (dropWhile is_whitespace (utf8_chars s)))))"

subsection \<open>Values\<close>

fun is_truthy :: "Value \<Rightarrow> bool" where
  "is_truthy (VBool b) = b"
| "is_truthy VNull = False"
| "is_truthy (VInt n) = (n \<noteq> 0)"
| "is_truthy (VFloat f) = (\<not> f64_is_zero f)"
| "is_truthy (VText s) = (s \<noteq> [])"
| "is_truthy (VFloatArray a) = (a \<noteq> [])"
| "is_truthy (VBytea b) = (b \<noteq> [])"

fun join_comma :: "bytes list \<Rightarrow> bytes" where
  "join_comma [] = []"
| "join_comma [x] = x"
| "join_comma (x # y # xs) = x @ [44] @ join_comma (y # xs)"

definition show_array :: "std_ops \<Rightarrow> u64 list \<Rightarrow> bytes" where
  "show_array so a = [123] @ join_comma (map (so_show_f64 so) a) @ [125]"

definition show_bytea :: "std_ops \<Rightarrow> bytes \<Rightarrow> bytes" where
  "show_bytea so b = [92, 120] @ so_hex so b"

fun to_wire_bytes :: "std_ops \<Rightarrow> Value \<Rightarrow> cell" where
  "to_wire_bytes so VNull = None"
| "to_wire_bytes so (VInt n) = Some (int_to_string (sint n))"
| "to_wire_bytes so (VFloat f) = Some (so_show_f64 so f)"
| "to_wire_bytes so (VText s) = Some s"
| "to_wire_bytes so (VBool b) = Some (if b then [116] else [102])"
| "to_wire_bytes so (VFloatArray a) = Some (show_array so a)"
| "to_wire_bytes so (VBytea b) = Some (show_bytea so b)"

text \<open>The value of a cell is guessed from its text.\<close>

definition from_bytes :: "std_ops \<Rightarrow> cell \<Rightarrow> Value" where
  "from_bytes so c =
     (case c of
        None \<Rightarrow> VNull
      | Some b \<Rightarrow>
          if \<not> valid_utf8 b then VText (from_utf8_lossy b)
          else (case parse_i64 b of
                  Some n \<Rightarrow> VInt (word_of_int n)
                | None \<Rightarrow>
                    (case so_parse_f64 so b of
                       Some f \<Rightarrow> VFloat f
                     | None \<Rightarrow> if b = [116] then VBool True else if b = [102] then VBool False else VText b)))"

fun value_as_f64 :: "Value \<Rightarrow> (eval_error, u64) result" where
  "value_as_f64 (VInt n) = Ok (f64_of_i64 n)"
| "value_as_f64 (VFloat f) = Ok f"
| "value_as_f64 v = Err (EvalError ''expected a numeric value'')"

fun val_to_text :: "std_ops \<Rightarrow> Value \<Rightarrow> bytes" where
  "val_to_text so (VInt n) = int_to_string (sint n)"
| "val_to_text so (VFloat f) = so_show_f64 so f"
| "val_to_text so (VText s) = s"
| "val_to_text so (VBool b) = ascii (if b then ''true'' else ''false'')"
| "val_to_text so VNull = []"
| "val_to_text so (VFloatArray a) = show_array so a"
| "val_to_text so (VBytea b) = show_bytea so b"

subsection \<open>Arithmetic\<close>

definition in_i64 :: "int \<Rightarrow> bool" where
  "in_i64 n \<longleftrightarrow> - (2 ^ 63) \<le> n \<and> n < 2 ^ 63"

definition checked :: "int \<Rightarrow> (eval_error, i64) result" where
  "checked n = (if in_i64 n then Ok (word_of_int n) else Err (EvalError ''integer overflow''))"

text \<open>Quotient and remainder of Rust, which panic when the quotient does not fit.\<close>

definition int_div :: "int \<Rightarrow> int \<Rightarrow> int" where
  "int_div a b = sgn a * sgn b * (\<bar>a\<bar> div \<bar>b\<bar>)"

definition i64_div :: "i64 \<Rightarrow> i64 \<Rightarrow> (eval_error, i64) result" where
  "i64_div a b =
     (if b = 0 then Err (EvalError ''division by zero'')
      else if in_i64 (int_div (sint a) (sint b)) then Ok (word_of_int (int_div (sint a) (sint b))) else Err Panicked)"

definition i64_rem :: "i64 \<Rightarrow> i64 \<Rightarrow> (eval_error, i64) result" where
  "i64_rem a b =
     (if b = 0 then Err (EvalError ''division by zero'')
      else if in_i64 (int_div (sint a) (sint b)) then Ok (word_of_int (sint a - sint b * int_div (sint a) (sint b)))
      else Err Panicked)"

definition int_arithmetic :: "BinOp \<Rightarrow> i64 \<Rightarrow> i64 \<Rightarrow> (eval_error, i64) result" where
  "int_arithmetic op a b =
     (case op of
        Add \<Rightarrow> checked (sint a + sint b)
      | Sub \<Rightarrow> checked (sint a - sint b)
      | Mul \<Rightarrow> checked (sint a * sint b)
      | Div \<Rightarrow> i64_div a b
      | Mod \<Rightarrow> i64_rem a b
      | _ \<Rightarrow> Err Panicked)"

fun coerce_float :: "std_ops \<Rightarrow> Value \<Rightarrow> (eval_error, u64) result" where
  "coerce_float so (VInt n) = Ok (f64_of_i64 n)"
| "coerce_float so (VFloat f) = Ok f"
| "coerce_float so (VText s) =
     (case so_parse_f64 so s of Some f \<Rightarrow> Ok f | None \<Rightarrow> Err (EvalError ''cannot cast text to float''))"
| "coerce_float so v = Err (EvalError ''cannot cast to float'')"

definition float_arithmetic :: "std_ops \<Rightarrow> BinOp \<Rightarrow> u64 \<Rightarrow> u64 \<Rightarrow> (eval_error, u64) result" where
  "float_arithmetic so op a b =
     (case op of
        Add \<Rightarrow> Ok (so_add so a b)
      | Sub \<Rightarrow> Ok (so_sub so a b)
      | Mul \<Rightarrow> Ok (so_mul so a b)
      | Div \<Rightarrow> if f64_is_zero b then Err (EvalError ''division by zero'') else Ok (so_div so a b)
      | Mod \<Rightarrow> Ok (so_rem so a b)
      | _ \<Rightarrow> Err Panicked)"

definition eval_arithmetic :: "std_ops \<Rightarrow> Value \<Rightarrow> Value \<Rightarrow> BinOp \<Rightarrow> (eval_error, Value) result" where
  "eval_arithmetic so l r op =
     (case (l, r) of
        (VInt a, VInt b) \<Rightarrow> and_then (int_arithmetic op a b) (\<lambda>n. Ok (VInt n))
      | _ \<Rightarrow>
          and_then (coerce_float so l) (\<lambda>a. and_then (coerce_float so r) (\<lambda>b.
          and_then (float_arithmetic so op a b) (\<lambda>f. Ok (VFloat f)))))"

subsection \<open>Comparison\<close>

definition parse_literal_int :: "bytes \<Rightarrow> (eval_error, i64) result" where
  "parse_literal_int s =
     (case parse_i64 (trim s) of Some n \<Rightarrow> Ok (word_of_int n) | None \<Rightarrow> Err (EvalError ''invalid input syntax for type integer''))"

definition parse_literal_float :: "std_ops \<Rightarrow> bytes \<Rightarrow> (eval_error, u64) result" where
  "parse_literal_float so s =
     (case so_parse_f64 so (trim s) of
        Some f \<Rightarrow> Ok f | None \<Rightarrow> Err (EvalError ''invalid input syntax for type double precision''))"

definition cmp_f64 :: "u64 \<Rightarrow> u64 \<Rightarrow> int" where
  "cmp_f64 x y = (case f64_partial_cmp x y of Some c \<Rightarrow> c | None \<Rightarrow> 0)"

definition cmp_text :: "bytes \<Rightarrow> bytes \<Rightarrow> int" where
  "cmp_text x y = (if x < y then - 1 else if x = y then 0 else 1)"

definition incompatible :: "(eval_error, int) result" where
  "incompatible = Err (EvalError ''incompatible types for comparison'')"

definition value_compare :: "std_ops \<Rightarrow> Value \<Rightarrow> Value \<Rightarrow> (eval_error, int) result" where
  "value_compare so a b =
     (if a = VNull \<and> b = VNull then Ok 0
      else if a = VNull \<or> b = VNull then Err (EvalError ''null comparison'')
      else case a of
          VInt x \<Rightarrow>
            (case b of
               VInt y \<Rightarrow> Ok (cmp_int (sint x) (sint y))
             | VFloat y \<Rightarrow> Ok (cmp_f64 (f64_of_i64 x) y)
             | VText y \<Rightarrow> and_then (parse_literal_int y) (\<lambda>n. Ok (cmp_int (sint x) (sint n)))
             | _ \<Rightarrow> incompatible)
        | VFloat x \<Rightarrow>
            (case b of
               VFloat y \<Rightarrow> Ok (cmp_f64 x y)
             | VInt y \<Rightarrow> Ok (cmp_f64 x (f64_of_i64 y))
             | VText y \<Rightarrow> and_then (parse_literal_float so y) (\<lambda>f. Ok (cmp_f64 x f))
             | _ \<Rightarrow> incompatible)
        | VText x \<Rightarrow>
            (case b of
               VInt y \<Rightarrow> and_then (parse_literal_int x) (\<lambda>n. Ok (cmp_int (sint n) (sint y)))
             | VFloat y \<Rightarrow> and_then (parse_literal_float so x) (\<lambda>f. Ok (cmp_f64 f y))
             | VText y \<Rightarrow> Ok (cmp_text x y)
             | _ \<Rightarrow> incompatible)
        | VBool x \<Rightarrow> (case b of VBool y \<Rightarrow> Ok (cmp_int (of_bool x) (of_bool y)) | _ \<Rightarrow> incompatible)
        | _ \<Rightarrow> incompatible)"

definition compares_equal :: "std_ops \<Rightarrow> Value \<Rightarrow> Value \<Rightarrow> bool" where
  "compares_equal so a b \<longleftrightarrow> value_compare so a b = Ok 0"

definition compare_op :: "std_ops \<Rightarrow> Value \<Rightarrow> Value \<Rightarrow> (int \<Rightarrow> bool) \<Rightarrow> (eval_error, Value) result" where
  "compare_op so l r pred =
     (if l = VNull \<or> r = VNull then Ok (VBool False)
      else and_then (value_compare so l r) (\<lambda>c. Ok (VBool (pred c))))"

subsection \<open>Casts\<close>

definition type_in :: "bytes \<Rightarrow> string list \<Rightarrow> bool" where
  "type_in ty names \<longleftrightarrow> ty \<in> set (map ascii names)"

definition cast_int :: "Value \<Rightarrow> (eval_error, Value) result" where
  "cast_int v =
     (case v of
        VInt n \<Rightarrow> Ok (VInt n)
      | VFloat f \<Rightarrow> Ok (VInt (f64_to_i64 f))
      | VText s \<Rightarrow> (case parse_i64 (trim s) of Some n \<Rightarrow> Ok (VInt (word_of_int n)) | None \<Rightarrow> Err (EvalError ''invalid digit''))
      | VBool b \<Rightarrow> Ok (VInt (if b then 1 else 0))
      | VNull \<Rightarrow> Ok VNull
      | _ \<Rightarrow> Err (EvalError ''cannot cast to int''))"

definition cast_float :: "std_ops \<Rightarrow> Value \<Rightarrow> (eval_error, Value) result" where
  "cast_float so v =
     (case v of
        VFloat f \<Rightarrow> Ok (VFloat f)
      | VInt n \<Rightarrow> Ok (VFloat (f64_of_i64 n))
      | VText s \<Rightarrow> (case so_parse_f64 so (trim s) of Some f \<Rightarrow> Ok (VFloat f) | None \<Rightarrow> Err (EvalError ''invalid float literal''))
      | VNull \<Rightarrow> Ok VNull
      | _ \<Rightarrow> Err (EvalError ''cannot cast to float''))"

definition cast_bool :: "std_ops \<Rightarrow> Value \<Rightarrow> (eval_error, Value) result" where
  "cast_bool so v =
     (case v of
        VBool b \<Rightarrow> Ok (VBool b)
      | VInt n \<Rightarrow> Ok (VBool (n \<noteq> 0))
      | VText s \<Rightarrow> Ok (VBool (type_in (so_lower so s) [''t'', ''true'', ''yes'', ''on'', ''1'']))
      | VNull \<Rightarrow> Ok VNull
      | _ \<Rightarrow> Err (EvalError ''cannot cast to bool''))"

definition cast_value :: "std_ops \<Rightarrow> Value \<Rightarrow> bytes \<Rightarrow> (eval_error, Value) result" where
  "cast_value so v ty =
     (let t = so_lower so ty in
      if type_in t [''int'', ''int4'', ''int8'', ''integer'', ''bigint''] then cast_int v
      else if type_in t [''float'', ''float8'', ''real'', ''double'', ''double precision'', ''numeric''] then cast_float so v
      else if type_in t [''text'', ''varchar'', ''char''] then Ok (VText (val_to_text so v))
      else if type_in t [''bool'', ''boolean''] then cast_bool so v
      else if type_in t [''regclass'', ''regproc'', ''regtype''] then Ok (VText (val_to_text so v))
      else Err (EvalError ''unknown cast target type''))"

subsection \<open>LIKE\<close>

function like_recursive :: "bytes list \<Rightarrow> bytes list \<Rightarrow> nat \<Rightarrow> nat \<Rightarrow> bool" where
  "like_recursive s p si pi =
     (if length p \<le> pi then si = length s
      else if p ! pi = [37] then list_ex (\<lambda>i. like_recursive s p i (Suc pi)) [si..<Suc (length s)]
      else if si < length s \<and> (p ! pi = [95] \<or> s ! si = p ! pi) then like_recursive s p (Suc si) (Suc pi)
      else False)"
  by pat_completeness auto
termination
  by (relation "measure (\<lambda>(s, p, si, pi). length p - pi)") auto

declare like_recursive.simps [simp del]

definition like_match :: "bytes \<Rightarrow> bytes \<Rightarrow> bool" where
  "like_match s pattern = like_recursive (utf8_chars s) (utf8_chars pattern) 0 0"

subsection \<open>Intervals\<close>

definition trim_end_s :: "bytes \<Rightarrow> bytes" where
  "trim_end_s u = rev (dropWhile (\<lambda>b. b = 115) (rev u))"

definition ascii_lower :: "bytes \<Rightarrow> bytes" where
  "ascii_lower u = map (\<lambda>b. if 65 \<le> b \<and> b \<le> 90 then b + 32 else b) u"

definition unit_ms :: "bytes \<Rightarrow> int option" where
  "unit_ms u =
     map_of (map (\<lambda>(n, ms). (ascii n, ms))
       [(''ms'', 1), (''millisecond'', 1), (''s'', 1000), (''sec'', 1000), (''second'', 1000), (''m'', 60000), (''min'', 60000),
        (''minute'', 60000), (''h'', 3600000), (''hr'', 3600000), (''hour'', 3600000), (''d'', 86400000), (''day'', 86400000),
        (''w'', 604800000), (''week'', 604800000), (''mon'', 2592000000), (''month'', 2592000000)]) u"

definition parse_interval :: "bytes \<Rightarrow> i64 option" where
  "parse_interval s =
     (let s = trim s; num = takeWhile is_digit s; unit = dropWhile is_digit s in
      if unit = [] then None
      else case parse_i64 (trim num) of
          None \<Rightarrow> None
        | Some n \<Rightarrow> map_option (\<lambda>ms. word_of_int (n * ms)) (unit_ms (ascii_lower (trim_end_s (trim unit)))))"

end
