(* ===== verification/JsonOps.thy ===== *)
theory JsonOps
  imports Values Jsonb
begin

text \<open>
  The JSON operators and functions of executor/eval.rs on documents.  The parser and the printer of
  JSON texts are those of a library, arguments here.
\<close>

record json_ops =
  jo_parse :: "bytes \<Rightarrow> json option"
  jo_show :: "json \<Rightarrow> bytes"

definition json_of :: "json_ops \<Rightarrow> Value \<Rightarrow> (eval_error, json) result" where
  "json_of jo v =
     (case v of
        VText s \<Rightarrow> (case jo_parse jo s of Some j \<Rightarrow> Ok j | None \<Rightarrow> Err (EvalError ''invalid JSON''))
      | VNull \<Rightarrow> Ok JNull
      | _ \<Rightarrow> Err (EvalError ''expected JSON (text)''))"

definition json_to_value :: "json_ops \<Rightarrow> json \<Rightarrow> bool \<Rightarrow> Value" where
  "json_to_value jo j as_text =
     (case j of
        JNull \<Rightarrow> VNull
      | JString s \<Rightarrow> if as_text then VText s else VText (jo_show jo j)
      | _ \<Rightarrow> VText (jo_show jo j))"

definition json_f64 :: "u64 \<Rightarrow> json" where
  "json_f64 f = (if f64_finite f then JNumber (JFloat f) else JNull)"

fun value_to_json :: "std_ops \<Rightarrow> Value \<Rightarrow> json" where
  "value_to_json so VNull = JNull"
| "value_to_json so (VBool b) = JBool b"
| "value_to_json so (VInt n) = JNumber (number_from_i64 n)"
| "value_to_json so (VFloat f) = json_f64 f"
| "value_to_json so (VText s) = JString s"
| "value_to_json so (VFloatArray a) = JArray (map json_f64 a)"
| "value_to_json so (VBytea b) = JString (show_bytea so b)"

subsection \<open>Paths\<close>

text \<open>\<open>str::parse\<close> for \<open>usize\<close>.\<close>

definition parse_usize :: "bytes \<Rightarrow> nat option" where
  "parse_usize s =
     (let digits = (case s of [] \<Rightarrow> [] | b # bs \<Rightarrow> if b = 43 then bs else s) in
      case parse_digits digits of Some n \<Rightarrow> if n < 2 ^ 64 then Some n else None | None \<Rightarrow> None)"

definition nth_opt :: "'a list \<Rightarrow> nat \<Rightarrow> 'a option" where
  "nth_opt xs i = (if i < length xs then Some (xs ! i) else None)"

fun split_on :: "u8 \<Rightarrow> bytes \<Rightarrow> bytes list" where
  "split_on c [] = [[]]"
| "split_on c (b # bs) = (if b = c then [] # split_on c bs else (case split_on c bs of x # xs \<Rightarrow> (b # x) # xs | [] \<Rightarrow> [[b]]))"

definition parse_path_literal :: "bytes \<Rightarrow> bytes list" where
  "parse_path_literal s =
     (let s = trim s;
          inner = if s \<noteq> [] \<and> hd s = 123 \<and> tl s \<noteq> [] \<and> last (tl s) = 125 then butlast (tl s) else s
      in if inner = [] then [] else map trim (split_on 44 inner))"

definition json_child :: "json \<Rightarrow> bytes \<Rightarrow> json option" where
  "json_child j seg =
     (case j of
        JObject m \<Rightarrow> map_of m seg
      | JArray a \<Rightarrow> (case parse_usize seg of Some i \<Rightarrow> nth_opt a i | None \<Rightarrow> None)
      | _ \<Rightarrow> None)"

definition json_at_path :: "json \<Rightarrow> bytes list \<Rightarrow> json" where
  "json_at_path j path = foldl (\<lambda>cur seg. case json_child cur seg of Some c \<Rightarrow> c | None \<Rightarrow> JNull) j path"

definition json_arrow :: "json_ops \<Rightarrow> Value \<Rightarrow> Value \<Rightarrow> bool \<Rightarrow> (eval_error, Value) result" where
  "json_arrow jo l r as_text =
     and_then (json_of jo l) (\<lambda>doc.
     and_then (case r of
         VText key \<Rightarrow> Ok (case doc of JObject m \<Rightarrow> map_of m key | _ \<Rightarrow> None)
       | VInt idx \<Rightarrow> Ok (case doc of JArray a \<Rightarrow> nth_opt a (unat idx) | _ \<Rightarrow> None)
       | _ \<Rightarrow> Err (EvalError ''invalid JSON key/index''))
       (\<lambda>sub. Ok (case sub of Some j \<Rightarrow> json_to_value jo j as_text | None \<Rightarrow> VNull)))"

definition json_path_arrow :: "json_ops \<Rightarrow> Value \<Rightarrow> Value \<Rightarrow> bool \<Rightarrow> (eval_error, Value) result" where
  "json_path_arrow jo l r as_text =
     and_then (json_of jo l) (\<lambda>doc.
       case r of
         VText s \<Rightarrow> Ok (json_to_value jo (json_at_path doc (parse_path_literal s)) as_text)
       | _ \<Rightarrow> Err (EvalError ''expected a path literal''))"

subsection \<open>Containment\<close>

text \<open>\<open>==\<close> on documents that are not both objects or both arrays; doubles compare as doubles.\<close>

definition json_eq_scalar :: "json \<Rightarrow> json \<Rightarrow> bool" where
  "json_eq_scalar a b \<longleftrightarrow>
     (case (a, b) of
        (JNumber (JFloat x), JNumber (JFloat y)) \<Rightarrow> f64_partial_cmp x y = Some 0
      | _ \<Rightarrow> a = b)"

fun json_contains :: "json \<Rightarrow> json \<Rightarrow> bool" where
  "json_contains (JObject a) (JObject b) =
     list_all (\<lambda>(k, bv). case map_of a k of Some av \<Rightarrow> json_contains av bv | None \<Rightarrow> False) b"
| "json_contains (JArray a) (JArray b) = list_all (\<lambda>bv. list_ex (\<lambda>av. json_contains av bv) a) b"
| "json_contains a b = json_eq_scalar a b"

subsection \<open>Setting a path\<close>

fun json_set_path :: "json \<Rightarrow> bytes list \<Rightarrow> json \<Rightarrow> bool \<Rightarrow> json" where
  "json_set_path doc [] new create = new"
| "json_set_path doc (seg # rest) new create =
     (case doc of
        JObject m \<Rightarrow>
          if rest = [] then (if create \<or> map_of m seg \<noteq> None then JObject (om_insert seg new m) else doc)
          else (case map_of m seg of
                  Some sub \<Rightarrow> JObject (om_insert seg (json_set_path sub rest new create) m)
                | None \<Rightarrow> if create then JObject (om_insert seg (json_set_path (JObject []) rest new create) m) else doc)
      | JArray a \<Rightarrow>
          (case parse_usize seg of
             None \<Rightarrow> doc
           | Some i \<Rightarrow>
               if rest = [] then (if i < length a then JArray (a[i := new]) else if create then JArray (a @ [new]) else doc)
               else if i < length a then JArray (a[i := json_set_path (a ! i) rest new create]) else doc)
      | _ \<Rightarrow> doc)"

end
