(* ===== verification/Eval.thy ===== *)
theory Eval
  imports JsonOps
begin

text \<open>
  The expression evaluator of executor/eval.rs.  Evaluation may change the database, through sequences
  and subqueries, so it is a computation on its state.  Running a subquery, the sequences, regular expressions,
  transcendental functions on doubles, and the spatial, vector, catalog and user-defined functions are
  arguments.  The pre-computed aggregates of a row are looked up by expression.
\<close>

type_synonym ('d, 'a) comp = "'d \<Rightarrow> (eval_error, 'a) result \<times> 'd"

definition cret :: "'a \<Rightarrow> ('d, 'a) comp" where
  "cret x d = (Ok x, d)"

definition clift :: "(eval_error, 'a) result \<Rightarrow> ('d, 'a) comp" where
  "clift r d = (r, d)"

definition cfail :: "string \<Rightarrow> ('d, 'a) comp" where
  "cfail msg d = (Err (EvalError msg), d)"

definition cbind :: "('d, 'a) comp \<Rightarrow> ('a \<Rightarrow> ('d, 'b) comp) \<Rightarrow> ('d, 'b) comp" where
  "cbind c f d = (case c d of (Inl e, d) \<Rightarrow> (Err e, d) | (Inr x, d) \<Rightarrow> f x d)"

record OuterRow =
  or_schema :: "TableSchema option"
  or_values :: "cell list"
  or_scopes :: "(bytes \<times> nat \<times> nat) list"

record RowContext =
  rc_values :: "cell list"
  rc_schema :: "TableSchema option"
  rc_has_db :: bool
  rc_outer :: "OuterRow list"
  rc_params :: "Value list"
  rc_computed :: "Expr \<Rightarrow> Value option"
  rc_scopes :: "(bytes \<times> nat \<times> nat) list"

record 'd eval_env =
  ev_std :: std_ops
  ev_json :: json_ops
  ev_regex :: "bytes \<Rightarrow> bytes \<Rightarrow> bool \<Rightarrow> bool option"
  ev_subquery :: "OuterRow list \<Rightarrow> Value list \<Rightarrow> SelectStmt \<Rightarrow> ('d, cell list list) comp"
  ev_nextval :: "bytes \<Rightarrow> ('d, i64) comp"
  ev_currval :: "bytes \<Rightarrow> ('d, i64) comp"
  ev_setval :: "bytes \<Rightarrow> i64 \<Rightarrow> bool \<Rightarrow> ('d, i64) comp"
  ev_math :: "bytes \<Rightarrow> u64 list \<Rightarrow> u64"
  ev_other :: "RowContext \<Rightarrow> bytes \<Rightarrow> ('d, Value) comp list \<Rightarrow> ('d, Value) comp"

subsection \<open>Columns\<close>

fun find_index :: "('a \<Rightarrow> bool) \<Rightarrow> 'a list \<Rightarrow> nat option" where
  "find_index P [] = None"
| "find_index P (x # xs) = (if P x then Some 0 else map_option Suc (find_index P xs))"

definition cell_at :: "std_ops \<Rightarrow> cell list \<Rightarrow> nat \<Rightarrow> Value" where
  "cell_at so cells i = from_bytes so (case nth_opt cells i of Some c \<Rightarrow> c | None \<Rightarrow> None)"

definition lookup_in_range ::
  "std_ops \<Rightarrow> TableSchema option \<Rightarrow> cell list \<Rightarrow> nat \<times> nat \<Rightarrow> bytes \<Rightarrow> Value option" where
  "lookup_in_range so schema cells rng name =
     (case (schema, rng) of
        (Some sch, first, limit) \<Rightarrow>
          if limit \<le> length (sch_columns sch) \<and> first \<le> limit then
            map_option (\<lambda>i. cell_at so cells (first + i))
              (find_index (\<lambda>c. cd_name c = name) (slice (sch_columns sch) first limit))
          else None
      | (None, _) \<Rightarrow> None)"

definition column_by_name :: "std_ops \<Rightarrow> TableSchema option \<Rightarrow> cell list \<Rightarrow> bytes \<Rightarrow> Value option" where
  "column_by_name so schema cells name =
     Option.bind schema (\<lambda>sch. map_option (cell_at so cells) (find_index (\<lambda>c. cd_name c = name) (sch_columns sch)))"

fun first_some :: "('a \<Rightarrow> 'b option) \<Rightarrow> 'a list \<Rightarrow> 'b option" where
  "first_some f [] = None"
| "first_some f (x # xs) = (case f x of Some y \<Rightarrow> Some y | None \<Rightarrow> first_some f xs)"

definition in_scope ::
  "std_ops \<Rightarrow> bytes \<Rightarrow> bytes \<Rightarrow> TableSchema option \<times> cell list \<times> (bytes \<times> nat \<times> nat) list \<Rightarrow> Value option" where
  "in_scope so q name = (\<lambda>(schema, cells, scopes).
     Option.bind (map_of scopes q) (\<lambda>rng. lookup_in_range so schema cells rng name))"

definition row_parts :: "OuterRow \<Rightarrow> TableSchema option \<times> cell list \<times> (bytes \<times> nat \<times> nat) list" where
  "row_parts r = (or_schema r, or_values r, or_scopes r)"

definition resolve_column :: "std_ops \<Rightarrow> RowContext \<Rightarrow> bytes option \<Rightarrow> bytes \<Rightarrow> (eval_error, Value) result" where
  "resolve_column so cx qualifier name =
     (let rows = (rc_schema cx, rc_values cx, rc_scopes cx) # map row_parts (rev (rc_outer cx));
          scoped = Option.bind qualifier (\<lambda>q. first_some (in_scope so q name) rows)
      in case scoped of
           Some v \<Rightarrow> Ok v
         | None \<Rightarrow>
             (case first_some (\<lambda>(schema, cells, _). column_by_name so schema cells name) rows of
                Some v \<Rightarrow> Ok v
              | None \<Rightarrow> Err (EvalError ''column does not exist'')))"

definition as_outer_row :: "RowContext \<Rightarrow> OuterRow" where
  "as_outer_row cx = \<lparr>or_schema = rc_schema cx, or_values = rc_values cx, or_scopes = rc_scopes cx\<rparr>"

definition run_subquery_rows :: "'d eval_env \<Rightarrow> RowContext \<Rightarrow> SelectStmt \<Rightarrow> ('d, cell list list) comp" where
  "run_subquery_rows ev cx q =
     (if rc_has_db cx then ev_subquery ev (rc_outer cx @ [as_outer_row cx]) (rc_params cx) q
      else cfail ''subqueries require a database context'')"

subsection \<open>Operators\<close>

fun literal_value :: "Literal \<Rightarrow> Value" where
  "literal_value (LInt n) = VInt n"
| "literal_value (LFloat f) = VFloat f"
| "literal_value (LText s) = VText s"
| "literal_value (LBool b) = VBool b"
| "literal_value LNull = VNull"
| "literal_value (LFloatArray a) = VFloatArray a"

definition param_value :: "RowContext \<Rightarrow> u32 \<Rightarrow> (eval_error, Value) result" where
  "param_value cx n =
     (if n = 0 then Err (EvalError ''invalid parameter'')
      else case nth_opt (rc_params cx) (unat n - 1) of Some v \<Rightarrow> Ok v | None \<Rightarrow> Err (EvalError ''parameter not bound''))"

definition unary_value :: "UnOp \<Rightarrow> Value \<Rightarrow> (eval_error, Value) result" where
  "unary_value op v =
     (case op of
        Neg \<Rightarrow> (case v of VInt n \<Rightarrow> Ok (VInt (- n)) | VFloat f \<Rightarrow> Ok (VFloat (f64_neg f)) | _ \<Rightarrow> Err (EvalError ''cannot negate''))
      | NotOp \<Rightarrow> Ok (VBool (\<not> is_truthy v)))"

definition regex_value :: "'d eval_env \<Rightarrow> bool \<Rightarrow> bool \<Rightarrow> Value \<Rightarrow> Value \<Rightarrow> (eval_error, Value) result" where
  "regex_value ev ci negated l r =
     (if l = VNull \<or> r = VNull then Ok VNull
      else case ev_regex ev (val_to_text (ev_std ev) l) (val_to_text (ev_std ev) r) ci of
          Some m \<Rightarrow> Ok (VBool (m \<noteq> negated)) | None \<Rightarrow> Err (EvalError ''invalid regular expression''))"

text \<open>The operators that evaluate both operands.\<close>

definition binary_value :: "'d eval_env \<Rightarrow> BinOp \<Rightarrow> Value \<Rightarrow> Value \<Rightarrow> (eval_error, Value) result" where
  "binary_value ev op l r =
     (let so = ev_std ev; jo = ev_json ev in
      case op of
        Concat \<Rightarrow> Ok (VText (val_to_text so l @ val_to_text so r))
      | Eq \<Rightarrow> compare_op so l r (\<lambda>c. c = 0)
      | NotEq \<Rightarrow> compare_op so l r (\<lambda>c. c \<noteq> 0)
      | Lt \<Rightarrow> compare_op so l r (\<lambda>c. c < 0)
      | Lte \<Rightarrow> compare_op so l r (\<lambda>c. c \<le> 0)
      | Gt \<Rightarrow> compare_op so l r (\<lambda>c. c > 0)
      | Gte \<Rightarrow> compare_op so l r (\<lambda>c. c \<ge> 0)
      | Arrow \<Rightarrow> json_arrow jo l r False
      | LongArrow \<Rightarrow> json_arrow jo l r True
      | HashArrow \<Rightarrow> json_path_arrow jo l r False
      | HashLongArrow \<Rightarrow> json_path_arrow jo l r True
      | Contains \<Rightarrow> and_then (json_of jo l) (\<lambda>a. and_then (json_of jo r) (\<lambda>b. Ok (VBool (json_contains a b))))
      | RegexMatch \<Rightarrow> regex_value ev False False l r
      | RegexNotMatch \<Rightarrow> regex_value ev False True l r
      | RegexMatchCI \<Rightarrow> regex_value ev True False l r
      | RegexNotMatchCI \<Rightarrow> regex_value ev True True l r
      | _ \<Rightarrow> eval_arithmetic so l r op)"

definition between_value :: "std_ops \<Rightarrow> bool \<Rightarrow> Value \<Rightarrow> Value \<Rightarrow> Value \<Rightarrow> (eval_error, Value) result" where
  "between_value so negated v lo hi =
     and_then (value_compare so v lo) (\<lambda>c.
     and_then (if c \<ge> 0 then and_then (value_compare so v hi) (\<lambda>c. Ok (c \<le> 0)) else Ok False) (\<lambda>in_range.
     Ok (VBool (in_range \<noteq> negated))))"

definition like_value :: "bool \<Rightarrow> Value \<Rightarrow> Value \<Rightarrow> (eval_error, Value) result" where
  "like_value negated v p =
     (case (v, p) of
        (VText s, VText pat) \<Rightarrow> Ok (VBool (like_match s pat \<noteq> negated))
      | _ \<Rightarrow> Err (EvalError ''LIKE requires text operands''))"

text \<open>The items of a list up to the first that equals the value.\<close>

fun any_equal :: "std_ops \<Rightarrow> Value \<Rightarrow> ('d, Value) comp list \<Rightarrow> ('d, bool) comp" where
  "any_equal so v [] = cret False"
| "any_equal so v (c # cs) = cbind c (\<lambda>w. if compares_equal so v w then cret True else any_equal so v cs)"

definition row_equal :: "std_ops \<Rightarrow> Value \<Rightarrow> cell list \<Rightarrow> bool" where
  "row_equal so v row \<longleftrightarrow> (case row of [] \<Rightarrow> False | c # _ \<Rightarrow> compares_equal so v (from_bytes so c))"

fun eval_case :: "std_ops \<Rightarrow> Value option \<Rightarrow> (('d, Value) comp \<times> ('d, Value) comp) list \<Rightarrow> ('d, Value) comp \<Rightarrow> ('d, Value) comp" where
  "eval_case so base [] e = e"
| "eval_case so base ((c, r) # bs) e =
     cbind c (\<lambda>v. if (case base of Some b \<Rightarrow> compares_equal so b v | None \<Rightarrow> is_truthy v) then r else eval_case so base bs e)"

subsection \<open>Functions\<close>

definition is_aggregate_name :: "std_ops \<Rightarrow> bytes \<Rightarrow> bool" where
  "is_aggregate_name so name \<longleftrightarrow> type_in (so_lower so name) [''count'', ''sum'', ''avg'', ''min'', ''max'']"

fun all_args :: "('d, Value) comp list \<Rightarrow> ('d, Value list) comp" where
  "all_args [] = cret []"
| "all_args (c # cs) = cbind c (\<lambda>v. cbind (all_args cs) (\<lambda>vs. cret (v # vs)))"

definition first_arg :: "('d, Value) comp list \<Rightarrow> (Value \<Rightarrow> ('d, 'a) comp) \<Rightarrow> ('d, 'a) comp" where
  "first_arg args f = (case args of [] \<Rightarrow> cfail ''requires an argument'' | c # _ \<Rightarrow> cbind c f)"

definition two_args :: "('d, Value) comp list \<Rightarrow> (Value \<Rightarrow> Value \<Rightarrow> ('d, 'a) comp) \<Rightarrow> ('d, 'a) comp" where
  "two_args args f =
     (case args of [a, b] \<Rightarrow> cbind a (\<lambda>v. cbind b (f v)) | _ \<Rightarrow> cfail ''requires 2 arguments'')"

fun coalesce :: "('d, Value) comp list \<Rightarrow> ('d, Value) comp" where
  "coalesce [] = cret VNull"
| "coalesce (c # cs) = cbind c (\<lambda>v. if v \<noteq> VNull then cret v else coalesce cs)"

definition better :: "std_ops \<Rightarrow> (int \<Rightarrow> bool) \<Rightarrow> Value option \<Rightarrow> Value \<Rightarrow> Value option" where
  "better so pred best v =
     (case best of
        None \<Rightarrow> Some v
      | Some b \<Rightarrow> (case value_compare so v b of Inr c \<Rightarrow> if pred c then Some v else Some b | Inl _ \<Rightarrow> Some b))"

fun extreme :: "std_ops \<Rightarrow> (int \<Rightarrow> bool) \<Rightarrow> Value option \<Rightarrow> ('d, Value) comp list \<Rightarrow> ('d, Value) comp" where
  "extreme so pred best [] = cret (case best of Some v \<Rightarrow> v | None \<Rightarrow> VNull)"
| "extreme so pred best (c # cs) =
     cbind c (\<lambda>v. extreme so pred (if v = VNull then best else better so pred best v) cs)"

definition sequence_name :: "('d, Value) comp list \<Rightarrow> ('d, bytes) comp" where
  "sequence_name args =
     first_arg args (\<lambda>v. case v of VText s \<Rightarrow> cret s | _ \<Rightarrow> cfail ''requires a text sequence name'')"

definition call_setval :: "'d eval_env \<Rightarrow> ('d, Value) comp list \<Rightarrow> ('d, Value) comp" where
  "call_setval ev args =
     (if length args < 2 \<or> 3 < length args then cfail ''setval() requires 2 or 3 arguments''
      else cbind (sequence_name args) (\<lambda>name. cbind (args ! 1) (\<lambda>v.
        case v of
          VInt n \<Rightarrow>
            cbind (case drop 2 args of c # _ \<Rightarrow> cbind c (\<lambda>b. cret (is_truthy b)) | [] \<Rightarrow> cret True) (\<lambda>is_called.
            cbind (ev_setval ev name n is_called) (\<lambda>r. cret (VInt r)))
        | _ \<Rightarrow> cfail ''setval() requires an integer value'')))"

definition f64_sign :: "u64 \<Rightarrow> u64" where
  "f64_sign f =
     (case f64_partial_cmp f 0 of
        Some c \<Rightarrow> if c > 0 then f64_of_i64 1 else if c < 0 then f64_of_i64 (- 1) else 0
      | None \<Rightarrow> 0)"

definition call_round :: "'d eval_env \<Rightarrow> bytes \<Rightarrow> ('d, Value) comp list \<Rightarrow> ('d, Value) comp" where
  "call_round ev norm args =
     first_arg args (\<lambda>v. case v of
         VNull \<Rightarrow> cret VNull
       | VInt n \<Rightarrow> cret (VInt (if norm = ascii ''sign'' then word_of_int (sgn (sint n)) else n))
       | VFloat f \<Rightarrow>
           if norm = ascii ''sign'' then cret (VFloat (f64_sign f))
           else if norm = ascii ''round'' then
             cbind (case drop 1 args of c # _ \<Rightarrow> cbind c (\<lambda>p. clift (and_then (value_as_f64 p) (\<lambda>p. Ok [f, p]))) | [] \<Rightarrow> cret [f])
               (\<lambda>xs. cret (VFloat (ev_math ev norm xs)))
           else cret (VFloat (ev_math ev norm [f]))
       | _ \<Rightarrow> cfail ''requires a numeric argument'')"

definition call_sqrt :: "'d eval_env \<Rightarrow> ('d, Value) comp list \<Rightarrow> ('d, Value) comp" where
  "call_sqrt ev args =
     first_arg args (\<lambda>v. cbind (clift (value_as_f64 v)) (\<lambda>f.
       if f64_partial_cmp f 0 = Some (- 1) then cfail ''cannot take square root of a negative number''
       else cret (VFloat (ev_math ev (ascii ''sqrt'') [f]))))"

definition call_mod :: "'d eval_env \<Rightarrow> Value \<Rightarrow> Value \<Rightarrow> (eval_error, Value) result" where
  "call_mod ev v w =
     (case (v, w) of
        (VInt a, VInt b) \<Rightarrow> and_then (i64_rem a b) (\<lambda>n. Ok (VInt n))
      | _ \<Rightarrow>
          and_then (value_as_f64 v) (\<lambda>a. and_then (value_as_f64 w) (\<lambda>b.
            if f64_is_zero b then Err (EvalError ''division by zero'') else Ok (VFloat (so_rem (ev_std ev) a b)))))"

definition abs_value :: "Value \<Rightarrow> (eval_error, Value) result" where
  "abs_value v =
     (case v of
        VInt n \<Rightarrow> Ok (VInt (if sint n < 0 then - n else n))
      | VFloat f \<Rightarrow> Ok (VFloat (f AND 0x7fffffffffffffff))
      | _ \<Rightarrow> Err (EvalError ''abs() requires numeric argument''))"

definition text_value :: "(bytes \<Rightarrow> Value) \<Rightarrow> Value \<Rightarrow> (eval_error, Value) result" where
  "text_value f v = (case v of VText s \<Rightarrow> Ok (f s) | _ \<Rightarrow> Err (EvalError ''requires text argument''))"

text \<open>\<open>ts.div_euclid(interval) * interval\<close>.\<close>

definition bucket :: "i64 \<Rightarrow> i64 \<Rightarrow> (eval_error, i64) result" where
  "bucket interval ts =
     (let i = sint interval; q = if 0 < i then sint ts div i else - (sint ts div - i) in
      if i = 0 \<or> \<not> in_i64 q then Err Panicked else Ok (word_of_int q * interval))"

definition call_time_bucket :: "Value \<Rightarrow> (eval_error, i64) result" where
  "call_time_bucket v =
     (case v of
        VText s \<Rightarrow> (case parse_interval s of Some i \<Rightarrow> Ok i | None \<Rightarrow> Err (EvalError ''invalid interval literal''))
      | _ \<Rightarrow> Err (EvalError ''expected an interval string literal''))"

definition timestamp_arg :: "Value \<Rightarrow> (eval_error, i64) result" where
  "timestamp_arg v =
     (case v of VInt n \<Rightarrow> Ok n | VFloat f \<Rightarrow> Ok (f64_to_i64 f) | _ \<Rightarrow> Err (EvalError ''expected a timestamp''))"

subsection \<open>JSON functions\<close>

fun json_typeof :: "json \<Rightarrow> bytes" where
  "json_typeof JNull = ascii ''null''"
| "json_typeof (JBool _) = ascii ''boolean''"
| "json_typeof (JNumber _) = ascii ''number''"
| "json_typeof (JString _) = ascii ''string''"
| "json_typeof (JArray _) = ascii ''array''"
| "json_typeof (JObject _) = ascii ''object''"

fun path_args :: "('d, Value) comp list \<Rightarrow> ('d, bytes list) comp" where
  "path_args [] = cret []"
| "path_args (c # cs) =
     cbind c (\<lambda>v. case v of VText s \<Rightarrow> cbind (path_args cs) (\<lambda>p. cret (s # p)) | _ \<Rightarrow> cfail ''expected a text path segment'')"

fun object_args :: "std_ops \<Rightarrow> (bytes \<times> json) list \<Rightarrow> ('d, Value) comp list \<Rightarrow> ('d, (bytes \<times> json) list) comp" where
  "object_args so m (k # c # cs) =
     cbind k (\<lambda>v. case v of
         VText s \<Rightarrow> cbind c (\<lambda>w. object_args so (om_insert s (value_to_json so w) m) cs)
       | _ \<Rightarrow> cfail ''expected a text key'')"
| "object_args so m _ = cret m"

definition call_jsonb_set :: "'d eval_env \<Rightarrow> ('d, Value) comp list \<Rightarrow> ('d, Value) comp" where
  "call_jsonb_set ev args =
     (let jo = ev_json ev in
      if length args < 3 \<or> 4 < length args then cfail ''jsonb_set() requires 3 or 4 arguments''
      else
        cbind (args ! 0) (\<lambda>v. cbind (clift (json_of jo v)) (\<lambda>doc.
        cbind (args ! 1) (\<lambda>p. case p of
            VText path \<Rightarrow>
              cbind (args ! 2) (\<lambda>w. cbind (clift (json_of jo w)) (\<lambda>new.
              cbind (case drop 3 args of c # _ \<Rightarrow> cbind c (\<lambda>b. cret (is_truthy b)) | [] \<Rightarrow> cret True) (\<lambda>create.
              cret (VText (jo_show jo (json_set_path doc (parse_path_literal path) new create))))))
          | _ \<Rightarrow> cfail ''expected a path literal''))))"

definition json_call :: "'d eval_env \<Rightarrow> bytes \<Rightarrow> ('d, Value) comp list \<Rightarrow> ('d, Value) comp option" where
  "json_call ev norm args =
     (let so = ev_std ev; jo = ev_json ev; doc = (\<lambda>v. clift (json_of jo v)) in
      if type_in norm [''json_typeof'', ''jsonb_typeof''] then
        Some (first_arg args (\<lambda>v. cbind (doc v) (\<lambda>j. cret (VText (json_typeof j)))))
      else if type_in norm [''json_valid'', ''jsonb_valid''] then
        Some (first_arg args (\<lambda>v. cret (VBool (case v of VText s \<Rightarrow> jo_parse jo s \<noteq> None | VNull \<Rightarrow> True | _ \<Rightarrow> False))))
      else if type_in norm [''json_array_length'', ''jsonb_array_length''] then
        Some (first_arg args (\<lambda>v. cbind (doc v) (\<lambda>j.
          case j of JArray a \<Rightarrow> cret (VInt (word_of_nat (length a))) | _ \<Rightarrow> cfail ''requires a JSON array'')))
      else if type_in norm [''json_extract_path'', ''jsonb_extract_path'', ''json_extract_path_text'', ''jsonb_extract_path_text''] then
        Some (first_arg args (\<lambda>v. cbind (doc v) (\<lambda>j. cbind (path_args (drop 1 args)) (\<lambda>path.
          cret (json_to_value jo (json_at_path j path) (type_in norm [''json_extract_path_text'', ''jsonb_extract_path_text'']))))))
      else if type_in norm [''jsonb_set'', ''json_set''] then Some (call_jsonb_set ev args)
      else if type_in norm [''jsonb_contains'', ''json_contains''] then
        (case args of
           [a, b] \<Rightarrow> Some (cbind a (\<lambda>v. cbind (doc v) (\<lambda>x. cbind b (\<lambda>w. cbind (doc w) (\<lambda>y. cret (VBool (json_contains x y)))))))
         | _ \<Rightarrow> Some (cfail ''jsonb_contains() requires 2 arguments''))
      else if type_in norm [''jsonb_build_object'', ''json_build_object''] then
        Some (if odd (length args) then cfail ''requires an even number of arguments''
              else cbind (object_args so [] args) (\<lambda>m. cret (VText (jo_show jo (JObject m)))))
      else if type_in norm [''jsonb_build_array'', ''json_build_array''] then
        Some (cbind (all_args args) (\<lambda>vs. cret (VText (jo_show jo (JArray (map (value_to_json so) vs))))))
      else if type_in norm [''to_json'', ''to_jsonb''] then
        Some (first_arg args (\<lambda>v. cret (VText (jo_show jo (value_to_json so v)))))
      else None)"

subsection \<open>Function calls\<close>

definition constant_call :: "bytes \<Rightarrow> Value option" where
  "constant_call norm =
     map_of (map (\<lambda>(n, v). (ascii n, v))
       [(''version'', VText (ascii ''TPT Keystone 0.1.0 on Rust'')), (''now'', VText (ascii ''2026-06-30 00:00:00+00'')),
        (''current_timestamp'', VText (ascii ''2026-06-30 00:00:00+00'')), (''current_date'', VText (ascii ''2026-06-30'')),
        (''current_user'', VText (ascii ''postgres'')), (''user'', VText (ascii ''postgres'')),
        (''session_user'', VText (ascii ''postgres'')), (''current_database'', VText (ascii ''postgres'')),
        (''current_catalog'', VText (ascii ''postgres'')), (''current_schema'', VText (ascii ''public'')),
        (''current_schemas'', VText (ascii ''public'')), (''pg_backend_pid'', VInt 1),
        (''pg_postmaster_start_time'', VText (ascii ''2026-06-30 00:00:00+00'')), (''pg_get_userbyid'', VText (ascii ''tpt''))]) norm"

definition norm_name :: "std_ops \<Rightarrow> bytes \<Rightarrow> bytes" where
  "norm_name so name =
     (let raw = so_lower so name; pre = ascii ''pg_catalog.'' in if prefix pre raw then drop (length pre) raw else raw)"

definition need_db :: "RowContext \<Rightarrow> ('d, 'a) comp \<Rightarrow> ('d, 'a) comp" where
  "need_db cx c = (if rc_has_db cx then c else cfail ''requires a database context'')"

definition scalar_call :: "'d eval_env \<Rightarrow> RowContext \<Rightarrow> bytes \<Rightarrow> ('d, Value) comp list \<Rightarrow> ('d, Value) comp option" where
  "scalar_call ev cx norm args =
     (let so = ev_std ev in
      if norm = ascii ''pg_sleep'' then
        Some (case args of [] \<Rightarrow> cret VNull | c # _ \<Rightarrow> cbind c (\<lambda>v. cbind (clift (value_as_f64 v)) (\<lambda>_. cret VNull)))
      else if norm = ascii ''pg_get_expr'' then Some (first_arg args cret)
      else if norm = ascii ''nextval'' then
        Some (need_db cx (cbind (sequence_name args) (\<lambda>n. cbind (ev_nextval ev n) (\<lambda>r. cret (VInt r)))))
      else if norm = ascii ''currval'' then
        Some (need_db cx (cbind (sequence_name args) (\<lambda>n. cbind (ev_currval ev n) (\<lambda>r. cret (VInt r)))))
      else if norm = ascii ''setval'' then Some (need_db cx (call_setval ev args))
      else if type_in norm [''round'', ''floor'', ''ceil'', ''ceiling'', ''trunc'', ''sign''] then Some (call_round ev norm args)
      else if norm = ascii ''sqrt'' then Some (call_sqrt ev args)
      else if type_in norm [''power'', ''pow''] then
        (case args of
           [a, b] \<Rightarrow> Some (cbind a (\<lambda>v. cbind (clift (value_as_f64 v)) (\<lambda>x. cbind b (\<lambda>w. cbind (clift (value_as_f64 w)) (\<lambda>y.
             cret (VFloat (ev_math ev (ascii ''powf'') [x, y])))))))
         | _ \<Rightarrow> Some (cfail ''power() requires 2 arguments''))
      else if norm = ascii ''mod'' then Some (two_args args (\<lambda>v w. clift (call_mod ev v w)))
      else if norm = ascii ''abs'' then Some (first_arg args (\<lambda>v. clift (abs_value v)))
      else if norm = ascii ''upper'' then Some (first_arg args (\<lambda>v. clift (text_value (\<lambda>s. VText (so_upper so s)) v)))
      else if norm = ascii ''lower'' then Some (first_arg args (\<lambda>v. clift (text_value (\<lambda>s. VText (so_lower so s)) v)))
      else if type_in norm [''length'', ''char_length'', ''character_length''] then
        Some (first_arg args (\<lambda>v. clift (text_value (\<lambda>s. VInt (word_of_nat (length (utf8_chars s)))) v)))
      else if norm = ascii ''coalesce'' then Some (coalesce args)
      else if norm = ascii ''nullif'' then
        Some (two_args args (\<lambda>v w. cret (if compares_equal so v w then VNull else v)))
      else if norm = ascii ''greatest'' then Some (extreme so (\<lambda>c. c > 0) None args)
      else if norm = ascii ''least'' then Some (extreme so (\<lambda>c. c < 0) None args)
      else if norm = ascii ''time_bucket'' then
        (case args of
           [a, b] \<Rightarrow> Some (cbind a (\<lambda>v. cbind (clift (call_time_bucket v)) (\<lambda>i. cbind b (\<lambda>w. cbind (clift (timestamp_arg w)) (\<lambda>ts.
             cbind (clift (bucket i ts)) (\<lambda>n. cret (VInt n)))))))
         | _ \<Rightarrow> Some (cfail ''time_bucket() requires 2 arguments''))
      else None)"

definition eval_function :: "'d eval_env \<Rightarrow> RowContext \<Rightarrow> bytes \<Rightarrow> ('d, Value) comp list \<Rightarrow> ('d, Value) comp" where
  "eval_function ev cx name args =
     (let norm = norm_name (ev_std ev) name in
      case constant_call norm of
        Some v \<Rightarrow> cret v
      | None \<Rightarrow>
          (case scalar_call ev cx norm args of
             Some c \<Rightarrow> c
           | None \<Rightarrow> (case json_call ev norm args of Some c \<Rightarrow> c | None \<Rightarrow> ev_other ev cx norm args)))"

subsection \<open>Expressions\<close>

fun eval :: "'d eval_env \<Rightarrow> RowContext \<Rightarrow> Expr \<Rightarrow> ('d, Value) comp" where
  "eval ev cx (ELiteral l) = cret (literal_value l)"
| "eval ev cx (EIdent name) = clift (resolve_column (ev_std ev) cx None name)"
| "eval ev cx (EQualifiedIdent t c) = clift (resolve_column (ev_std ev) cx (Some t) c)"
| "eval ev cx (EParam n) = clift (param_value cx n)"
| "eval ev cx (EUnaryOp op e) = cbind (eval ev cx e) (\<lambda>v. clift (unary_value op v))"
| "eval ev cx (EBinaryOp op l r) =
     cbind (eval ev cx l) (\<lambda>v.
       if op = AndOp \<and> \<not> is_truthy v then cret (VBool False)
       else if op = OrOp \<and> is_truthy v then cret (VBool True)
       else cbind (eval ev cx r) (\<lambda>w.
         if op = AndOp \<or> op = OrOp then cret (VBool (is_truthy w)) else clift (binary_value ev op v w)))"
| "eval ev cx (EIsNull e g) = cbind (eval ev cx e) (\<lambda>v. cret (VBool ((v = VNull) \<noteq> g)))"
| "eval ev cx (EIsTrue e g) = cbind (eval ev cx e) (\<lambda>v. cret (VBool ((v = VBool True) \<noteq> g)))"
| "eval ev cx (EIsFalse e g) = cbind (eval ev cx e) (\<lambda>v. cret (VBool ((v = VBool False) \<noteq> g)))"
| "eval ev cx (EBetween e lo hi g) =
     cbind (eval ev cx e) (\<lambda>v. cbind (eval ev cx lo) (\<lambda>l. cbind (eval ev cx hi) (\<lambda>h.
       clift (between_value (ev_std ev) g v l h))))"
| "eval ev cx (ELike e p g) = cbind (eval ev cx e) (\<lambda>v. cbind (eval ev cx p) (\<lambda>w. clift (like_value g v w)))"
| "eval ev cx (EIn e l g) =
     cbind (eval ev cx e) (\<lambda>v. cbind
       (case l of
          InExprs items \<Rightarrow> any_equal (ev_std ev) v (map (eval ev cx) items)
        | InSubquery q \<Rightarrow> cbind (run_subquery_rows ev cx q) (\<lambda>rows. cret (list_ex (row_equal (ev_std ev) v) rows)))
       (\<lambda>found. cret (VBool (found \<noteq> g))))"
| "eval ev cx (EExists q g) = cbind (run_subquery_rows ev cx q) (\<lambda>rows. cret (VBool ((rows \<noteq> []) \<noteq> g)))"
| "eval ev cx (ECast e ty) = cbind (eval ev cx e) (\<lambda>v. clift (cast_value (ev_std ev) v ty))"
| "eval ev cx (EFunction name args d) =
     (case rc_computed cx (EFunction name args d) of
        Some v \<Rightarrow> cret v
      | None \<Rightarrow>
          if is_aggregate_name (ev_std ev) name then cfail ''aggregate function is not allowed in this context''
          else eval_function ev cx name (map (eval ev cx) args))"
| "eval ev cx (ECase operand branches els) =
     (let rest = (\<lambda>base. eval_case (ev_std ev) base (map (\<lambda>(c, r). (eval ev cx c, eval ev cx r)) branches)
            (case els of Some e \<Rightarrow> eval ev cx e | None \<Rightarrow> cret VNull))
      in case operand of Some e \<Rightarrow> cbind (eval ev cx e) (\<lambda>b. rest (Some b)) | None \<Rightarrow> rest None)"
| "eval ev cx (ESubquery q) =
     cbind (run_subquery_rows ev cx q) (\<lambda>rows.
       cret (case rows of (c # _) # _ \<Rightarrow> from_bytes (ev_std ev) c | _ \<Rightarrow> VNull))"
| "eval ev cx (EWindow func args p ob frame) =
     (case rc_computed cx (EWindow func args p ob frame) of
        Some v \<Rightarrow> cret v
      | None \<Rightarrow> eval_function ev cx func (map (eval ev cx) args))"

subsection \<open>Aggregates\<close>

text \<open>What the debug format tells apart: every value but the payload of a NaN.\<close>

definition debug_f64 :: "u64 \<Rightarrow> u64 option" where
  "debug_f64 f = (if is_nan f then None else Some f)"

definition same_debug :: "Value \<Rightarrow> Value \<Rightarrow> bool" where
  "same_debug v w \<longleftrightarrow>
     (case (v, w) of
        (VFloat f, VFloat g) \<Rightarrow> debug_f64 f = debug_f64 g
      | (VFloatArray a, VFloatArray b) \<Rightarrow> map debug_f64 a = map debug_f64 b
      | _ \<Rightarrow> v = w)"

definition row_context :: "bool \<Rightarrow> TableSchema option \<Rightarrow> cell list \<Rightarrow> RowContext" where
  "row_context has_db schema row =
     \<lparr>rc_values = row, rc_schema = schema, rc_has_db = has_db, rc_outer = [], rc_params = [], rc_computed = (\<lambda>_. None),
      rc_scopes = []\<rparr>"

fun aggregate_values :: "'d eval_env \<Rightarrow> (cell list \<Rightarrow> RowContext) \<Rightarrow> Expr \<Rightarrow> bool \<Rightarrow> Value list \<Rightarrow> cell list list \<Rightarrow> ('d, Value list) comp" where
  "aggregate_values ev ctx_for arg dist seen [] = cret []"
| "aggregate_values ev ctx_for arg dist seen (row # rows) =
     cbind (eval ev (ctx_for row) arg) (\<lambda>v.
       if v = VNull \<or> dist \<and> list_ex (same_debug v) seen then aggregate_values ev ctx_for arg dist seen rows
       else cbind (aggregate_values ev ctx_for arg dist (if dist then seen @ [v] else seen) rows) (\<lambda>vs. cret (v # vs)))"

fun sum_values :: "std_ops \<Rightarrow> bool \<Rightarrow> i64 \<Rightarrow> u64 \<Rightarrow> Value list \<Rightarrow> (eval_error, Value) result" where
  "sum_values so is_float int_sum float_sum [] = Ok (if is_float then VFloat float_sum else VInt int_sum)"
| "sum_values so is_float int_sum float_sum (v # vs) =
     (case v of
        VInt n \<Rightarrow> sum_values so is_float (int_sum + n) (so_add so float_sum (f64_of_i64 n)) vs
      | VFloat f \<Rightarrow> sum_values so True int_sum (so_add so float_sum f) vs
      | _ \<Rightarrow> Err (EvalError ''sum() requires numeric argument''))"

fun total_values :: "std_ops \<Rightarrow> u64 \<Rightarrow> Value list \<Rightarrow> (eval_error, u64) result" where
  "total_values so acc [] = Ok acc"
| "total_values so acc (v # vs) =
     (case v of
        VInt n \<Rightarrow> total_values so (so_add so acc (f64_of_i64 n)) vs
      | VFloat f \<Rightarrow> total_values so (so_add so acc f) vs
      | _ \<Rightarrow> Err (EvalError ''avg() requires numeric argument''))"

definition extreme_value :: "std_ops \<Rightarrow> (int \<Rightarrow> bool) \<Rightarrow> Value list \<Rightarrow> Value" where
  "extreme_value so pred vs = (case foldl (better so pred) None vs of Some v \<Rightarrow> v | None \<Rightarrow> VNull)"

definition reduce_values :: "std_ops \<Rightarrow> bytes \<Rightarrow> Value list \<Rightarrow> (eval_error, Value) result" where
  "reduce_values so name vs =
     (if name = ascii ''sum'' then (if vs = [] then Ok VNull else sum_values so False 0 0 vs)
      else if name = ascii ''avg'' then
        (if vs = [] then Ok VNull
         else and_then (total_values so 0 vs) (\<lambda>t. Ok (VFloat (so_div so t (f64_of_i64 (word_of_nat (length vs)))))))
      else if name = ascii ''min'' then Ok (extreme_value so (\<lambda>c. c < 0) vs)
      else if name = ascii ''max'' then Ok (extreme_value so (\<lambda>c. c > 0) vs)
      else Err (EvalError ''unknown aggregate function''))"

definition eval_aggregate ::
  "'d eval_env \<Rightarrow> bytes \<Rightarrow> Expr option \<Rightarrow> bool \<Rightarrow> cell list list \<Rightarrow> TableSchema option \<Rightarrow> bool \<Rightarrow> ('d, Value) comp" where
  "eval_aggregate ev name arg dist rows schema has_db =
     (let nm = so_lower (ev_std ev) name; ctx_for = row_context has_db schema in
      if nm = ascii ''count'' then
        (case arg of
           None \<Rightarrow> cret (VInt (word_of_nat (length rows)))
         | Some e \<Rightarrow>
             if e = EIdent [42] then cret (VInt (word_of_nat (length rows)))
             else cbind (aggregate_values ev ctx_for e dist [] rows) (\<lambda>vs. cret (VInt (word_of_nat (length vs)))))
      else
        (case arg of
           None \<Rightarrow> cfail ''requires an argument''
         | Some e \<Rightarrow> cbind (aggregate_values ev ctx_for e dist [] rows) (\<lambda>vs. clift (reduce_values (ev_std ev) nm vs))))"

end
