(* ===== verification/EvalProps.thy ===== *)
theory EvalProps
  imports Eval
begin

text \<open>
  What the evaluator computes: pattern matching against its specification, exact integer arithmetic, and
  what a stored text, a comparison with NULL and a JSON path become.
\<close>

subsection \<open>LIKE\<close>

text \<open>A pattern character stands for itself, \<open>_\<close> for one character and \<open>%\<close> for any text.\<close>

inductive likes :: "bytes list \<Rightarrow> bytes list \<Rightarrow> bool" where
  likes_end: "likes [] []"
| likes_char: "likes p s \<Longrightarrow> c \<noteq> [37] \<Longrightarrow> likes (c # p) (c # s)"
| likes_any_char: "likes p s \<Longrightarrow> likes ([95] # p) (c # s)"
| likes_any_text: "likes p s \<Longrightarrow> likes ([37] # p) (t @ s)"

inductive_cases likes_NilE: "likes [] s"
inductive_cases likes_ConsE: "likes (c # p) s"

lemma likes_text_iff: "likes ([37] # p) s \<longleftrightarrow> (\<exists>k \<le> length s. likes p (drop k s))"
proof
  assume "likes ([37] # p) s"
  then show "\<exists>k \<le> length s. likes p (drop k s)"
  proof (rule likes_ConsE)
    fix s' t assume "s = t @ s'" "likes p s'"
    then show ?thesis by (intro exI [of _ "length t"]) simp
  qed auto
next
  assume "\<exists>k \<le> length s. likes p (drop k s)"
  then obtain k where "likes p (drop k s)" by blast
  then show "likes ([37] # p) s" using likes_any_text [of p "drop k s" "take k s"] by simp
qed

lemma likes_char_iff:
  "c \<noteq> [37] \<Longrightarrow> likes (c # p) s \<longleftrightarrow> (\<exists>d s'. s = d # s' \<and> (c = [95] \<or> d = c) \<and> likes p s')"
  by (auto elim: likes_ConsE intro: likes.intros)

lemma like_recursive_likes:
  "si \<le> length s \<Longrightarrow> like_recursive s p si pi = likes (drop pi p) (drop si s)"
proof (induction s p si pi rule: like_recursive.induct)
  case (1 s p si pi)
  show ?case
  proof (cases "length p \<le> pi")
    case True
    then show ?thesis using "1.prems"
      by (subst like_recursive.simps) (auto intro: likes_end elim: likes_NilE)
  next
    case False
    then have p: "drop pi p = p ! pi # drop (Suc pi) p" by (simp add: Cons_nth_drop_Suc)
    show ?thesis
    proof (cases "p ! pi = [37]")
      case True
      have ih: "like_recursive s p i (Suc pi) = likes (drop (Suc pi) p) (drop i s)" if "i \<in> set [si..<Suc (length s)]" for i
        using "1.IH"(1) [OF False True that] that by auto
      have "like_recursive s p si pi = (\<exists>i \<in> set [si..<Suc (length s)]. like_recursive s p i (Suc pi))"
        using False True by (subst like_recursive.simps) (simp only: list_ex_iff if_False if_True refl)
      also have "\<dots> = (\<exists>i \<in> set [si..<Suc (length s)]. likes (drop (Suc pi) p) (drop i s))"
        using ih by (rule bex_cong [OF refl])
      also have "\<dots> = (\<exists>i. si \<le> i \<and> i \<le> length s \<and> likes (drop (Suc pi) p) (drop i s))"
        by (auto simp: less_Suc_eq_le Bex_def)
      also have "\<dots> = (\<exists>k \<le> length (drop si s). likes (drop (Suc pi) p) (drop k (drop si s)))" (is "?l = ?r")
      proof
        assume ?l
        then obtain i where "si \<le> i" "i \<le> length s" "likes (drop (Suc pi) p) (drop i s)" by blast
        then show ?r by (intro exI [of _ "i - si"]) simp
      next
        assume ?r
        then obtain k where "k \<le> length (drop si s)" "likes (drop (Suc pi) p) (drop k (drop si s))" by blast
        then show ?l using "1.prems" by (intro exI [of _ "si + k"]) (simp add: add.commute)
      qed
      finally show ?thesis using True p likes_text_iff by simp
    next
      case c: False
      show ?thesis
      proof (cases "si < length s")
        case True
        then have s: "drop si s = s ! si # drop (Suc si) s" by (simp add: Cons_nth_drop_Suc)
        show ?thesis using "1.IH"(2) [OF False c] True False c
          by (subst like_recursive.simps) (auto simp: p s likes_char_iff)
      next
        case f: False
        then show ?thesis using False c "1.prems" by (subst like_recursive.simps) (auto simp: p likes_char_iff)
      qed
    qed
  qed
qed

text \<open>
  C11: LIKE decides exactly the specification: a text matches when it can be divided along the
  pattern, character by character of its UTF-8 encoding.
\<close>

theorem like_match_iff_likes: "like_match s pattern \<longleftrightarrow> likes (utf8_chars pattern) (utf8_chars s)"
  unfolding like_match_def by (simp add: like_recursive_likes)

subsection \<open>Integer arithmetic\<close>

fun exact :: "BinOp \<Rightarrow> int \<Rightarrow> int \<Rightarrow> int" where
  "exact Add a b = a + b"
| "exact Sub a b = a - b"
| "exact Mul a b = a * b"
| "exact Div a b = int_div a b"
| "exact Mod a b = a - b * int_div a b"
| "exact _ a b = 0"

lemma sint_in_i64: "in_i64 (sint (a :: i64))"
  using sint_greater_eq [of a] sint_lt [of a] by (simp add: in_i64_def)

lemma sint_of_i64: "in_i64 n \<Longrightarrow> sint (word_of_int n :: i64) = n"
  by (simp add: in_i64_def sint_sbintrunc' signed_take_bit_int_eq_self)

lemma sint_exact:
  fixes a b :: i64
  shows "in_i64 (sint a + sint b) \<Longrightarrow> sint (a + b) = sint a + sint b"
    and "in_i64 (sint a - sint b) \<Longrightarrow> sint (a - b) = sint a - sint b"
    and "in_i64 (sint a * sint b) \<Longrightarrow> sint (a * b) = sint a * sint b"
  using sint_of_i64 [of "sint a + sint b"] sint_of_i64 [of "sint a - sint b"] sint_of_i64 [of "sint a * sint b"] by simp_all

lemma int_div_bound:
  assumes a: "in_i64 a" and "b \<noteq> 0"
  shows "in_i64 (int_div a b) \<longleftrightarrow> \<not> (a = - (2 ^ 63) \<and> b = - 1)"
proof -
  have m: "\<bar>a\<bar> \<le> 2 ^ 63" using a by (auto simp: in_i64_def)
  consider "b = 1" | "b = - 1" | "2 \<le> \<bar>b\<bar>" using assms(2) by linarith
  then show ?thesis
  proof cases
    case 1
    then show ?thesis using a by (simp add: int_div_def mult_sgn_abs)
  next
    case 2
    then have "int_div a b = - a" by (simp add: int_div_def mult_sgn_abs)
    then show ?thesis using a 2 by (auto simp: in_i64_def)
  next
    case 3
    define q where "q = \<bar>a\<bar> div \<bar>b\<bar>"
    have "q \<le> \<bar>a\<bar> div 2" unfolding q_def using 3 by (intro zdiv_mono2) auto
    then have q: "0 \<le> q" "q < 2 ^ 63" using m 3 by (auto simp: q_def pos_imp_zdiv_nonneg_iff)
    have "int_div a b \<in> {q, - q, 0}" by (auto simp: int_div_def q_def sgn_if)
    then show ?thesis using q 3 by (auto simp: in_i64_def)
  qed
qed

lemma int_rem_bound:
  assumes "in_i64 b" and "b \<noteq> 0"
  shows "in_i64 (a - b * int_div a b)"
proof -
  define r where "r = \<bar>a\<bar> mod \<bar>b\<bar>"
  have "\<bar>b\<bar> * (\<bar>a\<bar> div \<bar>b\<bar>) = \<bar>a\<bar> - r" by (simp add: r_def minus_mod_eq_mult_div)
  moreover have "b * int_div a b = sgn a * (\<bar>b\<bar> * (\<bar>a\<bar> div \<bar>b\<bar>))"
    by (simp add: int_div_def abs_sgn [of b] ac_simps)
  ultimately have "a - b * int_div a b = a - sgn a * (\<bar>a\<bar> - r)" by simp
  also have "\<dots> = sgn a * r" by (simp add: right_diff_distrib mult_sgn_abs)
  finally have "a - b * int_div a b \<in> {r, - r, 0}" by (auto simp: sgn_if)
  moreover have "0 \<le> r" "r < \<bar>b\<bar>" using assms(2) by (simp_all add: r_def)
  ultimately show ?thesis using assms(1) by (auto simp: in_i64_def)
qed

text \<open>
  C23: Arithmetic on integers is exact or refused: a result is the mathematical one, truncated towards zero for a quotient,
  an error means that it does not fit or that the divisor is zero, and the thread
  panics on exactly one pair of operands of division and remainder, the least integer and minus one.
\<close>

theorem integer_arithmetic_exact:
  assumes "op \<in> {Add, Sub, Mul, Div, Mod}"
  shows "case eval_arithmetic so (VInt a) (VInt b) op of
      Inr v \<Rightarrow> (\<exists>n. v = VInt n \<and> sint n = exact op (sint a) (sint b)) \<and>
        (op \<in> {Div, Mod} \<longrightarrow> sint b \<noteq> 0 \<and> \<not> (sint a = - (2 ^ 63) \<and> sint b = - 1))
    | Inl Panicked \<Rightarrow> op \<in> {Div, Mod} \<and> sint a = - (2 ^ 63) \<and> sint b = - 1
    | Inl (EvalError _) \<Rightarrow> op \<in> {Div, Mod} \<and> sint b = 0 \<or> op \<in> {Add, Sub, Mul} \<and> \<not> in_i64 (exact op (sint a) (sint b))"
proof -
  have b: "sint b = 0 \<longleftrightarrow> b = 0" by (metis signed_0 signed_word_eqI)
  have d: "in_i64 (int_div (sint a) (sint b)) \<longleftrightarrow> \<not> (sint a = - (2 ^ 63) \<and> sint b = - 1)" if "b \<noteq> 0"
    using int_div_bound [OF sint_in_i64] that b by simp
  have r: "in_i64 (sint a - sint b * int_div (sint a) (sint b))" if "b \<noteq> 0"
    using int_rem_bound [OF sint_in_i64] that b by simp
  have m: "sint (a - b * word_of_int (int_div (sint a) (sint b))) = sint a - sint b * int_div (sint a) (sint b)" if "b \<noteq> 0"
    using sint_of_i64 [OF r [OF that]] by simp
  from assms consider "op = Add" | "op = Sub" | "op = Mul" | "op = Div" | "op = Mod" by blast
  then show ?thesis
  proof cases
    case 4
    then show ?thesis using b d sint_of_i64
      by (auto simp: eval_arithmetic_def int_arithmetic_def i64_div_def)
  next
    case 5
    then show ?thesis using b d r m sint_of_i64
      by (auto simp: eval_arithmetic_def int_arithmetic_def i64_rem_def)
  qed (simp_all add: eval_arithmetic_def int_arithmetic_def checked_def sint_exact)
qed

theorem integer_arithmetic_exact_witness:
  "\<forall>so. eval_arithmetic so (VInt 7) (VInt (- 2)) Div = Ok (VInt (- 3)) \<and> exact Div (sint (7 :: i64)) (sint (- 2 :: i64)) = - 3"
proof
  fix so
  have e: "exact Div (sint (7 :: i64)) (sint (- 2 :: i64)) = - 3" by (simp add: int_div_def)
  have "\<exists>n. eval_arithmetic so (VInt 7) (VInt (- 2)) Div = Ok (VInt n) \<and> sint n = sint (- 3 :: i64)"
    using integer_arithmetic_exact [where op = Div and so = so and a = 7 and b = "- 2"] e by (auto split: sum.splits eval_error.splits)
  then show "eval_arithmetic so (VInt 7) (VInt (- 2)) Div = Ok (VInt (- 3)) \<and> exact Div (sint (7 :: i64)) (sint (- 2 :: i64)) = - 3"
    using e signed_word_eqI by metis
qed

subsection \<open>Comparisons with NULL\<close>

text \<open>
  A comparison with NULL is false instead of unknown, and so its negation is true: a row whose column is NULL
  passes the filter \<open>NOT (column = x)\<close>, whatever the operator and the other operand.
\<close>

lemma negated_null_comparison_true:
  assumes "eval ev cx l d = (Ok v, d')" and "eval ev cx r d' = (Ok w, d'')" and "v = VNull \<or> w = VNull"
    and "op \<in> {Eq, NotEq, Lt, Lte, Gt, Gte}"
  shows "eval ev cx (EBinaryOp op l r) d = (Ok (VBool False), d'') \<and>
         eval ev cx (EUnaryOp NotOp (EBinaryOp op l r)) d = (Ok (VBool True), d'')"
proof -
  have "binary_value ev op v w = Ok (VBool False)" using assms(3,4) by (auto simp: binary_value_def compare_op_def)
  then have "eval ev cx (EBinaryOp op l r) d = (Ok (VBool False), d'')"
    using assms by (auto simp: cbind_def clift_def)
  then show ?thesis by (simp add: cbind_def clift_def unary_value_def)
qed

definition no_env :: "unit eval_env" where
  "no_env =
     \<lparr>ev_std = \<lparr>so_parse_f64 = (\<lambda>_. None), so_show_f64 = (\<lambda>_. []), so_add = (+), so_sub = (-), so_mul = (*), so_div = (\<lambda>a b. a),
        so_rem = (\<lambda>a b. b), so_lower = id, so_upper = id, so_hex = id\<rparr>,
      ev_json = \<lparr>jo_parse = (\<lambda>_. None), jo_show = (\<lambda>_. [])\<rparr>, ev_regex = (\<lambda>_ _ _. None),
      ev_subquery = (\<lambda>_ _ _. cret []), ev_nextval = (\<lambda>_. cret 0), ev_currval = (\<lambda>_. cret 0), ev_setval = (\<lambda>_ _ _. cret 0),
      ev_math = (\<lambda>_ _. 0), ev_other = (\<lambda>_ _ _. cret VNull)\<rparr>"

subsection \<open>Cells\<close>

lemma unat_digit: "d < 10 \<Longrightarrow> unat (word_of_nat (48 + d) :: u8) = 48 + d"
  by (simp only: unat_of_nat) simp

lemma is_digit_unat: "is_digit b \<longleftrightarrow> 48 \<le> unat b \<and> unat b \<le> 57"
  by (simp add: is_digit_def word_le_nat_alt)

lemma is_digit_of_nat: "d < 10 \<Longrightarrow> is_digit (word_of_nat (48 + d))"
  using unat_digit [of d] by (simp add: is_digit_unat del: of_nat_add)

lemma dec_digits_nonempty: "dec_digits n \<noteq> []"
  by (subst dec_digits.simps) simp

lemma dec_digits_all: "list_all is_digit (dec_digits n)"
proof (induction n rule: dec_digits.induct)
  case (1 n)
  then show ?case using is_digit_of_nat [of n] is_digit_of_nat [of "n mod 10"]
    by (subst dec_digits.simps) (simp del: of_nat_add)
qed

lemma dec_digits_value: "digits_value (dec_digits n) = n"
proof (induction n rule: dec_digits.induct)
  case (1 n)
  then show ?case using unat_digit [of n] unat_digit [of "n mod 10"]
    by (subst dec_digits.simps) (simp add: digits_value_def del: of_nat_add)
qed

lemma parse_dec_digits: "parse_digits (dec_digits n) = Some n"
  by (simp add: parse_digits_def dec_digits_nonempty dec_digits_all dec_digits_value)

lemma parse_int_to_string: "in_i64 n \<Longrightarrow> parse_i64 (int_to_string n) = Some n"
proof -
  assume n: "in_i64 n"
  obtain b bs where d: "dec_digits (nat n) = b # bs" using dec_digits_nonempty by (cases "dec_digits (nat n)") auto
  then have "is_digit b" using dec_digits_all [of "nat n"] by simp
  then have "b \<noteq> 45" "b \<noteq> 43" by (auto simp: is_digit_unat)
  moreover have "parse_digits (b # bs) = Some (nat n)" using parse_dec_digits [of "nat n"] d by simp
  ultimately show ?thesis using n by (auto simp: int_to_string_def parse_i64_def d parse_dec_digits in_i64_def)
qed

lemma int_to_string_utf8: "valid_utf8 (int_to_string n)"
proof -
  have "unat b < 128" if "b \<in> set (dec_digits m)" for b m
    using dec_digits_all [of m] that by (auto simp: list_all_iff is_digit_unat)
  then show ?thesis by (intro valid_utf8_ascii) (auto simp: int_to_string_def split: if_splits)
qed

text \<open>
  C12: An integer, a boolean and NULL survive being stored in a row, and a text does exactly when it does not read as a number and
  is not the one letter of a boolean: the type of a cell is not stored but guessed when it is read.
\<close>

theorem stored_value_survives:
  assumes "so_parse_f64 so [116] = None" and "so_parse_f64 so [102] = None"
  shows "(\<forall>v. (case v of VInt _ \<Rightarrow> True | VBool _ \<Rightarrow> True | VNull \<Rightarrow> True | _ \<Rightarrow> False) \<longrightarrow> from_bytes so (to_wire_bytes so v) = v) \<and>
     (\<forall>s. valid_utf8 s \<longrightarrow>
        (from_bytes so (to_wire_bytes so (VText s)) = VText s \<longleftrightarrow>
         parse_i64 s = None \<and> so_parse_f64 so s = None \<and> s \<notin> {[116], [102]}))"
proof -
  have "parse_i64 [116] = None" "parse_i64 [102] = None" "valid_utf8 [116]" "valid_utf8 [102]"
    by (simp_all add: parse_i64_def parse_digits_def is_digit_def valid_utf8_ascii)
  then have "from_bytes so (to_wire_bytes so (VBool b)) = VBool b" for b using assms by (cases b) (simp_all add: from_bytes_def)
  moreover have "from_bytes so (to_wire_bytes so (VInt n)) = VInt n" for n
    by (simp add: from_bytes_def int_to_string_utf8 parse_int_to_string sint_in_i64)
  ultimately show ?thesis by (auto simp: from_bytes_def split: Value.splits option.splits)
qed

theorem stored_value_survives_witness:
  "from_bytes (ev_std no_env) (to_wire_bytes (ev_std no_env) (VInt (- 42))) = VInt (- 42) \<and>
   from_bytes (ev_std no_env) (to_wire_bytes (ev_std no_env) (VText [97])) = VText [97] \<and>
   from_bytes (ev_std no_env) (to_wire_bytes (ev_std no_env) (VText [48, 48, 55])) \<noteq> VText [48, 48, 55]"
proof -
  have n: "so_parse_f64 (ev_std no_env) = (\<lambda>_. None)" by (simp add: no_env_def)
  have u: "valid_utf8 [97]" "valid_utf8 [48, 48, 55]" by (simp_all add: valid_utf8_ascii)
  have p: "parse_i64 [97] = None" "parse_i64 [48, 48, 55] = Some 7"
    by (simp_all add: parse_i64_def parse_digits_def is_digit_def digits_value_def)
  note t = stored_value_survives [of "ev_std no_env", unfolded n, OF refl refl]
  have "from_bytes (ev_std no_env) (to_wire_bytes (ev_std no_env) (VInt (- 42))) = VInt (- 42)"
    using conjunct1 [OF t, rule_format, of "VInt (- 42)"] by simp
  moreover note conjunct2 [OF t, rule_format, OF u(1)] conjunct2 [OF t, rule_format, OF u(2)]
  ultimately show ?thesis using p by simp
qed

subsection \<open>JSON paths\<close>

text \<open>A path that ends at an existing place, or at a new key or the next element.\<close>

fun path_fits :: "json \<Rightarrow> bytes list \<Rightarrow> bool" where
  "path_fits doc [] = True"
| "path_fits doc (seg # rest) =
     (case doc of
        JObject m \<Rightarrow> (case map_of m seg of Some sub \<Rightarrow> path_fits sub rest | None \<Rightarrow> path_fits (JObject []) rest)
      | JArray a \<Rightarrow>
          (case parse_usize seg of
             Some i \<Rightarrow> i < length a \<and> path_fits (a ! i) rest \<or> i = length a \<and> rest = []
           | None \<Rightarrow> False)
      | _ \<Rightarrow> False)"

lemma json_at_path_Cons:
  "json_at_path j (seg # rest) = json_at_path (case json_child j seg of Some c \<Rightarrow> c | None \<Rightarrow> JNull) rest"
  by (simp add: json_at_path_def)

lemma json_set_get: "path_fits doc path \<Longrightarrow> json_at_path (json_set_path doc path new True) path = new"
proof (induction path arbitrary: doc)
  case Nil
  then show ?case by (simp add: json_at_path_def)
next
  case (Cons seg rest)
  have nil: "json_at_path x [] = x" for x by (simp add: json_at_path_def)
  show ?case
  proof (cases doc)
    case (JObject m)
    then show ?thesis using Cons.prems Cons.IH
      by (cases "rest = []"; cases "map_of m seg") (simp_all add: json_at_path_Cons json_child_def nil)
  next
    case (JArray a)
    then obtain i where i: "parse_usize seg = Some i" "i < length a \<and> path_fits (a ! i) rest \<or> i = length a \<and> rest = []"
      using Cons.prems by (auto split: option.splits)
    then show ?thesis using JArray Cons.IH
      by (cases "rest = []") (auto simp: json_at_path_Cons json_child_def nth_opt_def nil)
  qed (use Cons.prems in auto)
qed



end
