(* ===== verification/Spec2Isabelle.thy ===== *)
theory Spec2Isabelle
  imports TxnProps GrpcProps HpackHuffman FluxQueue AccessProps ParserProps EvalProps
begin

text \<open>
  Verification of the Keystone database, the Rust crate src/tpt-keystone.  File names below are
  relative to its src directory.

  \<^bold>\<open>The program.\<close>  Keystone keeps rows in a log-structured storage engine: a write goes to a
  write-ahead log and an in-memory table, full tables are flushed to sorted string tables in an object
  store, and a compaction merges those.  A manifest names the live tables and a lease with a fencing
  token keeps a second writer out.  Above the engine stands the database with its tables, snapshot
  transactions, event topics and catalogs.  SQL text reaches it through a lexer, a parser, an
  authorization check and an evaluator; topics are also served by a gRPC endpoint with its own
  HTTP/2, HPACK and protocol-buffer code.

  \<^bold>\<open>Conventions.\<close>  Machine integers are words, byte vectors are lists of 8-bit words, a string is
  the bytes of its UTF-8 encoding and a double is its 64 bits.  Fallible code returns a result, with
  \<open>Inl\<close> for the error (abbreviations \<open>Err\<close> and \<open>Ok\<close>); stateful code takes and returns its state.  A \<open>BTreeMap\<close> is a
  sorted association list.  Code outside the sources (file systems, hash functions, bincode, serde,
  regular expressions, rounded arithmetic) is an argument, gathered in records of operations, and what
  is relied on is a hypothesis of the theorem.  Integer operations that the release profile wraps are wrapped.

  \<^bold>\<open>Shared vocabulary.\<close>
  \<^item> Prelude: words, results, slices, big-endian integers.  Utf8: \<open>from_utf8\<close> and its lossy variant.
  \<^item> Bits: shifts and variable-length integers, with the contract \<open>field_codec\<close> of a codec.
  \<^item> OrdMap: ordered maps, with the contract \<open>ordered_map\<close> they provide.

  \<^bold>\<open>Storage engine.\<close>
  \<^item> InternalKey (storage/internal_key.rs), MemTable and the first half of storage/lsm.rs, Wal
    (storage/wal.rs, storage/io_backend.rs), SSTable (storage/sstable.rs), ObjectStore
    (storage/objectstore.rs), Manifest (storage/manifest.rs), Lease (storage/lease.rs).
  \<^item> Lsm and Compaction: storage/lsm.rs, the engine's record and operations, flush, recovery and the
    two kinds of compaction.  LsmReads, LsmMerge, LsmSteps: reads against the list of all versions, the
    merge, and runs of the engine as a step relation with its invariant.  LsmProps: open snapshots see
    the same values whatever happens later, a full compaction changes no read, a batch becomes
    visible as a whole, scans agree with reads, and an interleaving of flush and compaction that loses data.
  \<^item> Wal also shows that a replay yields whole batches and that an append after a torn write is lost;
    Lease that no fencing token is handed out twice; SSTable that a built table reads back.
  \<^item> Compress (storage/compress.rs): the time-series codecs are inverse to each other.

  \<^bold>\<open>Database.\<close>
  \<^item> Schema, Cells, Database (storage/mod.rs, storage/database/mod.rs, storage_engine.rs, txn.rs),
    Catalog (catalog.rs).  DatabaseSteps and TxnSim: every run of sessions is a run of a specification in
    which a transaction is a copy of the rows; TxnProps states it, and the lost update that the
    specification allows.
  \<^item> Flux, FluxRuns, FluxProps (storage/flux.rs): a topic is determined by its files and its offsets
    are consecutive, whatever writes fail.  DatabaseFlux and FluxQueue (storage/database/flux.rs,
    synapse/coordination.rs, mirror/trace.rs, mirror/replay.rs): a task queue refines a list.
  \<^item> Jsonb (storage/jsonb.rs): documents round trip and every byte vector is decoded or refused.

  \<^bold>\<open>Access control.\<close>
  \<^item> Engine and RowStore: the \<open>StorageEngine\<close> interface and the contract \<open>row_store\<close>, interpreted on the database.
  \<^item> Scram, Roles, RoleMembers, Privileges (wire/), AccessTypes, Rbac (executor/rbac.rs,
    wire/bridge_auth.rs).  AccessRows, AccessRuns, AccessProps: the catalogs refine a graph of
    memberships and a relation of grants, memberships stay acyclic, the check of a statement decides what
    it should, and the tables it does not look at.

  \<^bold>\<open>SQL.\<close>
  \<^item> Ast, Lexer, Parsing, ExprParser, StmtParser (sql/ast.rs, sql/lexer.rs, sql/parser.rs): all of the front end.
    PrintExpr and ParserProps: an expression written with the fewest parentheses is read back, every
    statement but one kind is parsed within a bound, and an unclosed CREATE TABLE is never left.
  \<^item> Values, JsonOps, Eval (executor/eval.rs): values, operators, functions and aggregates.  EvalProps: LIKE
    against its specification, integer arithmetic exact or refused, which cells keep their value, and
    JSON paths.

  \<^bold>\<open>gRPC endpoint.\<close>
  \<^item> Http2, Hpack, HpackHuffman, Proto, Grpc (wire/grpc/).  GrpcProps: the peer's windows are
    respected, a subscription delivers every record once and in order, a call answers with what the
    database returned and a call without permission has no effect.  The contract \<open>conn_effect\<close> is
    interpreted for each of the quantities that a connection conserves.

  \<^bold>\<open>Bounds and fuel.\<close>  The binary JSON decoder recurses at most twice per byte and gets
  \<open>2 * length + 1\<close>.  The expression parser gets a depth of one more than the number of tokens, and ParserProps
  shows that a larger one changes nothing; loops of the parser get the same number of rounds,
  each of which reads a token.  The constraint loop of CREATE TABLE does not always end and keeps its fuel as an explicit
  argument, so that not ending is the absence of a result for every fuel.  All other functions are total.

  \<^bold>\<open>Not modelled.\<close>
  \<^item> Statement execution, the planner and the system catalogs (executor/): a subquery is an argument of the evaluator.
  \<^item> Geometry, vector search, graph algorithms and their indexes: rounded floating point, random choices, and GPU kernels.
  \<^item> The PostgreSQL session, HTTP, WebSocket and MCP servers, TLS, io_uring and the S3 client: loops over
    sockets and remote services.  Of their logic the authentication and the authorization are modelled.
  \<^item> The catalog, spatial, vector and WebAssembly functions of the evaluator, and regular expressions.
  \<^item> Metrics, audit records, agents and their memory, configuration and start-up.
  \<^item> The other crates: command-line client, SDK, migration tool, dashboard and Kubernetes operator.
\<close>

end
